(* ===== verification/Netmap_Prelude.thy ===== *)
theory Netmap_Prelude
  imports Main "HOL-Library.Word" "HOL-Library.AList"
begin

text \<open>
  Shared vocabulary of the development: the types every component uses for Go's
  strings, byte slices, UUIDs, instants and errors, the collections of rewrite rules
  the component proofs draw on, and generic facts about lists, options, association
  lists (Go maps) and results.

  A Go \<^verbatim>\<open>string\<close> is a byte sequence, and so is an Isabelle \<open>string\<close> (a list of
  8-bit characters).  A \<^verbatim>\<open>[]byte\<close> is a list of 8-bit words.  A \<^verbatim>\<open>uuid.UUID\<close> is
  16 bytes, that is, a 128-bit word.  \<^verbatim>\<open>time.Time\<close> and \<^verbatim>\<open>time.Duration\<close> are
  integers counting nanoseconds, the former from Go's zero instant, so that
  \<^verbatim>\<open>t.IsZero()\<close> is \<open>t = 0\<close>.  A Go map over which the code iterates is an association
  list with distinct keys.
\<close>

section \<open>Types\<close>

type_synonym byte = "8 word"
type_synonym bytes = "byte list"
type_synonym uuid = "128 word"
type_synonym time = int
type_synonym duration = int

text \<open>Durations of package \<^verbatim>\<open>time\<close>.\<close>

definition Nanosecond :: duration where "Nanosecond = 1"
definition Millisecond :: duration where "Millisecond = 1000000"
definition Second :: duration where "Second = 1000000000"
definition Minute :: duration where "Minute = 60 * Second"
definition Hour :: duration where "Hour = 60 * Minute"

text \<open>
  Error values.  The text of a message is kept where it is a constant of the source;
  interpolated arguments are not.  The sentinel errors the code compares with
  \<^verbatim>\<open>errors.Is\<close> have constructors of their own.
\<close>

datatype error =
    Err string
  | ErrNotFound
  | ErrNotSupported
  | ErrClosed
  | ErrNotConnected
  | ErrGRPCAddressUnknown
  | ErrConstraint string
  | ErrExternal string

type_synonym 'a result = "error + 'a"

abbreviation Ok :: "'a \<Rightarrow> 'a result" where "Ok x \<equiv> Inr x"
abbreviation Fail :: "error \<Rightarrow> 'a result" where "Fail e \<equiv> Inl e"

definition is_ok :: "'a result \<Rightarrow> bool" where
  "is_ok r \<longleftrightarrow> (case r of Inl _ \<Rightarrow> False | Inr _ \<Rightarrow> True)"

lemma is_ok_simps [simp]: "is_ok (Inr x)" "\<not> is_ok (Inl e)"
  by (simp_all add: is_ok_def)

lemma is_ok_iff: "is_ok r \<longleftrightarrow> (\<exists>x. r = Inr x)"
  by (cases r) auto

section \<open>Operations that may fail\<close>

text \<open>
  A Go method that changes state and returns an error: a function from the state to the
  new state and a result.  \<open>bindE\<close> is the sequencing with the early return
  \<^verbatim>\<open>if err != nil { return err }\<close>.
\<close>

type_synonym ('s, 'a) op = "'s \<Rightarrow> 's \<times> 'a result"

definition returnE :: "'a \<Rightarrow> ('s, 'a) op" where
  "returnE x s = (s, Ok x)"

definition throwE :: "error \<Rightarrow> ('s, 'a) op" where
  "throwE e s = (s, Fail e)"

definition bindE :: "('s, 'a) op \<Rightarrow> ('a \<Rightarrow> ('s, 'b) op) \<Rightarrow> ('s, 'b) op" where
  "bindE m k s = (case m s of (s', r) \<Rightarrow> (case r of Inl e \<Rightarrow> (s', Inl e) | Inr x \<Rightarrow> k x s'))"

definition getE :: "('s \<Rightarrow> 'a) \<Rightarrow> ('s, 'a) op" where
  "getE f s = (s, Ok (f s))"

lemma op_simps [simp]:
  "returnE x s = (s, Ok x)" "throwE e s = (s, Fail e)" "getE f s = (s, Ok (f s))"
  by (simp_all add: returnE_def throwE_def getE_def)

lemma bindE_cases:
  "bindE m k s = (s', r) \<longleftrightarrow>
     (\<exists>e. m s = (s', Inl e) \<and> r = Inl e) \<or> (\<exists>s1 x. m s = (s1, Inr x) \<and> k x s1 = (s', r))"
  by (auto simp: bindE_def split: prod.splits sum.splits)

lemma bindE_Ok: "m s = (s1, Inr x) \<Longrightarrow> bindE m k s = k x s1"
  by (simp add: bindE_def)

lemma bindE_Fail: "m s = (s1, Inl e) \<Longrightarrow> bindE m k s = (s1, Inl e)"
  by (simp add: bindE_def)

text \<open>\<^verbatim>\<open>for _, x := range xs\<close> with an early return, threading what the loop accumulates.\<close>

fun forE :: "('a \<Rightarrow> 'b \<Rightarrow> ('s, 'b) op) \<Rightarrow> 'a list \<Rightarrow> 'b \<Rightarrow> ('s, 'b) op" where
  "forE f [] b = returnE b"
| "forE f (x # xs) b = bindE (f x b) (forE f xs)"

text \<open>
  Triples: from a state satisfying \<open>P\<close> the operation either returns a value with \<open>Q\<close>, or
  fails with an error and a state satisfying \<open>E\<close>.  Operations are total functions, so a
  triple also says that the operation returns.
\<close>

definition triple ::
  "('s \<Rightarrow> bool) \<Rightarrow> ('s, 'a) op \<Rightarrow> ('a \<Rightarrow> 's \<Rightarrow> bool) \<Rightarrow> (error \<Rightarrow> 's \<Rightarrow> bool) \<Rightarrow> bool" where
  "triple P m Q E \<longleftrightarrow> (\<forall>s. P s \<longrightarrow> (case m s of (s', Inl e) \<Rightarrow> E e s' | (s', Inr x) \<Rightarrow> Q x s'))"

lemma tripleI: "(\<And>s s' r. P s \<Longrightarrow> m s = (s', r) \<Longrightarrow> (case r of Inl e \<Rightarrow> E e s' | Inr x \<Rightarrow> Q x s')) \<Longrightarrow> triple P m Q E"
  unfolding triple_def by (metis (no_types, lifting) case_prod_conv surj_pair)

lemma tripleD: "triple P m Q E \<Longrightarrow> P s \<Longrightarrow> m s = (s', r) \<Longrightarrow> (case r of Inl e \<Rightarrow> E e s' | Inr x \<Rightarrow> Q x s')"
  by (auto simp: triple_def split: sum.splits)

lemma triple_bind: "triple P m Q E \<Longrightarrow> (\<And>x. triple (Q x) (k x) R E) \<Longrightarrow> triple P (bindE m k) R E"
  unfolding triple_def bindE_def by (fastforce split: prod.splits sum.splits)

lemma triple_mono:
  "triple P m Q E \<Longrightarrow> (\<And>s. P' s \<Longrightarrow> P s) \<Longrightarrow> (\<And>x s. Q x s \<Longrightarrow> Q' x s) \<Longrightarrow> (\<And>e s. E e s \<Longrightarrow> E' e s) \<Longrightarrow>
   triple P' m Q' E'"
  unfolding triple_def by (fastforce split: prod.splits sum.splits)

lemma triple_return: "(\<And>s. P s \<Longrightarrow> Q x s) \<Longrightarrow> triple P (returnE x) Q E"
  by (simp add: triple_def)

lemma triple_throw: "(\<And>s. P s \<Longrightarrow> E e s) \<Longrightarrow> triple P (throwE e) Q E"
  by (simp add: triple_def)

lemma triple_forE:
  assumes "\<And>pre x post b. xs = pre @ x # post \<Longrightarrow> triple (I pre b) (f x b) (I (pre @ [x])) E"
  shows "triple (I [] b) (forE f xs b) (I xs) E"
proof -
  have "triple (I pre b) (forE f post b) (I xs) E" if "xs = pre @ post" for pre post b
    using that
  proof (induction post arbitrary: pre b)
    case (Cons x post)
    have "triple (I (pre @ [x]) b') (forE f post b') (I xs) E" for b' using Cons by simp
    then show ?case using assms [OF Cons.prems] by (auto intro: triple_bind)
  qed (simp add: triple_return)
  from this [of "[]" xs b] show ?thesis by simp
qed

text \<open>An operation that keeps a predicate whether or not it succeeds.\<close>

abbreviation keeps :: "('s \<Rightarrow> bool) \<Rightarrow> ('s, 'a) op \<Rightarrow> bool" where
  "keeps P m \<equiv> triple P m (\<lambda>_. P) (\<lambda>_. P)"

lemma keeps_bind: "keeps P m \<Longrightarrow> (\<And>x. keeps P (k x)) \<Longrightarrow> keeps P (bindE m k)"
  by (rule triple_bind)

lemma keeps_get: "keeps P (getE f)"
  by (simp add: triple_def)

lemma keeps_forE: "(\<And>x b. x \<in> set xs \<Longrightarrow> keeps P (f x b)) \<Longrightarrow> keeps P (forE f xs b)"
  by (rule triple_forE [where I = "\<lambda>_ _. P"]) auto

lemma keeps_if: "(b \<Longrightarrow> keeps P m) \<Longrightarrow> (\<not> b \<Longrightarrow> keeps P m') \<Longrightarrow> keeps P (if b then m else m')"
  by simp

lemma keeps_option: "(v = None \<Longrightarrow> keeps P m) \<Longrightarrow> (\<And>x. v = Some x \<Longrightarrow> keeps P (k x)) \<Longrightarrow>
  keeps P (case v of None \<Rightarrow> m | Some x \<Rightarrow> k x)"
  by (cases v) simp_all

lemma keeps_prod: "(\<And>x y. v = (x, y) \<Longrightarrow> keeps P (k x y)) \<Longrightarrow> keeps P (case v of (x, y) \<Rightarrow> k x y)"
  by (cases v) simp

lemma keeps_returnE: "keeps P (returnE x)"
  by (simp add: triple_def)

lemma keeps_throwE: "keeps P (throwE e)"
  by (simp add: triple_def)

lemmas keeps_rules = keeps_bind keeps_get keeps_returnE keeps_throwE keeps_if keeps_option keeps_prod

lemma keeps_fst: "keeps P m \<Longrightarrow> P s \<Longrightarrow> P (fst (m s))"
  by (cases "m s"; cases "snd (m s)") (auto dest: tripleD)

section \<open>Collections of rewrite rules\<close>

named_theorems duration_defs \<open>the numeric values of the durations\<close>
named_theorems go_string_defs \<open>definitions of the modelled string functions\<close>
named_theorems addr_defs \<open>definitions of the address predicates\<close>
named_theorems store_simps \<open>how store operations act on the projections of the state\<close>
named_theorems inv_intros \<open>operations that keep a component's invariant\<close>

lemmas [duration_defs] =
  Nanosecond_def Millisecond_def Second_def Minute_def Hour_def

section \<open>Lists\<close>

text \<open>Splitting off the part of a list before the first element satisfying a predicate.\<close>

lemma takeWhile_append_notin:
  "c \<notin> set xs \<Longrightarrow> takeWhile (\<lambda>x. x \<noteq> c) (xs @ c # ys) = xs"
  by (induction xs) auto

lemma dropWhile_append_notin:
  "c \<notin> set xs \<Longrightarrow> dropWhile (\<lambda>x. x \<noteq> c) (xs @ c # ys) = c # ys"
  by (induction xs) auto

lemma takeWhile_notin [simp]:
  "c \<notin> set xs \<Longrightarrow> takeWhile (\<lambda>x. x \<noteq> c) xs = xs"
  by (induction xs) auto

lemma dropWhile_notin [simp]:
  "c \<notin> set xs \<Longrightarrow> dropWhile (\<lambda>x. x \<noteq> c) xs = []"
  by (induction xs) auto

lemma filter_partition_length:
  "length (filter P xs) + length (filter (\<lambda>x. \<not> P x) xs) = length xs"
  by (induction xs) auto

lemma find_None_all: "List.find P xs = None \<longleftrightarrow> (\<forall>x\<in>set xs. \<not> P x)"
  by (induction xs) auto

lemma find_Some_set: "List.find P xs = Some x \<Longrightarrow> x \<in> set xs \<and> P x"
  by (induction xs) (auto split: if_splits)

section \<open>Association lists as Go maps\<close>

abbreviation lookup :: "('k \<times> 'v) list \<Rightarrow> 'k \<Rightarrow> 'v option" where
  "lookup \<equiv> map_of"

lemma lookup_update [simp]:
  "lookup (AList.update k v m) = (lookup m)(k \<mapsto> v)"
  by (rule AList.update_conv')

lemma set_update_subset: "set (AList.update k v m) \<subseteq> insert (k, v) (set m)"
  by (induction m) (auto split: if_splits)

lemma update_in_set: "(k, v) \<in> set (AList.update k v m)"
  by (induction m) auto

lemma lookup_in_set: "distinct (map fst m) \<Longrightarrow> (k, v) \<in> set m \<longleftrightarrow> lookup m k = Some v"
  by simp

end
