(* ===== verification/Go_Strings.thy ===== *)
theory Go_Strings
  imports Netmap_Prelude "HOL-Library.Sublist"
begin

text \<open>
  The functions of Go's packages \<^verbatim>\<open>strings\<close>, \<^verbatim>\<open>strconv\<close>, \<^verbatim>\<open>encoding/hex\<close> and
  \<^verbatim>\<open>encoding/base32\<close> that the program calls, on byte strings, with the facts the
  address and configuration components need: cutting at a separator undoes joining
  with it, and decimal and hexadecimal printing are undone by parsing.
\<close>

section \<open>strings\<close>

definition index_byte :: "string \<Rightarrow> char \<Rightarrow> nat option" where
  "index_byte s c = (let n = length (takeWhile (\<lambda>x. x \<noteq> c) s) in
     if n < length s then Some n else None)"

definition last_index_byte :: "string \<Rightarrow> char \<Rightarrow> nat option" where
  "last_index_byte s c = map_option (\<lambda>n. length s - Suc n) (index_byte (rev s) c)"

definition contains_byte :: "string \<Rightarrow> char \<Rightarrow> bool" where
  "contains_byte s c \<longleftrightarrow> c \<in> set s"

definition has_prefix :: "string \<Rightarrow> string \<Rightarrow> bool" where
  "has_prefix s p \<longleftrightarrow> prefix p s"

definition has_suffix :: "string \<Rightarrow> string \<Rightarrow> bool" where
  "has_suffix s p \<longleftrightarrow> suffix p s"

definition trim_suffix :: "string \<Rightarrow> string \<Rightarrow> string" where
  "trim_suffix s p = (if has_suffix s p then take (length s - length p) s else s)"

definition trim_prefix :: "string \<Rightarrow> string \<Rightarrow> string" where
  "trim_prefix s p = (if has_prefix s p then drop (length p) s else s)"

text \<open>\<^verbatim>\<open>strings.Trim(s, c)\<close> for a one-byte cutset and \<^verbatim>\<open>strings.TrimRight\<close>.\<close>

definition trim_right :: "string \<Rightarrow> char \<Rightarrow> string" where
  "trim_right s c = rev (dropWhile (\<lambda>x. x = c) (rev s))"

definition trim :: "string \<Rightarrow> char \<Rightarrow> string" where
  "trim s c = trim_right (dropWhile (\<lambda>x. x = c) s) c"

text \<open>
  \<^verbatim>\<open>strings.TrimSpace\<close> removes leading and trailing white space; the ASCII white space
  is tab, line feed, vertical tab, form feed, carriage return and space.
\<close>

definition is_space :: "char \<Rightarrow> bool" where
  "is_space c \<longleftrightarrow> of_char c \<in> {9, 10, 11, 12, 13, 32 :: nat}"

definition trim_space :: "string \<Rightarrow> string" where
  "trim_space s = rev (dropWhile is_space (rev (dropWhile is_space s)))"

text \<open>\<^verbatim>\<open>strings.Split\<close> with a one-byte separator never returns an empty list.\<close>

fun split_byte :: "char \<Rightarrow> string \<Rightarrow> string list" where
  "split_byte c [] = [[]]"
| "split_byte c (x # xs) =
     (if x = c then [] # split_byte c xs
      else (case split_byte c xs of [] \<Rightarrow> [[x]] | y # ys \<Rightarrow> (x # y) # ys))"

text \<open>
  \<^verbatim>\<open>strings.ToLower\<close>.  Every use in the program compares the result with an ASCII
  suffix or pattern.  Two runes outside ASCII lower-case to an ASCII letter, U+0130 (to
  \<^verbatim>\<open>i\<close>) and U+212A (to \<^verbatim>\<open>k\<close>), and they are mapped; the bytes of every other non-ASCII
  rune are kept, whose lower case is not ASCII either.
\<close>

definition lower_char :: "char \<Rightarrow> char" where
  "lower_char c = (let n = of_char c :: nat in if 65 \<le> n \<and> n \<le> 90 then char_of (n + 32) else c)"

fun to_lower :: "string \<Rightarrow> string" where
  "to_lower [] = []"
| "to_lower (a # s) =
     (if a = CHR 0xC4 \<and> take 1 s = [CHR 0xB0] then CHR ''i'' # to_lower (drop 1 s)
      else if a = CHR 0xE2 \<and> take 2 s = [CHR 0x84, CHR 0xAA] then CHR ''k'' # to_lower (drop 2 s)
      else lower_char a # to_lower s)"

definition is_ascii :: "string \<Rightarrow> bool" where
  "is_ascii s \<longleftrightarrow> (\<forall>c\<in>set s. (of_char c :: nat) < 128)"

lemma to_lower_ascii:
  "is_ascii s \<Longrightarrow> to_lower s = map lower_char s"
  by (induction s rule: to_lower.induct) (auto simp: is_ascii_def)

lemma split_byte_neq_Nil [simp]: "split_byte c s \<noteq> []"
  by (induction s) (auto split: list.splits)

lemma split_byte_noop: "c \<notin> set s \<Longrightarrow> split_byte c s = [s]"
  by (induction s) auto

lemma split_byte_append:
  "c \<notin> set a \<Longrightarrow> split_byte c (a @ c # b) = a # split_byte c b"
  by (induction a) auto

lemma split_byte_parts: "\<forall>p\<in>set (split_byte c s). c \<notin> set p"
  by (induction s) (auto split: list.splits)

text \<open>\<^verbatim>\<open>strings.Join\<close> and its relation to splitting.\<close>

fun join_byte :: "char \<Rightarrow> string list \<Rightarrow> string" where
  "join_byte c [] = []"
| "join_byte c [x] = x"
| "join_byte c (x # xs) = x @ c # join_byte c xs"

lemma join_split_byte: "join_byte c (split_byte c s) = s"
proof (induction s)
  case (Cons x s)
  then show ?case
    by (cases "split_byte c s"; cases "tl (split_byte c s)") (auto split: list.splits)
qed simp

lemma split_join_byte:
  "xs \<noteq> [] \<Longrightarrow> \<forall>x\<in>set xs. c \<notin> set x \<Longrightarrow> split_byte c (join_byte c xs) = xs"
  by (induction c xs rule: join_byte.induct) (auto simp: split_byte_noop split_byte_append)

section \<open>Positions of a byte\<close>

lemma index_byte_None: "index_byte s c = None \<longleftrightarrow> c \<notin> set s"
proof -
  have "c \<notin> set s \<longleftrightarrow> length (takeWhile (\<lambda>x. x \<noteq> c) s) = length s"
    by (induction s) auto
  then show ?thesis
    using length_takeWhile_le [of "\<lambda>x. x \<noteq> c" s] by (auto simp: index_byte_def Let_def)
qed

lemma index_byte_append:
  "c \<notin> set a \<Longrightarrow> index_byte (a @ c # b) c = Some (length a)"
  by (simp add: index_byte_def takeWhile_append_notin)

lemma last_index_byte_None: "last_index_byte s c = None \<longleftrightarrow> c \<notin> set s"
  by (simp add: last_index_byte_def index_byte_None)

lemma last_index_byte_append:
  "c \<notin> set b \<Longrightarrow> last_index_byte (a @ c # b) c = Some (length a)"
  using index_byte_append [of c "rev b" "rev a"] by (simp add: last_index_byte_def)

section \<open>strconv\<close>

definition is_digit :: "char \<Rightarrow> bool" where
  "is_digit c \<longleftrightarrow> 48 \<le> (of_char c :: nat) \<and> (of_char c :: nat) \<le> 57"

definition digit_val :: "char \<Rightarrow> nat" where
  "digit_val c = of_char c - 48"

definition digit_char :: "nat \<Rightarrow> char" where
  "digit_char n = char_of (48 + n)"

definition parse_digits :: "string \<Rightarrow> nat option" where
  "parse_digits s = (if s \<noteq> [] \<and> list_all is_digit s
     then Some (foldl (\<lambda>a c. 10 * a + digit_val c) 0 s) else None)"

text \<open>\<^verbatim>\<open>strconv.ParseUint(s, 10, bits)\<close>: digits only, and within the bit size.\<close>

definition ParseUint :: "string \<Rightarrow> nat \<Rightarrow> nat option" where
  "ParseUint s bits = (case parse_digits s of
     None \<Rightarrow> None | Some n \<Rightarrow> if n < 2 ^ bits then Some n else None)"

text \<open>\<^verbatim>\<open>strconv.Atoi\<close>: an optional sign, digits, and the range of a 64-bit integer.\<close>

definition Atoi :: "string \<Rightarrow> int option" where
  "Atoi s = (case s of
     [] \<Rightarrow> None
   | c # r \<Rightarrow>
       (let (sgn, ds) = (if c = CHR ''-'' then (-1, r) else if c = CHR ''+'' then (1, r) else (1, s))
        in case parse_digits ds of
             None \<Rightarrow> None
           | Some n \<Rightarrow> (let v = sgn * int n in
               if - (2 ^ 63) \<le> v \<and> v < 2 ^ 63 then Some v else None)))"

fun Itoa_nat :: "nat \<Rightarrow> string" where
  "Itoa_nat n = (if n < 10 then [digit_char n] else Itoa_nat (n div 10) @ [digit_char (n mod 10)])"

declare Itoa_nat.simps [simp del]

definition Itoa :: "int \<Rightarrow> string" where
  "Itoa i = (if i < 0 then CHR ''-'' # Itoa_nat (nat (- i)) else Itoa_nat (nat i))"

lemma digit_char_props:
  assumes "n < 10"
  shows "is_digit (digit_char n)" and "digit_val (digit_char n) = n"
  using assms by (simp_all add: is_digit_def digit_val_def digit_char_def of_char_of)

lemma Itoa_nat_digits: "list_all is_digit (Itoa_nat n) \<and> Itoa_nat n \<noteq> []"
proof (induction n rule: Itoa_nat.induct)
  case (1 n)
  then show ?case
    by (subst (1 2) Itoa_nat.simps) (auto simp: digit_char_props)
qed

lemma foldl_Itoa_nat:
  "foldl (\<lambda>a c. 10 * a + digit_val c) 0 (Itoa_nat n) = n"
proof (induction n rule: Itoa_nat.induct)
  case (1 n)
  show ?case
  proof (cases "n < 10")
    case True
    then show ?thesis by (subst Itoa_nat.simps) (simp add: digit_char_props)
  next
    case False
    with "1" show ?thesis by (subst Itoa_nat.simps) (simp add: digit_char_props)
  qed
qed

lemma parse_digits_Itoa [simp]: "parse_digits (Itoa_nat n) = Some n"
  by (simp add: parse_digits_def Itoa_nat_digits foldl_Itoa_nat)

text \<open>Only a one-digit number is printed with a leading zero.\<close>

lemma Itoa_nat_hd: "0 < n \<Longrightarrow> hd (Itoa_nat n) \<noteq> CHR ''0''"
proof (induction n rule: Itoa_nat.induct)
  case (1 n)
  show ?case
  proof (cases "n < 10")
    case True
    have "digit_val (CHR ''0'') = 0" by (simp add: digit_val_def)
    with True "1.prems" have "digit_char n \<noteq> CHR ''0''" using digit_char_props(2) [OF True] by auto
    with True show ?thesis by (subst Itoa_nat.simps) simp
  next
    case False
    with "1.IH" have "hd (Itoa_nat (n div 10)) \<noteq> CHR ''0''" by (simp add: div_greater_zero_iff)
    with False show ?thesis by (subst Itoa_nat.simps) (simp add: Itoa_nat_digits)
  qed
qed

lemma Itoa_nat_no_leading_zero: "length (Itoa_nat n) = 1 \<or> take 1 (Itoa_nat n) \<noteq> ''0''"
proof (cases "n = 0")
  case True
  then show ?thesis by (simp add: Itoa_nat.simps [of 0])
next
  case False
  then have "hd (Itoa_nat n) \<noteq> CHR ''0''" using Itoa_nat_hd by simp
  then show ?thesis using Itoa_nat_digits [of n] by (cases "Itoa_nat n") auto
qed

lemma ParseUint_Itoa: "n < 2 ^ b \<Longrightarrow> ParseUint (Itoa_nat n) b = Some n"
  by (simp add: ParseUint_def)

lemma is_digit_neq:
  "is_digit c \<Longrightarrow> c \<noteq> CHR ''-''" "is_digit c \<Longrightarrow> c \<noteq> CHR ''+''"
  "is_digit c \<Longrightarrow> c \<noteq> CHR '':''" "is_digit c \<Longrightarrow> c \<noteq> CHR ''.''"
  "is_digit c \<Longrightarrow> c \<noteq> CHR ''/''" "is_digit c \<Longrightarrow> c \<noteq> CHR ''[''"
  "is_digit c \<Longrightarrow> c \<noteq> CHR '']''" "is_digit c \<Longrightarrow> c \<noteq> CHR ''%''"
  by (auto simp: is_digit_def)

lemma Itoa_nat_notin:
  "CHR '':'' \<notin> set (Itoa_nat n)" "CHR ''.'' \<notin> set (Itoa_nat n)"
  "CHR ''/'' \<notin> set (Itoa_nat n)" "CHR ''['' \<notin> set (Itoa_nat n)"
  "CHR '']'' \<notin> set (Itoa_nat n)" "CHR ''%'' \<notin> set (Itoa_nat n)"
  using Itoa_nat_digits [of n] by (auto simp: list_all_iff dest: is_digit_neq)

lemma Atoi_Itoa_nat: "n < 2 ^ 63 \<Longrightarrow> Atoi (Itoa_nat n) = Some (int n)"
proof -
  assume n: "n < 2 ^ 63"
  obtain c r where cr: "Itoa_nat n = c # r"
    using Itoa_nat_digits [of n] by (cases "Itoa_nat n") auto
  then have "is_digit c" using Itoa_nat_digits [of n] by simp
  moreover have "parse_digits (c # r) = Some n" using cr by (metis parse_digits_Itoa)
  moreover have "int n < 2 ^ 63" using n by (simp add: zless_nat_eq_int_zless nat_less_iff)
  ultimately show ?thesis
    using cr by (simp add: Atoi_def is_digit_neq)
qed

section \<open>encoding/hex\<close>

definition hex_digit :: "nat \<Rightarrow> char" where
  "hex_digit n = (if n < 10 then char_of (48 + n) else char_of (87 + n))"

definition hex_val :: "char \<Rightarrow> nat option" where
  "hex_val c = (let n = of_char c :: nat in
     if 48 \<le> n \<and> n \<le> 57 then Some (n - 48)
     else if 97 \<le> n \<and> n \<le> 102 then Some (n - 87)
     else if 65 \<le> n \<and> n \<le> 70 then Some (n - 55) else None)"

definition hex_EncodeToString :: "bytes \<Rightarrow> string" where
  "hex_EncodeToString bs = concat (map (\<lambda>b. [hex_digit (unat b div 16), hex_digit (unat b mod 16)]) bs)"

fun hex_DecodeString :: "string \<Rightarrow> bytes option" where
  "hex_DecodeString [] = Some []"
| "hex_DecodeString [_] = None"
| "hex_DecodeString (a # b # s) =
     (case (hex_val a, hex_val b, hex_DecodeString s) of
        (Some x, Some y, Some r) \<Rightarrow> Some (word_of_nat (16 * x + y) # r)
      | _ \<Rightarrow> None)"

lemma hex_val_digit: "n < 16 \<Longrightarrow> hex_val (hex_digit n) = Some n"
  by (auto simp: hex_val_def hex_digit_def of_char_of Let_def)

lemma hex_roundtrip: "hex_DecodeString (hex_EncodeToString bs) = Some bs"
proof (induction bs)
  case (Cons b bs)
  have "unat b < 256" using unsigned_less [of b, where ?'a = nat] by simp
  then have "unat b div 16 < 16" by (simp add: less_mult_imp_div_less)
  with Cons show ?case
    by (simp add: hex_EncodeToString_def hex_val_digit)
qed (simp add: hex_EncodeToString_def)

end
