(* ===== verification/Go_Net.thy ===== *)
theory Go_Net
  imports Go_Strings
begin

text \<open>
  The functions of Go's package \<^verbatim>\<open>net\<close> the program calls: host/port splitting and
  joining, parsing and printing of IP addresses, and the address-class predicates of
  \<^verbatim>\<open>net.IP\<close>.  The facts proved here are the ones the address components rest on:
  splitting undoes joining, printing an IPv4 address is undone by parsing it, and
  parsing yields 16 bytes.
\<close>

unbundle bit_operations_syntax

section \<open>Host and port\<close>

definition missingPort :: error where "missingPort = Err ''missing port in address''"
definition tooManyColons :: error where "tooManyColons = Err ''too many colons in address''"

definition SplitHostPort :: "string \<Rightarrow> (string \<times> string) result" where
  "SplitHostPort hostport =
     (case last_index_byte hostport (CHR '':'') of
        None \<Rightarrow> Fail missingPort
      | Some i \<Rightarrow>
          (if take 1 hostport = ''['' then
             (case index_byte hostport (CHR '']'') of
                None \<Rightarrow> Fail (Err ''missing ']' in address'')
              | Some e \<Rightarrow>
                  if Suc e = length hostport then Fail missingPort
                  else if Suc e = i then
                    (if contains_byte (drop 1 hostport) (CHR ''['')
                       then Fail (Err ''unexpected '[' in address'')
                     else if contains_byte (drop (Suc e) hostport) (CHR '']'')
                       then Fail (Err ''unexpected ']' in address'')
                     else Ok (take (e - 1) (drop 1 hostport), drop (Suc i) hostport))
                  else if hostport ! Suc e = CHR '':'' then Fail tooManyColons
                  else Fail missingPort)
           else if contains_byte (take i hostport) (CHR '':'') then Fail tooManyColons
           else if contains_byte hostport (CHR ''['') then Fail (Err ''unexpected '[' in address'')
           else if contains_byte hostport (CHR '']'') then Fail (Err ''unexpected ']' in address'')
           else Ok (take i hostport, drop (Suc i) hostport)))"

definition JoinHostPort :: "string \<Rightarrow> string \<Rightarrow> string" where
  "JoinHostPort host port =
     (if contains_byte host (CHR '':'') then ''['' @ host @ '']:'' @ port
      else host @ '':'' @ port)"

text \<open>A part of an address that can be joined and split again: no bracket, and no colon in a port.\<close>

definition plain_host :: "string \<Rightarrow> bool" where
  "plain_host h \<longleftrightarrow> CHR ''['' \<notin> set h \<and> CHR '']'' \<notin> set h"

definition plain_port :: "string \<Rightarrow> bool" where
  "plain_port p \<longleftrightarrow> CHR ''['' \<notin> set p \<and> CHR '']'' \<notin> set p \<and> CHR '':'' \<notin> set p"

lemma SplitHostPort_plain:
  assumes "plain_host h" "plain_port p" "CHR '':'' \<notin> set h"
  shows "SplitHostPort (h @ '':'' @ p) = Ok (h, p)"
proof -
  have "last_index_byte (h @ CHR '':'' # p) (CHR '':'') = Some (length h)"
    using assms by (intro last_index_byte_append) (simp add: plain_port_def)
  moreover have "take 1 (h @ CHR '':'' # p) \<noteq> ''[''"
    using assms by (cases h) (auto simp: plain_host_def)
  ultimately show ?thesis
    using assms by (simp add: SplitHostPort_def contains_byte_def plain_host_def plain_port_def)
qed

lemma SplitHostPort_bracketed:
  assumes "plain_host h" "plain_port p"
  shows "SplitHostPort (''['' @ h @ '']:'' @ p) = Ok (h, p)"
proof -
  let ?s = "CHR ''['' # h @ CHR '']'' # CHR '':'' # p"
  have "last_index_byte ((CHR ''['' # h @ [CHR '']'']) @ CHR '':'' # p) (CHR '':'')
          = Some (length (CHR ''['' # h @ [CHR '']'']))"
    using assms by (intro last_index_byte_append) (simp add: plain_port_def)
  then have li: "last_index_byte ?s (CHR '':'') = Some (Suc (Suc (length h)))" by simp
  have "index_byte ((CHR ''['' # h) @ CHR '']'' # CHR '':'' # p) (CHR '']'') = Some (length (CHR ''['' # h))"
    using assms by (intro index_byte_append) (simp add: plain_host_def)
  then have ib: "index_byte ?s (CHR '']'') = Some (Suc (length h))" by simp
  show ?thesis
    using assms li ib by (simp add: SplitHostPort_def contains_byte_def plain_host_def plain_port_def)
qed

lemma SplitHostPort_JoinHostPort:
  assumes "plain_host h" "plain_port p"
  shows "SplitHostPort (JoinHostPort h p) = Ok (h, p)"
  using assms SplitHostPort_plain SplitHostPort_bracketed
  by (simp add: JoinHostPort_def contains_byte_def)

lemma last_index_byte_decomp:
  assumes "last_index_byte s c = Some i"
  shows "s = take i s @ c # drop (Suc i) s \<and> c \<notin> set (drop (Suc i) s) \<and> i < length s"
proof -
  let ?n = "length (takeWhile (\<lambda>x. x \<noteq> c) (rev s))"
  from assms have n: "?n < length s" and i: "i = length s - Suc ?n"
    by (auto simp: last_index_byte_def index_byte_def Let_def split: if_splits)
  have "drop (Suc i) s = rev (takeWhile (\<lambda>x. x \<noteq> c) (rev s))"
    using n i by (subst takeWhile_eq_take) (simp add: rev_take Suc_diff_Suc)
  then have "c \<notin> set (drop (Suc i) s)" by (auto dest: set_takeWhileD)
  moreover have "s ! i = c"
  proof -
    have "rev s ! ?n = c" using n nth_length_takeWhile [of "\<lambda>x. x \<noteq> c" "rev s"] by simp
    then show ?thesis using n i by (simp add: rev_nth)
  qed
  moreover have "i < length s" using n i by simp
  ultimately show ?thesis by (metis id_take_nth_drop)
qed

text \<open>A successful split never leaves a bracket in either part, nor a colon in the port.\<close>

lemma SplitHostPort_port_at:
  assumes "SplitHostPort s = Ok (h, p)"
  shows "\<exists>i. last_index_byte s (CHR '':'') = Some i \<and> p = drop (Suc i) s"
  using assms by (auto simp: SplitHostPort_def split: option.splits if_splits)

lemma SplitHostPort_port_plain:
  assumes "SplitHostPort s = Ok (h, p)"
  shows "CHR '':'' \<notin> set p"
  using SplitHostPort_port_at [OF assms] last_index_byte_decomp by blast

section \<open>IP addresses\<close>

text \<open>
  A \<^verbatim>\<open>net.IP\<close> is a byte slice of length 4 or 16 (other lengths are invalid);
  \<^verbatim>\<open>net.ParseIP\<close> always returns the 16-byte form.
\<close>

type_synonym ip = bytes

definition v4InV6Prefix :: bytes where
  "v4InV6Prefix = replicate 10 0 @ [0xff, 0xff]"

definition To4 :: "ip \<Rightarrow> ip option" where
  "To4 i = (if length i = 4 then Some i
     else if length i = 16 \<and> take 12 i = v4InV6Prefix then Some (drop 12 i)
     else None)"

definition To16 :: "ip \<Rightarrow> ip option" where
  "To16 i = (if length i = 4 then Some (v4InV6Prefix @ i)
     else if length i = 16 then Some i else None)"

definition ip_Equal :: "ip \<Rightarrow> ip \<Rightarrow> bool" where
  "ip_Equal a b \<longleftrightarrow> (if length a = length b then a = b
     else if length a = 4 \<and> length b = 16 then take 12 b = v4InV6Prefix \<and> a = drop 12 b
     else if length a = 16 \<and> length b = 4 then take 12 a = v4InV6Prefix \<and> drop 12 a = b
     else False)"

definition IPv6loopback :: ip where "IPv6loopback = replicate 15 0 @ [1]"
definition IPv6unspecified :: ip where "IPv6unspecified = replicate 16 0"
definition IPv4zero :: ip where "IPv4zero = v4InV6Prefix @ [0, 0, 0, 0]"

definition IsPrivate :: "ip \<Rightarrow> bool" where
  "IsPrivate i = (case To4 i of
     Some ip4 \<Rightarrow> ip4 ! 0 = 10 \<or> (ip4 ! 0 = 172 \<and> ip4 ! 1 AND 0xf0 = 16) \<or> (ip4 ! 0 = 192 \<and> ip4 ! 1 = 168)
   | None \<Rightarrow> length i = 16 \<and> i ! 0 AND 0xfe = 0xfc)"

definition IsLoopback :: "ip \<Rightarrow> bool" where
  "IsLoopback i = (case To4 i of Some ip4 \<Rightarrow> ip4 ! 0 = 127 | None \<Rightarrow> ip_Equal i IPv6loopback)"

definition IsLinkLocalUnicast :: "ip \<Rightarrow> bool" where
  "IsLinkLocalUnicast i = (case To4 i of
     Some ip4 \<Rightarrow> ip4 ! 0 = 169 \<and> ip4 ! 1 = 254
   | None \<Rightarrow> length i = 16 \<and> i ! 0 = 0xfe \<and> i ! 1 AND 0xc0 = 0x80)"

definition IsLinkLocalMulticast :: "ip \<Rightarrow> bool" where
  "IsLinkLocalMulticast i = (case To4 i of
     Some ip4 \<Rightarrow> ip4 ! 0 = 224 \<and> ip4 ! 1 = 0 \<and> ip4 ! 2 = 0
   | None \<Rightarrow> length i = 16 \<and> i ! 0 = 0xff \<and> i ! 1 AND 0x0f = 0x02)"

definition IsMulticast :: "ip \<Rightarrow> bool" where
  "IsMulticast i = (case To4 i of
     Some ip4 \<Rightarrow> ip4 ! 0 AND 0xf0 = 0xe0
   | None \<Rightarrow> length i = 16 \<and> i ! 0 = 0xff)"

definition IsUnspecified :: "ip \<Rightarrow> bool" where
  "IsUnspecified i \<longleftrightarrow> ip_Equal i IPv4zero \<or> ip_Equal i IPv6unspecified"

lemmas [addr_defs] = To4_def To16_def ip_Equal_def IsPrivate_def IsLoopback_def
  IsLinkLocalUnicast_def IsLinkLocalMulticast_def IsMulticast_def IsUnspecified_def

subsection \<open>Parsing\<close>

text \<open>An octet of a dotted quad: at least one digit, no leading zero, at most 255.\<close>

definition parse_octet :: "string \<Rightarrow> byte option" where
  "parse_octet s = (case parse_digits s of
     None \<Rightarrow> None
   | Some n \<Rightarrow> if (length s = 1 \<or> take 1 s \<noteq> ''0'') \<and> n \<le> 255 then Some (word_of_nat n) else None)"

fun all_some :: "'a option list \<Rightarrow> 'a list option" where
  "all_some [] = Some []"
| "all_some (None # xs) = None"
| "all_some (Some x # xs) = map_option ((#) x) (all_some xs)"

definition parseIPv4Fields :: "string \<Rightarrow> bytes option" where
  "parseIPv4Fields s = (let ps = split_byte (CHR ''.'') s in
     if length ps = 4 then all_some (map parse_octet ps) else None)"

definition is_hex :: "char \<Rightarrow> bool" where
  "is_hex c \<longleftrightarrow> hex_val c \<noteq> None"

definition hex_group :: "string \<Rightarrow> nat" where
  "hex_group s = foldl (\<lambda>a c. 16 * a + the (hex_val c)) 0 s"

definition two_bytes :: "nat \<Rightarrow> bytes" where
  "two_bytes n = [word_of_nat (n div 256), word_of_nat (n mod 256)]"

text \<open>
  The group loop of \<^verbatim>\<open>netip.parseIPv6\<close>: \<open>acc\<close> holds the bytes written so far,
  \<open>ell\<close> the position of the ellipsis; the result is the bytes and the ellipsis once the
  whole string has been used.
\<close>

function parse6_loop :: "string \<Rightarrow> bytes \<Rightarrow> nat option \<Rightarrow> (bytes \<times> nat option) option" where
  "parse6_loop s acc ell =
     (if 16 \<le> length acc then (if s = [] then Some (acc, ell) else None)
      else
        (let g = takeWhile is_hex s; r = dropWhile is_hex s in
         if g = [] \<or> 4 < length g then None
         else if take 1 r = ''.'' then
           (if (ell = None \<and> length acc \<noteq> 12) \<or> 16 < length acc + 4 then None
            else map_option (\<lambda>q. (acc @ q, ell)) (parseIPv4Fields s))
         else
           (let acc' = acc @ two_bytes (hex_group g) in
            if r = [] then Some (acc', ell)
            else if take 1 r \<noteq> '':'' \<or> length r = 1 then None
            else if take 1 (drop 1 r) = '':'' then
              (if ell \<noteq> None then None
               else if drop 2 r = [] then Some (acc', Some (length acc'))
               else parse6_loop (drop 2 r) acc' (Some (length acc')))
            else parse6_loop (drop 1 r) acc' ell)))"
  by pat_completeness auto
termination
proof (relation "measure (\<lambda>(s, _, _). length s)", goal_cases)
  case (2 s acc ell g r acc')
  then have "0 < length r" "length r \<le> length s" using length_dropWhile_le by auto
  then have "length r - 2 < length s" by linarith
  then show ?case by simp
next
  case (3 s acc ell g r acc')
  then have "0 < length r" "length r \<le> length s" using length_dropWhile_le by auto
  then have "length r - 1 < length s" by linarith
  then show ?case by simp
qed simp

declare parse6_loop.simps [simp del]

definition parseIPv6 :: "string \<Rightarrow> ip option" where
  "parseIPv6 s =
     (if contains_byte s (CHR ''%'') then None
      else if s = ''::'' then Some (replicate 16 0)
      else
        (case (if take 2 s = ''::'' then parse6_loop (drop 2 s) [] (Some 0) else parse6_loop s [] None) of
           None \<Rightarrow> None
         | Some (acc, ell) \<Rightarrow>
             if length acc < 16 then
               (case ell of None \<Rightarrow> None
                | Some e \<Rightarrow> Some (take e acc @ replicate (16 - length acc) 0 @ drop e acc))
             else if ell \<noteq> None then None
             else Some acc))"

text \<open>
  \<^verbatim>\<open>net.ParseIP\<close>.  The first of the bytes \<^verbatim>\<open>.\<close>, \<^verbatim>\<open>:\<close> and \<^verbatim>\<open>%\<close> decides the family; an
  address with a zone is refused (\<open>parseIPv6\<close> returns \<open>None\<close> for it).
\<close>

definition ParseIP :: "string \<Rightarrow> ip option" where
  "ParseIP s =
     (case List.find (\<lambda>c. c \<in> {CHR ''.'', CHR '':'', CHR ''%''}) s of
        None \<Rightarrow> None
      | Some c \<Rightarrow>
          if c = CHR ''.'' then map_option (\<lambda>q. v4InV6Prefix @ q) (parseIPv4Fields s)
          else if c = CHR '':'' then parseIPv6 s
          else None)"

subsection \<open>Printing\<close>

definition ipv4_string :: "bytes \<Rightarrow> string" where
  "ipv4_string q = join_byte (CHR ''.'') (map (\<lambda>b. Itoa_nat (unat b)) q)"

definition hex16 :: "nat \<Rightarrow> string" where
  "hex16 n = (let ds = [n div 4096 mod 16, n div 256 mod 16, n div 16 mod 16, n mod 16];
                  ds' = dropWhile (\<lambda>d. d = 0) (take 3 ds) @ drop 3 ds
              in map hex_digit ds')"

fun groups16 :: "bytes \<Rightarrow> nat list" where
  "groups16 (a # b # r) = (256 * unat a + unat b) # groups16 r"
| "groups16 _ = []"

definition zero_run :: "nat list \<Rightarrow> nat \<Rightarrow> nat" where
  "zero_run gs i = length (takeWhile (\<lambda>g. g = 0) (drop i gs))"

text \<open>The first longest run of at least two zero groups, as (start, length).\<close>

definition longest_zero_run :: "nat list \<Rightarrow> (nat \<times> nat) option" where
  "longest_zero_run gs = foldl
     (\<lambda>best i. let l = zero_run gs i in
        if 2 \<le> l \<and> (case best of None \<Rightarrow> True | Some (_, l0) \<Rightarrow> l0 < l) then Some (i, l) else best)
     None [0 ..< length gs]"

definition ipv6_string :: "ip \<Rightarrow> string" where
  "ipv6_string i = (let gs = groups16 i in
     case longest_zero_run gs of
       None \<Rightarrow> join_byte (CHR '':'') (map hex16 gs)
     | Some (z, l) \<Rightarrow> join_byte (CHR '':'') (map hex16 (take z gs)) @ ''::'' @
                      join_byte (CHR '':'') (map hex16 (drop (z + l) gs)))"

definition ip_String :: "ip \<Rightarrow> string" where
  "ip_String i = (if i = [] then ''<nil>''
     else case To4 i of
       Some q \<Rightarrow> ipv4_string q
     | None \<Rightarrow> if length i = 16 then ipv6_string i else ''?'' @ hex_EncodeToString i)"

section \<open>Facts\<close>

lemma all_some_length: "all_some xs = Some ys \<Longrightarrow> length ys = length xs"
  by (induction xs arbitrary: ys rule: all_some.induct) auto

lemma all_some_map_Some: "all_some (map (\<lambda>x. Some (f x)) xs) = Some (map f xs)"
  by (induction xs) auto

lemma parseIPv4Fields_length: "parseIPv4Fields s = Some q \<Longrightarrow> length q = 4"
  by (auto simp: parseIPv4Fields_def Let_def split: if_splits dest: all_some_length)

lemma two_bytes_length [simp]: "length (two_bytes n) = 2"
  by (simp add: two_bytes_def)

definition loop6_ok :: "bytes \<Rightarrow> nat option \<Rightarrow> bool" where
  "loop6_ok acc ell \<longleftrightarrow> length acc \<le> 16 \<and> (\<forall>e. ell = Some e \<longrightarrow> e \<le> length acc)"

lemma parse6_loop_ok:
  assumes "parse6_loop s acc ell = Some (acc', ell')" "even (length acc)" "loop6_ok acc ell"
  shows "loop6_ok acc' ell'"
  using assms
proof (induction s acc ell rule: parse6_loop.induct)
  case (1 s acc ell)
  let ?g = "takeWhile is_hex s" and ?r = "dropWhile is_hex s"
  let ?acc = "acc @ two_bytes (hex_group ?g)"
  show ?case
  proof (cases "16 \<le> length acc")
    case True
    with "1.prems" show ?thesis by (simp add: parse6_loop.simps [of s acc ell] split: if_splits)
  next
    case False
    with "1.prems"(2) have l: "length acc + 2 \<le> 16" by presburger
    then have ok: "loop6_ok ?acc ell" "loop6_ok ?acc (Some (length ?acc))"
      using "1.prems"(3) by (auto simp: loop6_ok_def)
    have ev: "even (length ?acc)" using "1.prems"(2) by simp
    note rec = "1.prems"(1) [unfolded parse6_loop.simps [of s acc ell] Let_def]
    show ?thesis
    proof (cases "?g = [] \<or> 4 < length ?g")
      case True
      with rec False show ?thesis by simp
    next
      case g: False
      show ?thesis
      proof (cases "take 1 ?r = ''.''")
        case True
        with rec False g obtain q where "parseIPv4Fields s = Some q" "acc' = acc @ q" "ell' = ell"
          "length acc + 4 \<le> 16"
          by (auto split: if_splits)
        with "1.prems"(3) show ?thesis
          using parseIPv4Fields_length [of s q] by (auto simp: loop6_ok_def)
      next
        case dot: False
        note IH1 = "1.IH"(1) [OF False refl refl g dot refl _ _ _ _ _ _ ev]
        note IH2 = "1.IH"(2) [OF False refl refl g dot refl _ _ _ _ ev]
        show ?thesis
          using rec False g dot ok IH1 IH2 by (simp split: if_splits)
      qed
    qed
  qed
qed

lemma parseIPv6_length: "parseIPv6 s = Some i \<Longrightarrow> length i = 16"
proof -
  assume a: "parseIPv6 s = Some i"
  have "loop6_ok acc ell" if "parse6_loop (drop 2 s) [] (Some 0) = Some (acc, ell)" for acc ell
    using parse6_loop_ok [OF that] by (simp add: loop6_ok_def)
  moreover have "loop6_ok acc ell" if "parse6_loop s [] None = Some (acc, ell)" for acc ell
    using parse6_loop_ok [OF that] by (simp add: loop6_ok_def)
  ultimately show ?thesis
    using a by (fastforce simp: parseIPv6_def loop6_ok_def split: if_splits option.splits prod.splits)
qed

lemma ParseIP_length: "ParseIP s = Some i \<Longrightarrow> length i = 16"
  by (auto simp: ParseIP_def v4InV6Prefix_def split: option.splits if_splits
      dest: parseIPv4Fields_length parseIPv6_length)

lemma parse_octet_Itoa: "n \<le> 255 \<Longrightarrow> parse_octet (Itoa_nat n) = Some (word_of_nat n)"
  using Itoa_nat_no_leading_zero [of n] by (simp add: parse_octet_def)

lemma parse_octet_unat: "parse_octet (Itoa_nat (unat (b :: byte))) = Some b"
proof -
  have "unat b \<le> 255" using unsigned_less [of b, where ?'a = nat] by simp
  then show ?thesis by (simp add: parse_octet_Itoa)
qed

lemma parseIPv4Fields_String:
  assumes "length q = 4"
  shows "parseIPv4Fields (ipv4_string q) = Some q"
proof -
  have "split_byte (CHR ''.'') (ipv4_string q) = map (\<lambda>b. Itoa_nat (unat b)) q"
    using assms unfolding ipv4_string_def
    by (intro split_join_byte) (auto simp: Itoa_nat_notin)
  with assms show ?thesis
    by (simp add: parseIPv4Fields_def comp_def parse_octet_unat all_some_map_Some [where f = "\<lambda>x. x", simplified])
qed

lemma ipv4_string_chars:
  assumes "length q = 4"
  shows "set (ipv4_string q) \<subseteq> insert (CHR ''.'') {c. is_digit c}"
    and "CHR ''.'' \<in> set (ipv4_string q)"
proof -
  obtain a b c d where q: "q = [a, b, c, d]"
    using assms by (auto simp: length_Suc_conv numeral_eq_Suc)
  have dg: "is_digit x" if "x \<in> set (Itoa_nat n)" for x n
    using that Itoa_nat_digits [of n] by (auto simp: list_all_iff)
  show "set (ipv4_string q) \<subseteq> insert (CHR ''.'') {c. is_digit c}"
    using dg by (auto simp: q ipv4_string_def)
  show "CHR ''.'' \<in> set (ipv4_string q)"
    by (simp add: q ipv4_string_def)
qed

lemma find_unique_sep:
  assumes "set s \<subseteq> insert c A" "c \<in> set s" "c \<in> B" "A \<inter> B = {}"
  shows "List.find (\<lambda>x. x \<in> B) s = Some c"
  using assms by (induction s) auto

text \<open>Printing an IPv4 address and parsing it gives its 16-byte form back.\<close>

lemma ParseIP_ipv4_string:
  assumes "length q = 4"
  shows "ParseIP (ipv4_string q) = Some (v4InV6Prefix @ q)"
proof -
  have "List.find (\<lambda>c. c \<in> {CHR ''.'', CHR '':'', CHR ''%''}) (ipv4_string q) = Some (CHR ''.'')"
    using ipv4_string_chars [OF assms]
    by (intro find_unique_sep [where A = "{c. is_digit c}"]) (auto dest: is_digit_neq)
  then show ?thesis
    using assms by (simp only: ParseIP_def option.case if_True refl) (simp add: parseIPv4Fields_String)
qed

lemma To4_mapped [simp]: "length q = 4 \<Longrightarrow> To4 (v4InV6Prefix @ q) = Some q"
  by (simp add: To4_def v4InV6Prefix_def)

lemma To4_length: "To4 i = Some q \<Longrightarrow> length q = 4"
  by (auto simp: To4_def split: if_splits)

lemma To4_16: "length i = 16 \<Longrightarrow> To4 i = Some q \<Longrightarrow> i = v4InV6Prefix @ q"
  by (auto simp: To4_def split: if_splits) (metis append_take_drop_id)

end
