(* ===== verification/Rate_Limit.thy ===== *)
theory Rate_Limit
  imports Go_Net
begin

text \<open>
  \<^verbatim>\<open>internal/api/ratelimit.go\<close>: the client identity, the per-IP submission limiter and the
  tracker that locks out addresses after repeated invalid submissions.  The token bucket
  \<^verbatim>\<open>rate.Limiter\<close> of \<^verbatim>\<open>golang.org/x/time\<close> is a parameter: a constructor and an operation
  \<^verbatim>\<open>Allow\<close> on an abstract limiter state.  The clock reading is an argument; each operation
  runs under the structure's mutex, so operations are atomic steps.
\<close>

section \<open>Client identity\<close>

definition clientIP :: "string \<Rightarrow> string" where
  "clientIP remoteAddr = (case SplitHostPort remoteAddr of Inl _ \<Rightarrow> remoteAddr | Inr (host, _) \<Rightarrow> host)"

section \<open>The submission limiter\<close>

record 'l rateLimiterEntry =
  limiter :: 'l
  lastSeen :: time

record 'l ipRateLimiter =
  limiters :: "(string \<times> 'l rateLimiterEntry) list"
  rate :: duration
  burst :: nat

definition rateLimiterStaleAfter :: duration where "rateLimiterStaleAfter = Hour"
definition rateLimiterCleanupInterval :: duration where "rateLimiterCleanupInterval = 10 * Minute"

text \<open>\<^verbatim>\<open>rate.Every(time.Hour / 5)\<close>: one token every twelve minutes, and a burst of five.\<close>

definition newIPRateLimiter :: "'l ipRateLimiter" where
  "newIPRateLimiter = \<lparr>limiters = [], rate = Hour div 5, burst = 5\<rparr>"

definition ipRateLimiter_Allow ::
  "(duration \<Rightarrow> nat \<Rightarrow> 'l) \<Rightarrow> (time \<Rightarrow> 'l \<Rightarrow> 'l \<times> bool) \<Rightarrow> time \<Rightarrow> string \<Rightarrow>
   'l ipRateLimiter \<Rightarrow> 'l ipRateLimiter \<times> bool" where
  "ipRateLimiter_Allow new allow now ip l =
     (let entry = (case lookup (limiters l) ip of
                     None \<Rightarrow> \<lparr>limiter = new (rate l) (burst l), lastSeen = 0\<rparr>
                   | Some e \<Rightarrow> e);
          (lim', ok) = allow now (limiter entry)
      in (l\<lparr>limiters := AList.update ip \<lparr>limiter = lim', lastSeen = now\<rparr> (limiters l)\<rparr>, ok))"

definition ipRateLimiter_prune :: "time \<Rightarrow> 'l ipRateLimiter \<Rightarrow> 'l ipRateLimiter" where
  "ipRateLimiter_prune now l =
     (let cutoff = now - rateLimiterStaleAfter in
      l\<lparr>limiters := filter (\<lambda>(ip, e). \<not> lastSeen e < cutoff) (limiters l)\<rparr>)"

section \<open>The lockout tracker\<close>

record invalidSubmissionState =
  strikes :: nat
  windowStart :: time
  lockedUntil :: time

type_synonym tracker = "(string \<times> invalidSubmissionState) list"

definition strikeWindow :: duration where "strikeWindow = Hour"
definition strikeThreshold :: nat where "strikeThreshold = 4"
definition lockoutDuration :: duration where "lockoutDuration = 6 * Hour"
definition invalidSubmissionStaleAfter :: duration where
  "invalidSubmissionStaleAfter = strikeWindow + lockoutDuration"

lemmas [duration_defs] = strikeWindow_def lockoutDuration_def invalidSubmissionStaleAfter_def
  rateLimiterStaleAfter_def

definition newInvalidSubmissionTracker :: tracker where
  "newInvalidSubmissionTracker = []"

definition RecordInvalidStrike :: "time \<Rightarrow> string \<Rightarrow> tracker \<Rightarrow> tracker" where
  "RecordInvalidStrike now ip t =
     (let s = (case lookup t ip of
                 None \<Rightarrow> \<lparr>strikes = 0, windowStart = now, lockedUntil = 0\<rparr>
               | Some s \<Rightarrow> s);
          s = (if now - windowStart s > strikeWindow then s\<lparr>strikes := 0, windowStart := now\<rparr> else s);
          s = s\<lparr>strikes := strikes s + 1\<rparr>;
          s = (if strikes s \<ge> strikeThreshold then s\<lparr>lockedUntil := now + lockoutDuration\<rparr> else s)
      in AList.update ip s t)"

definition IsLockedOut :: "time \<Rightarrow> string \<Rightarrow> tracker \<Rightarrow> bool \<times> duration" where
  "IsLockedOut now ip t =
     (case lookup t ip of
        None \<Rightarrow> (False, 0)
      | Some s \<Rightarrow> if now < lockedUntil s then (True, lockedUntil s - now) else (False, 0))"

definition tracker_prune :: "time \<Rightarrow> tracker \<Rightarrow> tracker" where
  "tracker_prune now t =
     (let cutoff = now - invalidSubmissionStaleAfter in
      filter (\<lambda>(ip, s).
        let lastActivity = (if lockedUntil s > windowStart s then lockedUntil s else windowStart s)
        in \<not> lastActivity < cutoff) t)"

section \<open>Lockouts as runs of the tracker\<close>

text \<open>What the handlers and the cleanup goroutine do to the tracker, in time order.\<close>

datatype event = Strike string time | Query string time | Prune time

fun event_time :: "event \<Rightarrow> time" where
  "event_time (Strike _ t) = t"
| "event_time (Query _ t) = t"
| "event_time (Prune t) = t"

fun is_prune :: "event \<Rightarrow> bool" where
  "is_prune (Prune _) = True"
| "is_prune _ = False"

text \<open>A run returns the answers to the queries.\<close>

fun run :: "event list \<Rightarrow> tracker \<Rightarrow> (bool \<times> duration) list" where
  "run [] t = []"
| "run (Strike ip now # es) t = run es (RecordInvalidStrike now ip t)"
| "run (Query ip now # es) t = IsLockedOut now ip t # run es t"
| "run (Prune now # es) t = run es (tracker_prune now t)"

fun in_order :: "time \<Rightarrow> event list \<Rightarrow> bool" where
  "in_order t0 [] = True"
| "in_order t0 (e # es) = (t0 \<le> event_time e \<and> in_order (event_time e) es)"

text \<open>
  At time \<open>now\<close>, a pruned tracker simulates an unpruned one: an entry is the same except
  that expired lockouts may differ, or it is missing and the other one's window and
  lockout have both run out.
\<close>

definition sim_entry :: "time \<Rightarrow> invalidSubmissionState option \<Rightarrow> invalidSubmissionState option \<Rightarrow> bool" where
  "sim_entry now p u \<longleftrightarrow>
     (case (p, u) of
        (None, None) \<Rightarrow> True
      | (Some a, Some b) \<Rightarrow> strikes a = strikes b \<and> windowStart a = windowStart b \<and>
          (lockedUntil a = lockedUntil b \<or> (lockedUntil a \<le> now \<and> lockedUntil b \<le> now))
      | (None, Some b) \<Rightarrow> windowStart b + strikeWindow < now \<and> lockedUntil b \<le> now
      | (Some a, None) \<Rightarrow> False)"

definition sim :: "time \<Rightarrow> tracker \<Rightarrow> tracker \<Rightarrow> bool" where
  "sim now p u \<longleftrightarrow> distinct (map fst p) \<and> (\<forall>ip. sim_entry now (lookup p ip) (lookup u ip))"

lemma sim_entry_later: "sim_entry t p u \<Longrightarrow> t \<le> t' \<Longrightarrow> sim_entry t' p u"
  by (auto simp: sim_entry_def split: option.splits)

lemma sim_later: "sim t p u \<Longrightarrow> t \<le> t' \<Longrightarrow> sim t' p u"
  by (auto simp: sim_def intro: sim_entry_later)

lemma lookup_filter:
  assumes "distinct (map fst m)"
  shows "lookup (filter (\<lambda>(k, v). P k v) m) k =
    (case lookup m k of None \<Rightarrow> None | Some v \<Rightarrow> if P k v then Some v else None)"
proof -
  have "fst ` set (filter (\<lambda>(k, v). P k v) xs) \<subseteq> fst ` set xs" for xs :: "('a \<times> 'b) list" by auto
  then show ?thesis
    using assms by (induction m) (auto simp: map_of_eq_None_iff split: option.splits)
qed

lemma distinct_filter_keys: "distinct (map fst m) \<Longrightarrow> distinct (map fst (filter P m))"
  by (induction m) auto

lemma sim_IsLockedOut: "sim now p u \<Longrightarrow> IsLockedOut now ip p = IsLockedOut now ip u"
proof -
  assume "sim now p u"
  then have "sim_entry now (lookup p ip) (lookup u ip)" by (simp add: sim_def)
  then show ?thesis
    by (auto simp: sim_entry_def IsLockedOut_def split: option.splits)
qed

lemma sim_prune:
  assumes "sim now p u"
  shows "sim now (tracker_prune now p) u"
  unfolding sim_def
proof (intro conjI allI)
  show "distinct (map fst (tracker_prune now p))"
    using assms by (simp add: sim_def tracker_prune_def Let_def distinct_filter_keys)
  fix ip
  have e: "sim_entry now (lookup p ip) (lookup u ip)" and d: "distinct (map fst p)"
    using assms by (auto simp: sim_def)
  show "sim_entry now (lookup (tracker_prune now p) ip) (lookup u ip)"
    using e unfolding tracker_prune_def Let_def lookup_filter [OF d]
    by (auto simp: sim_entry_def duration_defs split: option.splits if_splits)
qed

lemma sim_strike:
  assumes "sim now p u" "0 \<le> now"
  shows "sim now (RecordInvalidStrike now ip p) (RecordInvalidStrike now ip u)"
  unfolding sim_def
proof (intro conjI allI)
  show "distinct (map fst (RecordInvalidStrike now ip p))"
    using assms by (simp add: sim_def RecordInvalidStrike_def Let_def distinct_update)
  fix ip'
  have "sim_entry now (lookup p ip) (lookup u ip)" "sim_entry now (lookup p ip') (lookup u ip')"
    using assms by (auto simp: sim_def)
  then show "sim_entry now (lookup (RecordInvalidStrike now ip p) ip') (lookup (RecordInvalidStrike now ip u) ip')"
    using assms(2)
    by (auto simp: RecordInvalidStrike_def Let_def sim_entry_def strikeThreshold_def duration_defs
        split: option.splits)
qed

lemma sim_run:
  assumes "sim t p u" "0 \<le> t" "in_order t es"
  shows "run es p = run (filter (\<lambda>e. \<not> is_prune e) es) u"
  using assms
proof (induction es arbitrary: t p u)
  case (Cons e es)
  then have s: "sim (event_time e) p u" and p: "0 \<le> event_time e" and o: "in_order (event_time e) es"
    by (auto intro: sim_later)
  show ?case
  proof (cases e)
    case (Strike ip now)
    with s p o show ?thesis using Cons.IH [OF sim_strike] by simp
  next
    case (Query ip now)
    with s p o show ?thesis using Cons.IH sim_IsLockedOut by simp
  next
    case (Prune now)
    with s p o show ?thesis using Cons.IH [OF sim_prune] by simp
  qed
qed simp

text \<open>
  The cleanup goroutine is invisible.  However strikes, lockout queries of any
  addresses and pruning passes interleave, as long as the clock does not run backwards
  the tracker answers every query exactly as a tracker that never forgets anything.
\<close>

theorem prune_unobservable:
  assumes "0 \<le> t" "in_order t es"
  shows "run es newInvalidSubmissionTracker =
    run (filter (\<lambda>e. \<not> is_prune e) es) newInvalidSubmissionTracker"
  using assms sim_run [of t newInvalidSubmissionTracker newInvalidSubmissionTracker es]
  by (simp add: sim_def newInvalidSubmissionTracker_def sim_entry_def)

theorem prune_unobservable_witness:
  "run [Strike ''a'' 1, Prune (8 * Hour), Query ''a'' (8 * Hour)] newInvalidSubmissionTracker =
   run [Strike ''a'' 1, Query ''a'' (8 * Hour)] newInvalidSubmissionTracker"
  using prune_unobservable [of 0 "[Strike ''a'' 1, Prune (8 * Hour), Query ''a'' (8 * Hour)]"]
  by (simp add: duration_defs)

section \<open>When an address is locked out\<close>

text \<open>Strikes of one address, at the given instants.\<close>

fun strike_all :: "string \<Rightarrow> time list \<Rightarrow> tracker \<Rightarrow> tracker" where
  "strike_all ip [] t = t"
| "strike_all ip (now # ts) t = strike_all ip ts (RecordInvalidStrike now ip t)"

lemma strike_known:
  assumes "lookup t ip = Some s" "now - windowStart s \<le> strikeWindow"
  shows "lookup (RecordInvalidStrike now ip t) ip =
    Some (s\<lparr>strikes := strikes s + 1,
      lockedUntil := if strikeThreshold \<le> strikes s + 1 then now + lockoutDuration else lockedUntil s\<rparr>)"
  using assms by (simp add: RecordInvalidStrike_def Let_def)

lemma strike_all_known:
  assumes "lookup t ip = Some s" "\<forall>x\<in>set ts. x - windowStart s \<le> strikeWindow"
  shows "lookup (strike_all ip ts t) ip =
    Some (s\<lparr>strikes := strikes s + length ts,
      lockedUntil := if ts \<noteq> [] \<and> strikeThreshold \<le> strikes s + length ts
                     then last ts + lockoutDuration else lockedUntil s\<rparr>)"
  using assms
proof (induction ts arbitrary: t s)
  case (Cons x ts)
  show ?case
    using Cons.prems Cons.IH [OF strike_known [of t ip s x]]
    by (auto simp: strikeThreshold_def)
qed simp

lemma strike_first:
  "lookup (RecordInvalidStrike now ip newInvalidSubmissionTracker) ip =
    Some \<lparr>strikes = 1, windowStart = now, lockedUntil = 0\<rparr>"
  by (simp add: RecordInvalidStrike_def newInvalidSubmissionTracker_def Let_def strikeThreshold_def
      duration_defs)

lemma strike_all_other: "ip' \<noteq> ip \<Longrightarrow> lookup (strike_all ip ts t) ip' = lookup t ip'"
  by (induction ip ts t rule: strike_all.induct) (auto simp: RecordInvalidStrike_def Let_def)

text \<open>
  The lockout rule, exactly.  From a fresh tracker, strikes inside one window of an
  hour lock the address out if and only if there are at least four of them; the lockout
  lasts six hours from the last strike and the reported remainder is what is left of
  it; no other address is affected.
\<close>

theorem lockout_threshold:
  assumes "ts \<noteq> []" "\<forall>x\<in>set ts. x - hd ts \<le> Hour" "0 \<le> now"
  shows "IsLockedOut now ip (strike_all ip ts newInvalidSubmissionTracker) =
      (if 4 \<le> length ts \<and> now < last ts + 6 * Hour then (True, last ts + 6 * Hour - now) else (False, 0)) \<and>
    (ip' = ip \<or> IsLockedOut now ip' (strike_all ip ts newInvalidSubmissionTracker) = (False, 0))"
proof -
  obtain x xs where ts: "ts = x # xs" using assms(1) by (cases ts) auto
  have "lookup (strike_all ip ts newInvalidSubmissionTracker) ip =
    Some \<lparr>strikes = length ts, windowStart = x,
      lockedUntil = if xs \<noteq> [] \<and> strikeThreshold \<le> 1 + length xs then last xs + lockoutDuration else 0\<rparr>"
    using assms(2) strike_all_known [OF strike_first [of x ip], of xs]
    by (auto simp: ts strikeWindow_def)
  moreover have "lookup (strike_all ip ts newInvalidSubmissionTracker) ip' = None" if "ip' \<noteq> ip"
    using strike_all_other [OF that, of ts newInvalidSubmissionTracker]
    by (simp add: newInvalidSubmissionTracker_def)
  ultimately show ?thesis
    using assms(3)
    by (cases "ip' = ip") (auto simp: IsLockedOut_def strikeThreshold_def lockoutDuration_def ts)
qed

theorem lockout_threshold_witness:
  "IsLockedOut 5 ''10.0.0.1'' (strike_all ''10.0.0.1'' [1, 2, 3, 4] newInvalidSubmissionTracker) =
     (True, 6 * Hour - 1)"
  using lockout_threshold [of "[1, 2, 3, 4]" 5 "''10.0.0.1''" "''10.0.0.1''"]
  by (simp add: duration_defs)

end
