(* ===== verification/Address_Policy.thy ===== *)
theory Address_Policy
  imports Go_Net
begin

text \<open>
  The address rules of the program: \<^verbatim>\<open>internal/netaddr/netaddr.go\<close> (which IP
  addresses may never be dialled, and the IPv4 host of an address),
  \<^verbatim>\<open>internal/api/validate.go\<close> (which submitted hosts are accepted),
  \<^verbatim>\<open>internal/api/multiaddr.go\<close> (the multiaddr form of an address),
  \<^verbatim>\<open>internal/api/privacy.go\<close>'s address classification, and the two copies of the
  peer-address filter, \<^verbatim>\<open>peerAddressAllowed\<close> in \<^verbatim>\<open>internal/collector/collector.go\<close> and
  \<^verbatim>\<open>isClaimedAddressAllowed\<close> in \<^verbatim>\<open>cmd/netmap-p2p-responder/responder.go\<close>.
\<close>

section \<open>netaddr\<close>

definition IsPrivateOrReservedIP :: "ip \<Rightarrow> bool" where
  "IsPrivateOrReservedIP i \<longleftrightarrow>
     IsPrivate i \<or> IsLoopback i \<or> IsLinkLocalUnicast i \<or>
     IsLinkLocalMulticast i \<or> IsMulticast i \<or> IsUnspecified i"

definition IPv4Host :: "string \<Rightarrow> string option" where
  "IPv4Host address =
     (case SplitHostPort address of
        Inl _ \<Rightarrow> None
      | Inr (host, _) \<Rightarrow>
          (case ParseIP host of
             None \<Rightarrow> None
           | Some i \<Rightarrow> (case To4 i of None \<Rightarrow> None | Some ip4 \<Rightarrow> Some (ip_String ip4))))"

section \<open>validate.go\<close>

text \<open>
  \<^verbatim>\<open>onionHostPattern\<close>: a label of 16 or 56 characters of \<^verbatim>\<open>[a-z2-7]\<close> and the suffix
  \<^verbatim>\<open>.onion\<close>.  With the flag \<^verbatim>\<open>(?i)\<close> Go's class \<^verbatim>\<open>[a-z]\<close> also contains upper case and the
  two runes that fold to an ASCII letter, U+017F and U+212A; each counts as one character.
\<close>

fun onion_label_runes :: "string \<Rightarrow> nat option" where
  "onion_label_runes [] = Some 0"
| "onion_label_runes (a # s) =
     (let n = of_char a :: nat in
      if (97 \<le> n \<and> n \<le> 122) \<or> (65 \<le> n \<and> n \<le> 90) \<or> (50 \<le> n \<and> n \<le> 55)
        then map_option Suc (onion_label_runes s)
      else if n = 0xC5 \<and> take 1 s = [CHR 0xBF] then map_option Suc (onion_label_runes (drop 1 s))
      else if n = 0xE2 \<and> take 2 s = [CHR 0x84, CHR 0xAA] then map_option Suc (onion_label_runes (drop 2 s))
      else None)"

definition onionHostPattern :: "string \<Rightarrow> bool" where
  "onionHostPattern s \<longleftrightarrow>
     has_suffix (map lower_char s) ''.onion'' \<and>
     onion_label_runes (take (length s - 6) s) \<in> {Some 16, Some 56}"

definition validateHostSyntax :: "string \<Rightarrow> unit result" where
  "validateHostSyntax host =
     (if ParseIP host \<noteq> None then Ok ()
      else if onionHostPattern (to_lower host) then Ok ()
      else Fail (Err ''host must be a valid IP address or .onion address''))"

definition validateSubmittedHost :: "string \<Rightarrow> unit result" where
  "validateSubmittedHost host =
     (case validateHostSyntax host of
        Inl e \<Rightarrow> Fail e
      | Inr _ \<Rightarrow>
          (case ParseIP host of
             Some i \<Rightarrow> if IsPrivateOrReservedIP i
                        then Fail (Err ''private/reserved IP addresses are not allowed'') else Ok ()
           | None \<Rightarrow> Ok ()))"

section \<open>multiaddr.go\<close>

definition onionSuffix :: string where "onionSuffix = ''.onion''"

definition addressToMultiaddr :: "string \<Rightarrow> string result" where
  "addressToMultiaddr addr =
     (case SplitHostPort addr of
        Inl e \<Rightarrow> Fail (Err ''api: address is not a valid host:port'')
      | Inr (host, port) \<Rightarrow>
          if ParseUint port 16 = None then Fail (Err ''api: address has an invalid port'')
          else if has_suffix (to_lower host) onionSuffix then
            (let onionHost = take (length host - length onionSuffix) host in
             if onionHost = [] then Fail (Err ''api: address has an empty onion host'')
             else Ok (''/onion3/'' @ onionHost @ '':'' @ port))
          else
            (case ParseIP host of
               None \<Rightarrow> Fail (Err ''api: host is neither a valid IP nor a .onion address'')
             | Some i \<Rightarrow>
                 if To4 i \<noteq> None then Ok (''/ip4/'' @ ip_String i @ ''/tcp/'' @ port)
                 else Ok (''/ip6/'' @ ip_String i @ ''/tcp/'' @ port)))"

section \<open>Address kinds\<close>

datatype addrKind = addrKindUnknown | addrKindIPv4 | addrKindIPv6 | addrKindOnion

definition classifyAddress :: "string \<Rightarrow> addrKind" where
  "classifyAddress address =
     (case SplitHostPort address of
        Inl _ \<Rightarrow> addrKindUnknown
      | Inr (host, _) \<Rightarrow>
          if has_suffix (to_lower host) ''.onion'' then addrKindOnion
          else (case ParseIP host of
                  None \<Rightarrow> addrKindUnknown
                | Some i \<Rightarrow> if To4 i \<noteq> None then addrKindIPv4 else addrKindIPv6))"

section \<open>Peer-reported addresses\<close>

definition peerAddressAllowed :: "string \<Rightarrow> bool" where
  "peerAddressAllowed hostPort =
     (case SplitHostPort hostPort of
        Inl _ \<Rightarrow> False
      | Inr (host, _) \<Rightarrow>
          (case ParseIP host of None \<Rightarrow> True | Some i \<Rightarrow> \<not> IsPrivateOrReservedIP i))"

definition isClaimedAddressAllowed :: "string \<Rightarrow> bool" where
  "isClaimedAddressAllowed hostPort =
     (case SplitHostPort hostPort of
        Inl _ \<Rightarrow> False
      | Inr (host, _) \<Rightarrow>
          (case ParseIP host of None \<Rightarrow> True | Some i \<Rightarrow> \<not> IsPrivateOrReservedIP i))"

section \<open>The reserved ranges\<close>

text \<open>
  The specification of the reserved class: the IPv4 address as a number, and the
  blocks of RFC 1918, loopback, link-local, multicast and the unspecified address as
  intervals of numbers.
\<close>

definition ipv4_num :: "bytes \<Rightarrow> nat" where
  "ipv4_num q = unat (q ! 0) * 2 ^ 24 + unat (q ! 1) * 2 ^ 16 + unat (q ! 2) * 2 ^ 8 + unat (q ! 3)"

definition cidr :: "nat \<Rightarrow> nat \<Rightarrow> nat \<Rightarrow> nat \<Rightarrow> nat \<Rightarrow> nat set" where
  "cidr a b c d len = (let base = a * 2 ^ 24 + b * 2 ^ 16 + c * 2 ^ 8 + d in {base ..< base + 2 ^ (32 - len)})"

definition reserved_blocks :: "nat set" where
  "reserved_blocks = cidr 10 0 0 0 8 \<union> cidr 172 16 0 0 12 \<union> cidr 192 168 0 0 16 \<union>
     cidr 127 0 0 0 8 \<union> cidr 169 254 0 0 16 \<union> cidr 224 0 0 0 4 \<union> cidr 0 0 0 0 32"

text \<open>The masks of the class predicates as comparisons of numbers.\<close>

lemma and_push_bit: "a AND push_bit n b = push_bit n (drop_bit n a AND b)" for a b :: nat
  by (rule bit_eqI) (auto simp: bit_and_iff bit_push_bit_iff bit_drop_bit_eq)

lemma unat_and_high:
  fixes b :: byte
  assumes "k \<le> 8" "unat m = push_bit k (mask (8 - k))"
  shows "unat (b AND m) = unat b div 2 ^ k * 2 ^ k"
proof -
  have "unat b < 2 ^ 8" using unsigned_less [of b, where ?'a = nat] by simp
  then have "unat b < 2 ^ (8 - k) * 2 ^ k" using assms(1) by (simp flip: power_add)
  then have lt: "unat b div 2 ^ k < 2 ^ (8 - k)"
    by (rule less_mult_imp_div_less)
  have "unat (b AND m) = unat b AND unat m" by (rule unsigned_and_eq)
  also have "\<dots> = push_bit k (take_bit (8 - k) (unat b div 2 ^ k))"
    by (simp only: assms(2) and_push_bit drop_bit_eq_div take_bit_eq_mask)
  also have "\<dots> = unat b div 2 ^ k * 2 ^ k"
    using lt by (simp add: push_bit_eq_mult take_bit_eq_mod)
  finally show ?thesis .
qed

lemma div_mult_eq_iff: "0 < m \<Longrightarrow> x div m * m = k * m \<longleftrightarrow> k * m \<le> x \<and> x < k * m + m" for m :: nat
  using div_times_less_eq_dividend [of x m] dividend_less_div_times [of m x]
  by (auto simp: ac_simps intro!: div_nat_eqI)

lemma byte_masks:
  fixes b :: byte
  shows "b AND 0xf0 = 16 \<longleftrightarrow> 16 \<le> unat b \<and> unat b < 32"
    and "b AND 0xf0 = 0xe0 \<longleftrightarrow> 224 \<le> unat b \<and> unat b < 240"
    and "b AND 0xfe = 0xfc \<longleftrightarrow> 252 \<le> unat b \<and> unat b < 254"
    and "b AND 0xc0 = 0x80 \<longleftrightarrow> 128 \<le> unat b \<and> unat b < 192"
proof -
  have f0: "unat (b AND 0xf0) = unat b div 16 * 16"
    using unat_and_high [of 4 "0xf0" b] by (simp add: mask_eq_exp_minus_1 push_bit_eq_mult)
  have fe: "unat (b AND 0xfe) = unat b div 2 * 2"
    using unat_and_high [of 1 "0xfe" b] by (simp add: mask_eq_exp_minus_1 push_bit_eq_mult)
  have c0: "unat (b AND 0xc0) = unat b div 64 * 64"
    using unat_and_high [of 6 "0xc0" b] by (simp add: mask_eq_exp_minus_1 push_bit_eq_mult)
  have eq: "x = y \<longleftrightarrow> unat x = unat y" for x y :: byte by (simp add: word_unat_eq_iff)
  show "b AND 0xf0 = 16 \<longleftrightarrow> 16 \<le> unat b \<and> unat b < 32"
    unfolding eq f0 using div_mult_eq_iff [of 16 "unat b" 1] by simp
  show "b AND 0xf0 = 0xe0 \<longleftrightarrow> 224 \<le> unat b \<and> unat b < 240"
    unfolding eq f0 using div_mult_eq_iff [of 16 "unat b" 14] by simp
  show "b AND 0xfe = 0xfc \<longleftrightarrow> 252 \<le> unat b \<and> unat b < 254"
    unfolding eq fe using div_mult_eq_iff [of 2 "unat b" 126] by simp
  show "b AND 0xc0 = 0x80 \<longleftrightarrow> 128 \<le> unat b \<and> unat b < 192"
    unfolding eq c0 using div_mult_eq_iff [of 64 "unat b" 2] by simp
qed

lemma byte_eq_num: "(b :: byte) = numeral n \<longleftrightarrow> unat b = unat (numeral n :: byte)"
  by (rule word_unat_eq_iff)

lemma byte_eq_01: "(b :: byte) = 0 \<longleftrightarrow> unat b = 0" "(b :: byte) = 1 \<longleftrightarrow> unat b = 1"
  by (auto simp: word_unat_eq_iff)

lemma unspecified_v4:
  "length q = 4 \<Longrightarrow> IsUnspecified (v4InV6Prefix @ q) \<longleftrightarrow> q = [0, 0, 0, 0]"
  by (auto simp: IsUnspecified_def ip_Equal_def IPv4zero_def IPv6unspecified_def v4InV6Prefix_def
      numeral_eq_Suc)

lemma reserved_v4_cases:
  assumes "length q = 4"
  shows "IsPrivateOrReservedIP (v4InV6Prefix @ q) \<longleftrightarrow>
    q ! 0 = 10 \<or> (q ! 0 = 172 \<and> q ! 1 AND 0xf0 = 16) \<or> (q ! 0 = 192 \<and> q ! 1 = 168) \<or>
    q ! 0 = 127 \<or> (q ! 0 = 169 \<and> q ! 1 = 254) \<or> q ! 0 AND 0xf0 = 0xe0 \<or> q = [0, 0, 0, 0]"
proof -
  have mc: "q ! 0 = 224 \<Longrightarrow> q ! 0 AND 0xf0 = 0xe0" by simp
  show ?thesis
    using mc unspecified_v4 [OF assms] assms
    by (simp add: IsPrivateOrReservedIP_def IsPrivate_def IsLoopback_def IsLinkLocalUnicast_def
        IsLinkLocalMulticast_def IsMulticast_def) (metis mc)
qed

text \<open>Each block of the reserved set, as a condition on the four octets.\<close>

lemma cidr_blocks:
  fixes a b c d :: nat
  assumes "a < 256" "b < 256" "c < 256" "d < 256"
  defines "n \<equiv> a * 2 ^ 24 + b * 2 ^ 16 + c * 2 ^ 8 + d"
  shows "n \<in> cidr 10 0 0 0 8 \<longleftrightarrow> a = 10"
    and "n \<in> cidr 172 16 0 0 12 \<longleftrightarrow> a = 172 \<and> 16 \<le> b \<and> b < 32"
    and "n \<in> cidr 192 168 0 0 16 \<longleftrightarrow> a = 192 \<and> b = 168"
    and "n \<in> cidr 127 0 0 0 8 \<longleftrightarrow> a = 127"
    and "n \<in> cidr 169 254 0 0 16 \<longleftrightarrow> a = 169 \<and> b = 254"
    and "n \<in> cidr 224 0 0 0 4 \<longleftrightarrow> 224 \<le> a \<and> a < 240"
    and "n \<in> cidr 0 0 0 0 32 \<longleftrightarrow> a = 0 \<and> b = 0 \<and> c = 0 \<and> d = 0"
proof -
  have r: "b * 2 ^ 16 + c * 2 ^ 8 + d < 2 ^ 24" "c * 2 ^ 8 + d < 2 ^ 16" using assms(1-4) by simp_all
  show "n \<in> cidr 10 0 0 0 8 \<longleftrightarrow> a = 10" "n \<in> cidr 127 0 0 0 8 \<longleftrightarrow> a = 127"
    using r(1) unfolding n_def cidr_def by auto
  show "n \<in> cidr 224 0 0 0 4 \<longleftrightarrow> 224 \<le> a \<and> a < 240"
    using r(1) unfolding n_def cidr_def by auto
  have dm: "(a * 256 + b) div 256 = a" "(a * 256 + b) mod 256 = b"
    using assms(2) by simp_all
  have ab: "n \<in> {k * 2 ^ 16 ..< k * 2 ^ 16 + 2 ^ 16} \<longleftrightarrow> a * 256 + b = k" for k
    using r(2) unfolding n_def by auto
  show "n \<in> cidr 192 168 0 0 16 \<longleftrightarrow> a = 192 \<and> b = 168"
  proof -
    have "a * 256 + b = 49320 \<longleftrightarrow> a = 192 \<and> b = 168"
    proof
      assume h: "a * 256 + b = 49320"
      then have "a = 192" using dm(1) by simp
      with h show "a = 192 \<and> b = 168" by simp
    qed simp
    then show ?thesis using ab [of 49320] by (simp add: cidr_def)
  qed
  show "n \<in> cidr 169 254 0 0 16 \<longleftrightarrow> a = 169 \<and> b = 254"
  proof -
    have "a * 256 + b = 43518 \<longleftrightarrow> a = 169 \<and> b = 254"
    proof
      assume h: "a * 256 + b = 43518"
      then have "a = 169" using dm(1) by simp
      with h show "a = 169 \<and> b = 254" by simp
    qed simp
    then show ?thesis using ab [of 43518] by (simp add: cidr_def)
  qed
  show "n \<in> cidr 172 16 0 0 12 \<longleftrightarrow> a = 172 \<and> 16 \<le> b \<and> b < 32"
  proof -
    have "n \<in> {44048 * 2 ^ 16 ..< 44064 * 2 ^ 16} \<longleftrightarrow> 44048 \<le> a * 256 + b \<and> a * 256 + b < 44064"
      using r(2) unfolding n_def by auto
    moreover have "44048 \<le> a * 256 + b \<and> a * 256 + b < 44064 \<longleftrightarrow> a = 172 \<and> 16 \<le> b \<and> b < 32"
    proof
      assume h: "44048 \<le> a * 256 + b \<and> a * 256 + b < 44064"
      then have "a = 172" using assms(2) by auto
      with h show "a = 172 \<and> 16 \<le> b \<and> b < 32" by simp
    qed simp
    ultimately show ?thesis by (simp add: cidr_def)
  qed
  show "n \<in> cidr 0 0 0 0 32 \<longleftrightarrow> a = 0 \<and> b = 0 \<and> c = 0 \<and> d = 0"
    by (simp add: n_def cidr_def)
qed

lemma reserved_v4_iff:
  assumes "length q = 4"
  shows "IsPrivateOrReservedIP (v4InV6Prefix @ q) \<longleftrightarrow> ipv4_num q \<in> reserved_blocks"
proof -
  obtain a b c d where q: "q = [a, b, c, d]"
    using assms by (auto simp: length_Suc_conv numeral_eq_Suc)
  have lt: "unat a < 256" "unat b < 256" "unat c < 256" "unat d < 256"
    using unsigned_less [of _, where ?'a = nat and 'b = 8] by simp_all
  have q0: "q = [0, 0, 0, 0] \<longleftrightarrow> unat a = 0 \<and> unat b = 0 \<and> unat c = 0 \<and> unat d = 0"
    by (simp add: q byte_eq_01)
  show ?thesis
    unfolding reserved_v4_cases [OF assms] reserved_blocks_def ipv4_num_def Un_iff q0
    by (simp add: q byte_masks) (simp add: cidr_blocks [OF lt, simplified] byte_eq_num)
qed

text \<open>A four-byte \<^verbatim>\<open>net.IP\<close> and its sixteen-byte form are classified alike.\<close>

lemma reserved_4_16:
  assumes "length q = 4"
  shows "IsPrivateOrReservedIP q \<longleftrightarrow> IsPrivateOrReservedIP (v4InV6Prefix @ q)"
proof -
  have "To4 q = Some q" using assms by (simp add: To4_def)
  moreover have "IsUnspecified q \<longleftrightarrow> IsUnspecified (v4InV6Prefix @ q)"
    using assms by (auto simp: IsUnspecified_def ip_Equal_def IPv4zero_def IPv6unspecified_def
        v4InV6Prefix_def numeral_eq_Suc)
  ultimately show ?thesis
    using assms by (simp add: IsPrivateOrReservedIP_def IsPrivate_def IsLoopback_def
        IsLinkLocalUnicast_def IsLinkLocalMulticast_def IsMulticast_def)
qed

text \<open>The IPv6 side: unique-local, link-local, multicast, loopback and unspecified.\<close>

lemma reserved_v6_iff:
  assumes "length i = 16" "To4 i = None"
  shows "IsPrivateOrReservedIP i \<longleftrightarrow>
    (252 \<le> unat (i ! 0) \<and> unat (i ! 0) < 254) \<or>
    (unat (i ! 0) = 254 \<and> 128 \<le> unat (i ! 1) \<and> unat (i ! 1) < 192) \<or>
    unat (i ! 0) = 255 \<or> i = IPv6loopback \<or> i = IPv6unspecified"
proof -
  have "i \<noteq> IPv4zero"
    using assms(2) To4_mapped [of "[0, 0, 0, 0]"] by (auto simp: IPv4zero_def)
  then have "IsUnspecified i \<longleftrightarrow> i = IPv6unspecified"
    using assms(1) by (auto simp: IsUnspecified_def ip_Equal_def IPv4zero_def IPv6unspecified_def
        v4InV6Prefix_def)
  moreover have "IsLoopback i \<longleftrightarrow> i = IPv6loopback"
    using assms by (auto simp: IsLoopback_def ip_Equal_def IPv6loopback_def)
  moreover have b0: "i ! 0 = 0xfe \<longleftrightarrow> unat (i ! 0) = 254" "i ! 0 = 0xff \<longleftrightarrow> unat (i ! 0) = 255"
    by (simp_all add: byte_eq_num)
  ultimately show ?thesis
    using assms
    by (simp add: IsPrivateOrReservedIP_def IsPrivate_def IsLinkLocalUnicast_def
        IsLinkLocalMulticast_def IsMulticast_def byte_masks) blast
qed

section \<open>IPv4-mapped notation\<close>

lemma takeWhile_hex_digits:
  assumes "list_all is_hex a" "\<not> is_hex c"
  shows "takeWhile is_hex (a @ c # r) = a" "dropWhile is_hex (a @ c # r) = c # r"
  using assms by (induction a) auto

lemma is_digit_hex: "is_digit c \<Longrightarrow> is_hex c"
  by (simp add: is_digit_def is_hex_def hex_val_def Let_def)

lemma Itoa_nat_hex: "list_all is_hex (Itoa_nat n)"
  using Itoa_nat_digits [of n] by (auto simp: list_all_iff is_digit_hex)

lemma Itoa_byte_length: "length (Itoa_nat (unat (b :: byte))) \<le> 4"
proof -
  have "unat b < 256" using unsigned_less [of b, where ?'a = nat] by simp
  then have "unat b div 10 div 10 < 10" by simp
  then show ?thesis
    by (subst Itoa_nat.simps, subst Itoa_nat.simps, subst Itoa_nat.simps) simp
qed

lemma hex_facts: "is_hex (CHR ''f'')" "\<not> is_hex (CHR '':'')" "\<not> is_hex (CHR ''.'')"
  by (simp_all add: is_hex_def hex_val_def)

lemma hex_group_ffff: "two_bytes (hex_group ''ffff'') = [0xff, 0xff]"
  by (simp add: two_bytes_def hex_group_def hex_val_def)

lemma parse6_loop_v4_tail:
  assumes "length q = 4"
  shows "parse6_loop (ipv4_string q) [0xff, 0xff] (Some 0) = Some ([0xff, 0xff] @ q, Some 0)"
proof -
  obtain a b c d where q: "q = [a, b, c, d]"
    using assms by (auto simp: length_Suc_conv numeral_eq_Suc)
  let ?A = "Itoa_nat (unat a)"
  obtain r where s: "ipv4_string q = ?A @ CHR ''.'' # r"
    by (simp add: ipv4_string_def q)
  then have g: "takeWhile is_hex (ipv4_string q) = ?A" "dropWhile is_hex (ipv4_string q) = CHR ''.'' # r"
    using takeWhile_hex_digits [OF Itoa_nat_hex, of "CHR ''.''" "unat a" r] hex_facts by simp_all
  have "?A \<noteq> []" "\<not> 4 < length ?A"
    using Itoa_nat_digits [of "unat a"] Itoa_byte_length [of a] by auto
  then show ?thesis
    by (subst parse6_loop.simps) (simp add: g parseIPv4Fields_String [OF assms])
qed

lemma ParseIP_mapped_string:
  assumes "length q = 4"
  shows "ParseIP (''::ffff:'' @ ipv4_string q) = Some (v4InV6Prefix @ q)"
proof -
  let ?v = "ipv4_string q" and ?s = "''ffff:'' @ ipv4_string q"
  have "?v \<noteq> []" "hd ?v \<noteq> CHR '':''"
  proof -
    show "?v \<noteq> []" using ipv4_string_chars(2) [OF assms] by auto
    then have "hd ?v \<in> insert (CHR ''.'') {c. is_digit c}"
      using ipv4_string_chars(1) [OF assms] hd_in_set [of ?v] by blast
    then show "hd ?v \<noteq> CHR '':''" using is_digit_neq(3) [of "hd ?v"] by auto
  qed
  then obtain c r where v: "?v = c # r" "c \<noteq> CHR '':''" by (cases ?v) auto
  have g: "takeWhile is_hex ?s = ''ffff''" "dropWhile is_hex ?s = CHR '':'' # ?v"
    using hex_facts by simp_all
  have "parse6_loop ?s [] (Some 0) = parse6_loop ?v [0xff, 0xff] (Some 0)"
    by (subst parse6_loop.simps) (simp only: g, simp add: v hex_group_ffff [simplified])
  then have "parse6_loop ?s [] (Some 0) = Some ([0xff, 0xff] @ q, Some 0)"
    by (simp only: parse6_loop_v4_tail [OF assms])
  moreover have "CHR ''%'' \<notin> set ?v"
    using ipv4_string_chars [OF assms] by (auto dest: is_digit_neq)
  ultimately have "parseIPv6 (''::ffff:'' @ ?v) = Some (v4InV6Prefix @ q)"
    using assms by (simp add: parseIPv6_def contains_byte_def v4InV6Prefix_def)
  then show ?thesis by (simp add: ParseIP_def)
qed

section \<open>Properties\<close>

lemma validateSubmittedHost_ip:
  "ParseIP h = Some i \<Longrightarrow> is_ok (validateSubmittedHost h) \<longleftrightarrow> \<not> IsPrivateOrReservedIP i"
  by (simp add: validateSubmittedHost_def validateHostSyntax_def)

lemma peerAddressAllowed_ip:
  assumes "ParseIP h = Some i" "plain_host h" "plain_port p"
  shows "peerAddressAllowed (JoinHostPort h p) \<longleftrightarrow> \<not> IsPrivateOrReservedIP i"
  using assms by (simp add: peerAddressAllowed_def SplitHostPort_JoinHostPort)

lemma isClaimedAddressAllowed_eq: "isClaimedAddressAllowed = peerAddressAllowed"
  by (rule ext) (simp add: isClaimedAddressAllowed_def peerAddressAllowed_def)

lemma plain_host_ipv4: "length q = 4 \<Longrightarrow> plain_host (ipv4_string q)"
  using ipv4_string_chars(1) [of q] by (auto simp: plain_host_def dest: is_digit_neq)

lemma plain_port_Itoa: "plain_port (Itoa_nat n)"
  by (simp add: plain_port_def Itoa_nat_notin)

text \<open>
  C26: SSRF hardening, IPv4.  A submitted host and a peer-reported address are accepted
  exactly when the IPv4 address they denote lies outside the RFC 1918, loopback,
  link-local, multicast and unspecified blocks, and this holds for the dotted notation
  and for the IPv4-mapped IPv6 notation alike: neither spelling gets around the filter.
\<close>

theorem ssrf_filter_ipv4:
  fixes a b c d :: byte and port :: nat
  shows "is_ok (validateSubmittedHost (ipv4_string [a, b, c, d]))
           = (ipv4_num [a, b, c, d] \<notin> reserved_blocks) \<and>
    is_ok (validateSubmittedHost (''::ffff:'' @ ipv4_string [a, b, c, d]))
           = (ipv4_num [a, b, c, d] \<notin> reserved_blocks) \<and>
    peerAddressAllowed (JoinHostPort (ipv4_string [a, b, c, d]) (Itoa_nat port))
           = (ipv4_num [a, b, c, d] \<notin> reserved_blocks) \<and>
    peerAddressAllowed (JoinHostPort (''::ffff:'' @ ipv4_string [a, b, c, d]) (Itoa_nat port))
           = (ipv4_num [a, b, c, d] \<notin> reserved_blocks) \<and>
    isClaimedAddressAllowed (JoinHostPort (''::ffff:'' @ ipv4_string [a, b, c, d]) (Itoa_nat port))
           = (ipv4_num [a, b, c, d] \<notin> reserved_blocks)"
proof -
  let ?q = "[a, b, c, d]" and ?m = "''::ffff:'' @ ipv4_string [a, b, c, d]"
  have len: "length ?q = 4" by simp
  note p4 = ParseIP_ipv4_string [OF len] and p6 = ParseIP_mapped_string [OF len]
  have pm: "plain_host ?m" using plain_host_ipv4 [OF len] by (simp add: plain_host_def)
  show ?thesis
    unfolding isClaimedAddressAllowed_eq validateSubmittedHost_ip [OF p4] validateSubmittedHost_ip [OF p6]
      peerAddressAllowed_ip [OF p4 plain_host_ipv4 [OF len] plain_port_Itoa]
      peerAddressAllowed_ip [OF p6 pm plain_port_Itoa] reserved_v4_iff [OF len]
    by blast
qed

end
