(* ===== verification/Storage_Models.thy ===== *)
theory Storage_Models
  imports Address_Policy
begin

text \<open>
  The data model of \<^verbatim>\<open>internal/storage/models.go\<close> as records, the predicates over a
  node's tags that several packages duplicate (\<^verbatim>\<open>collector.isPoolOwned\<close>,
  \<^verbatim>\<open>collector.HasOwnerTag\<close>, \<^verbatim>\<open>remotestore.isOwnedTags\<close>, \<^verbatim>\<open>api.IsCollectorRole\<close>,
  \<^verbatim>\<open>collector.isCollectorRoleTag\<close>), and the interface \<^verbatim>\<open>storage.Store\<close> as a record of
  state-passing operations, of which the Postgres store and the remote collector's store
  are instances.

  \<^verbatim>\<open>map[string]any\<close> holds decoded JSON; a nil map and an empty one are both \<open>[]\<close>.
  A pointer field is an option, a nil byte slice the empty list, and \<^verbatim>\<open>float64\<close> values,
  which the code only carries, are their 64 bits.
\<close>

section \<open>Data\<close>

datatype jval = JNull | JBool bool | JNum int | JStr string | JOther string

type_synonym tags = "(string \<times> jval) list"
type_synonym float64 = "64 word"

definition DiscoverySourceP2P :: string where "DiscoverySourceP2P = ''p2p_discovered''"
definition DiscoverySourceRegistry :: string where "DiscoverySourceRegistry = ''registry_submitted''"
definition DiscoverySourceBoth :: string where "DiscoverySourceBoth = ''both''"

definition ProbeSourceGRPC :: string where "ProbeSourceGRPC = ''grpc''"
definition ProbeSourceP2P :: string where "ProbeSourceP2P = ''p2p''"
definition ProbeSourceWalletHTTP :: string where "ProbeSourceWalletHTTP = ''wallet_http''"

lemmas source_defs = DiscoverySourceP2P_def DiscoverySourceRegistry_def DiscoverySourceBoth_def
  ProbeSourceGRPC_def ProbeSourceP2P_def ProbeSourceWalletHTTP_def

text \<open>The values the database's CHECK constraints admit.\<close>

definition valid_source :: "string \<Rightarrow> bool" where
  "valid_source s \<longleftrightarrow> s = DiscoverySourceP2P \<or> s = DiscoverySourceRegistry \<or> s = DiscoverySourceBoth"

definition valid_probe :: "string \<Rightarrow> bool" where
  "valid_probe s \<longleftrightarrow> s = ProbeSourceGRPC \<or> s = ProbeSourceP2P \<or> s = ProbeSourceWalletHTTP"

lemma sources_distinct [simp]:
  "DiscoverySourceP2P \<noteq> DiscoverySourceRegistry" "DiscoverySourceP2P \<noteq> DiscoverySourceBoth"
  "DiscoverySourceRegistry \<noteq> DiscoverySourceBoth" "DiscoverySourceRegistry \<noteq> DiscoverySourceP2P"
  "DiscoverySourceBoth \<noteq> DiscoverySourceP2P" "DiscoverySourceBoth \<noteq> DiscoverySourceRegistry"
  "DiscoverySourceP2P \<noteq> []" "DiscoverySourceRegistry \<noteq> []" "DiscoverySourceBoth \<noteq> []"
  "ProbeSourceGRPC \<noteq> []" "ProbeSourceP2P \<noteq> []" "ProbeSourceWalletHTTP \<noteq> []"
  by (simp_all add: source_defs)

record Node =
  n_ID :: uuid
  n_Address :: string
  n_PublicKey :: bytes
  n_DiscoverySource :: string
  n_Tags :: tags
  n_Label :: "string option"
  n_FirstSeen :: time
  n_LastSeen :: time
  n_WalletHTTPPort :: "int option"

record NodeAddress =
  na_ID :: uuid
  na_NodeID :: uuid
  na_Address :: string
  na_FirstSeen :: time
  na_LastSeen :: time

record NodeFilter =
  nf_DiscoverySource :: string
  nf_Limit :: int
  nf_Offset :: int
  nf_ReachableSince :: "time option"
  nf_Confirmed :: "bool option"
  nf_HasHealthChecks :: "bool option"
  nf_Owned :: "bool option"
  nf_HasWalletHTTPPort :: "bool option"
  nf_Owner :: string

definition emptyFilter :: NodeFilter where
  "emptyFilter = \<lparr>nf_DiscoverySource = [], nf_Limit = 0, nf_Offset = 0, nf_ReachableSince = None,
     nf_Confirmed = None, nf_HasHealthChecks = None, nf_Owned = None, nf_HasWalletHTTPPort = None,
     nf_Owner = []\<rparr>"

record PeerEdge =
  pe_ID :: uuid
  pe_FromNodeID :: uuid
  pe_ToNodeID :: uuid
  pe_FirstSeen :: time
  pe_LastSeen :: time

record NodeDegree =
  nd_NodeID :: uuid
  nd_Address :: string
  nd_Degree :: nat
  nd_InDegree :: nat
  nd_OutDegree :: nat
  nd_OnionPeerCount :: nat
  nd_ClearnetPeerCount :: nat
  nd_LiveDegree :: nat
  nd_LiveInDegree :: nat
  nd_LiveOutDegree :: nat
  nd_LiveOnionPeerCount :: nat
  nd_LiveClearnetPeerCount :: nat

record SeedCandidate =
  sc_NodeID :: uuid
  sc_PublicKey :: bytes
  sc_Label :: "string option"
  sc_Tags :: tags
  sc_Addresses :: "string list"

record HealthCheck =
  hc_ID :: uuid
  hc_NodeID :: uuid
  hc_Timestamp :: time
  hc_Reachable :: bool
  hc_ProbeSource :: string
  hc_Height :: "int option"
  hc_ChainTipHeight :: "int option"
  hc_Version :: "string option"
  hc_LatencyMS :: "int option"
  hc_RxtHashrate :: "float64 option"
  hc_C29Hashrate :: "float64 option"
  hc_Sha3xHashrate :: "float64 option"
  hc_PeerIdentityUpdatedAt :: "time option"

record HealthCheckInput =
  hci_NodeID :: uuid
  hci_Reachable :: bool
  hci_ProbeSource :: string
  hci_Height :: "int option"
  hci_ChainTipHeight :: "int option"
  hci_Version :: "string option"
  hci_LatencyMS :: "int option"
  hci_RxtHashrate :: "float64 option"
  hci_C29Hashrate :: "float64 option"
  hci_Sha3xHashrate :: "float64 option"
  hci_PeerIdentityUpdatedAt :: "time option"
  hci_ReportedByCollector :: "string option"
  hci_ReportBatchID :: "uuid option"

text \<open>The zero value of a \<^verbatim>\<open>HealthCheckInput\<close>, from which the code builds literals by field.\<close>

definition zeroHealthCheckInput :: HealthCheckInput where
  "zeroHealthCheckInput = \<lparr>hci_NodeID = 0, hci_Reachable = False, hci_ProbeSource = [],
     hci_Height = None, hci_ChainTipHeight = None, hci_Version = None, hci_LatencyMS = None,
     hci_RxtHashrate = None, hci_C29Hashrate = None, hci_Sha3xHashrate = None,
     hci_PeerIdentityUpdatedAt = None, hci_ReportedByCollector = None, hci_ReportBatchID = None\<rparr>"

record PeerEdgeReportMeta =
  pm_ReportedByCollector :: string
  pm_ReportBatchID :: "uuid option"

record PendingSubmission =
  ps_ID :: uuid
  ps_Address :: string
  ps_Label :: "string option"
  ps_OwnerTag :: "string option"
  ps_Status :: string
  ps_SubmittedAt :: time
  ps_ReviewedAt :: "time option"
  ps_RejectionReason :: "string option"
  ps_PromotedNodeID :: "uuid option"
  ps_ProbeAttemptedAt :: "time option"
  ps_ProbeReachable :: "bool option"

record PendingWalletSubmission =
  pw_ID :: uuid
  pw_Host :: string
  pw_WalletHTTPPort :: int
  pw_Status :: string
  pw_SubmittedAt :: time
  pw_ReviewedAt :: "time option"
  pw_RejectionReason :: "string option"
  pw_PromotedNodeID :: "uuid option"
  pw_ProbeAttemptedAt :: "time option"
  pw_ProbeReachable :: "bool option"
  pw_ProbeSucceeded :: "bool option"
  pw_ProbeCheckedAt :: "time option"
  pw_ProbeIsSynced :: "bool option"
  pw_ProbeHeight :: "int option"

record WalletProbeOutcome =
  wo_IsSynced :: bool
  wo_Height :: "int option"

record GeoIPEntry =
  ge_IP :: string
  ge_Latitude :: float64
  ge_Longitude :: float64
  ge_City :: string
  ge_Country :: string
  ge_LookedUpAt :: time
  ge_LookupFailed :: bool

definition SubmissionStatusPending :: string where "SubmissionStatusPending = ''pending''"
definition SubmissionStatusApproved :: string where "SubmissionStatusApproved = ''approved''"
definition SubmissionStatusRejected :: string where "SubmissionStatusRejected = ''rejected''"

lemmas status_defs = SubmissionStatusPending_def SubmissionStatusApproved_def SubmissionStatusRejected_def

lemma status_distinct [simp]:
  "SubmissionStatusPending \<noteq> SubmissionStatusApproved" "SubmissionStatusPending \<noteq> SubmissionStatusRejected"
  "SubmissionStatusApproved \<noteq> SubmissionStatusPending" "SubmissionStatusRejected \<noteq> SubmissionStatusPending"
  "SubmissionStatusApproved \<noteq> SubmissionStatusRejected" "SubmissionStatusRejected \<noteq> SubmissionStatusApproved"
  by (simp_all add: status_defs)

section \<open>Predicates\<close>

text \<open>The owner agreed to publication.\<close>

definition opted_in :: "Node \<Rightarrow> bool" where
  "opted_in n \<longleftrightarrow> n_DiscoverySource n \<in> {DiscoverySourceRegistry, DiscoverySourceBoth}"

fun all_unreachable :: "HealthCheck list \<Rightarrow> bool" where
  "all_unreachable [] = True"
| "all_unreachable (h # hs) = (if hc_Reachable h then False else all_unreachable hs)"

definition IsLikelyDead :: "HealthCheck list \<Rightarrow> bool" where
  "IsLikelyDead history = (if length history < 3 then False else all_unreachable history)"

definition HasOwnerTag :: "Node \<Rightarrow> bool" where
  "HasOwnerTag n = (case lookup (n_Tags n) ''owner'' of
     None \<Rightarrow> False
   | Some v \<Rightarrow> (case v of JStr s \<Rightarrow> s \<noteq> [] | _ \<Rightarrow> False))"

definition isPoolOwned :: "Node \<Rightarrow> bool" where
  "isPoolOwned n = (if lookup (n_Tags n) ''pool_owned'' = Some (JBool True) then True else HasOwnerTag n)"

text \<open>The copy in \<^verbatim>\<open>internal/remotestore/identity.go\<close>.\<close>

definition isOwnedTags :: "tags \<Rightarrow> bool" where
  "isOwnedTags tags =
     (if (case lookup tags ''pool_owned'' of Some (JBool b) \<Rightarrow> b | _ \<Rightarrow> False) then True
      else if (case lookup tags ''owner'' of Some (JStr s) \<Rightarrow> s \<noteq> [] | _ \<Rightarrow> False) then True
      else False)"

definition collectorRoleTagValue :: string where "collectorRoleTagValue = ''collector''"

definition IsCollectorRole :: "tags \<Rightarrow> bool" where
  "IsCollectorRole tags = (case lookup tags ''role'' of
     None \<Rightarrow> False
   | Some v \<Rightarrow> (case v of JStr s \<Rightarrow> s = collectorRoleTagValue | _ \<Rightarrow> False))"

definition isCollectorRoleTag :: "tags \<Rightarrow> bool" where
  "isCollectorRoleTag tags = (case lookup tags ''role'' of
     None \<Rightarrow> False
   | Some v \<Rightarrow> (case v of JStr s \<Rightarrow> s = ''collector'' | _ \<Rightarrow> False))"

fun filterOutCollectorNodes :: "Node list \<Rightarrow> Node list" where
  "filterOutCollectorNodes [] = []"
| "filterOutCollectorNodes (n # ns) =
     (if IsCollectorRole (n_Tags n) then filterOutCollectorNodes ns else n # filterOutCollectorNodes ns)"

fun filterOutCollectorSeedCandidates :: "SeedCandidate list \<Rightarrow> SeedCandidate list" where
  "filterOutCollectorSeedCandidates [] = []"
| "filterOutCollectorSeedCandidates (c # cs) =
     (if IsCollectorRole (sc_Tags c) then filterOutCollectorSeedCandidates cs
      else c # filterOutCollectorSeedCandidates cs)"

lemma all_unreachable_iff: "all_unreachable hs \<longleftrightarrow> (\<forall>h\<in>set hs. \<not> hc_Reachable h)"
  by (induction hs) auto

lemma IsLikelyDead_iff:
  "IsLikelyDead hs \<longleftrightarrow> 3 \<le> length hs \<and> (\<forall>h\<in>set hs. \<not> hc_Reachable h)"
  by (auto simp: IsLikelyDead_def all_unreachable_iff)

lemma isOwnedTags_eq: "isOwnedTags (n_Tags n) = isPoolOwned n"
  by (auto simp: isOwnedTags_def isPoolOwned_def HasOwnerTag_def split: option.splits jval.splits)

lemma isCollectorRoleTag_eq: "isCollectorRoleTag = IsCollectorRole"
  by (rule ext) (simp only: isCollectorRoleTag_def IsCollectorRole_def collectorRoleTagValue_def)

lemma filterOutCollectorNodes_eq:
  "filterOutCollectorNodes ns = filter (\<lambda>n. \<not> IsCollectorRole (n_Tags n)) ns"
  by (induction ns) auto

lemma filterOutCollectorSeedCandidates_eq:
  "filterOutCollectorSeedCandidates cs = filter (\<lambda>c. \<not> IsCollectorRole (sc_Tags c)) cs"
  by (induction cs) auto

text \<open>Writing every entry of one map into another: \<^verbatim>\<open>for k, v := range new\<close>, and Postgres' \<^verbatim>\<open>old || new\<close>.\<close>

definition merge_tags :: "tags \<Rightarrow> tags \<Rightarrow> tags" where
  "merge_tags old new = foldl (\<lambda>m (k, v). AList.update k v m) old new"

section \<open>The interface \<^verbatim>\<open>storage.Store\<close>\<close>

text \<open>
  A Go interface value is a table of methods.  Each method takes the clock reading, its
  arguments and the store's state, and returns the new state with its result; a method
  that only reads returns the state unchanged.  The methods listed are the ones the
  collector, the report handler and the responder call.
\<close>

record 's Store =
  UpsertDiscoveredNode :: "time \<Rightarrow> string \<Rightarrow> string \<Rightarrow> tags \<Rightarrow> string option \<Rightarrow> 's \<Rightarrow> 's \<times> Node result"
  UpsertConfirmedNode :: "time \<Rightarrow> string \<Rightarrow> bytes \<Rightarrow> string \<Rightarrow> 's \<Rightarrow> 's \<times> Node result"
  RecordHealthCheck :: "time \<Rightarrow> HealthCheckInput \<Rightarrow> 's \<Rightarrow> 's \<times> unit result"
  RecordPeerEdgeObservation :: "time \<Rightarrow> uuid \<Rightarrow> uuid \<Rightarrow> PeerEdgeReportMeta option \<Rightarrow> 's \<Rightarrow> 's \<times> unit result"
  ListNodes :: "NodeFilter \<Rightarrow> 's \<Rightarrow> Node list result"
  GetNode :: "uuid \<Rightarrow> 's \<Rightarrow> Node result"
  ListNodeAddresses :: "uuid \<Rightarrow> 's \<Rightarrow> NodeAddress list result"
  GetNodeHistory :: "uuid \<Rightarrow> int \<Rightarrow> 's \<Rightarrow> HealthCheck list result"
  ListNodeAddressesForNodes :: "uuid list \<Rightarrow> 's \<Rightarrow> (uuid \<times> NodeAddress list) list result"

text \<open>
  What a store promises its clients, whichever store it is.  \<open>inv\<close> is the store's own
  invariant, \<open>ids\<close> the node identifiers that can be reported on, \<open>keyed\<close> those of
  confirmed nodes, \<open>fault\<close> the errors a client that respects the preconditions must still
  expect.  An upsert returns an identifier that can be reported on, and never takes a
  confirmed node's identifier away; only the confirmation of a node may retire an
  identifier (a placeholder merged into the confirmed node).
\<close>

locale store_contract =
  fixes store :: "'s Store" and inv :: "'s \<Rightarrow> bool" and ids keyed :: "'s \<Rightarrow> uuid set"
    and fault :: "error \<Rightarrow> bool"
  assumes keyed_ids: "inv s \<Longrightarrow> keyed s \<subseteq> ids s"
    and discovered: "a \<noteq> [] \<Longrightarrow> valid_source src \<Longrightarrow>
      triple (\<lambda>s. inv s \<and> X \<subseteq> ids s \<and> K \<subseteq> keyed s) (UpsertDiscoveredNode store now a src tags label)
        (\<lambda>n s. inv s \<and> insert (n_ID n) X \<subseteq> ids s \<and> K \<subseteq> keyed s) (\<lambda>e s. inv s \<and> fault e)"
    and confirmed: "a \<noteq> [] \<Longrightarrow> pk \<noteq> [] \<Longrightarrow> valid_source src \<Longrightarrow>
      triple (\<lambda>s. inv s \<and> K \<subseteq> keyed s) (UpsertConfirmedNode store now a pk src)
        (\<lambda>n s. inv s \<and> insert (n_ID n) K \<subseteq> keyed s) (\<lambda>e s. inv s \<and> fault e)"
    and health: "hci_NodeID i \<in> X \<Longrightarrow> valid_probe (hci_ProbeSource i) \<Longrightarrow>
      triple (\<lambda>s. inv s \<and> X \<subseteq> ids s \<and> K \<subseteq> keyed s) (RecordHealthCheck store now i)
        (\<lambda>_ s. inv s \<and> X \<subseteq> ids s \<and> K \<subseteq> keyed s) (\<lambda>e s. inv s \<and> fault e)"
    and edge: "from \<in> X \<Longrightarrow> to \<in> X \<Longrightarrow>
      triple (\<lambda>s. inv s \<and> X \<subseteq> ids s \<and> K \<subseteq> keyed s) (RecordPeerEdgeObservation store now from to meta)
        (\<lambda>_ s. inv s \<and> X \<subseteq> ids s \<and> K \<subseteq> keyed s) (\<lambda>e s. inv s \<and> fault e)"

text \<open>
  The contract of the central store says more.  What has been recorded is a set of facts;
  an upsert and a recording add the fact they are meant to establish and drop none, except
  that confirming a node may drop facts about placeholders.
\<close>

datatype fact = Known uuid | Holds uuid string | Keyed uuid bytes | Checked uuid uuid | Observed uuid uuid uuid

definition anchored :: "fact set \<Rightarrow> bool" where
  "anchored F \<longleftrightarrow> (\<forall>f\<in>F. \<exists>i pk. Keyed i pk \<in> F \<and> (f = Known i \<or> (\<exists>a. f = Holds i a) \<or> (\<exists>k. f = Keyed i k)))"

locale reporting_store =
  fixes store :: "'s Store" and inv :: "'s \<Rightarrow> bool" and facts :: "'s \<Rightarrow> fact set"
    and fault :: "error \<Rightarrow> bool"
  assumes holds_known: "inv s \<Longrightarrow> Holds i a \<in> facts s \<Longrightarrow> Known i \<in> facts s"
    and keyed_known: "inv s \<Longrightarrow> Keyed i pk \<in> facts s \<Longrightarrow> Known i \<in> facts s"
    and discovered_facts: "a \<noteq> [] \<Longrightarrow> valid_source src \<Longrightarrow>
      triple (\<lambda>s. inv s \<and> F \<subseteq> facts s) (UpsertDiscoveredNode store now a src tags label)
        (\<lambda>n s. inv s \<and> insert (Holds (n_ID n) a) F \<subseteq> facts s) (\<lambda>e s. inv s \<and> fault e)"
    and confirmed_facts: "a \<noteq> [] \<Longrightarrow> pk \<noteq> [] \<Longrightarrow> valid_source src \<Longrightarrow> anchored F \<Longrightarrow>
      triple (\<lambda>s. inv s \<and> F \<subseteq> facts s) (UpsertConfirmedNode store now a pk src)
        (\<lambda>n s. inv s \<and> {Keyed (n_ID n) pk, Holds (n_ID n) a} \<union> F \<subseteq> facts s) (\<lambda>e s. inv s \<and> fault e)"
    and health_facts: "Known (hci_NodeID inp) \<in> F \<Longrightarrow> valid_probe (hci_ProbeSource inp) \<Longrightarrow>
      triple (\<lambda>s. inv s \<and> F \<subseteq> facts s) (RecordHealthCheck store now inp)
        (\<lambda>_ s. inv s \<and> F \<union> {f. \<exists>b. hci_ReportBatchID inp = Some b \<and> f = Checked (hci_NodeID inp) b} \<subseteq> facts s)
        (\<lambda>e s. inv s \<and> fault e)"
    and edge_facts: "Known x \<in> F \<Longrightarrow> Known y \<in> F \<Longrightarrow>
      triple (\<lambda>s. inv s \<and> F \<subseteq> facts s) (RecordPeerEdgeObservation store now x y meta)
        (\<lambda>_ s. inv s \<and> F \<union> {f. \<exists>m b. meta = Some m \<and> pm_ReportBatchID m = Some b \<and> f = Observed x y b} \<subseteq> facts s)
        (\<lambda>e s. inv s \<and> fault e)"

text \<open>The facts about identifiers alone make up the contract every store offers.\<close>

sublocale reporting_store \<subseteq> store_contract store inv "\<lambda>s. {i. Known i \<in> facts s}"
  "\<lambda>s. {i. \<exists>pk. Keyed i pk \<in> facts s}" fault
proof unfold_locales
  show "inv s \<Longrightarrow> {i. \<exists>pk. Keyed i pk \<in> facts s} \<subseteq> {i. Known i \<in> facts s}" for s
    using keyed_known by blast
next
  fix a :: string and src X K now tags label
  assume as: "a \<noteq> []" "valid_source src"
  show "triple (\<lambda>s. inv s \<and> X \<subseteq> {i. Known i \<in> facts s} \<and> K \<subseteq> {i. \<exists>pk. Keyed i pk \<in> facts s})
        (UpsertDiscoveredNode store now a src tags label)
        (\<lambda>n s. inv s \<and> insert (n_ID n) X \<subseteq> {i. Known i \<in> facts s} \<and> K \<subseteq> {i. \<exists>pk. Keyed i pk \<in> facts s})
        (\<lambda>e s. inv s \<and> fault e)"
  proof (rule tripleI)
    fix s s' r
    assume s: "inv s \<and> X \<subseteq> {i. Known i \<in> facts s} \<and> K \<subseteq> {i. \<exists>pk. Keyed i pk \<in> facts s}"
      and r: "UpsertDiscoveredNode store now a src tags label s = (s', r)"
    from tripleD [OF discovered_facts [OF as, of "facts s"] _ r] s
    show "case r of Inl e \<Rightarrow> inv s' \<and> fault e
      | Inr n \<Rightarrow> inv s' \<and> insert (n_ID n) X \<subseteq> {i. Known i \<in> facts s'} \<and> K \<subseteq> {i. \<exists>pk. Keyed i pk \<in> facts s'}"
      using holds_known by (cases r) fastforce+
  qed
next
  fix a :: string and pk :: bytes and src K now
  assume as: "a \<noteq> []" "pk \<noteq> []" "valid_source src"
  show "triple (\<lambda>s. inv s \<and> K \<subseteq> {i. \<exists>pk. Keyed i pk \<in> facts s}) (UpsertConfirmedNode store now a pk src)
        (\<lambda>n s. inv s \<and> insert (n_ID n) K \<subseteq> {i. \<exists>pk. Keyed i pk \<in> facts s}) (\<lambda>e s. inv s \<and> fault e)"
  proof (rule tripleI)
    fix s s' r
    assume s: "inv s \<and> K \<subseteq> {i. \<exists>pk. Keyed i pk \<in> facts s}"
      and r: "UpsertConfirmedNode store now a pk src s = (s', r)"
    let ?F = "{f \<in> facts s. \<exists>i pk. f = Keyed i pk}"
    have "anchored ?F" by (auto simp: anchored_def)
    from tripleD [OF confirmed_facts [OF as this] _ r] s
    show "case r of Inl e \<Rightarrow> inv s' \<and> fault e
      | Inr n \<Rightarrow> inv s' \<and> insert (n_ID n) K \<subseteq> {i. \<exists>pk. Keyed i pk \<in> facts s'}"
      by (cases r) (fastforce simp: subset_iff)+
  qed
next
  fix i :: HealthCheckInput and X K now
  assume as: "hci_NodeID i \<in> X" "valid_probe (hci_ProbeSource i)"
  show "triple (\<lambda>s. inv s \<and> X \<subseteq> {i. Known i \<in> facts s} \<and> K \<subseteq> {i. \<exists>pk. Keyed i pk \<in> facts s})
        (RecordHealthCheck store now i)
        (\<lambda>_ s. inv s \<and> X \<subseteq> {i. Known i \<in> facts s} \<and> K \<subseteq> {i. \<exists>pk. Keyed i pk \<in> facts s}) (\<lambda>e s. inv s \<and> fault e)"
  proof (rule tripleI)
    fix s s' r
    assume s: "inv s \<and> X \<subseteq> {i. Known i \<in> facts s} \<and> K \<subseteq> {i. \<exists>pk. Keyed i pk \<in> facts s}"
      and r: "RecordHealthCheck store now i s = (s', r)"
    from tripleD [OF health_facts [of i "facts s"] _ r] s as
    show "case r of Inl e \<Rightarrow> inv s' \<and> fault e
      | Inr _ \<Rightarrow> inv s' \<and> X \<subseteq> {i. Known i \<in> facts s'} \<and> K \<subseteq> {i. \<exists>pk. Keyed i pk \<in> facts s'}"
      by (cases r) (fastforce simp: subset_iff)+
  qed
next
  fix x y :: uuid and X K now meta
  assume as: "x \<in> X" "y \<in> X"
  show "triple (\<lambda>s. inv s \<and> X \<subseteq> {i. Known i \<in> facts s} \<and> K \<subseteq> {i. \<exists>pk. Keyed i pk \<in> facts s})
        (RecordPeerEdgeObservation store now x y meta)
        (\<lambda>_ s. inv s \<and> X \<subseteq> {i. Known i \<in> facts s} \<and> K \<subseteq> {i. \<exists>pk. Keyed i pk \<in> facts s}) (\<lambda>e s. inv s \<and> fault e)"
  proof (rule tripleI)
    fix s s' r
    assume s: "inv s \<and> X \<subseteq> {i. Known i \<in> facts s} \<and> K \<subseteq> {i. \<exists>pk. Keyed i pk \<in> facts s}"
      and r: "RecordPeerEdgeObservation store now x y meta s = (s', r)"
    from tripleD [OF edge_facts [of x "facts s" y] _ r] s as
    show "case r of Inl e \<Rightarrow> inv s' \<and> fault e
      | Inr _ \<Rightarrow> inv s' \<and> X \<subseteq> {i. Known i \<in> facts s'} \<and> K \<subseteq> {i. \<exists>pk. Keyed i pk \<in> facts s'}"
      by (cases r) (fastforce simp: subset_iff)+
  qed
qed

end
