(* ===== verification/Privacy.thy ===== *)
theory Privacy
  imports Storage_Models
begin

text \<open>
  \<^verbatim>\<open>internal/api/privacy.go\<close>: the public view of a node.  Real address strings and the
  wallet port leave the service only for nodes whose owner opted in; everybody else's
  view depends on the addresses through three capability booleans alone.
\<close>

record PublicNode =
  pn_ID :: uuid
  pn_PublicKey :: bytes
  pn_DiscoverySource :: string
  pn_Tags :: tags
  pn_Label :: "string option"
  pn_FirstSeen :: time
  pn_LastSeen :: time
  pn_HasIPv4 :: bool
  pn_HasIPv6 :: bool
  pn_HasOnion :: bool
  pn_Addresses :: "string list"
  pn_WalletHTTPPort :: "int option"

record PublicNodeDegree =
  pd_NodeID :: uuid
  pd_PublicKey :: bytes
  pd_HasIPv4 :: bool
  pd_HasIPv6 :: bool
  pd_HasOnion :: bool
  pd_Addresses :: "string list"
  pd_Degree :: nat
  pd_InDegree :: nat
  pd_OutDegree :: nat
  pd_OnionPeerCount :: nat
  pd_ClearnetPeerCount :: nat
  pd_LiveDegree :: nat
  pd_LiveInDegree :: nat
  pd_LiveOutDegree :: nat
  pd_LiveOnionPeerCount :: nat
  pd_LiveClearnetPeerCount :: nat

definition addressStrings :: "Node \<Rightarrow> NodeAddress list \<Rightarrow> string list" where
  "addressStrings n addrs =
     (if addrs = [] then (if n_Address n = [] then [] else [n_Address n])
      else map na_Address addrs)"

text \<open>The loop over the address strings, setting one capability flag per address.\<close>

fun scrubFlags :: "string list \<Rightarrow> PublicNode \<Rightarrow> PublicNode" where
  "scrubFlags [] pn = pn"
| "scrubFlags (a # as) pn = scrubFlags as
     (case classifyAddress a of
        addrKindIPv4 \<Rightarrow> pn\<lparr>pn_HasIPv4 := True\<rparr>
      | addrKindIPv6 \<Rightarrow> pn\<lparr>pn_HasIPv6 := True\<rparr>
      | addrKindOnion \<Rightarrow> pn\<lparr>pn_HasOnion := True\<rparr>
      | addrKindUnknown \<Rightarrow> pn)"

definition ScrubNode :: "Node \<Rightarrow> NodeAddress list \<Rightarrow> PublicNode" where
  "ScrubNode n addrs =
     (let pn = \<lparr>pn_ID = n_ID n, pn_PublicKey = n_PublicKey n, pn_DiscoverySource = n_DiscoverySource n,
                pn_Tags = n_Tags n, pn_Label = n_Label n, pn_FirstSeen = n_FirstSeen n,
                pn_LastSeen = n_LastSeen n, pn_HasIPv4 = False, pn_HasIPv6 = False, pn_HasOnion = False,
                pn_Addresses = [], pn_WalletHTTPPort = None\<rparr>;
          pn = scrubFlags (addressStrings n addrs) pn
      in if n_DiscoverySource n = DiscoverySourceRegistry \<or> n_DiscoverySource n = DiscoverySourceBoth
         then pn\<lparr>pn_Addresses := addressStrings n addrs, pn_WalletHTTPPort := n_WalletHTTPPort n\<rparr>
         else pn)"

definition ScrubNodeDegree :: "('s, 'x) Store_scheme \<Rightarrow> 's \<Rightarrow> NodeDegree \<Rightarrow> PublicNodeDegree result" where
  "ScrubNodeDegree store s nd =
     (case GetNode store (nd_NodeID nd) s of
        Inl e \<Rightarrow> Fail e
      | Inr n \<Rightarrow>
          (case ListNodeAddresses store (nd_NodeID nd) s of
             Inl e \<Rightarrow> Fail e
           | Inr addrs \<Rightarrow>
               (let pn = ScrubNode n addrs in
                Ok \<lparr>pd_NodeID = nd_NodeID nd, pd_PublicKey = pn_PublicKey pn, pd_HasIPv4 = pn_HasIPv4 pn,
                    pd_HasIPv6 = pn_HasIPv6 pn, pd_HasOnion = pn_HasOnion pn, pd_Addresses = pn_Addresses pn,
                    pd_Degree = nd_Degree nd, pd_InDegree = nd_InDegree nd, pd_OutDegree = nd_OutDegree nd,
                    pd_OnionPeerCount = nd_OnionPeerCount nd, pd_ClearnetPeerCount = nd_ClearnetPeerCount nd,
                    pd_LiveDegree = nd_LiveDegree nd, pd_LiveInDegree = nd_LiveInDegree nd,
                    pd_LiveOutDegree = nd_LiveOutDegree nd, pd_LiveOnionPeerCount = nd_LiveOnionPeerCount nd,
                    pd_LiveClearnetPeerCount = nd_LiveClearnetPeerCount nd\<rparr>)))"

section \<open>Facts\<close>

definition has_kind :: "addrKind \<Rightarrow> Node \<Rightarrow> NodeAddress list \<Rightarrow> bool" where
  "has_kind k n addrs \<longleftrightarrow> k \<in> classifyAddress ` set (addressStrings n addrs)"

lemma scrubFlags_eq:
  "scrubFlags as pn = pn\<lparr>
     pn_HasIPv4 := pn_HasIPv4 pn \<or> addrKindIPv4 \<in> classifyAddress ` set as,
     pn_HasIPv6 := pn_HasIPv6 pn \<or> addrKindIPv6 \<in> classifyAddress ` set as,
     pn_HasOnion := pn_HasOnion pn \<or> addrKindOnion \<in> classifyAddress ` set as\<rparr>"
proof (induction as arbitrary: pn)
  case (Cons a as)
  then show ?case by (cases "classifyAddress a") (simp_all add: Cons)
qed simp

text \<open>The whole view, field by field, in terms of the kinds present and the opt-in.\<close>

lemma ScrubNode_eq:
  "ScrubNode n addrs =
     \<lparr>pn_ID = n_ID n, pn_PublicKey = n_PublicKey n, pn_DiscoverySource = n_DiscoverySource n,
      pn_Tags = n_Tags n, pn_Label = n_Label n, pn_FirstSeen = n_FirstSeen n, pn_LastSeen = n_LastSeen n,
      pn_HasIPv4 = has_kind addrKindIPv4 n addrs, pn_HasIPv6 = has_kind addrKindIPv6 n addrs,
      pn_HasOnion = has_kind addrKindOnion n addrs,
      pn_Addresses = (if opted_in n then addressStrings n addrs else []),
      pn_WalletHTTPPort = (if opted_in n then n_WalletHTTPPort n else None)\<rparr>"
  by (simp add: ScrubNode_def scrubFlags_eq has_kind_def opted_in_def Let_def)

section \<open>Properties\<close>


definition sample_node :: Node where
  "sample_node = \<lparr>n_ID = 7, n_Address = ''1.2.3.4:18189'', n_PublicKey = [1], n_DiscoverySource = DiscoverySourceP2P,
     n_Tags = [], n_Label = None, n_FirstSeen = 1, n_LastSeen = 2, n_WalletHTTPPort = Some 9000\<rparr>"


text \<open>
  The top-peered ranking obeys the same gate: whatever store serves the node, a
  \<^verbatim>\<open>PublicNodeDegree\<close> carries an address only if the node it was built from is opted in,
  and then exactly the address strings recorded for it.
\<close>

lemma ScrubNodeDegree_gate:
  assumes "ScrubNodeDegree store s nd = Ok pd"
  shows "\<exists>n addrs. GetNode store (nd_NodeID nd) s = Ok n \<and>
    ListNodeAddresses store (nd_NodeID nd) s = Ok addrs \<and>
    pd_Addresses pd = (if opted_in n then addressStrings n addrs else []) \<and>
    pd_NodeID pd = nd_NodeID nd \<and> pd_Degree pd = nd_Degree nd \<and> pd_LiveDegree pd = nd_LiveDegree nd"
  using assms by (auto simp: ScrubNodeDegree_def ScrubNode_eq Let_def split: sum.splits)

end
