(* ===== verification/Interleaving.thy ===== *)
theory Interleaving
  imports Netmap_Prelude
begin

text \<open>
  Concurrent request handlers.  A handler is a program that alternates between local
  computation and atomic actions on the shared state (a statement of the database, an
  operation under a mutex); between two of its actions other handlers may act.  A pool of
  running programs makes one action at a time, and further programs may join it.
\<close>

section \<open>Programs\<close>

datatype ('s, 'a) prog = Done 'a | Atomic "'s \<Rightarrow> 's \<times> ('s, 'a) prog"

primrec bindP :: "('s, 'a) prog \<Rightarrow> ('a \<Rightarrow> ('s, 'b) prog) \<Rightarrow> ('s, 'b) prog" where
  "bindP (Done x) k = k x"
| "bindP (Atomic f) k = Atomic (\<lambda>s. map_prod (\<lambda>s. s) (\<lambda>p. bindP p k) (f s))"

text \<open>One action that returns a value, and one that only reads.\<close>

definition act :: "('s \<Rightarrow> 's \<times> 'a) \<Rightarrow> ('s, 'a) prog" where
  "act f = Atomic (\<lambda>s. map_prod (\<lambda>s. s) Done (f s))"

definition observe :: "('s \<Rightarrow> 'a) \<Rightarrow> ('s, 'a) prog" where
  "observe f = Atomic (\<lambda>s. (s, Done (f s)))"

text \<open>Running a program with nothing in between.\<close>

primrec runP :: "('s, 'a) prog \<Rightarrow> 's \<Rightarrow> 's \<times> 'a" where
  "runP (Done x) = (\<lambda>s. (s, x))"
| "runP (Atomic f) = (\<lambda>s. case map_prod (\<lambda>s. s) runP (f s) of (s', g) \<Rightarrow> g s')"

lemma runP_Atomic: "runP (Atomic f) s = runP (snd (f s)) (fst (f s))"
  by (simp add: split_beta)

lemma runP_bindP: "runP (bindP p k) s = (case runP p s of (s', x) \<Rightarrow> runP (k x) s')"
proof (induction p arbitrary: s)
  case (Atomic f)
  have "snd (f s) \<in> range (snd \<circ> f)" by auto
  then have "snd (f s) \<in> Basic_BNFs.snds (f s)" by (cases "f s") auto
  from Atomic [OF _ this] show ?case by (simp add: runP_Atomic del: runP.simps(2))
qed simp

lemma runP_act [simp]: "runP (act f) s = f s"
  by (simp add: act_def split_beta)

lemma runP_observe [simp]: "runP (observe f) s = (s, f s)"
  by (simp add: observe_def)

lemma bindP_act: "bindP (act f) k = Atomic (\<lambda>s. map_prod (\<lambda>s. s) k (f s))"
  by (simp add: act_def prod.map_comp comp_def)

lemma bindP_observe: "bindP (observe f) k = Atomic (\<lambda>s. (s, k (f s)))"
  by (simp add: observe_def)

section \<open>Guarantees\<close>

text \<open>Every action of the program, from whatever state it finds, is a step of \<open>R\<close>.\<close>

primrec guarantees :: "('s \<Rightarrow> 's \<Rightarrow> bool) \<Rightarrow> ('s, 'a) prog \<Rightarrow> bool" where
  "guarantees R (Done x) = True"
| "guarantees R (Atomic f) = (\<forall>s. case map_prod (\<lambda>s. s) (guarantees R) (f s) of (s', ok) \<Rightarrow> R s s' \<and> ok)"

lemma guarantees_Atomic: "guarantees R (Atomic f) \<longleftrightarrow> (\<forall>s. R s (fst (f s)) \<and> guarantees R (snd (f s)))"
  by (simp add: split_beta)

lemma guarantees_act: "(\<And>s. R s (fst (f s))) \<Longrightarrow> guarantees R (act f)"
  by (simp add: act_def split_beta)

lemma guarantees_observe: "reflp R \<Longrightarrow> guarantees R (observe f)"
  by (simp add: observe_def reflp_def)

lemma guarantees_bindP: "guarantees R p \<Longrightarrow> (\<And>x. guarantees R (k x)) \<Longrightarrow> guarantees R (bindP p k)"
proof (induction p)
  case (Atomic f)
  have "guarantees R (bindP (snd (f s)) k)" for s
  proof (rule Atomic.IH)
    show "f s \<in> range f" by simp
    show "snd (f s) \<in> Basic_BNFs.snds (f s)" by (cases "f s") auto
    show "guarantees R (snd (f s))" using Atomic.prems(1) by (simp add: guarantees_Atomic del: guarantees.simps(2))
  qed (rule Atomic.prems)
  then show ?case using Atomic.prems(1) by (simp add: guarantees_Atomic del: guarantees.simps(2))
qed simp

lemma guarantees_if: "(b \<Longrightarrow> guarantees R p) \<Longrightarrow> (\<not> b \<Longrightarrow> guarantees R q) \<Longrightarrow> guarantees R (if b then p else q)"
  by simp

lemma guarantees_option: "(v = None \<Longrightarrow> guarantees R p) \<Longrightarrow> (\<And>x. v = Some x \<Longrightarrow> guarantees R (k x)) \<Longrightarrow>
  guarantees R (case v of None \<Rightarrow> p | Some x \<Rightarrow> k x)"
  by (cases v) simp_all

lemma guarantees_sum: "(\<And>x. v = Inl x \<Longrightarrow> guarantees R (p x)) \<Longrightarrow> (\<And>x. v = Inr x \<Longrightarrow> guarantees R (k x)) \<Longrightarrow>
  guarantees R (case v of Inl x \<Rightarrow> p x | Inr x \<Rightarrow> k x)"
  by (cases v) simp_all

lemma guarantees_prod: "(\<And>x y. v = (x, y) \<Longrightarrow> guarantees R (k x y)) \<Longrightarrow> guarantees R (case v of (x, y) \<Rightarrow> k x y)"
  by (cases v) simp

lemma guarantees_Done: "guarantees R (Done x)"
  by simp

lemmas guarantees_rules = guarantees_bindP guarantees_if guarantees_option guarantees_sum guarantees_prod guarantees_Done

section \<open>Pools\<close>

text \<open>
  \<open>spawn s\<close> are the programs that may start in state \<open>s\<close>: an arriving request, a goroutine
  that was launched.  \<open>env\<close> is what the rest of the system may do to the state.
\<close>

inductive pool_step ::
  "('s \<Rightarrow> ('s, 'a) prog \<Rightarrow> bool) \<Rightarrow> ('s \<Rightarrow> 's \<Rightarrow> bool) \<Rightarrow> 's \<times> ('s, 'a) prog list \<Rightarrow> 's \<times> ('s, 'a) prog list \<Rightarrow> bool"
  for spawn env where
  Join: "spawn s p \<Longrightarrow> pool_step spawn env (s, ps) (s, ps @ [p])"
| Run: "i < length ps \<Longrightarrow> ps ! i = Atomic f \<Longrightarrow> f s = (s', p) \<Longrightarrow> pool_step spawn env (s, ps) (s', ps[i := p])"
| Env: "env s s' \<Longrightarrow> pool_step spawn env (s, ps) (s', ps)"

inductive_cases pool_stepE: "pool_step spawn env (s, ps) c"

lemma pool_step_guarantee:
  assumes "pool_step spawn env (s, ps) (s', ps')" "reflp R" "\<And>s s'. env s s' \<Longrightarrow> R s s'"
    "\<And>s p. spawn s p \<Longrightarrow> guarantees R p" "list_all (guarantees R) ps"
  shows "R s s' \<and> list_all (guarantees R) ps'"
  using assms(1)
proof (cases rule: pool_step.cases)
  case (Join p)
  then show ?thesis using assms(2,4,5) by (auto simp: reflp_def)
next
  case (Run i f p)
  have "guarantees R (Atomic f)" using Run(2,3) assms(5) by (metis list_all_length)
  then have "R s s' \<and> guarantees R p" using Run(4) by (simp add: guarantees_Atomic del: guarantees.simps(2)) (metis fst_conv snd_conv)
  moreover have "list_all (guarantees R) (ps[i := p])"
    unfolding list_all_iff using \<open>R s s' \<and> guarantees R p\<close> assms(5) set_update_subset_insert [of ps i p] by (auto simp: list_all_iff)
  ultimately show ?thesis using Run(1) by simp
qed (use assms in auto)

text \<open>What every program guarantees holds between any two states of an interleaved run.\<close>

lemma pool_guarantee:
  assumes "(pool_step spawn env)\<^sup>*\<^sup>* (s, ps) (s', ps')" "reflp R" "transp R" "\<And>s s'. env s s' \<Longrightarrow> R s s'"
    "\<And>s p. spawn s p \<Longrightarrow> guarantees R p" "list_all (guarantees R) ps"
  shows "R s s' \<and> list_all (guarantees R) ps'"
  using assms(1)
proof (induction "(s', ps')" arbitrary: s' ps' rule: rtranclp_induct)
  case base
  then show ?case using assms(2,6) by (auto simp: reflp_def)
next
  case (step c)
  obtain s1 ps1 where c: "c = (s1, ps1)" by force
  have "R s s1" "list_all (guarantees R) ps1" using step(3) c by auto
  with pool_step_guarantee [of spawn env s1 ps1 s' ps' R] step(2) c assms(2-5) show ?case by (meson transpE)
qed

text \<open>A program of the pool may run to its end while the others wait.\<close>

lemma pool_run:
  assumes "i < length ps"
  shows "(pool_step spawn env)\<^sup>*\<^sup>* (s, ps[i := p]) (fst (runP p s), ps[i := Done (snd (runP p s))])"
proof (induction p arbitrary: s)
  case (Atomic f)
  have "snd (f s) \<in> Basic_BNFs.snds (f s)" by (cases "f s") auto
  note rest = Atomic [OF _ this, of "fst (f s)"]
  have "pool_step spawn env (s, ps[i := Atomic f]) (fst (f s), (ps[i := Atomic f])[i := snd (f s)])"
    by (rule pool_step.Run [where f = f]) (use assms in simp_all)
  then have "pool_step spawn env (s, ps[i := Atomic f]) (fst (f s), ps[i := snd (f s)])" by simp
  then show ?case using rest unfolding runP_Atomic by (meson converse_rtranclp_into_rtranclp rangeI)
qed simp

end
