(* ===== verification/Multiaddr.thy ===== *)
theory Multiaddr
  imports Address_Policy
begin

text \<open>
  Decoding of Tari peer addresses, \<^verbatim>\<open>internal/collector/grpc_client.go\<close>: the textual and
  the binary multiaddr forms, and how they relate to the textual form that
  \<^verbatim>\<open>internal/api/multiaddr.go\<close> prints.  The binary decoder is a loop over the segments of
  a byte slice; it is defined with the measure that makes it terminate.
\<close>

section \<open>encoding/binary and encoding/base32\<close>

text \<open>\<^verbatim>\<open>binary.Uvarint\<close>: the value and the number of bytes read, not positive on failure.\<close>

fun uvarint_loop :: "bytes \<Rightarrow> nat \<Rightarrow> 64 word \<Rightarrow> nat \<Rightarrow> 64 word \<times> int" where
  "uvarint_loop [] i x s = (0, 0)"
| "uvarint_loop (b # r) i x s =
     (if i = 10 then (0, - (int i + 1))
      else if unat b < 0x80 then
        (if i = 9 \<and> 1 < unat b then (0, - (int i + 1))
         else (x OR push_bit s (ucast b), int i + 1))
      else uvarint_loop r (Suc i) (x OR push_bit s (ucast (b AND 0x7f))) (s + 7))"

definition Uvarint :: "bytes \<Rightarrow> 64 word \<times> int" where
  "Uvarint buf = uvarint_loop buf 0 0 0"

definition BigEndian_Uint16 :: "bytes \<Rightarrow> nat" where
  "BigEndian_Uint16 b = 256 * unat (b ! 0) + unat (b ! 1)"

definition byte_bits :: "byte \<Rightarrow> bool list" where
  "byte_bits b = map (bit b) (rev [0 ..< 8])"

fun quintets :: "bool list \<Rightarrow> nat list" where
  "quintets [] = []"
| "quintets (a # bs) =
     foldl (\<lambda>n x. 2 * n + of_bool x) 0 (take 5 ((a # bs) @ replicate 4 False)) # quintets (drop 4 bs)"

definition base32_char :: "nat \<Rightarrow> char" where
  "base32_char n = (if n < 26 then char_of (65 + n) else char_of (24 + n))"

text \<open>\<^verbatim>\<open>base32.StdEncoding.EncodeToString\<close>, with its padding to a multiple of eight characters.\<close>

definition base32_EncodeToString :: "bytes \<Rightarrow> string" where
  "base32_EncodeToString bs =
     (let cs = map base32_char (quintets (concat (map byte_bits bs)))
      in cs @ replicate ((8 - length cs mod 8) mod 8) (CHR ''=''))"

definition string_of_bytes :: "bytes \<Rightarrow> string" where
  "string_of_bytes bs = map (\<lambda>b. char_of (unat b)) bs"

definition bytes_of_string :: "string \<Rightarrow> bytes" where
  "bytes_of_string s = map (\<lambda>c. word_of_nat (of_char c)) s"

section \<open>Textual multiaddrs\<close>

definition host_protos :: "string list" where
  "host_protos = [''ip4'', ''ip6'', ''dns4'', ''dns6'', ''dns'']"

definition tcp_proto :: string where "tcp_proto = ''tcp''"

definition onion_protos :: "string list" where
  "onion_protos = [''onion'', ''onion3'']"

text \<open>The loop over the (protocol, value) pairs, carrying the host and port found so far.\<close>

fun textLoop :: "string list \<Rightarrow> string \<Rightarrow> string \<Rightarrow> (string \<times> string) option" where
  "textLoop (proto # val # rest) host port =
     (if List.member host_protos proto then textLoop rest val port
      else if proto = tcp_proto then textLoop rest host val
      else if List.member onion_protos proto then
        (case last_index_byte val (CHR '':'') of
           None \<Rightarrow> None
         | Some idx \<Rightarrow>
             (let onionHost = take idx val; onionPort = drop (Suc idx) val in
              if onionHost = [] \<or> onionPort = [] then None
              else textLoop rest (to_lower onionHost @ onionSuffix) onionPort))
      else textLoop rest host port)"
| "textLoop _ host port = Some (host, port)"

definition parseTextMultiaddr :: "bytes \<Rightarrow> string option" where
  "parseTextMultiaddr raw =
     (let s = string_of_bytes raw in
      if \<not> has_prefix s ''/'' then None
      else
        (let parts = split_byte (CHR ''/'') (trim s (CHR ''/'')) in
         if length parts < 2 \<or> length parts mod 2 \<noteq> 0 then None
         else
           (case textLoop parts [] [] of
              None \<Rightarrow> None
            | Some (host, port) \<Rightarrow>
                if host = [] \<or> port = [] then None
                else if Atoi port = None then None
                else Some (JoinHostPort host port))))"

section \<open>Binary multiaddrs\<close>

definition multiaddrProtoIP4 :: "64 word" where "multiaddrProtoIP4 = 4"
definition multiaddrProtoTCP :: "64 word" where "multiaddrProtoTCP = 6"
definition multiaddrProtoIP6 :: "64 word" where "multiaddrProtoIP6 = 41"
definition multiaddrProtoOnion :: "64 word" where "multiaddrProtoOnion = 444"
definition multiaddrProtoOnion3 :: "64 word" where "multiaddrProtoOnion3 = 445"
definition onionHostLen :: nat where "onionHostLen = 10"
definition onion3HostLen :: nat where "onion3HostLen = 35"

lemmas multiaddr_consts = multiaddrProtoIP4_def multiaddrProtoTCP_def multiaddrProtoIP6_def
  multiaddrProtoOnion_def multiaddrProtoOnion3_def onionHostLen_def onion3HostLen_def

definition decodeOnionAddr :: "bytes \<Rightarrow> nat \<Rightarrow> string option" where
  "decodeOnionAddr raw hostLen =
     (if length raw \<noteq> hostLen + 2 then None
      else
        (let host = to_lower (base32_EncodeToString (take hostLen raw)) @ ''.onion'';
             port = Itoa (int (BigEndian_Uint16 (drop hostLen raw)))
         in Some (JoinHostPort host port)))"

function binaryLoop :: "bytes \<Rightarrow> string \<Rightarrow> string \<Rightarrow> string option" where
  "binaryLoop buf host port =
     (if buf = [] then
        (if host = [] \<or> port = [] then None else Some (JoinHostPort host port))
      else
        (let (code, n) = Uvarint buf in
         if n \<le> 0 then None
         else
           (let buf = drop (nat n) buf in
            if code = multiaddrProtoIP4 then
              (if length buf < 4 then None
               else binaryLoop (drop 4 buf) (ip_String (take 4 buf)) port)
            else if code = multiaddrProtoIP6 then
              (if length buf < 16 then None
               else binaryLoop (drop 16 buf) (ip_String (take 16 buf)) port)
            else if code = multiaddrProtoTCP then
              (if length buf < 2 then None
               else binaryLoop (drop 2 buf) host (Itoa (int (BigEndian_Uint16 buf))))
            else if code = multiaddrProtoOnion then decodeOnionAddr buf onionHostLen
            else if code = multiaddrProtoOnion3 then decodeOnionAddr buf onion3HostLen
            else None)))"
  by pat_completeness auto
termination
  by (relation "measure (\<lambda>(buf, _, _). length buf)") auto

declare binaryLoop.simps [simp del]

definition parseBinaryMultiaddr :: "bytes \<Rightarrow> string option" where
  "parseBinaryMultiaddr raw = binaryLoop raw [] []"

definition parsePeerAddress :: "bytes \<Rightarrow> string option" where
  "parsePeerAddress raw =
     (if raw = [] then None
      else case parseTextMultiaddr raw of
        Some hostPort \<Rightarrow> Some hostPort
      | None \<Rightarrow> parseBinaryMultiaddr raw)"

section \<open>Facts\<close>

lemma string_of_bytes_of_string [simp]: "string_of_bytes (bytes_of_string s) = s"
proof -
  have "char_of (unat (word_of_nat (of_char c) :: byte)) = c" for c :: char
  proof -
    have "(of_char c :: nat) < 256" by (simp add: of_char_def)
    then show ?thesis by (simp add: unsigned_of_nat take_bit_eq_mod)
  qed
  then show ?thesis by (simp add: string_of_bytes_def bytes_of_string_def comp_def)
qed

lemma set_join_byte: "set (join_byte c xs) \<subseteq> insert c (\<Union> (set ` set xs))"
  by (induction c xs rule: join_byte.induct) auto

lemma hex_digit_hex: "n < 16 \<Longrightarrow> is_hex (hex_digit n)"
  by (simp add: is_hex_def hex_val_digit)

lemma hex16_hex: "set (hex16 n) \<subseteq> {c. is_hex c}" and hex16_neq_Nil: "hex16 n \<noteq> []"
proof -
  show "set (hex16 n) \<subseteq> {c. is_hex c}"
    by (auto simp: hex16_def Let_def hex_digit_hex dest!: set_dropWhileD split: if_splits)
  show "hex16 n \<noteq> []" by (simp add: hex16_def Let_def)
qed

abbreviation addr_chars :: "char set" where
  "addr_chars \<equiv> {CHR '':'', CHR ''.''} \<union> {c. is_hex c}"

lemma ipv6_string_chars: "set (ipv6_string i) \<subseteq> addr_chars"
proof -
  have "set (join_byte (CHR '':'') (map hex16 gs)) \<subseteq> addr_chars" for gs
    using set_join_byte [of "CHR '':''" "map hex16 gs"] hex16_hex by fastforce
  then show ?thesis
    by (auto simp: ipv6_string_def Let_def split: option.splits)
qed

lemma ipv6_string_neq_Nil: "length i = 16 \<Longrightarrow> ipv6_string i \<noteq> []"
proof -
  assume "length i = 16"
  then obtain a b r where "i = a # b # r"
    by (cases i; cases "tl i") auto
  then have "groups16 i \<noteq> []" by simp
  then have "join_byte (CHR '':'') (map hex16 (groups16 i)) \<noteq> []"
    by (cases "groups16 i"; cases "tl (groups16 i)") (auto simp: hex16_neq_Nil)
  then show ?thesis by (auto simp: ipv6_string_def Let_def split: option.splits)
qed

lemma ipv4_string_addr_chars: "length q = 4 \<Longrightarrow> set (ipv4_string q) \<subseteq> addr_chars"
  using ipv4_string_chars(1) [of q] is_digit_hex by auto

lemma ipv4_string_neq_Nil: "length q = 4 \<Longrightarrow> ipv4_string q \<noteq> []"
  using ipv4_string_chars(2) [of q] by auto

lemma ip_String_cases:
  assumes "length i = 4 \<or> length i = 16"
  obtains q where "To4 i = Some q" "length q = 4" "ip_String i = ipv4_string q"
  | "length i = 16" "ip_String i = ipv6_string i"
proof (cases "To4 i")
  case None
  with assms have "length i = 16" by (auto simp: To4_def)
  then have "i \<noteq> []" by auto
  with None \<open>length i = 16\<close> have "ip_String i = ipv6_string i" by (simp add: ip_String_def)
  with \<open>length i = 16\<close> show ?thesis by (rule that(2))
next
  case (Some q)
  from assms have "i \<noteq> []" by auto
  with Some show ?thesis using that(1) To4_length [OF Some] by (simp add: ip_String_def)
qed

lemma ip_String_chars:
  assumes "length i = 4 \<or> length i = 16"
  shows "set (ip_String i) \<subseteq> addr_chars" and "ip_String i \<noteq> []"
  using assms ipv6_string_chars ipv4_string_addr_chars ipv6_string_neq_Nil ipv4_string_neq_Nil
  by (metis ip_String_cases)+

lemma addr_chars_notin: "CHR ''/'' \<notin> addr_chars" "CHR ''['' \<notin> addr_chars" "CHR '']'' \<notin> addr_chars"
  by (simp_all add: is_hex_def hex_val_def)

lemma ip_String_plain:
  assumes "length i = 4 \<or> length i = 16"
  shows "plain_host (ip_String i)" and "CHR ''/'' \<notin> set (ip_String i)"
  using ip_String_chars(1) [OF assms] addr_chars_notin unfolding plain_host_def by blast+

lemma ParseUint_port:
  assumes "ParseUint port 16 \<noteq> None"
  shows "port \<noteq> []" "list_all is_digit port" "Atoi port \<noteq> None" "plain_port port" "CHR ''/'' \<notin> set port"
proof -
  from assms obtain n where n: "parse_digits port = Some n" "n < 2 ^ 16"
    by (auto simp: ParseUint_def split: option.splits if_splits)
  then show p: "port \<noteq> []" "list_all is_digit port"
    by (auto simp: parse_digits_def split: if_splits)
  then obtain c r where port: "port = c # r" "is_digit c" by (cases port) auto
  from n(2) have "int n < 2 ^ 63" by simp
  with port n(1) show "Atoi port \<noteq> None"
    by (simp add: Atoi_def is_digit_neq)
  show "plain_port port" "CHR ''/'' \<notin> set port"
    using p(2) by (auto simp: plain_port_def list_all_iff dest: is_digit_neq)
qed

subsection \<open>Textual round trip\<close>

lemma trim_slash:
  assumes "s \<noteq> []" "hd s \<noteq> c" "last s \<noteq> c"
  shows "trim (c # s) c = s"
proof -
  have "dropWhile (\<lambda>x. x = c) (c # s) = s" using assms by (cases s) auto
  moreover have "dropWhile (\<lambda>x. x = c) (rev s) = rev s"
    using assms by (cases "rev s") (auto simp: hd_rev dest: arg_cong [where f = hd])
  ultimately show ?thesis by (simp only: trim_def trim_right_def rev_rev_ident)
qed

lemma join_byte_hd_last:
  assumes "xs \<noteq> []" "\<forall>x\<in>set xs. x \<noteq> [] \<and> c \<notin> set x"
  shows "join_byte c xs \<noteq> []" "hd (join_byte c xs) \<noteq> c" "last (join_byte c xs) \<noteq> c"
proof -
  show n: "join_byte c xs \<noteq> []"
    using assms by (cases xs; cases "tl xs") auto
  show "hd (join_byte c xs) \<noteq> c"
    using assms by (cases xs; cases "tl xs") (auto simp: hd_append dest: hd_in_set)
  show "last (join_byte c xs) \<noteq> c"
    using assms
  proof (induction c xs rule: join_byte.induct)
    case (3 c x y zs)
    then have "join_byte c (y # zs) \<noteq> []" by (cases zs) auto
    with 3 show ?case by simp
  qed (auto dest: last_in_set)
qed

text \<open>Text with slash-free, non-empty segments is split into exactly those segments.\<close>

lemma parseTextMultiaddr_segments:
  assumes "xs \<noteq> []" "even (length xs)" "\<forall>x\<in>set xs. x \<noteq> [] \<and> CHR ''/'' \<notin> set x"
  shows "parseTextMultiaddr (bytes_of_string (CHR ''/'' # join_byte (CHR ''/'') xs)) =
    (case textLoop xs [] [] of
       None \<Rightarrow> None
     | Some (host, port) \<Rightarrow>
         if host = [] \<or> port = [] then None
         else if Atoi port = None then None else Some (JoinHostPort host port))"
proof -
  have "length xs \<ge> 2" using assms(1,2) by (cases xs; cases "tl xs") auto
  moreover have "split_byte (CHR ''/'') (join_byte (CHR ''/'') xs) = xs"
    using assms by (intro split_join_byte) auto
  ultimately show ?thesis
    using trim_slash [OF join_byte_hd_last [OF assms(1,3)]] assms(2)
    by (simp add: parseTextMultiaddr_def has_prefix_def)
qed

lemma parseTextMultiaddr_ip:
  assumes "List.member host_protos pr" "CHR ''/'' \<notin> set pr" "pr \<noteq> []"
    and "X \<noteq> []" "CHR ''/'' \<notin> set X"
    and port: "ParseUint port 16 \<noteq> None"
  shows "parseTextMultiaddr (bytes_of_string (''/'' @ pr @ ''/'' @ X @ ''/tcp/'' @ port)) = Some (JoinHostPort X port)"
proof -
  have "\<not> List.member host_protos tcp_proto" by (simp add: host_protos_def tcp_proto_def)
  then show ?thesis
    using parseTextMultiaddr_segments [of "[pr, X, tcp_proto, port]"] assms ParseUint_port [OF port]
    by (simp add: tcp_proto_def)
qed

lemma parseTextMultiaddr_onion3:
  assumes "h \<noteq> []" "CHR ''/'' \<notin> set h" and port: "ParseUint port 16 \<noteq> None"
  shows "parseTextMultiaddr (bytes_of_string (''/onion3/'' @ h @ '':'' @ port)) =
    Some (JoinHostPort (to_lower h @ onionSuffix) port)"
proof -
  have "last_index_byte (h @ CHR '':'' # port) (CHR '':'') = Some (length h)"
    using ParseUint_port [OF port] by (intro last_index_byte_append) (simp add: plain_port_def)
  moreover have "\<not> List.member host_protos ''onion3''" "''onion3'' \<noteq> tcp_proto" "List.member onion_protos ''onion3''"
    by (simp_all add: host_protos_def tcp_proto_def onion_protos_def)
  moreover have "to_lower h @ onionSuffix \<noteq> []" by (simp add: onionSuffix_def)
  ultimately show ?thesis
    using parseTextMultiaddr_segments [of "[''onion3'', h @ CHR '':'' # port]"] assms ParseUint_port [OF port]
    by simp
qed

subsection \<open>Binary segments\<close>

lemma Uvarint_one: "unat b < 0x80 \<Longrightarrow> Uvarint (b # r) = (ucast b, 1)"
  by (simp add: Uvarint_def)

lemma Uvarint_onion3: "Uvarint (0xbd # 0x03 # r) = (445, 2)"
  by (simp add: Uvarint_def)

lemma Itoa_int [simp]: "Itoa (int n) = Itoa_nat n"
  by (simp add: Itoa_def)

lemma binaryLoop_tcp_end:
  "host \<noteq> [] \<Longrightarrow> binaryLoop [6, hi, lo] host port = Some (JoinHostPort host (Itoa_nat (256 * unat hi + unat lo)))"
proof -
  assume h: "host \<noteq> []"
  have be: "BigEndian_Uint16 [hi, lo] = 256 * unat hi + unat lo" by (simp add: BigEndian_Uint16_def)
  have "binaryLoop [6, hi, lo] host port = binaryLoop [] host (Itoa_nat (BigEndian_Uint16 [hi, lo]))"
    by (subst binaryLoop.simps) (simp add: Uvarint_one multiaddr_consts)
  also have "\<dots> = Some (JoinHostPort host (Itoa_nat (BigEndian_Uint16 [hi, lo])))"
    using h Itoa_nat_digits by (subst binaryLoop.simps) simp
  finally show ?thesis by (simp only: be)
qed

lemma binaryLoop_ip4:
  assumes "length q = 4"
  shows "binaryLoop (4 # q @ r) host port = binaryLoop r (ip_String q) port"
  using assms by (subst binaryLoop.simps) (simp add: Uvarint_one multiaddr_consts)

lemma binaryLoop_ip6:
  assumes "length i = 16"
  shows "binaryLoop (41 # i @ r) host port = binaryLoop r (ip_String i) port"
  using assms by (subst binaryLoop.simps) (simp add: Uvarint_one multiaddr_consts)

lemma parseTextMultiaddr_not_slash:
  "unat b \<noteq> 47 \<Longrightarrow> parseTextMultiaddr (b # r) = None"
proof -
  assume b: "unat b \<noteq> 47"
  have "unat b < 256" using unsigned_less [of b, where ?'a = nat] by simp
  then have "of_char (char_of (unat b) :: char) = unat b" by (simp add: of_char_of)
  moreover have "of_char (CHR ''/'') = (47 :: nat)" by simp
  ultimately have "char_of (unat b) \<noteq> CHR ''/''" using b by metis
  then show ?thesis
    by (simp add: parseTextMultiaddr_def string_of_bytes_def has_prefix_def)
qed

subsection \<open>What the binary decoder can return\<close>

lemma foldl_bits: "foldl (\<lambda>n x. 2 * n + of_bool x) a bs < (a + 1) * 2 ^ length bs" for a :: nat
proof (induction bs arbitrary: a)
  case (Cons b bs)
  have "foldl (\<lambda>n x. 2 * n + of_bool x) (2 * a + of_bool b) bs < (2 * a + of_bool b + 1) * 2 ^ length bs"
    by (rule Cons)
  also have "\<dots> \<le> (2 * a + 2) * 2 ^ length bs" by (intro mult_right_mono) auto
  finally show ?case by (simp add: algebra_simps)
qed simp

lemma quintets_small: "\<forall>n\<in>set (quintets bs). n < 32"
proof (induction bs rule: quintets.induct)
  case (2 a bs)
  let ?q = "take 5 ((a # bs) @ replicate 4 False)"
  have "length ?q = 5" by simp
  then have "foldl (\<lambda>n x. 2 * n + of_bool x) (0 :: nat) ?q < (0 + 1) * 2 ^ 5"
    using foldl_bits [of 0 ?q] by (simp only:)
  with 2 show ?case by (simp del: take_append take_Cons_numeral)
qed simp

lemma base32_char_of: "n < 32 \<Longrightarrow> of_char (base32_char n) = (if n < 26 then 65 + n else 24 + n)"
  by (simp add: base32_char_def of_char_of)

lemma base32_lower_plain: "plain_host (to_lower (base32_EncodeToString bs) @ onionSuffix)"
proof -
  let ?s = "base32_EncodeToString bs"
  have cs: "\<forall>c\<in>set ?s. c = CHR ''='' \<or> (\<exists>n<32. c = base32_char n)"
    using quintets_small by (auto simp: base32_EncodeToString_def Let_def)
  have "(of_char c :: nat) < 128" if "c \<in> set ?s" for c
  proof -
    from cs that consider "c = CHR ''=''" | n where "n < 32" "c = base32_char n" by blast
    then show ?thesis by cases (simp_all add: base32_char_of)
  qed
  then have "is_ascii ?s" by (simp add: is_ascii_def)
  then have l: "to_lower ?s = map lower_char ?s" by (rule to_lower_ascii)
  have "lower_char c \<noteq> CHR ''[''" "lower_char c \<noteq> CHR '']''" if "c \<in> set ?s" for c
  proof -
    from cs that consider "c = CHR ''=''" | n where "n < 32" "c = base32_char n" by auto
    then have "(of_char (lower_char c) :: nat) \<noteq> 91 \<and> (of_char (lower_char c) :: nat) \<noteq> 93"
      by cases (auto simp: lower_char_def Let_def base32_char_of of_char_of)
    then show "lower_char c \<noteq> CHR ''[''" "lower_char c \<noteq> CHR '']''" by auto
  qed
  then have "CHR ''['' \<notin> lower_char ` set ?s" "CHR '']'' \<notin> lower_char ` set ?s"
    by (metis image_iff)+
  then show ?thesis by (simp add: plain_host_def l onionSuffix_def)
qed

definition port_ok :: "string \<Rightarrow> bool" where
  "port_ok port \<longleftrightarrow> port = [] \<or> (\<exists>n<65536. port = Itoa_nat n)"

lemma BigEndian_bound: "BigEndian_Uint16 b < 65536"
proof -
  have "unat (b ! 0) < 256" "unat (b ! 1) < 256"
    using unsigned_less [of _, where ?'a = nat and 'b = 8] by simp_all
  then show ?thesis by (simp add: BigEndian_Uint16_def)
qed

lemma port_ok_Itoa [simp]: "port_ok (Itoa_nat (BigEndian_Uint16 b))"
  using BigEndian_bound by (auto simp: port_ok_def)

lemma decodeOnionAddr_wf:
  assumes "decodeOnionAddr raw n = Some addr"
  shows "\<exists>host port. plain_host host \<and> host \<noteq> [] \<and> port_ok port \<and> port \<noteq> [] \<and> addr = JoinHostPort host port"
proof -
  let ?host = "to_lower (base32_EncodeToString (take n raw)) @ onionSuffix"
  let ?port = "Itoa_nat (BigEndian_Uint16 (drop n raw))"
  have "addr = JoinHostPort ?host ?port"
    using assms by (auto simp: decodeOnionAddr_def Let_def onionSuffix_def split: if_splits)
  moreover have "?host \<noteq> []" by (simp add: onionSuffix_def)
  ultimately show ?thesis
    using base32_lower_plain Itoa_nat_digits port_ok_Itoa by blast
qed

lemma binaryLoop_wf:
  assumes "binaryLoop buf host port = Some addr" "plain_host host" "port_ok port"
  shows "\<exists>host port. plain_host host \<and> host \<noteq> [] \<and> port_ok port \<and> port \<noteq> [] \<and> addr = JoinHostPort host port"
  using assms
proof (induction buf host port rule: binaryLoop.induct)
  case (1 buf host port)
  obtain code n where u: "Uvarint buf = (code, n)" by (cases "Uvarint buf")
  show ?case
  proof (cases "buf = []")
    case True
    with "1.prems" show ?thesis by (auto simp: binaryLoop.simps [of "[]"] split: if_splits)
  next
    case False
    note eq = "1.prems"(1) [unfolded binaryLoop.simps [of buf host port]]
    let ?b = "drop (nat n) buf"
    have n: "\<not> n \<le> 0" using eq False u by (auto split: if_splits)
    note IH = "1.IH" [OF False u [symmetric] refl n refl]
    consider (ip4) "code = multiaddrProtoIP4" | (ip6) "code \<noteq> multiaddrProtoIP4" "code = multiaddrProtoIP6"
      | (tcp) "code \<noteq> multiaddrProtoIP4" "code \<noteq> multiaddrProtoIP6" "code = multiaddrProtoTCP"
      | (other) "code \<noteq> multiaddrProtoIP4" "code \<noteq> multiaddrProtoIP6" "code \<noteq> multiaddrProtoTCP"
      by blast
    then show ?thesis
    proof cases
      case ip4
      with eq False u n IH(1) [OF ip4] "1.prems"(3) ip_String_plain [of "take 4 ?b"] show ?thesis
        by (auto simp: Let_def split: if_splits)
    next
      case ip6
      with eq False u n IH(2) [OF ip6] "1.prems"(3) ip_String_plain [of "take 16 ?b"] show ?thesis
        by (auto simp: Let_def split: if_splits)
    next
      case tcp
      with eq False u n IH(3) [OF tcp] "1.prems"(2) show ?thesis
        by (auto simp: Let_def split: if_splits)
    next
      case other
      with eq False u n have "\<exists>m. decodeOnionAddr ?b m = Some addr"
        by (auto simp: Let_def split: if_splits)
      then show ?thesis using decodeOnionAddr_wf by blast
    qed
  qed
qed

section \<open>Properties\<close>

text \<open>The host under which an address is stored: onion names in lower case, IPs as Go prints them.\<close>

definition canonical_host :: "string \<Rightarrow> string" where
  "canonical_host host =
     (if has_suffix (to_lower host) onionSuffix then to_lower host else ip_String (the (ParseIP host)))"

lemma to_lower_onion_split:
  assumes "is_ascii host" "has_suffix (to_lower host) onionSuffix"
  shows "to_lower host = to_lower (take (length host - length onionSuffix) host) @ onionSuffix"
proof -
  let ?n = "length host - length onionSuffix"
  have l: "to_lower host = map lower_char host" by (rule to_lower_ascii [OF assms(1)])
  have "is_ascii (take ?n host)" using assms(1) by (auto simp: is_ascii_def dest: in_set_takeD)
  then have "to_lower (take ?n host) = take ?n (to_lower host)"
    by (simp add: l to_lower_ascii take_map)
  moreover have "drop ?n (to_lower host) = onionSuffix"
  proof -
    from assms(2) obtain zs where z: "to_lower host = zs @ onionSuffix"
      by (auto simp: has_suffix_def suffix_def)
    have "length host = length zs + length onionSuffix"
      using arg_cong [OF z, where f = length] by (simp add: l)
    with z show ?thesis by simp
  qed
  ultimately show ?thesis by (metis append_take_drop_id)
qed

lemma addressToMultiaddr_inverse:
  assumes split: "SplitHostPort addr = Ok (host, port)" and m: "addressToMultiaddr addr = Ok m"
    and ascii: "is_ascii host" and sl: "CHR ''/'' \<notin> set host"
  shows "parseTextMultiaddr (bytes_of_string m) = Some (JoinHostPort (canonical_host host) port)"
proof -
  have port: "ParseUint port 16 \<noteq> None"
    using split m by (auto simp: addressToMultiaddr_def split: if_splits)
  show ?thesis
  proof (cases "has_suffix (to_lower host) onionSuffix")
    case True
    let ?h = "take (length host - length onionSuffix) host"
    have m': "m = ''/onion3/'' @ ?h @ '':'' @ port" "?h \<noteq> []"
      using True split m port by (auto simp: addressToMultiaddr_def Let_def split: if_splits)
    have "CHR ''/'' \<notin> set ?h" using sl by (auto dest: in_set_takeD)
    with True m' port show ?thesis
      using parseTextMultiaddr_onion3 [of ?h port] to_lower_onion_split [OF ascii True]
      by (simp add: canonical_host_def)
  next
    case False
    then obtain i where i: "ParseIP host = Some i"
      using split m port by (auto simp: addressToMultiaddr_def split: option.splits if_splits)
    have li: "length i = 4 \<or> length i = 16" using ParseIP_length [OF i] by simp
    have "\<exists>pr\<in>{''ip4'', ''ip6''}. m = ''/'' @ pr @ ''/'' @ ip_String i @ ''/tcp/'' @ port"
      using False i split m port by (auto simp: addressToMultiaddr_def split: if_splits)
    then obtain pr where pr: "pr \<in> {''ip4'', ''ip6''}" "m = ''/'' @ pr @ ''/'' @ ip_String i @ ''/tcp/'' @ port" ..
    then have "List.member host_protos pr" "CHR ''/'' \<notin> set pr" "pr \<noteq> []"
      by (auto simp: host_protos_def)
    then show ?thesis
      unfolding pr(2) using parseTextMultiaddr_ip [OF _ _ _ ip_String_chars(2) [OF li] ip_String_plain(2) [OF li] port]
      by (simp add: canonical_host_def False i)
  qed
qed



text \<open>
  C36: Every address the binary decoder emits is well formed: it splits again into a
  non-empty host and a port in 0..65535 printed in decimal, whatever the bytes.
\<close>

theorem parseBinaryMultiaddr_wellformed:
  assumes "parseBinaryMultiaddr raw = Some addr"
  shows "\<exists>host n. SplitHostPort addr = Ok (host, Itoa_nat n) \<and> host \<noteq> [] \<and> n < 65536"
proof -
  have "plain_host []" "port_ok []" by (simp_all add: plain_host_def port_ok_def)
  with assms obtain host port where "plain_host host" "host \<noteq> []" "port_ok port" "port \<noteq> []"
    "addr = JoinHostPort host port"
    unfolding parseBinaryMultiaddr_def by (metis binaryLoop_wf)
  then show ?thesis
    using SplitHostPort_JoinHostPort plain_port_Itoa unfolding port_ok_def by metis
qed

theorem parseBinaryMultiaddr_wellformed_witness:
  "\<exists>host n. SplitHostPort (JoinHostPort (ipv4_string [1, 2, 3, 4]) (Itoa_nat 18189)) = Ok (host, Itoa_nat n)
     \<and> host \<noteq> [] \<and> n < 65536"
proof -
  have "ip_String [1, 2, 3, 4] = ipv4_string [1, 2, 3, 4]" by (simp add: ip_String_def To4_def)
  then have "parseBinaryMultiaddr [4, 1, 2, 3, 4, 6, 0x47, 0x0D]
      = Some (JoinHostPort (ipv4_string [1, 2, 3, 4]) (Itoa_nat 18189))"
    using binaryLoop_ip4 [of "[1, 2, 3, 4]" "[6, 0x47, 0x0D]" "[]" "[]"]
      binaryLoop_tcp_end [of "ipv4_string [1, 2, 3, 4]" "0x47" "0x0D" "[]"]
    by (simp add: parseBinaryMultiaddr_def ipv4_string_neq_Nil)
  then show ?thesis by (rule parseBinaryMultiaddr_wellformed)
qed

text \<open>
  The binary encodings of the three address families a base node advertises
  (ip4/tcp, ip6/tcp and onion3) decode to the printed host and the big-endian port.
\<close>

theorem parsePeerAddress_binary:
  fixes a b c d hi lo :: byte and i h :: bytes
  assumes "length i = 16" "length h = 35"
  shows "parsePeerAddress ([4, a, b, c, d] @ [6, hi, lo]) =
           Some (JoinHostPort (ipv4_string [a, b, c, d]) (Itoa_nat (256 * unat hi + unat lo))) \<and>
    parsePeerAddress ([41] @ i @ [6, hi, lo]) =
           Some (JoinHostPort (ip_String i) (Itoa_nat (256 * unat hi + unat lo))) \<and>
    parsePeerAddress ([0xbd, 0x03] @ h @ [hi, lo]) =
           Some (JoinHostPort (to_lower (base32_EncodeToString h) @ onionSuffix)
                              (Itoa_nat (256 * unat hi + unat lo)))"
proof (intro conjI)
  have ip4: "ip_String [a, b, c, d] = ipv4_string [a, b, c, d]" by (simp add: ip_String_def To4_def)
  have "binaryLoop ([4, a, b, c, d] @ [6, hi, lo]) [] [] = binaryLoop [6, hi, lo] (ip_String [a, b, c, d]) []"
    using binaryLoop_ip4 [of "[a, b, c, d]" "[6, hi, lo]"] by simp
  then show "parsePeerAddress ([4, a, b, c, d] @ [6, hi, lo]) =
           Some (JoinHostPort (ipv4_string [a, b, c, d]) (Itoa_nat (256 * unat hi + unat lo)))"
    by (simp add: parsePeerAddress_def parseTextMultiaddr_not_slash parseBinaryMultiaddr_def ip4
        binaryLoop_tcp_end ipv4_string_neq_Nil)
  have "ip_String i \<noteq> []" using ip_String_chars(2) [of i] assms(1) by simp
  then show "parsePeerAddress ([41] @ i @ [6, hi, lo]) =
           Some (JoinHostPort (ip_String i) (Itoa_nat (256 * unat hi + unat lo)))"
    using assms(1) by (simp add: parsePeerAddress_def parseTextMultiaddr_not_slash parseBinaryMultiaddr_def
        binaryLoop_ip6 binaryLoop_tcp_end)
  have be: "BigEndian_Uint16 [hi, lo] = 256 * unat hi + unat lo" by (simp add: BigEndian_Uint16_def)
  have "binaryLoop ([0xbd, 0x03] @ h @ [hi, lo]) [] [] = decodeOnionAddr (h @ [hi, lo]) 35"
    by (subst binaryLoop.simps) (simp add: Uvarint_onion3 multiaddr_consts)
  also have "\<dots> = Some (JoinHostPort (to_lower (base32_EncodeToString h) @ onionSuffix)
                              (Itoa_nat (BigEndian_Uint16 [hi, lo])))"
    using assms(2) by (simp add: decodeOnionAddr_def Let_def onionSuffix_def)
  finally show "parsePeerAddress ([0xbd, 0x03] @ h @ [hi, lo]) =
           Some (JoinHostPort (to_lower (base32_EncodeToString h) @ onionSuffix)
                              (Itoa_nat (256 * unat hi + unat lo)))"
    by (simp add: parsePeerAddress_def parseTextMultiaddr_not_slash parseBinaryMultiaddr_def be [simplified])
qed

theorem parsePeerAddress_binary_witness:
  "parsePeerAddress ([41] @ replicate 16 0 @ [6, 0x47, 0x0D]) =
     Some (JoinHostPort (ip_String (replicate 16 0)) (Itoa_nat 18189))"
  using parsePeerAddress_binary [of "replicate 16 0" "replicate 35 0" 1 2 3 4 "0x47" "0x0D"] by simp

end
