(* ===== verification/Node_Clients.thy ===== *)
theory Node_Clients
  imports Multiaddr Storage_Models
begin

text \<open>
  \<^verbatim>\<open>internal/collector/p2p_client.go\<close>, \<^verbatim>\<open>grpc_client.go\<close> and
  \<^verbatim>\<open>wallet_http_client.go\<close>: the three implementations of the collector's \<^verbatim>\<open>NodeClient\<close>
  interface.  What the network answers is a parameter of each: the probe functions of the
  P2P library, the generated gRPC stubs and the HTTP client with the JSON decoder.
\<close>

section \<open>The interface\<close>

record NodeInfo =
  ni_Reachable :: bool
  ni_PublicKey :: bytes
  ni_Height :: "int option"
  ni_ChainTipHeight :: "int option"
  ni_Version :: "string option"
  ni_LatencyMS :: "int option"
  ni_RxtHashrate :: "float64 option"
  ni_C29Hashrate :: "float64 option"
  ni_Sha3xHashrate :: "float64 option"
  ni_PeerIdentityUpdatedAt :: "time option"
  ni_IsSynced :: "bool option"

definition zeroNodeInfo :: NodeInfo where
  "zeroNodeInfo = \<lparr>ni_Reachable = False, ni_PublicKey = [], ni_Height = None, ni_ChainTipHeight = None,
     ni_Version = None, ni_LatencyMS = None, ni_RxtHashrate = None, ni_C29Hashrate = None,
     ni_Sha3xHashrate = None, ni_PeerIdentityUpdatedAt = None, ni_IsSynced = None\<rparr>"

record DiscoveredPeer =
  dp_Address :: string
  dp_PublicKey :: bytes

text \<open>
  A client, as what it answers per address; \<^verbatim>\<open>ShardCount\<close> is \<open>None\<close> for a client that
  does not implement \<^verbatim>\<open>Sharded\<close>.
\<close>

record NodeClient =
  GetPeers :: "string \<Rightarrow> DiscoveredPeer list result"
  GetInfo :: "string \<Rightarrow> NodeInfo result"
  ShardCount :: "int option"

definition stubClient :: NodeClient where
  "stubClient = \<lparr>GetPeers = (\<lambda>_. Fail ErrNotConnected), GetInfo = (\<lambda>_. Fail ErrNotConnected), ShardCount = None\<rparr>"

definition p2pShardCount :: "NodeClient option \<Rightarrow> int" where
  "p2pShardCount client =
     (case client of
        None \<Rightarrow> 1
      | Some c \<Rightarrow> (case ShardCount c of Some n \<Rightarrow> max 1 n | None \<Rightarrow> 1))"

section \<open>Sharding\<close>

text \<open>FNV-1a over 32 bits (\<^verbatim>\<open>hash/fnv\<close>).\<close>

definition fnv32a :: "bytes \<Rightarrow> 32 word" where
  "fnv32a = foldl (\<lambda>h b. (h XOR ucast b) * 16777619) 2166136261"

definition P2PShardIndex :: "string \<Rightarrow> int \<Rightarrow> int" where
  "P2PShardIndex addr shardCount =
     (if shardCount \<le> 0 then 0
      else uint (fnv32a (bytes_of_string addr) mod (word_of_int shardCount :: 32 word)))"

section \<open>The P2P client\<close>

record ProbeOptions =
  po_SocksProxyAddr :: string
  po_NetworkByte :: byte

record ChainMetadataInfo =
  cm_BestBlockHeight :: "64 word"
  cm_Latency :: duration

record p2p_PeerInfo =
  pi_RemoteStaticPubKey :: bytes
  pi_UserAgent :: string
  pi_IdentityUpdatedAt :: "int option"

record pb_PeerInfo =
  pb_PublicKey :: bytes
  pb_Claims :: "bytes list list"

record p2pProbeFuncs =
  probeChainMetadata :: "string \<Rightarrow> ProbeOptions \<Rightarrow> ChainMetadataInfo result"
  probeGetPeers :: "string \<Rightarrow> ProbeOptions \<Rightarrow> pb_PeerInfo list result"
  probeIdentity :: "string \<Rightarrow> ProbeOptions \<Rightarrow> p2p_PeerInfo result"

record p2pNodeClient =
  probes :: p2pProbeFuncs
  socksProxyAddrs :: "string list"
  networkByte :: byte

definition NewP2PClientWithShardedProxies :: "p2pProbeFuncs \<Rightarrow> string list \<Rightarrow> byte \<Rightarrow> p2pNodeClient" where
  "NewP2PClientWithShardedProxies fs addrs nb = \<lparr>probes = fs, socksProxyAddrs = addrs, networkByte = nb\<rparr>"

definition NewP2PClientWithOptions :: "p2pProbeFuncs \<Rightarrow> string \<Rightarrow> byte \<Rightarrow> p2pNodeClient" where
  "NewP2PClientWithOptions fs socksProxyAddr nb =
     NewP2PClientWithShardedProxies fs (if socksProxyAddr \<noteq> [] then [socksProxyAddr] else []) nb"

definition proxyForAddr :: "p2pNodeClient \<Rightarrow> string \<Rightarrow> string" where
  "proxyForAddr c addr =
     (if length (socksProxyAddrs c) = 0 then []
      else socksProxyAddrs c ! nat (P2PShardIndex addr (int (length (socksProxyAddrs c)))))"

definition p2p_ShardCount :: "p2pNodeClient \<Rightarrow> int" where
  "p2p_ShardCount c = max 1 (int (length (socksProxyAddrs c)))"

text \<open>\<^verbatim>\<open>time.Duration.Milliseconds\<close>, and \<^verbatim>\<open>time.Unix(sec, 0)\<close> on instants counted from year 1.\<close>

definition Milliseconds :: "duration \<Rightarrow> int" where
  "Milliseconds d = (if 0 \<le> d then d div Millisecond else - ((- d) div Millisecond))"

definition time_Unix :: "int \<Rightarrow> time" where
  "time_Unix sec = (sec + 62135596800) * Second"

definition p2p_GetInfo :: "p2pNodeClient \<Rightarrow> string \<Rightarrow> NodeInfo result" where
  "p2p_GetInfo c addr =
     (let opts = \<lparr>po_SocksProxyAddr = proxyForAddr c addr, po_NetworkByte = networkByte c\<rparr>
      in case probeChainMetadata (probes c) addr opts of
           Inl e \<Rightarrow> Fail e
         | Inr meta \<Rightarrow>
             let info = zeroNodeInfo\<lparr>ni_Reachable := True\<rparr>;
                 info = (case probeIdentity (probes c) addr opts of
                           Inl _ \<Rightarrow> info
                         | Inr peerInfo \<Rightarrow>
                             info\<lparr>ni_PublicKey := pi_RemoteStaticPubKey peerInfo,
                                  ni_Version := (if pi_UserAgent peerInfo \<noteq> [] then Some (pi_UserAgent peerInfo) else None),
                                  ni_PeerIdentityUpdatedAt := (case pi_IdentityUpdatedAt peerInfo of
                                     Some u \<Rightarrow> if u \<noteq> 0 then Some (time_Unix u) else None
                                   | None \<Rightarrow> None)\<rparr>);
                 height = sint (cm_BestBlockHeight meta)
             in Ok (info\<lparr>ni_Height := Some height, ni_ChainTipHeight := Some height,
                         ni_LatencyMS := Some (Milliseconds (cm_Latency meta))\<rparr>))"

text \<open>The nested loop of \<^verbatim>\<open>GetPeers\<close>: \<open>add_claim\<close> is its innermost body.\<close>

definition add_claim :: "bytes \<Rightarrow> DiscoveredPeer list \<Rightarrow> bytes \<Rightarrow> DiscoveredPeer list" where
  "add_claim pubKey discovered a =
     (case parsePeerAddress a of
        None \<Rightarrow> discovered
      | Some hostPort \<Rightarrow>
          if list_ex (\<lambda>d. dp_Address d = hostPort) discovered then discovered
          else discovered @ [\<lparr>dp_Address = hostPort, dp_PublicKey = pubKey\<rparr>])"

definition add_peer :: "DiscoveredPeer list \<Rightarrow> pb_PeerInfo \<Rightarrow> DiscoveredPeer list" where
  "add_peer discovered peer = foldl (foldl (add_claim (pb_PublicKey peer))) discovered (pb_Claims peer)"

definition p2p_GetPeers :: "p2pNodeClient \<Rightarrow> string \<Rightarrow> DiscoveredPeer list result" where
  "p2p_GetPeers c addr =
     (case probeGetPeers (probes c) addr \<lparr>po_SocksProxyAddr = proxyForAddr c addr, po_NetworkByte = networkByte c\<rparr> of
        Inl e \<Rightarrow> Fail e
      | Inr peers \<Rightarrow> Ok (foldl add_peer [] peers))"

definition p2p_client :: "p2pNodeClient \<Rightarrow> NodeClient" where
  "p2p_client c = \<lparr>GetPeers = p2p_GetPeers c, GetInfo = p2p_GetInfo c, ShardCount = Some (p2p_ShardCount c)\<rparr>"

section \<open>The gRPC client\<close>

text \<open>
  \<^verbatim>\<open>BaseNode\<close> is what the node behind a dialled target answers; \<open>bn_Latency\<close> is the time
  its \<^verbatim>\<open>GetTipInfo\<close> takes.  The metadata of a tip is optional.
\<close>

record BaseNode =
  bn_dial :: "unit result"
  bn_GetTipInfo :: "64 word option result"
  bn_Latency :: duration
  bn_GetVersion :: "string result"
  bn_Identify :: "bytes result"
  bn_ListConnectedPeers :: "(bytes \<times> bytes list) list result"

record grpcNodeClient =
  grpc_net :: "string \<Rightarrow> BaseNode"
  addressMap :: "(string \<times> string) list option"

definition dialNode :: "grpcNodeClient \<Rightarrow> string \<Rightarrow> BaseNode result" where
  "dialNode c addr =
     (case (case addressMap c of None \<Rightarrow> Some addr | Some m \<Rightarrow> lookup m addr) of
        None \<Rightarrow> Fail ErrGRPCAddressUnknown
      | Some target \<Rightarrow>
          (case bn_dial (grpc_net c target) of Inl e \<Rightarrow> Fail e | Inr _ \<Rightarrow> Ok (grpc_net c target)))"

definition grpc_GetInfo :: "grpcNodeClient \<Rightarrow> string \<Rightarrow> NodeInfo result" where
  "grpc_GetInfo c addr =
     (case dialNode c addr of
        Inl e \<Rightarrow> Fail e
      | Inr client \<Rightarrow>
     (case bn_GetTipInfo client of
        Inl e \<Rightarrow> Fail e
      | Inr tip \<Rightarrow>
     (case bn_GetVersion client of
        Inl e \<Rightarrow> Fail e
      | Inr version \<Rightarrow>
          let info = zeroNodeInfo\<lparr>ni_Reachable := True\<rparr>;
              info = (case bn_Identify client of Inl _ \<Rightarrow> info | Inr key \<Rightarrow> info\<lparr>ni_PublicKey := key\<rparr>);
              info = (case tip of
                        None \<Rightarrow> info
                      | Some best \<Rightarrow> info\<lparr>ni_Height := Some (sint best), ni_ChainTipHeight := Some (sint best)\<rparr>);
              info = (if version \<noteq> [] then info\<lparr>ni_Version := Some version\<rparr> else info)
          in Ok (info\<lparr>ni_LatencyMS := Some (Milliseconds (bn_Latency client))\<rparr>))))"

definition grpc_GetPeers :: "grpcNodeClient \<Rightarrow> string \<Rightarrow> DiscoveredPeer list result" where
  "grpc_GetPeers c addr =
     (case dialNode c addr of
        Inl e \<Rightarrow> Fail e
      | Inr client \<Rightarrow>
          (case bn_ListConnectedPeers client of
             Inl e \<Rightarrow> Fail e
           | Inr resp \<Rightarrow> Ok (concat (map (\<lambda>(pubKey, addrs).
               map (\<lambda>hostPort. \<lparr>dp_Address = hostPort, dp_PublicKey = pubKey\<rparr>) (List.map_filter parsePeerAddress addrs)) resp))))"

definition grpc_client :: "grpcNodeClient \<Rightarrow> NodeClient" where
  "grpc_client c = \<lparr>GetPeers = grpc_GetPeers c, GetInfo = grpc_GetInfo c, ShardCount = None\<rparr>"

section \<open>The wallet HTTP client\<close>

definition walletHTTPMaxBodyBytes :: nat where "walletHTTPMaxBodyBytes = 64 * 1024"

record walletTipInfoResponse =
  wt_BestBlockHeight :: "64 word option"
  wt_IsSynced :: bool

text \<open>\<open>http\<close> is the answer to \<^verbatim>\<open>GET\<close> of a URL, its status and body; \<open>decode\<close> is the JSON decoder.\<close>

definition wallet_GetInfo ::
  "(string \<Rightarrow> (int \<times> bytes) result) \<Rightarrow> (bytes \<Rightarrow> walletTipInfoResponse result) \<Rightarrow> string \<Rightarrow> NodeInfo result" where
  "wallet_GetInfo http decode addr =
     (case http (''http://'' @ addr @ ''/get_tip_info'') of
        Inl e \<Rightarrow> Fail e
      | Inr (status, body) \<Rightarrow>
          if status \<noteq> 200 then Fail (Err ''unexpected status'')
          else case decode (take walletHTTPMaxBodyBytes body) of
            Inl e \<Rightarrow> Fail e
          | Inr tip \<Rightarrow>
              let info = zeroNodeInfo\<lparr>ni_Reachable := True\<rparr>;
                  info = (case wt_BestBlockHeight tip of
                            None \<Rightarrow> info
                          | Some best \<Rightarrow> info\<lparr>ni_Height := Some (sint best), ni_ChainTipHeight := Some (sint best)\<rparr>)
              in Ok (info\<lparr>ni_IsSynced := Some (wt_IsSynced tip)\<rparr>))"

definition wallet_client ::
  "(string \<Rightarrow> (int \<times> bytes) result) \<Rightarrow> (bytes \<Rightarrow> walletTipInfoResponse result) \<Rightarrow> NodeClient" where
  "wallet_client http decode = \<lparr>GetPeers = (\<lambda>_. Fail (Err ''wallet-http client does not support peer discovery'')),
     GetInfo = wallet_GetInfo http decode, ShardCount = None\<rparr>"

section \<open>Facts\<close>

lemma uint_of_shards: "0 < n \<Longrightarrow> n < 2 ^ 32 \<Longrightarrow> uint (word_of_int n :: 32 word) = n"
  by (simp add: unsigned_of_int take_bit_int_eq_self)

lemma P2PShardIndex_range:
  assumes "0 < n" "n < 2 ^ 32"
  shows "0 \<le> P2PShardIndex addr n" "P2PShardIndex addr n < n"
  using assms by (simp_all add: P2PShardIndex_def uint_mod uint_of_shards)

lemma shard_count_length: "socksProxyAddrs c \<noteq> [] \<Longrightarrow> p2p_ShardCount c = int (length (socksProxyAddrs c))"
  by (cases "socksProxyAddrs c") (simp_all add: p2p_ShardCount_def)

text \<open>What the loop over the claims keeps: no address twice, every address decoded from a claim.\<close>

definition peers_from :: "pb_PeerInfo list \<Rightarrow> DiscoveredPeer list \<Rightarrow> bool" where
  "peers_from ps ds \<longleftrightarrow> distinct (map dp_Address ds) \<and>
     (\<forall>d\<in>set ds. \<exists>p\<in>set ps. dp_PublicKey d = pb_PublicKey p \<and>
        (\<exists>as\<in>set (pb_Claims p). \<exists>a\<in>set as. parsePeerAddress a = Some (dp_Address d)))"

lemma add_claim_from:
  assumes "peers_from ps ds" "p \<in> set ps" "as \<in> set (pb_Claims p)" "a \<in> set as"
  shows "peers_from ps (add_claim (pb_PublicKey p) ds a)"
  using assms unfolding peers_from_def add_claim_def
  by (auto simp: list_ex_iff split: option.splits)

lemma add_claims_from:
  assumes "p \<in> set ps" "as \<in> set (pb_Claims p)"
  shows "peers_from ps ds \<Longrightarrow> set bs \<subseteq> set as \<Longrightarrow> peers_from ps (foldl (add_claim (pb_PublicKey p)) ds bs)"
  by (induction bs arbitrary: ds) (use assms add_claim_from in auto)

lemma add_peer_from:
  assumes "p \<in> set ps" "peers_from ps ds"
  shows "peers_from ps (add_peer ds p)"
proof -
  have "peers_from ps (foldl (foldl (add_claim (pb_PublicKey p))) d cs)"
    if "peers_from ps d" "set cs \<subseteq> set (pb_Claims p)" for d cs
    using that by (induction cs arbitrary: d) (use assms add_claims_from in auto)
  with assms show ?thesis by (simp add: add_peer_def)
qed

lemma p2p_GetPeers_from:
  assumes "p2p_GetPeers c addr = Ok ds"
  shows "\<exists>ps. probeGetPeers (probes c) addr \<lparr>po_SocksProxyAddr = proxyForAddr c addr, po_NetworkByte = networkByte c\<rparr> = Ok ps
    \<and> peers_from ps ds"
proof -
  from assms obtain ps where ps: "probeGetPeers (probes c) addr
      \<lparr>po_SocksProxyAddr = proxyForAddr c addr, po_NetworkByte = networkByte c\<rparr> = Ok ps" "ds = foldl add_peer [] ps"
    by (auto simp: p2p_GetPeers_def split: sum.splits)
  have "peers_from ps (foldl add_peer d qs)" if "peers_from ps d" "set qs \<subseteq> set ps" for d qs
    using that by (induction qs arbitrary: d) (use add_peer_from in auto)
  from this [of "[]" ps] ps show ?thesis by (auto simp: peers_from_def)
qed

lemma sint_above:
  fixes h :: "64 word"
  assumes "2 ^ 63 \<le> uint h"
  shows "sint h = uint h - 2 ^ 64"
proof -
  have "uint h < 2 ^ 64" using unsigned_less [of h] by simp
  with assms have "uint h div 2 ^ 63 = 1" by (simp add: int_div_pos_eq [where q = 1 and r = "uint h - 2 ^ 63"])
  then have "bit (uint h) 63" by (simp add: bit_iff_odd)
  with \<open>uint h < 2 ^ 64\<close> show ?thesis
    by (simp add: sint_uint signed_take_bit_eq_take_bit_minus take_bit_int_eq_self)
qed

text \<open>A height above the range of \<^verbatim>\<open>int64\<close> comes out negative.\<close>

lemma wallet_height_wraps:
  "http (''http://'' @ addr @ ''/get_tip_info'') = Ok (200, body) \<Longrightarrow>
   decode (take walletHTTPMaxBodyBytes body) = Ok tip \<Longrightarrow> wt_BestBlockHeight tip = Some h \<Longrightarrow> 2 ^ 63 \<le> uint h \<Longrightarrow>
   \<exists>info. wallet_GetInfo http decode addr = Ok info \<and> ni_Height info = Some (uint h - 2 ^ 64)"
  by (simp add: wallet_GetInfo_def Let_def sint_above)

end
