(* ===== verification/Listing.thy ===== *)
theory Listing
  imports Storage_Models "HOL-Library.Multiset"
begin

text \<open>
  Listing nodes: both stores order nodes by address and apply \<^verbatim>\<open>Offset\<close> and \<^verbatim>\<open>Limit\<close>,
  the satellite in Go (\<^verbatim>\<open>listNodesLocked\<close>), Postgres by \<^verbatim>\<open>ORDER BY address\<close>,
  \<^verbatim>\<open>LIMIT\<close> and \<^verbatim>\<open>OFFSET\<close>.  The contract of such a listing is the locale
  \<open>node_listing\<close>: whatever implements it pages without gaps or repetitions.
\<close>

section \<open>Order and pages\<close>

text \<open>Byte-wise comparison of Go strings.\<close>

fun string_less :: "string \<Rightarrow> string \<Rightarrow> bool" where
  "string_less [] [] = False"
| "string_less [] (_ # _) = True"
| "string_less (_ # _) [] = False"
| "string_less (a # as) (b # bs) =
     (if (of_char a :: nat) < of_char b then True
      else if (of_char b :: nat) < of_char a then False else string_less as bs)"

fun insert_by_address :: "Node \<Rightarrow> Node list \<Rightarrow> Node list" where
  "insert_by_address n [] = [n]"
| "insert_by_address n (m # ms) =
     (if string_less (n_Address m) (n_Address n) then m # insert_by_address n ms else n # m # ms)"

definition sort_by_address :: "Node list \<Rightarrow> Node list" where
  "sort_by_address ns = foldr insert_by_address ns []"

definition paginate :: "int \<Rightarrow> int \<Rightarrow> 'a list \<Rightarrow> 'a list" where
  "paginate offset limit xs =
     (let xs = (if offset > 0 then if offset \<ge> int (length xs) then [] else drop (nat offset) xs else xs)
      in if limit > 0 \<and> limit < int (length xs) then take (nat limit) xs else xs)"

section \<open>Facts\<close>

definition address_le :: "Node \<Rightarrow> Node \<Rightarrow> bool" where
  "address_le m n \<longleftrightarrow> \<not> string_less (n_Address n) (n_Address m)"

lemma string_less_irrefl [simp]: "\<not> string_less a a"
  by (induction a) auto

lemma string_less_asym: "string_less a b \<Longrightarrow> \<not> string_less b a"
  by (induction a b rule: string_less.induct) (auto split: if_splits)

lemma string_less_neq: "a \<noteq> b \<Longrightarrow> string_less a b \<or> string_less b a"
  by (induction a b rule: string_less.induct) (auto split: if_splits)

lemma string_less_trans: "string_less a b \<Longrightarrow> string_less b c \<Longrightarrow> string_less a c"
proof (induction a b arbitrary: c rule: string_less.induct)
  case (4 a as b bs)
  then show ?case by (cases c) (auto split: if_splits)
qed (auto elim: string_less.elims)

lemma address_le_trans: "address_le a b \<Longrightarrow> address_le b c \<Longrightarrow> address_le a c"
  unfolding address_le_def by (metis string_less_neq string_less_trans)

lemma address_le_total: "string_less (n_Address m) (n_Address n) \<Longrightarrow> address_le m n"
  by (auto simp: address_le_def dest: string_less_asym)

lemma insert_by_address_mset: "mset (insert_by_address n ms) = add_mset n (mset ms)"
  by (induction ms) auto

lemma insert_by_address_set: "set (insert_by_address n ms) = insert n (set ms)"
  by (induction ms) auto

lemma sort_by_address_Cons: "sort_by_address (n # ns) = insert_by_address n (sort_by_address ns)"
  by (simp add: sort_by_address_def)

lemma sort_by_address_Nil [simp]: "sort_by_address [] = []"
  by (simp add: sort_by_address_def)

lemma sort_by_address_mset [simp]: "mset (sort_by_address ns) = mset ns"
  by (induction ns) (auto simp: sort_by_address_Cons insert_by_address_mset)

lemma insert_by_address_sorted:
  "sorted_wrt address_le ms \<Longrightarrow> sorted_wrt address_le (insert_by_address n ms)"
proof (induction ms)
  case (Cons m ms)
  then show ?case
    by (auto simp: insert_by_address_set address_le_total address_le_def [of n m]
        intro: address_le_trans [of n m])
qed simp

lemma sort_by_address_sorted: "sorted_wrt address_le (sort_by_address ns)"
  by (induction ns) (auto simp: sort_by_address_Cons insert_by_address_sorted)

lemma paginate_eq:
  "paginate off lim xs = (let ys = drop (nat off) xs in if lim > 0 then take (nat lim) ys else ys)"
  by (auto simp: paginate_def Let_def)


lemma paginate_all [simp]: "paginate 0 0 xs = xs"
  by (simp add: paginate_eq)

lemma sort_by_address_length [simp]: "length (sort_by_address ns) = length ns"
  by (metis sort_by_address_mset size_mset)

lemma take_drop_concat:
  "concat (map (\<lambda>p. take l (drop (p * l) xs)) [0..<k]) = take (l * k) xs"
proof (induction k)
  case (Suc k)
  have "take (l * Suc k) xs = take (l * k) xs @ take l (drop (l * k) xs)"
    by (metis add.commute mult_Suc_right take_add)
  with Suc show ?case by (simp add: mult.commute)
qed simp

section \<open>The contract of a listing\<close>

locale node_listing =
  fixes list_nodes :: "NodeFilter \<Rightarrow> 's \<Rightarrow> Node list result"
    and count_nodes :: "NodeFilter \<Rightarrow> 's \<Rightarrow> nat result"
    and matching :: "NodeFilter \<Rightarrow> 's \<Rightarrow> Node list"
  assumes list_nodes: "list_nodes f s = Ok (paginate (nf_Offset f) (nf_Limit f) (sort_by_address (matching f s)))"
    and matching_unpaged: "matching (f\<lparr>nf_Limit := l, nf_Offset := off\<rparr>) s = matching f s"
    and count_nodes: "count_nodes f s = Ok (length (matching f s))"
begin

lemma pages:
  assumes "0 < l" "length (matching f s) \<le> l * k"
  shows "\<exists>all. list_nodes (f\<lparr>nf_Limit := 0, nf_Offset := 0\<rparr>) s = Ok all \<and>
    count_nodes f s = Ok (length all) \<and> sorted_wrt address_le all \<and> mset all = mset (matching f s) \<and>
    map (\<lambda>p. list_nodes (f\<lparr>nf_Limit := int l, nf_Offset := int (p * l)\<rparr>) s) [0..<k] =
      map (\<lambda>p. Ok (take l (drop (p * l) all))) [0..<k] \<and>
    concat (map (\<lambda>p. take l (drop (p * l) all)) [0..<k]) = all"
proof -
  define all where "all = sort_by_address (matching f s)"
  have len: "length all = length (matching f s)"
    unfolding all_def by (metis sort_by_address_mset size_mset)
  have "map (\<lambda>p. list_nodes (f\<lparr>nf_Limit := int l, nf_Offset := int (p * l)\<rparr>) s) [0..<k] =
      map (\<lambda>p. Ok (take l (drop (p * l) all))) [0..<k]"
    using assms(1) by (auto simp: list_nodes matching_unpaged all_def paginate_eq Let_def nat_mult_distrib)
  moreover have "concat (map (\<lambda>p. take l (drop (p * l) all)) [0..<k]) = all"
    using assms(2) by (simp add: take_drop_concat len)
  ultimately show ?thesis
    using len by (intro exI [of _ all])
      (simp add: list_nodes matching_unpaged count_nodes all_def sort_by_address_sorted paginate_eq)
qed

end

end
