(* ===== verification/Remote_Store.thy ===== *)
theory Remote_Store
  imports Listing
begin

text \<open>
  \<^verbatim>\<open>internal/remotestore\<close>: the store of a satellite collector.  It keeps the nodes it
  knows in memory, buffers every write, and sends the buffered records to the central
  API in bounded requests.

  The four \<^verbatim>\<open>pending*\<close> slices are one record \<open>buffers\<close>, which is also what a flush in
  progress holds.  \<^verbatim>\<open>flushTrigger\<close>, a channel of capacity one, is whether it is full.
  The name-based UUID \<^verbatim>\<open>uuid.NewSHA1\<close> is a parameter \<open>sha1\<close>.  An HTTP exchange is a
  parameter too: what comes back for a request is a transport error, or a status with a
  body that decodes to a value or does not.  A JSON body is represented by the value it
  encodes.  An operation reads the clock once.
\<close>

section \<open>Wire types\<close>

record reportWireConfirmedNode =
  cw_Address :: string
  cw_PublicKey :: string
  cw_DiscoverySource :: string

record reportWireDiscoveredNode =
  dw_Address :: string

record reportWireHealthCheck =
  hw_Address :: string
  hw_Reachable :: bool
  hw_ProbeSource :: string
  hw_Height :: "int option"
  hw_ChainTipHeight :: "int option"
  hw_Version :: "string option"
  hw_LatencyMS :: "int option"
  hw_RxtHashrate :: "float64 option"
  hw_C29Hashrate :: "float64 option"
  hw_Sha3xHashrate :: "float64 option"
  hw_PeerIdentityUpdatedAt :: "time option"

record reportWirePeerEdge =
  ew_FromAddress :: string
  ew_ToAddress :: string

record reportWireRequest =
  rq_SelfIdentity :: "string list"
  rq_ConfirmedNodes :: "reportWireConfirmedNode list"
  rq_DiscoveredNodes :: "reportWireDiscoveredNode list"
  rq_HealthChecks :: "reportWireHealthCheck list"
  rq_PeerEdges :: "reportWirePeerEdge list"

record reportWireResponse =
  rp_ConfirmedNodesApplied :: nat
  rp_DiscoveredNodesApplied :: nat
  rp_HealthChecksApplied :: nat
  rp_PeerEdgesApplied :: nat
  rp_SelfIdentityTagged :: nat

datatype 'b httpResult = TransportError | HttpResponse nat "'b option"

definition StatusOK :: nat where "StatusOK = 200"

section \<open>Configuration and state\<close>

record Config =
  cfg_BaseURL :: string
  cfg_APIKey :: string
  cfg_CollectorName :: string
  cfg_SelfAddresses :: "string list"
  cfg_CacheRefreshInterval :: duration
  cfg_FlushInterval :: duration
  cfg_FlushBatchSize :: int
  cfg_ReportChannelUnhealthyThreshold :: duration

definition DefaultCacheRefreshInterval :: duration where "DefaultCacheRefreshInterval = 60 * Second"
definition DefaultFlushInterval :: duration where "DefaultFlushInterval = 60 * Second"
definition DefaultFlushBatchSize :: int where "DefaultFlushBatchSize = 500"
definition DefaultReportChannelUnhealthyThreshold :: duration where
  "DefaultReportChannelUnhealthyThreshold = 5 * DefaultFlushInterval"

record pendingConfirmedNode =
  pc_Address :: string
  pc_PublicKey :: bytes
  pc_DiscoverySource :: string

record pendingDiscoveredNode =
  pdn_Address :: string

record pendingHealthCheck =
  ph_Address :: string
  ph_Input :: HealthCheckInput

record pendingPeerEdge =
  ppe_FromAddress :: string
  ppe_ToAddress :: string

record buffers =
  b_confirmed :: "pendingConfirmedNode list"
  b_discovered :: "pendingDiscoveredNode list"
  b_health :: "pendingHealthCheck list"
  b_edges :: "pendingPeerEdge list"

definition no_buffers :: buffers where
  "no_buffers = \<lparr>b_confirmed = [], b_discovered = [], b_health = [], b_edges = []\<rparr>"

definition buffers_size :: "buffers \<Rightarrow> nat" where
  "buffers_size b = length (b_confirmed b) + length (b_discovered b) + length (b_health b) + length (b_edges b)"

record trackedNode =
  tn_node :: Node
  tn_addresses :: "NodeAddress list"
  tn_hasHealthChecks :: bool
  tn_cacheDerived :: bool

record RemoteStore =
  rs_cfg :: Config
  rs_closed :: bool
  rs_nodes :: "(uuid \<times> trackedNode) list"
  rs_idByAddress :: "(string \<times> uuid) list"
  rs_addressByID :: "(uuid \<times> string) list"
  rs_pending :: buffers
  rs_flushTrigger :: bool
  rs_lastFlushAttempt :: time
  rs_lastFlushSuccess :: time
  rs_lastFlushErr :: "error option"

definition New :: "Config \<Rightarrow> RemoteStore result" where
  "New cfg =
     (if cfg_BaseURL cfg = [] then Fail (Err ''BaseURL is required'')
      else if cfg_APIKey cfg = [] then Fail (Err ''APIKey is required'')
      else Ok \<lparr>rs_cfg = cfg, rs_closed = False, rs_nodes = [], rs_idByAddress = [], rs_addressByID = [],
               rs_pending = no_buffers, rs_flushTrigger = False, rs_lastFlushAttempt = 0,
               rs_lastFlushSuccess = 0, rs_lastFlushErr = None\<rparr>)"

definition cacheRefreshInterval :: "RemoteStore \<Rightarrow> duration" where
  "cacheRefreshInterval s = (if cfg_CacheRefreshInterval (rs_cfg s) > 0
     then cfg_CacheRefreshInterval (rs_cfg s) else DefaultCacheRefreshInterval)"

definition flushInterval :: "RemoteStore \<Rightarrow> duration" where
  "flushInterval s = (if cfg_FlushInterval (rs_cfg s) > 0
     then cfg_FlushInterval (rs_cfg s) else DefaultFlushInterval)"

definition flushBatchSize :: "Config \<Rightarrow> int" where
  "flushBatchSize cfg = (if cfg_FlushBatchSize cfg > 0 then cfg_FlushBatchSize cfg else DefaultFlushBatchSize)"

definition reportChannelUnhealthyThreshold :: "RemoteStore \<Rightarrow> duration" where
  "reportChannelUnhealthyThreshold s = (if cfg_ReportChannelUnhealthyThreshold (rs_cfg s) > 0
     then cfg_ReportChannelUnhealthyThreshold (rs_cfg s) else DefaultReportChannelUnhealthyThreshold)"

definition PendingRecordCount :: "RemoteStore \<Rightarrow> nat" where
  "PendingRecordCount s = buffers_size (rs_pending s)"

definition LastSuccessfulFlushAt :: "RemoteStore \<Rightarrow> time" where
  "LastSuccessfulFlushAt s = rs_lastFlushSuccess s"

definition recordFlushResultLocked :: "time \<Rightarrow> error option \<Rightarrow> RemoteStore \<Rightarrow> RemoteStore" where
  "recordFlushResultLocked now err s =
     (let s = s\<lparr>rs_lastFlushAttempt := now, rs_lastFlushErr := err\<rparr>
      in if err = None then s\<lparr>rs_lastFlushSuccess := now\<rparr> else s)"

section \<open>Node identity\<close>

definition addressNamespace :: uuid where
  "addressNamespace = 0x6f2b6c9e6a974c1a9e2c2f6b6a2d9b31"

definition deterministicNodeID :: "(uuid \<Rightarrow> string \<Rightarrow> uuid) \<Rightarrow> string \<Rightarrow> uuid" where
  "deterministicNodeID sha1 address = sha1 addressNamespace address"

definition resolveNodeIDLocked ::
  "(uuid \<Rightarrow> string \<Rightarrow> uuid) \<Rightarrow> string \<Rightarrow> RemoteStore \<Rightarrow> RemoteStore \<times> uuid" where
  "resolveNodeIDLocked sha1 address s =
     (case lookup (rs_idByAddress s) address of
        Some nid \<Rightarrow> (s, nid)
      | None \<Rightarrow> let nid = deterministicNodeID sha1 address
                in (s\<lparr>rs_idByAddress := AList.update address nid (rs_idByAddress s)\<rparr>, nid))"

text \<open>The zero value of \<^verbatim>\<open>storage.Node\<close>.\<close>

definition zeroNode :: Node where
  "zeroNode = \<lparr>n_ID = 0, n_Address = [], n_PublicKey = [], n_DiscoverySource = [], n_Tags = [],
     n_Label = None, n_FirstSeen = 0, n_LastSeen = 0, n_WalletHTTPPort = None\<rparr>"

definition ensureTrackedLocked ::
  "time \<Rightarrow> uuid \<Rightarrow> string \<Rightarrow> RemoteStore \<Rightarrow> RemoteStore \<times> trackedNode" where
  "ensureTrackedLocked now nid address s =
     (let tn = (case lookup (rs_nodes s) nid of
                  Some tn \<Rightarrow> tn
                | None \<Rightarrow> \<lparr>tn_node = zeroNode\<lparr>n_ID := nid, n_Address := address\<rparr>, tn_addresses = [],
                           tn_hasHealthChecks = False, tn_cacheDerived = False\<rparr>);
          tn = (if n_Address (tn_node tn) = [] then tn\<lparr>tn_node := (tn_node tn)\<lparr>n_Address := address\<rparr>\<rparr> else tn);
          found = list_ex (\<lambda>a. na_Address a = address) (tn_addresses tn);
          tn = (if found then tn
                else tn\<lparr>tn_addresses := tn_addresses tn @
                       [\<lparr>na_ID = 0, na_NodeID = nid, na_Address = address, na_FirstSeen = now, na_LastSeen = now\<rparr>]\<rparr>)
      in (s\<lparr>rs_nodes := AList.update nid tn (rs_nodes s),
            rs_idByAddress := AList.update address nid (rs_idByAddress s),
            rs_addressByID := (case lookup (rs_addressByID s) nid of
                                 None \<Rightarrow> AList.update nid address (rs_addressByID s)
                               | Some _ \<Rightarrow> rs_addressByID s)\<rparr>, tn))"

text \<open>The write of a node through the pointer \<^verbatim>\<open>tn\<close> that \<^verbatim>\<open>ensureTrackedLocked\<close> returned.\<close>

definition set_tracked :: "uuid \<Rightarrow> trackedNode \<Rightarrow> RemoteStore \<Rightarrow> RemoteStore" where
  "set_tracked nid tn s = s\<lparr>rs_nodes := AList.update nid tn (rs_nodes s)\<rparr>"

section \<open>Writes\<close>

definition maybeSignalFlushLocked :: "RemoteStore \<Rightarrow> RemoteStore" where
  "maybeSignalFlushLocked s =
     (let total = buffers_size (rs_pending s)
      in if int total < flushBatchSize (rs_cfg s) then s else s\<lparr>rs_flushTrigger := True\<rparr>)"

text \<open>The merge of discovery sources both upserts perform.\<close>

definition merge_source :: "string \<Rightarrow> string \<Rightarrow> string" where
  "merge_source old new = (if old = [] then new else if old \<noteq> new then DiscoverySourceBoth else old)"

definition touch_node :: "time \<Rightarrow> Node \<Rightarrow> Node" where
  "touch_node now n =
     (if n_FirstSeen n = 0 then n\<lparr>n_FirstSeen := now, n_LastSeen := now\<rparr> else n\<lparr>n_LastSeen := now\<rparr>)"

definition remote_UpsertDiscoveredNode ::
  "(uuid \<Rightarrow> string \<Rightarrow> uuid) \<Rightarrow> time \<Rightarrow> string \<Rightarrow> string \<Rightarrow> tags \<Rightarrow> string option \<Rightarrow>
   RemoteStore \<Rightarrow> RemoteStore \<times> Node result" where
  "remote_UpsertDiscoveredNode sha1 now address discoverySource tags label s =
     (if address = [] then (s, Fail (Err ''address is required''))
      else if discoverySource = [] then (s, Fail (Err ''discovery_source is required''))
      else if rs_closed s then (s, Fail ErrClosed)
      else let (s, nid) = resolveNodeIDLocked sha1 address s;
               (s, tn) = ensureTrackedLocked now nid address s;
               n = tn_node tn;
               n = n\<lparr>n_DiscoverySource := merge_source (n_DiscoverySource n) discoverySource\<rparr>;
               n = (if tags \<noteq> [] then n\<lparr>n_Tags := merge_tags (n_Tags n) tags\<rparr> else n);
               n = (case label of Some l \<Rightarrow> n\<lparr>n_Label := Some l\<rparr> | None \<Rightarrow> n);
               n = touch_node now n;
               s = set_tracked nid (tn\<lparr>tn_node := n\<rparr>) s;
               s = s\<lparr>rs_pending := (rs_pending s)\<lparr>b_discovered := b_discovered (rs_pending s) @ [\<lparr>pdn_Address = address\<rparr>]\<rparr>\<rparr>
           in (maybeSignalFlushLocked s, Ok n))"

definition remote_UpsertConfirmedNode ::
  "(uuid \<Rightarrow> string \<Rightarrow> uuid) \<Rightarrow> time \<Rightarrow> string \<Rightarrow> bytes \<Rightarrow> string \<Rightarrow>
   RemoteStore \<Rightarrow> RemoteStore \<times> Node result" where
  "remote_UpsertConfirmedNode sha1 now address publicKey discoverySource s =
     (if address = [] then (s, Fail (Err ''address is required''))
      else if publicKey = [] then (s, Fail (Err ''public_key is required''))
      else if discoverySource = [] then (s, Fail (Err ''discovery_source is required''))
      else if rs_closed s then (s, Fail ErrClosed)
      else let (s, nid) = resolveNodeIDLocked sha1 address s;
               (s, tn) = ensureTrackedLocked now nid address s;
               n = (tn_node tn)\<lparr>n_PublicKey := publicKey\<rparr>;
               n = n\<lparr>n_DiscoverySource := merge_source (n_DiscoverySource n) discoverySource\<rparr>;
               n = touch_node now n;
               s = set_tracked nid (tn\<lparr>tn_node := n\<rparr>) s;
               s = s\<lparr>rs_pending := (rs_pending s)\<lparr>b_confirmed := b_confirmed (rs_pending s) @
                     [\<lparr>pc_Address = address, pc_PublicKey = publicKey, pc_DiscoverySource = discoverySource\<rparr>]\<rparr>\<rparr>
           in (maybeSignalFlushLocked s, Ok n))"

definition remote_RecordHealthCheck ::
  "time \<Rightarrow> HealthCheckInput \<Rightarrow> RemoteStore \<Rightarrow> RemoteStore \<times> unit result" where
  "remote_RecordHealthCheck now inp s =
     (if hci_ProbeSource inp = [] then (s, Fail (Err ''probe_source is required''))
      else if rs_closed s then (s, Fail ErrClosed)
      else case lookup (rs_addressByID s) (hci_NodeID inp) of
        None \<Rightarrow> (s, Fail (Err ''record health check: unknown node id''))
      | Some address \<Rightarrow>
          let s = (case lookup (rs_nodes s) (hci_NodeID inp) of
                     None \<Rightarrow> s
                   | Some tn \<Rightarrow> set_tracked (hci_NodeID inp)
                       (tn\<lparr>tn_hasHealthChecks := True, tn_node := (tn_node tn)\<lparr>n_LastSeen := now\<rparr>\<rparr>) s);
              s = s\<lparr>rs_pending := (rs_pending s)\<lparr>b_health := b_health (rs_pending s) @
                    [\<lparr>ph_Address = address, ph_Input = inp\<rparr>]\<rparr>\<rparr>
          in (maybeSignalFlushLocked s, Ok ()))"

definition remote_RecordPeerEdgeObservation ::
  "time \<Rightarrow> uuid \<Rightarrow> uuid \<Rightarrow> PeerEdgeReportMeta option \<Rightarrow> RemoteStore \<Rightarrow> RemoteStore \<times> unit result" where
  "remote_RecordPeerEdgeObservation now fromNodeID toNodeID meta s =
     (if rs_closed s then (s, Fail ErrClosed)
      else case lookup (rs_addressByID s) fromNodeID of
        None \<Rightarrow> (s, Fail (Err ''record peer edge: unknown from-node id''))
      | Some fromAddr \<Rightarrow>
        (case lookup (rs_addressByID s) toNodeID of
           None \<Rightarrow> (s, Fail (Err ''record peer edge: unknown to-node id''))
         | Some toAddr \<Rightarrow>
             let s = s\<lparr>rs_pending := (rs_pending s)\<lparr>b_edges := b_edges (rs_pending s) @
                       [\<lparr>ppe_FromAddress = fromAddr, ppe_ToAddress = toAddr\<rparr>]\<rparr>\<rparr>
             in (maybeSignalFlushLocked s, Ok ())))"

section \<open>Reads\<close>

definition matchesFilterLocked :: "trackedNode \<Rightarrow> NodeFilter \<Rightarrow> bool" where
  "matchesFilterLocked tn f =
     (let n = tn_node tn in
      if nf_DiscoverySource f \<noteq> [] \<and> n_DiscoverySource n \<noteq> nf_DiscoverySource f then False
      else if (case nf_Confirmed f of Some c \<Rightarrow> c \<noteq> (length (n_PublicKey n) > 0) | None \<Rightarrow> False) then False
      else if (case nf_HasHealthChecks f of Some h \<Rightarrow> h \<noteq> tn_hasHealthChecks tn | None \<Rightarrow> False) then False
      else if (case nf_Owned f of Some ow \<Rightarrow> ow \<noteq> isOwnedTags (n_Tags n) | None \<Rightarrow> False) then False
      else if nf_ReachableSince f \<noteq> None \<and> \<not> tn_cacheDerived tn then False
      else True)"

definition listNodesLocked :: "NodeFilter \<Rightarrow> RemoteStore \<Rightarrow> Node list" where
  "listNodesLocked f s =
     (let matched = map tn_node (filter (\<lambda>tn. matchesFilterLocked tn f) (map snd (rs_nodes s)));
          matched = sort_by_address matched
      in paginate (nf_Offset f) (nf_Limit f) matched)"

definition remote_ListNodes :: "NodeFilter \<Rightarrow> RemoteStore \<Rightarrow> Node list result" where
  "remote_ListNodes f s = Ok (listNodesLocked f s)"

definition remote_CountNodes :: "NodeFilter \<Rightarrow> RemoteStore \<Rightarrow> nat result" where
  "remote_CountNodes f s = Ok (length (listNodesLocked (f\<lparr>nf_Limit := 0, nf_Offset := 0\<rparr>) s))"

definition remote_GetNode :: "uuid \<Rightarrow> RemoteStore \<Rightarrow> Node result" where
  "remote_GetNode nid s = (case lookup (rs_nodes s) nid of None \<Rightarrow> Fail ErrNotFound | Some tn \<Rightarrow> Ok (tn_node tn))"

definition remote_ListNodeAddresses :: "uuid \<Rightarrow> RemoteStore \<Rightarrow> NodeAddress list result" where
  "remote_ListNodeAddresses nid s =
     (case lookup (rs_nodes s) nid of None \<Rightarrow> Ok [] | Some tn \<Rightarrow> Ok (tn_addresses tn))"

definition remote_ListNodeAddressesForNodes ::
  "uuid list \<Rightarrow> RemoteStore \<Rightarrow> (uuid \<times> NodeAddress list) list result" where
  "remote_ListNodeAddressesForNodes ids s =
     Ok (foldl (\<lambda>out nid. AList.update nid (case lookup (rs_nodes s) nid of None \<Rightarrow> [] | Some tn \<Rightarrow> tn_addresses tn) out) [] ids)"

text \<open>Methods of the interface a satellite has no data for.\<close>

definition remote_GetNodeHistory :: "uuid \<Rightarrow> int \<Rightarrow> RemoteStore \<Rightarrow> HealthCheck list result" where
  "remote_GetNodeHistory nid limit s = Ok []"

definition remote_UpsertConfirmedNodeByPubKey :: "bytes \<Rightarrow> string \<Rightarrow> RemoteStore \<Rightarrow> RemoteStore \<times> Node result" where
  "remote_UpsertConfirmedNodeByPubKey publicKey discoverySource s = (s, Fail ErrNotSupported)"

section \<open>Flushing\<close>

text \<open>The closure \<^verbatim>\<open>take\<close> of \<^verbatim>\<open>splitBatch\<close>: the count, and what remains of the budget.\<close>

definition split_take :: "int \<Rightarrow> int \<Rightarrow> int \<times> int" where
  "split_take n remaining =
     (let n = (if n > remaining then remaining else n); n = (if n < 0 then 0 else n) in (n, remaining - n))"

definition splitBatch :: "nat \<Rightarrow> nat \<Rightarrow> nat \<Rightarrow> nat \<Rightarrow> int \<Rightarrow> int \<times> int \<times> int \<times> int" where
  "splitBatch confirmedLen discoveredLen healthLen edgesLen maxTotal =
     (let (c, remaining) = split_take (int confirmedLen) maxTotal;
          (d, remaining) = split_take (int discoveredLen) remaining;
          (h, remaining) = split_take (int healthLen) remaining;
          (e, remaining) = split_take (int edgesLen) remaining
      in (c, d, h, e))"

text \<open>The slices of the next sub-batch, and what is left behind it.\<close>

definition take_batch :: "int \<Rightarrow> buffers \<Rightarrow> buffers \<times> buffers" where
  "take_batch batchSize b =
     (let (c, d, h, e) = splitBatch (length (b_confirmed b)) (length (b_discovered b))
                           (length (b_health b)) (length (b_edges b)) batchSize
      in (\<lparr>b_confirmed = take (nat c) (b_confirmed b), b_discovered = take (nat d) (b_discovered b),
           b_health = take (nat h) (b_health b), b_edges = take (nat e) (b_edges b)\<rparr>,
          \<lparr>b_confirmed = drop (nat c) (b_confirmed b), b_discovered = drop (nat d) (b_discovered b),
           b_health = drop (nat h) (b_health b), b_edges = drop (nat e) (b_edges b)\<rparr>))"

definition append_buffers :: "buffers \<Rightarrow> buffers \<Rightarrow> buffers" where
  "append_buffers a b =
     \<lparr>b_confirmed = b_confirmed a @ b_confirmed b, b_discovered = b_discovered a @ b_discovered b,
      b_health = b_health a @ b_health b, b_edges = b_edges a @ b_edges b\<rparr>"

definition wire_confirmed :: "pendingConfirmedNode \<Rightarrow> reportWireConfirmedNode" where
  "wire_confirmed c = \<lparr>cw_Address = pc_Address c, cw_PublicKey = hex_EncodeToString (pc_PublicKey c),
     cw_DiscoverySource = pc_DiscoverySource c\<rparr>"

definition wire_discovered :: "pendingDiscoveredNode \<Rightarrow> reportWireDiscoveredNode" where
  "wire_discovered d = \<lparr>dw_Address = pdn_Address d\<rparr>"

definition wire_health :: "pendingHealthCheck \<Rightarrow> reportWireHealthCheck" where
  "wire_health h = (let i = ph_Input h in
     \<lparr>hw_Address = ph_Address h, hw_Reachable = hci_Reachable i, hw_ProbeSource = hci_ProbeSource i,
      hw_Height = hci_Height i, hw_ChainTipHeight = hci_ChainTipHeight i, hw_Version = hci_Version i,
      hw_LatencyMS = hci_LatencyMS i, hw_RxtHashrate = hci_RxtHashrate i, hw_C29Hashrate = hci_C29Hashrate i,
      hw_Sha3xHashrate = hci_Sha3xHashrate i, hw_PeerIdentityUpdatedAt = hci_PeerIdentityUpdatedAt i\<rparr>)"

definition wire_edge :: "pendingPeerEdge \<Rightarrow> reportWirePeerEdge" where
  "wire_edge e = \<lparr>ew_FromAddress = ppe_FromAddress e, ew_ToAddress = ppe_ToAddress e\<rparr>"

definition make_request :: "Config \<Rightarrow> buffers \<Rightarrow> reportWireRequest" where
  "make_request cfg b =
     \<lparr>rq_SelfIdentity = cfg_SelfAddresses cfg, rq_ConfirmedNodes = map wire_confirmed (b_confirmed b),
      rq_DiscoveredNodes = map wire_discovered (b_discovered b), rq_HealthChecks = map wire_health (b_health b),
      rq_PeerEdges = map wire_edge (b_edges b)\<rparr>"

text \<open>
  What the network answers may depend on everything sent before: it is a function of the
  log of earlier exchanges, of the URL, the key and the request, and it says at what time
  the answer came.
\<close>

type_synonym exchange = "reportWireRequest \<times> reportWireResponse result"
type_synonym network =
  "exchange list \<Rightarrow> string \<Rightarrow> string \<Rightarrow> reportWireRequest \<Rightarrow> time \<times> reportWireResponse httpResult"

definition postReport :: "network \<Rightarrow> exchange list \<Rightarrow> Config \<Rightarrow> reportWireRequest \<Rightarrow> time \<times> reportWireResponse result" where
  "postReport net log cfg req =
     (let url = trim_right (cfg_BaseURL cfg) CHR ''/'' @ ''/internal/collectors/report'';
          (now, resp) = net log url (cfg_APIKey cfg) req
      in (now, case resp of
                 TransportError \<Rightarrow> Fail (Err ''post report'')
               | HttpResponse status body \<Rightarrow>
                   if status \<noteq> StatusOK then Fail (Err ''post report: unexpected status'')
                   else (case body of None \<Rightarrow> Fail (Err ''decode report response'') | Some out \<Rightarrow> Ok out)))"

definition result_error :: "'a result \<Rightarrow> error option" where
  "result_error r = (case r of Inl e \<Rightarrow> Some e | Inr _ \<Rightarrow> None)"

text \<open>Putting back what a failed flush still holds, in front of what was buffered meanwhile.\<close>

definition restore_buffers :: "buffers \<Rightarrow> RemoteStore \<Rightarrow> RemoteStore" where
  "restore_buffers b s = s\<lparr>rs_pending := append_buffers b (rs_pending s)\<rparr>"

lemma split_take_props:
  "split_take n r = (c, r') \<Longrightarrow> 0 \<le> n \<Longrightarrow> 0 \<le> r \<Longrightarrow>
   0 \<le> c \<and> c \<le> n \<and> 0 \<le> r' \<and> r' = r - c \<and> (0 < r' \<longrightarrow> c = n)"
  by (auto simp: split_take_def Let_def split: if_splits)

lemma splitBatch_props:
  assumes "splitBatch nc nd nh ne m = (c, d, h, e)" "0 < m"
  shows "0 \<le> c \<and> c \<le> int nc \<and> 0 \<le> d \<and> d \<le> int nd \<and> 0 \<le> h \<and> h \<le> int nh \<and> 0 \<le> e \<and> e \<le> int ne \<and>
    c + d + h + e = min m (int (nc + nd + nh + ne))"
  using assms by (auto simp: splitBatch_def split_take_def Let_def split: if_splits)

lemma take_batch_append: "take_batch m b = (x, y) \<Longrightarrow> append_buffers x y = b"
  by (auto simp: take_batch_def append_buffers_def split: prod.splits)

lemma take_batch_size:
  assumes "take_batch m b = (x, y)" "0 < m"
  shows "int (buffers_size x) = min m (int (buffers_size b)) \<and> buffers_size x + buffers_size y = buffers_size b"
proof -
  obtain c d h e where q: "splitBatch (length (b_confirmed b)) (length (b_discovered b))
    (length (b_health b)) (length (b_edges b)) m = (c, d, h, e)" by (metis prod_cases4)
  have "append_buffers x y = b" using assms(1) by (rule take_batch_append)
  then have "buffers_size x + buffers_size y = buffers_size b"
    by (auto simp: append_buffers_def buffers_size_def)
  moreover have "int (buffers_size x) = min m (int (buffers_size b))"
    using splitBatch_props [OF q assms(2)] assms(1) q
    by (auto simp: take_batch_def buffers_size_def min_def split: if_splits)
  ultimately show ?thesis by simp
qed

lemma flushBatchSize_pos [simp]: "0 < flushBatchSize cfg"
  by (simp add: flushBatchSize_def DefaultFlushBatchSize_def)

lemma buffers_nonempty:
  "0 < buffers_size b \<longleftrightarrow> length (b_confirmed b) > 0 \<or> length (b_discovered b) > 0 \<or>
     length (b_health b) > 0 \<or> length (b_edges b) > 0"
  by (auto simp: buffers_size_def)

lemma take_batch_progress:
  assumes "take_batch m b = (x, y)" "0 < m"
  shows "buffers_size y \<le> buffers_size b \<and> (0 < buffers_size b \<longrightarrow> buffers_size y < buffers_size b)"
  using take_batch_size [OF assms] assms(2) by (auto simp: min_def split: if_splits)

function (sequential) flush_loop ::
  "network \<Rightarrow> bool \<Rightarrow> buffers \<Rightarrow> exchange list \<Rightarrow> RemoteStore \<Rightarrow> exchange list \<times> RemoteStore \<times> unit result" where
  "flush_loop net first b log s =
     (if \<not> (first \<or> length (b_confirmed b) > 0 \<or> length (b_discovered b) > 0 \<or>
            length (b_health b) > 0 \<or> length (b_edges b) > 0) then (log, s, Ok ())
      else let (batch, rest) = take_batch (flushBatchSize (rs_cfg s)) b;
               req = make_request (rs_cfg s) batch;
               (now, r) = postReport net log (rs_cfg s) req;
               log = log @ [(req, r)];
               s = recordFlushResultLocked now (result_error r) s
           in (case r of
                 Inl e \<Rightarrow> (log, restore_buffers b s, Fail e)
               | Inr _ \<Rightarrow> flush_loop net False rest log s))"
  by pat_completeness auto
termination
proof (relation "measure (\<lambda>(net, first, b, log, s). buffers_size b + (if first then 1 else 0))", goal_cases)
  case (2 net first b log s x batch rest req y now r log' s' ok)
  then have "take_batch (flushBatchSize (rs_cfg s)) b = (batch, rest)" by simp
  from take_batch_progress [OF this flushBatchSize_pos]
  have "buffers_size rest \<le> buffers_size b \<and> (0 < buffers_size b \<longrightarrow> buffers_size rest < buffers_size b)" .
  moreover have "first \<or> 0 < buffers_size b" using 2(1) by (auto simp: buffers_nonempty)
  ultimately show ?case by auto
qed simp

declare flush_loop.simps [simp del]

definition flushOnce :: "network \<Rightarrow> exchange list \<Rightarrow> RemoteStore \<Rightarrow> exchange list \<times> RemoteStore \<times> unit result" where
  "flushOnce net log s =
     (if rs_closed s then (log, s, Ok ())
      else let b = rs_pending s; s = s\<lparr>rs_pending := no_buffers\<rparr> in
           if length (b_confirmed b) = 0 \<and> length (b_discovered b) = 0 \<and> length (b_health b) = 0 \<and>
              length (b_edges b) = 0 \<and> length (cfg_SelfAddresses (rs_cfg s)) = 0 then (log, s, Ok ())
           else flush_loop net True b log s)"

section \<open>The cache of central nodes\<close>

record seedListWireCandidate =
  sw_NodeID :: uuid
  sw_PublicKey :: string
  sw_Label :: "string option"
  sw_Addresses :: "string list"

definition merge_candidate :: "time \<Rightarrow> RemoteStore \<Rightarrow> seedListWireCandidate \<Rightarrow> RemoteStore" where
  "merge_candidate now s c =
     (if length (sw_Addresses c) = 0 then s
      else case hex_DecodeString (sw_PublicKey c) of
        None \<Rightarrow> s
      | Some pubkey \<Rightarrow>
          let firstSeen = (case lookup (rs_nodes s) (sw_NodeID c) of
                             Some existing \<Rightarrow> n_FirstSeen (tn_node existing) | None \<Rightarrow> now);
              primary = hd (sw_Addresses c);
              tn = \<lparr>tn_node = \<lparr>n_ID = sw_NodeID c, n_Address = primary, n_PublicKey = pubkey,
                       n_DiscoverySource = DiscoverySourceBoth, n_Tags = [], n_Label = sw_Label c,
                       n_FirstSeen = firstSeen, n_LastSeen = now, n_WalletHTTPPort = None\<rparr>,
                    tn_addresses = map (\<lambda>a. \<lparr>na_ID = 0, na_NodeID = sw_NodeID c, na_Address = a,
                       na_FirstSeen = firstSeen, na_LastSeen = now\<rparr>) (sw_Addresses c),
                    tn_hasHealthChecks = True, tn_cacheDerived = True\<rparr>
          in s\<lparr>rs_idByAddress := foldl (\<lambda>m a. AList.update a (sw_NodeID c) m) (rs_idByAddress s) (sw_Addresses c),
               rs_addressByID := AList.update (sw_NodeID c) primary (rs_addressByID s),
               rs_nodes := AList.update (sw_NodeID c) tn (rs_nodes s)\<rparr>)"

definition refreshCache ::
  "(string \<Rightarrow> seedListWireCandidate list httpResult) \<Rightarrow> time \<Rightarrow> RemoteStore \<Rightarrow> RemoteStore \<times> unit result" where
  "refreshCache http now s =
     (let url = trim_right (cfg_BaseURL (rs_cfg s)) CHR ''/'' @ ''/nodes/seed_list'' in
      case http url of
        TransportError \<Rightarrow> (s, Fail (Err ''fetch seed_list''))
      | HttpResponse status body \<Rightarrow>
          if status \<noteq> StatusOK then (s, Fail (Err ''fetch seed_list: unexpected status''))
          else (case body of
                  None \<Rightarrow> (s, Fail (Err ''decode seed_list response''))
                | Some candidates \<Rightarrow>
                    if rs_closed s then (s, Ok ())
                    else (foldl (merge_candidate now) s candidates, Ok ())))"

section \<open>Lifecycle\<close>

definition Ping :: "(string \<Rightarrow> unit httpResult) \<Rightarrow> time \<Rightarrow> RemoteStore \<Rightarrow> unit result" where
  "Ping http now s =
     (let staleSince = (if rs_lastFlushSuccess s = 0 then rs_lastFlushAttempt s else rs_lastFlushSuccess s)
      in if rs_lastFlushErr s \<noteq> None \<and> rs_lastFlushAttempt s \<noteq> 0 \<and>
            now - staleSince > reportChannelUnhealthyThreshold s
         then Fail (Err ''report channel unhealthy'')
         else case http (trim_right (cfg_BaseURL (rs_cfg s)) CHR ''/'' @ ''/healthz'') of
                TransportError \<Rightarrow> Fail (Err ''ping central API'')
              | HttpResponse status _ \<Rightarrow>
                  if status \<noteq> StatusOK then Fail (Err ''ping central API: unexpected status'') else Ok ())"

definition Close :: "network \<Rightarrow> exchange list \<Rightarrow> RemoteStore \<Rightarrow> exchange list \<times> RemoteStore \<times> unit result" where
  "Close net log s =
     (if rs_closed s then (log, s, Ok ())
      else let (log, s, _) = flushOnce net log s in (log, s\<lparr>rs_closed := True\<rparr>, Ok ()))"

text \<open>One turn of the select loop of \<^verbatim>\<open>Run\<close>, by the case that fires.\<close>

datatype run_event = CacheTick | FlushTick | FlushTrigger

definition Run_step ::
  "(string \<Rightarrow> seedListWireCandidate list httpResult) \<Rightarrow> network \<Rightarrow> time \<Rightarrow> run_event \<Rightarrow>
   exchange list \<Rightarrow> RemoteStore \<Rightarrow> exchange list \<times> RemoteStore" where
  "Run_step http net now ev log s =
     (case ev of
        CacheTick \<Rightarrow> (log, fst (refreshCache http now s))
      | FlushTick \<Rightarrow> (let (log, s, _) = flushOnce net log s in (log, s))
      | FlushTrigger \<Rightarrow>
          if rs_flushTrigger s
          then let (log, s, _) = flushOnce net log (s\<lparr>rs_flushTrigger := False\<rparr>) in (log, s)
          else (log, s))"

definition remote_Store :: "(uuid \<Rightarrow> string \<Rightarrow> uuid) \<Rightarrow> RemoteStore Store" where
  "remote_Store sha1 =
     \<lparr>UpsertDiscoveredNode = remote_UpsertDiscoveredNode sha1,
      UpsertConfirmedNode = remote_UpsertConfirmedNode sha1,
      RecordHealthCheck = remote_RecordHealthCheck,
      RecordPeerEdgeObservation = remote_RecordPeerEdgeObservation,
      ListNodes = remote_ListNodes,
      GetNode = remote_GetNode,
      ListNodeAddresses = remote_ListNodeAddresses,
      GetNodeHistory = remote_GetNodeHistory, ListNodeAddressesForNodes = remote_ListNodeAddressesForNodes\<rparr>"

section \<open>A flush, run alone, is a bounded first-in first-out transfer\<close>

definition acked :: "exchange list \<Rightarrow> reportWireRequest list" where
  "acked log = map fst (filter (\<lambda>x. is_ok (snd x)) log)"

lemma acked_append [simp]: "acked (a @ b) = acked a @ acked b"
  by (simp add: acked_def)

lemma acked_simps [simp]: "acked [] = []" "acked [(q, Inl e)] = []" "acked [(q, Inr r)] = [q]"
  by (simp_all add: acked_def)

definition request_size :: "reportWireRequest \<Rightarrow> nat" where
  "request_size q = length (rq_ConfirmedNodes q) + length (rq_DiscoveredNodes q) +
     length (rq_HealthChecks q) + length (rq_PeerEdges q)"

lemma request_size_make [simp]: "request_size (make_request cfg b) = buffers_size b"
  by (simp add: request_size_def make_request_def buffers_size_def)

lemma recordFlushResult_simps [simp, store_simps]:
  "rs_pending (recordFlushResultLocked now r s) = rs_pending s"
  "rs_cfg (recordFlushResultLocked now r s) = rs_cfg s"
  "rs_closed (recordFlushResultLocked now r s) = rs_closed s"
  "rs_nodes (recordFlushResultLocked now r s) = rs_nodes s"
  "rs_addressByID (recordFlushResultLocked now r s) = rs_addressByID s"
  "rs_idByAddress (recordFlushResultLocked now r s) = rs_idByAddress s"
  by (simp_all add: recordFlushResultLocked_def Let_def)

text \<open>The records of a request, without the self-identity every request repeats.\<close>

definition payload :: "reportWireRequest \<Rightarrow> reportWireRequest" where
  "payload q = q\<lparr>rq_SelfIdentity := []\<rparr>"

definition append_requests :: "reportWireRequest \<Rightarrow> reportWireRequest \<Rightarrow> reportWireRequest" where
  "append_requests p q =
     \<lparr>rq_SelfIdentity = [], rq_ConfirmedNodes = rq_ConfirmedNodes p @ rq_ConfirmedNodes q,
      rq_DiscoveredNodes = rq_DiscoveredNodes p @ rq_DiscoveredNodes q,
      rq_HealthChecks = rq_HealthChecks p @ rq_HealthChecks q, rq_PeerEdges = rq_PeerEdges p @ rq_PeerEdges q\<rparr>"

definition wire :: "buffers \<Rightarrow> reportWireRequest" where
  "wire b = \<lparr>rq_SelfIdentity = [], rq_ConfirmedNodes = map wire_confirmed (b_confirmed b),
      rq_DiscoveredNodes = map wire_discovered (b_discovered b), rq_HealthChecks = map wire_health (b_health b),
      rq_PeerEdges = map wire_edge (b_edges b)\<rparr>"

definition transferred :: "reportWireRequest list \<Rightarrow> reportWireRequest \<Rightarrow> reportWireRequest" where
  "transferred qs r = foldr (\<lambda>q acc. append_requests q acc) qs r"

lemma wire_append: "wire (append_buffers a b) = append_requests (wire a) (wire b)"
  by (simp add: wire_def append_buffers_def append_requests_def)

lemma append_requests_make: "append_requests (make_request cfg x) r = append_requests (wire x) r"
  by (simp add: append_requests_def make_request_def wire_def)

lemma transferred_simps [simp]:
  "transferred [] r = r" "transferred (q # qs) r = append_requests q (transferred qs r)"
  by (simp_all add: transferred_def)

lemma append_requests_assoc:
  "append_requests (append_requests a b) c = append_requests a (append_requests b c)"
  by (simp add: append_requests_def)

lemma append_buffers_assoc:
  "append_buffers (append_buffers a b) c = append_buffers a (append_buffers b c)"
  by (simp add: append_buffers_def)

lemma append_no_buffers [simp]: "append_buffers no_buffers b = b" "append_buffers b no_buffers = b"
  by (simp_all add: append_buffers_def no_buffers_def)

lemma buffers_empty_iff: "buffers_size b = 0 \<longleftrightarrow> b = no_buffers"
  by (cases b) (auto simp: buffers_size_def no_buffers_def)

lemma flush_loop_done: "flush_loop net False no_buffers log s = (log, s, Ok ())"
  by (simp add: flush_loop.simps no_buffers_def)

lemma flush_loop_go:
  assumes "first \<or> 0 < buffers_size b" "take_batch (flushBatchSize (rs_cfg s)) b = (batch, rest)"
    "postReport net log (rs_cfg s) (make_request (rs_cfg s) batch) = (now, q)"
  shows "flush_loop net first b log s =
    (let log = log @ [(make_request (rs_cfg s) batch, q)];
         s = recordFlushResultLocked now (result_error q) s
     in (case q of Inl e \<Rightarrow> (log, restore_buffers b s, Fail e) | Inr _ \<Rightarrow> flush_loop net False rest log s))"
proof -
  have "first \<or> length (b_confirmed b) > 0 \<or> length (b_discovered b) > 0 \<or>
      length (b_health b) > 0 \<or> length (b_edges b) > 0"
    using assms(1) by (simp add: buffers_nonempty)
  then show ?thesis
    by (subst flush_loop.simps) (simp only: assms(2,3) Let_def prod.case not_not if_False simp_thms)
qed

text \<open>What the loop sends, in order, and what it leaves.\<close>

lemma flush_loop_transfer:
  assumes "flush_loop net first b log s = (log', s', r)"
  shows "\<exists>new. log' = log @ new \<and>
    transferred (acked new) (wire (rs_pending s')) = wire (append_buffers b (rs_pending s)) \<and>
    rs_cfg s' = rs_cfg s \<and>
    (\<forall>x\<in>set new. int (request_size (fst x)) \<le> flushBatchSize (rs_cfg s)) \<and>
    (is_ok r \<longrightarrow> rs_pending s' = rs_pending s) \<and>
    (\<not> is_ok r \<longrightarrow> new \<noteq> [] \<and> \<not> is_ok (snd (last new)))"
  using assms
proof (induction "buffers_size b + (if first then 1 else 0)" arbitrary: first b log s rule: less_induct)
  case less
  obtain batch rest where tb: "take_batch (flushBatchSize (rs_cfg s)) b = (batch, rest)"
    by (metis surj_pair)
  define req where "req = make_request (rs_cfg s) batch"
  obtain now q where pr: "postReport net log (rs_cfg s) req = (now, q)" by (metis surj_pair)
  define s1 where "s1 = recordFlushResultLocked now (result_error q) s"
  have b: "b = append_buffers batch rest" using take_batch_append [OF tb] by simp
  have sz: "int (request_size req) \<le> flushBatchSize (rs_cfg s)"
    using take_batch_size [OF tb flushBatchSize_pos] by (simp add: req_def)
  show ?case
  proof (cases "first \<or> 0 < buffers_size b")
    case False
    then have "b = no_buffers" by (simp add: buffers_empty_iff)
    then have "log' = log" "s' = s" "r = Ok ()"
      using False less.prems flush_loop_done by auto
    with \<open>b = no_buffers\<close> show ?thesis by simp
  next
    case True
    note go = flush_loop_go [OF True tb pr [unfolded req_def]]
    show ?thesis
    proof (cases q)
      case (Inl e)
      then have "log' = log @ [(req, q)]" "s' = restore_buffers b s1" "r = Fail e"
        using less.prems go by (simp_all add: Let_def req_def s1_def)
      with sz Inl show ?thesis
        by (intro exI [of _ "[(req, q)]"]) (simp add: restore_buffers_def s1_def)
    next
      case (Inr ok)
      then have *: "flush_loop net False rest (log @ [(req, q)]) s1 = (log', s', r)"
        using less.prems go by (simp add: Let_def req_def s1_def)
      have "buffers_size rest + (if False then 1 else 0) < buffers_size b + (if first then 1 else 0)"
        using take_batch_progress [OF tb flushBatchSize_pos] True by auto
      from less.hyps [OF this *] obtain new where new: "log' = (log @ [(req, q)]) @ new"
        "transferred (acked new) (wire (rs_pending s')) = wire (append_buffers rest (rs_pending s1))"
        "rs_cfg s' = rs_cfg s1" "\<forall>x\<in>set new. int (request_size (fst x)) \<le> flushBatchSize (rs_cfg s1)"
        "is_ok r \<longrightarrow> rs_pending s' = rs_pending s1" "\<not> is_ok r \<longrightarrow> new \<noteq> [] \<and> \<not> is_ok (snd (last new))"
        by blast
      with sz Inr show ?thesis
        by (intro exI [of _ "(req, q) # new"])
          (simp add: s1_def acked_def b append_buffers_assoc wire_append req_def append_requests_make
            append_requests_assoc)
    qed
  qed
qed

text \<open>
  C4: one flush, whatever the network does.  Reading the acknowledged requests of a flush
  in the order they were sent, followed by what is still buffered afterwards, gives back
  exactly what was buffered before, buffer by buffer and in order: nothing is lost,
  repeated or reordered.  Every request carries at most the configured number of records,
  a flush that reports success has emptied the buffers, and one that reports an error
  ended with a request that was not acknowledged.
\<close>

theorem flushOnce_transfer:
  assumes "\<not> rs_closed s" "flushOnce net log s = (log', s', r)"
  shows "\<exists>new. log' = log @ new \<and>
    transferred (acked new) (wire (rs_pending s')) = wire (rs_pending s) \<and>
    (\<forall>x\<in>set new. int (request_size (fst x)) \<le> flushBatchSize (rs_cfg s)) \<and>
    (is_ok r \<longrightarrow> PendingRecordCount s' = 0) \<and>
    (\<not> is_ok r \<longrightarrow> new \<noteq> [] \<and> \<not> is_ok (snd (last new)))"
proof (cases "length (b_confirmed (rs_pending s)) = 0 \<and> length (b_discovered (rs_pending s)) = 0 \<and>
    length (b_health (rs_pending s)) = 0 \<and> length (b_edges (rs_pending s)) = 0 \<and>
    length (cfg_SelfAddresses (rs_cfg s)) = 0")
  case True
  then show ?thesis
    using assms by (auto simp: flushOnce_def PendingRecordCount_def buffers_size_def no_buffers_def wire_def)
next
  case False
  with assms have "flush_loop net True (rs_pending s) log (s\<lparr>rs_pending := no_buffers\<rparr>) = (log', s', r)"
    by (auto simp: flushOnce_def Let_def)
  from flush_loop_transfer [OF this] show ?thesis
    by (auto simp: PendingRecordCount_def buffers_empty_iff)
qed

text \<open>
  A satellite with a batch size of one and two discovered addresses, whose second request
  is lost.
\<close>

definition example_cfg :: Config where
  "example_cfg = \<lparr>cfg_BaseURL = ''http://c/'', cfg_APIKey = ''k'', cfg_CollectorName = ''sat'',
     cfg_SelfAddresses = [], cfg_CacheRefreshInterval = 0, cfg_FlushInterval = 0, cfg_FlushBatchSize = 1,
     cfg_ReportChannelUnhealthyThreshold = 0\<rparr>"

definition example_store :: RemoteStore where
  "example_store = \<lparr>rs_cfg = example_cfg, rs_closed = False, rs_nodes = [], rs_idByAddress = [],
     rs_addressByID = [], rs_pending = no_buffers\<lparr>b_discovered := [\<lparr>pdn_Address = ''a:1''\<rparr>, \<lparr>pdn_Address = ''b:1''\<rparr>]\<rparr>,
     rs_flushTrigger = True, rs_lastFlushAttempt = 0, rs_lastFlushSuccess = 0, rs_lastFlushErr = None\<rparr>"

definition example_net :: network where
  "example_net log url key req =
     (if log = [] then (5, HttpResponse 200 (Some \<lparr>rp_ConfirmedNodesApplied = 0, rp_DiscoveredNodesApplied = 1,
        rp_HealthChecksApplied = 0, rp_PeerEdgesApplied = 0, rp_SelfIdentityTagged = 0\<rparr>))
      else (7, TransportError))"

lemma example_flush:
  "map (is_ok \<circ> snd) (fst (flushOnce example_net [] example_store)) = [True, False]"
  by code_simp

theorem flushOnce_transfer_witness:
  "\<exists>new s' r. flushOnce example_net [] example_store = (new, s', r) \<and> length new = 2 \<and>
     transferred (acked new) (wire (rs_pending s')) = wire (rs_pending example_store)"
proof -
  obtain new s' r where f: "flushOnce example_net [] example_store = (new, s', r)" by (metis prod_cases3)
  have "\<not> rs_closed example_store" by (simp add: example_store_def)
  from flushOnce_transfer [OF this f]
  have "transferred (acked new) (wire (rs_pending s')) = wire (rs_pending example_store)" by auto
  moreover have "length new = 2" using arg_cong [OF example_flush, of length] f by simp
  ultimately show ?thesis using f by blast
qed

section \<open>Flushes interleaved with writes\<close>

text \<open>
  \<^verbatim>\<open>flushOnce\<close> holds the mutex only to take the snapshot and to record a result, so writes,
  cache refreshes and another flush (the final one of \<^verbatim>\<open>Close\<close> beside the one of \<^verbatim>\<open>Run\<close>)
  interleave with its requests.  A configuration is the store, the flushes in progress
  (whether the first request is still due, and what is left to send) and two histories:
  all records ever buffered and all requests acknowledged.
\<close>

record configuration =
  c_store :: RemoteStore
  c_flights :: "(bool \<times> buffers) list"
  c_written :: buffers
  c_acked :: "reportWireRequest list"

datatype store_write =
    WDiscovered string string tags "string option"
  | WConfirmed string bytes string
  | WHealth HealthCheckInput
  | WEdge uuid uuid "PeerEdgeReportMeta option"

definition do_write :: "(uuid \<Rightarrow> string \<Rightarrow> uuid) \<Rightarrow> time \<Rightarrow> store_write \<Rightarrow> RemoteStore \<Rightarrow> RemoteStore" where
  "do_write sha1 now w s =
     (case w of
        WDiscovered a src tags label \<Rightarrow> fst (remote_UpsertDiscoveredNode sha1 now a src tags label s)
      | WConfirmed a pk src \<Rightarrow> fst (remote_UpsertConfirmedNode sha1 now a pk src s)
      | WHealth i \<Rightarrow> fst (remote_RecordHealthCheck now i s)
      | WEdge a b m \<Rightarrow> fst (remote_RecordPeerEdgeObservation now a b m s))"

text \<open>The records a write added to the buffers.\<close>

definition added :: "RemoteStore \<Rightarrow> RemoteStore \<Rightarrow> buffers" where
  "added s s' =
     \<lparr>b_confirmed = drop (length (b_confirmed (rs_pending s))) (b_confirmed (rs_pending s')),
      b_discovered = drop (length (b_discovered (rs_pending s))) (b_discovered (rs_pending s')),
      b_health = drop (length (b_health (rs_pending s))) (b_health (rs_pending s')),
      b_edges = drop (length (b_edges (rs_pending s))) (b_edges (rs_pending s'))\<rparr>"

inductive step :: "(uuid \<Rightarrow> string \<Rightarrow> uuid) \<Rightarrow> configuration \<Rightarrow> configuration \<Rightarrow> bool" for sha1 where
  Write: "s' = do_write sha1 now w (c_store c) \<Longrightarrow>
     step sha1 c (c\<lparr>c_store := s', c_written := append_buffers (c_written c) (added (c_store c) s')\<rparr>)"
| Refresh: "step sha1 c (c\<lparr>c_store := fst (refreshCache http now (c_store c))\<rparr>)"
| FlushBegin: "\<not> rs_closed (c_store c) \<Longrightarrow>
     step sha1 c (c\<lparr>c_store := (c_store c)\<lparr>rs_pending := no_buffers, rs_flushTrigger := trig\<rparr>,
                    c_flights := (True, rs_pending (c_store c)) # c_flights c\<rparr>)"
| PostAcknowledged: "c_flights c = fs @ (first, b) # gs \<Longrightarrow> first \<or> 0 < buffers_size b \<Longrightarrow>
     take_batch (flushBatchSize (rs_cfg (c_store c))) b = (batch, rest) \<Longrightarrow>
     step sha1 c (c\<lparr>c_store := recordFlushResultLocked now None (c_store c),
                    c_flights := fs @ (False, rest) # gs,
                    c_acked := c_acked c @ [make_request (rs_cfg (c_store c)) batch]\<rparr>)"
| PostFailed: "c_flights c = fs @ (first, b) # gs \<Longrightarrow> first \<or> 0 < buffers_size b \<Longrightarrow>
     step sha1 c (c\<lparr>c_store := restore_buffers b (recordFlushResultLocked now (Some e) (c_store c)),
                    c_flights := fs @ gs\<rparr>)"
| FlushEnd: "c_flights c = fs @ (first, b) # gs \<Longrightarrow> buffers_size b = 0 \<Longrightarrow>
     step sha1 c (c\<lparr>c_flights := fs @ gs\<rparr>)"
| MarkClosed: "step sha1 c (c\<lparr>c_store := (c_store c)\<lparr>rs_closed := True\<rparr>\<rparr>)"

inductive reachable :: "(uuid \<Rightarrow> string \<Rightarrow> uuid) \<Rightarrow> Config \<Rightarrow> configuration \<Rightarrow> bool" for sha1 cfg where
  Init: "New cfg = Ok s \<Longrightarrow>
     reachable sha1 cfg \<lparr>c_store = s, c_flights = [], c_written = no_buffers, c_acked = []\<rparr>"
| Step: "reachable sha1 cfg c \<Longrightarrow> step sha1 c c' \<Longrightarrow> reachable sha1 cfg c'"

inductive_cases step_elim: "step sha1 c c'"

text \<open>Every write appends at most one record and leaves what is buffered in place.\<close>

lemma maybeSignal_simps [simp, store_simps]:
  "rs_pending (maybeSignalFlushLocked s) = rs_pending s" "rs_cfg (maybeSignalFlushLocked s) = rs_cfg s"
  "rs_closed (maybeSignalFlushLocked s) = rs_closed s" "rs_nodes (maybeSignalFlushLocked s) = rs_nodes s"
  "rs_addressByID (maybeSignalFlushLocked s) = rs_addressByID s"
  "rs_idByAddress (maybeSignalFlushLocked s) = rs_idByAddress s"
  by (simp_all add: maybeSignalFlushLocked_def Let_def)

lemma set_tracked_simps [simp, store_simps]:
  "rs_pending (set_tracked nid tn s) = rs_pending s" "rs_cfg (set_tracked nid tn s) = rs_cfg s"
  "rs_closed (set_tracked nid tn s) = rs_closed s"
  "rs_addressByID (set_tracked nid tn s) = rs_addressByID s"
  "rs_idByAddress (set_tracked nid tn s) = rs_idByAddress s"
  "rs_nodes (set_tracked nid tn s) = AList.update nid tn (rs_nodes s)"
  by (simp_all add: set_tracked_def)

lemma resolve_frame:
  "resolveNodeIDLocked sha1 a s = (s', nid) \<Longrightarrow>
   rs_pending s' = rs_pending s \<and> rs_cfg s' = rs_cfg s \<and> rs_closed s' = rs_closed s \<and>
   rs_nodes s' = rs_nodes s \<and> rs_addressByID s' = rs_addressByID s"
  by (auto simp: resolveNodeIDLocked_def Let_def split: option.splits)

lemma ensure_frame:
  "ensureTrackedLocked now nid a s = (s', tn) \<Longrightarrow>
   rs_pending s' = rs_pending s \<and> rs_cfg s' = rs_cfg s \<and> rs_closed s' = rs_closed s"
  by (auto simp: ensureTrackedLocked_def Let_def)

lemma UpsertDiscovered_frame:
  assumes "remote_UpsertDiscoveredNode sha1 now a src tags label s = (s', r)"
  shows "rs_cfg s' = rs_cfg s \<and> rs_closed s' = rs_closed s \<and>
    rs_pending s' = (if is_ok r then (rs_pending s)\<lparr>b_discovered := b_discovered (rs_pending s) @ [\<lparr>pdn_Address = a\<rparr>]\<rparr>
                     else rs_pending s)"
  using assms
  by (auto simp: remote_UpsertDiscoveredNode_def Let_def split: if_splits prod.splits
      dest!: resolve_frame ensure_frame)

lemma UpsertConfirmed_frame:
  assumes "remote_UpsertConfirmedNode sha1 now a pk src s = (s', r)"
  shows "rs_cfg s' = rs_cfg s \<and> rs_closed s' = rs_closed s \<and>
    rs_pending s' = (if is_ok r then (rs_pending s)\<lparr>b_confirmed := b_confirmed (rs_pending s) @
                       [\<lparr>pc_Address = a, pc_PublicKey = pk, pc_DiscoverySource = src\<rparr>]\<rparr>
                     else rs_pending s)"
  using assms
  by (auto simp: remote_UpsertConfirmedNode_def Let_def split: if_splits prod.splits
      dest!: resolve_frame ensure_frame)

lemma RecordHealthCheck_frame:
  assumes "remote_RecordHealthCheck now i s = (s', r)"
  shows "rs_cfg s' = rs_cfg s \<and> rs_closed s' = rs_closed s \<and> rs_addressByID s' = rs_addressByID s \<and>
    rs_pending s' = (if is_ok r then (rs_pending s)\<lparr>b_health := b_health (rs_pending s) @
                       [\<lparr>ph_Address = the (lookup (rs_addressByID s) (hci_NodeID i)), ph_Input = i\<rparr>]\<rparr>
                     else rs_pending s)"
  using assms
  by (auto simp: remote_RecordHealthCheck_def Let_def split: if_splits option.splits)

lemma RecordPeerEdge_frame:
  assumes "remote_RecordPeerEdgeObservation now x y m s = (s', r)"
  shows "rs_cfg s' = rs_cfg s \<and> rs_closed s' = rs_closed s \<and> rs_addressByID s' = rs_addressByID s \<and>
    rs_pending s' = (if is_ok r then (rs_pending s)\<lparr>b_edges := b_edges (rs_pending s) @
                       [\<lparr>ppe_FromAddress = the (lookup (rs_addressByID s) x),
                         ppe_ToAddress = the (lookup (rs_addressByID s) y)\<rparr>]\<rparr>
                     else rs_pending s)"
  using assms
  by (auto simp: remote_RecordPeerEdgeObservation_def Let_def split: if_splits option.splits)

lemmas write_frames = UpsertDiscovered_frame UpsertConfirmed_frame RecordHealthCheck_frame RecordPeerEdge_frame

lemma do_write_frame:
  "rs_cfg (do_write sha1 now w s) = rs_cfg s \<and>
   rs_pending (do_write sha1 now w s) = append_buffers (rs_pending s) (added s (do_write sha1 now w s))"
proof -
  define s' where "s' = do_write sha1 now w s"
  have "rs_cfg s' = rs_cfg s \<and> (rs_pending s' = rs_pending s \<or>
    (\<exists>x. rs_pending s' = (rs_pending s)\<lparr>b_discovered := b_discovered (rs_pending s) @ [x]\<rparr>) \<or>
    (\<exists>x. rs_pending s' = (rs_pending s)\<lparr>b_confirmed := b_confirmed (rs_pending s) @ [x]\<rparr>) \<or>
    (\<exists>x. rs_pending s' = (rs_pending s)\<lparr>b_health := b_health (rs_pending s) @ [x]\<rparr>) \<or>
    (\<exists>x. rs_pending s' = (rs_pending s)\<lparr>b_edges := b_edges (rs_pending s) @ [x]\<rparr>))"
  proof (cases w)
    case (WDiscovered a src tags label)
    then show ?thesis using UpsertDiscovered_frame [of sha1 now a src tags label s, OF surjective_pairing]
      by (auto simp: s'_def do_write_def)
  next
    case (WConfirmed a pk src)
    then show ?thesis using UpsertConfirmed_frame [of sha1 now a pk src s, OF surjective_pairing]
      by (auto simp: s'_def do_write_def)
  next
    case (WHealth i)
    then show ?thesis using RecordHealthCheck_frame [of now i s, OF surjective_pairing]
      by (auto simp: s'_def do_write_def)
  next
    case (WEdge x y m)
    then show ?thesis using RecordPeerEdge_frame [of now x y m s, OF surjective_pairing]
      by (auto simp: s'_def do_write_def)
  qed
  then show ?thesis
    unfolding s'_def [symmetric] by (cases "rs_pending s") (auto simp: append_buffers_def added_def)
qed

text \<open>Counting records regardless of order: each record is tagged with its kind.\<close>

datatype item =
    ItemConfirmed reportWireConfirmedNode | ItemDiscovered reportWireDiscoveredNode
  | ItemHealth reportWireHealthCheck | ItemEdge reportWirePeerEdge

definition request_items :: "reportWireRequest \<Rightarrow> item multiset" where
  "request_items q = mset (map ItemConfirmed (rq_ConfirmedNodes q) @ map ItemDiscovered (rq_DiscoveredNodes q) @
     map ItemHealth (rq_HealthChecks q) @ map ItemEdge (rq_PeerEdges q))"

definition buffer_items :: "buffers \<Rightarrow> item multiset" where
  "buffer_items b = request_items (wire b)"

lemma buffer_items_append [simp]:
  "buffer_items (append_buffers a b) = buffer_items a + buffer_items b"
  by (simp add: buffer_items_def request_items_def wire_def append_buffers_def)

lemma buffer_items_none [simp]: "buffer_items no_buffers = {#}"
  by (simp add: buffer_items_def request_items_def wire_def no_buffers_def)

lemma request_items_make [simp]: "request_items (make_request cfg b) = buffer_items b"
  by (simp add: buffer_items_def request_items_def wire_def make_request_def)

lemma buffer_items_take:
  "take_batch m b = (x, y) \<Longrightarrow> buffer_items b = buffer_items x + buffer_items y"
  using take_batch_append buffer_items_append by metis

lemma merge_candidate_frame:
  "rs_pending (merge_candidate now s c) = rs_pending s \<and> rs_cfg (merge_candidate now s c) = rs_cfg s"
  by (auto simp: merge_candidate_def Let_def split: option.splits)

lemma refreshCache_frame:
  "rs_pending (fst (refreshCache http now s)) = rs_pending s \<and> rs_cfg (fst (refreshCache http now s)) = rs_cfg s"
proof -
  have "rs_pending (foldl (merge_candidate now) s cs) = rs_pending s \<and>
    rs_cfg (foldl (merge_candidate now) s cs) = rs_cfg s" for cs
    by (induction cs arbitrary: s) (auto simp: merge_candidate_frame)
  then show ?thesis by (auto simp: refreshCache_def Let_def split: httpResult.splits option.splits)
qed

definition conserved :: "configuration \<Rightarrow> bool" where
  "conserved c \<longleftrightarrow> buffer_items (c_written c) =
     sum_list (map request_items (c_acked c)) + sum_list (map (buffer_items \<circ> snd) (c_flights c)) +
     buffer_items (rs_pending (c_store c))"

lemma conserved_step: "step sha1 c c' \<Longrightarrow> conserved c \<Longrightarrow> conserved c'"
proof (induction rule: step.induct)
  case (Write s' now w c)
  then show ?case using do_write_frame [of sha1 now w "c_store c"] by (simp add: conserved_def)
next
  case (PostAcknowledged c fs first b gs batch rest now)
  then show ?case by (simp add: conserved_def buffer_items_take [OF PostAcknowledged(3)] ac_simps)
qed (auto simp: conserved_def refreshCache_frame restore_buffers_def buffers_empty_iff ac_simps)

lemma step_cfg: "step sha1 c c' \<Longrightarrow> rs_cfg (c_store c') = rs_cfg (c_store c)"
  by (induction rule: step.induct)
    (auto simp: refreshCache_frame restore_buffers_def do_write_frame)

definition acked_bounded :: "configuration \<Rightarrow> bool" where
  "acked_bounded c \<longleftrightarrow> (\<forall>q\<in>set (c_acked c). int (request_size q) \<le> flushBatchSize (rs_cfg (c_store c)))"

lemma acked_bounded_step:
  assumes "step sha1 c c'" "acked_bounded c"
  shows "acked_bounded c'"
proof -
  have "rs_cfg (c_store c') = rs_cfg (c_store c)" using assms(1) by (rule step_cfg)
  with assms show ?thesis
  proof (induction rule: step.induct)
    case (PostAcknowledged c fs first b gs batch rest now)
    then show ?case using take_batch_size [OF PostAcknowledged(3) flushBatchSize_pos]
      by (auto simp: acked_bounded_def)
  qed (auto simp: acked_bounded_def)
qed


definition fresh_store :: RemoteStore where
  "fresh_store = example_store\<lparr>rs_pending := no_buffers, rs_flushTrigger := False\<rparr>"

definition fresh_configuration :: configuration where
  "fresh_configuration = \<lparr>c_store = fresh_store, c_flights = [], c_written = no_buffers, c_acked = []\<rparr>"

lemma New_example: "New example_cfg = Ok fresh_store"
  by (simp add: New_def fresh_store_def example_store_def example_cfg_def no_buffers_def)

lemma reachable_fresh: "reachable sha1 example_cfg fresh_configuration"
  unfolding fresh_configuration_def by (rule reachable.Init [OF New_example])


section \<open>Identifiers stay resolvable\<close>

text \<open>What ties the three maps of the store together.\<close>

definition ids_ok :: "RemoteStore \<Rightarrow> bool" where
  "ids_ok s \<longleftrightarrow> distinct (map fst (rs_nodes s)) \<and>
     dom (lookup (rs_nodes s)) = dom (lookup (rs_addressByID s)) \<and>
     ran (lookup (rs_idByAddress s)) \<subseteq> dom (lookup (rs_nodes s)) \<and>
     (\<forall>nid tn. lookup (rs_nodes s) nid = Some tn \<longrightarrow>
        n_ID (tn_node tn) = nid \<and> (\<forall>a\<in>set (tn_addresses tn). na_NodeID a = nid))"

lemma ids_ok_nodes: "ids_ok s \<Longrightarrow> lookup (rs_nodes s) nid = Some tn \<Longrightarrow> n_ID (tn_node tn) = nid"
  by (simp add: ids_ok_def)

lemma touch_node_simps [simp]:
  "n_ID (touch_node now n) = n_ID n" "n_PublicKey (touch_node now n) = n_PublicKey n"
  "n_DiscoverySource (touch_node now n) = n_DiscoverySource n" "n_Tags (touch_node now n) = n_Tags n"
  "n_Address (touch_node now n) = n_Address n"
  by (simp_all add: touch_node_def)

lemma ran_update_subset: "ran (m(k \<mapsto> v)) \<subseteq> insert v (ran m)"
  by (auto simp: ran_def split: if_splits)

lemma resolve_ids:
  assumes "resolveNodeIDLocked sha1 a s = (s1, nid)"
  shows "ran (lookup (rs_idByAddress s1)) \<subseteq> insert nid (ran (lookup (rs_idByAddress s)))"
  using assms ran_update_subset [of "lookup (rs_idByAddress s)" a nid]
  by (auto simp: resolveNodeIDLocked_def Let_def split: option.splits)

definition tracked_ok :: "uuid \<Rightarrow> trackedNode \<Rightarrow> bool" where
  "tracked_ok nid tn \<longleftrightarrow> n_ID (tn_node tn) = nid \<and> (\<forall>x\<in>set (tn_addresses tn). na_NodeID x = nid)"

lemma ids_ok_alt:
  "ids_ok s \<longleftrightarrow> distinct (map fst (rs_nodes s)) \<and>
     dom (lookup (rs_nodes s)) = dom (lookup (rs_addressByID s)) \<and>
     ran (lookup (rs_idByAddress s)) \<subseteq> dom (lookup (rs_nodes s)) \<and>
     (\<forall>nid tn. lookup (rs_nodes s) nid = Some tn \<longrightarrow> tracked_ok nid tn)"
  by (simp add: ids_ok_def tracked_ok_def)

lemma ensure_tracked:
  assumes "ensureTrackedLocked now nid a s = (s2, tn)"
    "\<forall>t. lookup (rs_nodes s) nid = Some t \<longrightarrow> tracked_ok nid t"
  shows "tracked_ok nid tn \<and> a \<in> na_Address ` set (tn_addresses tn)"
proof -
  define t where "t = (case lookup (rs_nodes s) nid of
                  Some tn \<Rightarrow> tn
                | None \<Rightarrow> \<lparr>tn_node = zeroNode\<lparr>n_ID := nid, n_Address := a\<rparr>, tn_addresses = [],
                           tn_hasHealthChecks = False, tn_cacheDerived = False\<rparr>)"
  have "tracked_ok nid t" using assms(2) by (auto simp: t_def tracked_ok_def split: option.splits)
  then show ?thesis
    using assms(1) unfolding ensureTrackedLocked_def t_def [symmetric] Let_def
    by (auto simp: tracked_ok_def list_ex_iff split: if_splits)
qed

lemma ensure_store:
  assumes "ensureTrackedLocked now nid a s = (s2, tn)"
  shows "s2 = s\<lparr>rs_nodes := AList.update nid tn (rs_nodes s),
            rs_idByAddress := AList.update a nid (rs_idByAddress s),
            rs_addressByID := (case lookup (rs_addressByID s) nid of
                                 None \<Rightarrow> AList.update nid a (rs_addressByID s)
                               | Some _ \<Rightarrow> rs_addressByID s)\<rparr>"
  using assms unfolding ensureTrackedLocked_def Let_def by (elim Pair_inject) (simp only:)

lemma ensure_maps:
  assumes "ensureTrackedLocked now nid a s = (s2, tn)"
  shows "rs_nodes s2 = AList.update nid tn (rs_nodes s) \<and>
    dom (lookup (rs_addressByID s2)) = insert nid (dom (lookup (rs_addressByID s))) \<and>
    ran (lookup (rs_idByAddress s2)) \<subseteq> insert nid (ran (lookup (rs_idByAddress s)))"
  using ran_update_subset [of "lookup (rs_idByAddress s)" a nid]
  by (auto simp: ensure_store [OF assms] split: option.splits)

text \<open>Both upserts: resolve, track, then write a node with the same identifier back.\<close>

lemma track_write:
  assumes ok: "ids_ok s" and r: "resolveNodeIDLocked sha1 a s = (s1, nid)"
    and e: "ensureTrackedLocked now nid a s1 = (s2, tn)"
    and n: "n_ID n = nid"
    and s3: "rs_nodes s3 = AList.update nid (tn\<lparr>tn_node := n\<rparr>) (rs_nodes s2)"
      "rs_addressByID s3 = rs_addressByID s2" "rs_idByAddress s3 = rs_idByAddress s2"
  shows "ids_ok s3 \<and> lookup (rs_nodes s3) nid = Some (tn\<lparr>tn_node := n\<rparr>) \<and>
    a \<in> na_Address ` set (tn_addresses tn) \<and> dom (lookup (rs_addressByID s)) \<subseteq> dom (lookup (rs_addressByID s3))"
proof -
  note rf = resolve_frame [OF r] and em = ensure_maps [OF e]
  have t: "tracked_ok nid tn \<and> a \<in> na_Address ` set (tn_addresses tn)"
    using ensure_tracked [OF e] rf ok by (auto simp: ids_ok_alt)
  have nodes: "lookup (rs_nodes s3) = (lookup (rs_nodes s))(nid \<mapsto> tn\<lparr>tn_node := n\<rparr>)"
    using s3 em rf by (auto simp: fun_eq_iff)
  have "distinct (map fst (rs_nodes s3))"
    using ok s3 em rf by (simp add: ids_ok_alt distinct_update)
  moreover have "ran (lookup (rs_idByAddress s3)) \<subseteq> dom (lookup (rs_nodes s3))"
  proof -
    have "ran (lookup (rs_idByAddress s3)) \<subseteq> insert nid (ran (lookup (rs_idByAddress s)))"
      using resolve_ids [OF r] em s3(3) by auto
    also have "\<dots> \<subseteq> insert nid (dom (lookup (rs_nodes s)))" using ok unfolding ids_ok_def by blast
    finally show ?thesis by (simp add: nodes)
  qed
  moreover have "dom (lookup (rs_nodes s3)) = dom (lookup (rs_addressByID s3))"
    using em s3 rf ok nodes by (auto simp: ids_ok_alt)
  moreover have "tracked_ok nid' tn'" if "lookup (rs_nodes s3) nid' = Some tn'" for nid' tn'
    using that nodes t n ok by (auto simp: ids_ok_alt tracked_ok_def split: if_splits)
  ultimately show ?thesis using t nodes em s3 rf by (auto simp: ids_ok_alt)
qed

lemma UpsertDiscovered_ids:
  assumes "ids_ok s" "remote_UpsertDiscoveredNode sha1 now a src tags label s = (s', r)"
  shows "ids_ok s' \<and> dom (lookup (rs_addressByID s)) \<subseteq> dom (lookup (rs_addressByID s')) \<and>
    (\<forall>n. r = Ok n \<longrightarrow> (\<exists>tn. lookup (rs_nodes s') (n_ID n) = Some tn \<and> tn_node tn = n \<and>
       a \<in> na_Address ` set (tn_addresses tn)))"
proof (cases "is_ok r")
  case False
  then show ?thesis using assms
    by (auto simp: remote_UpsertDiscoveredNode_def Let_def split: if_splits prod.splits)
next
  case True
  obtain s1 nid where r: "resolveNodeIDLocked sha1 a s = (s1, nid)" by (metis surj_pair)
  obtain s2 tn where e: "ensureTrackedLocked now nid a s1 = (s2, tn)" by (metis surj_pair)
  have id: "n_ID (tn_node tn) = nid"
    using ensure_tracked [OF e] resolve_frame [OF r] assms(1) by (auto simp: ids_ok_alt tracked_ok_def)
  from True obtain n where n: "r = Ok n" by (auto simp: is_ok_iff)
  with assms(2) r e have
    s': "rs_nodes s' = AList.update nid (tn\<lparr>tn_node := n\<rparr>) (rs_nodes s2)"
      "rs_addressByID s' = rs_addressByID s2" "rs_idByAddress s' = rs_idByAddress s2" "n_ID n = n_ID (tn_node tn)"
    by (auto simp: remote_UpsertDiscoveredNode_def Let_def split: if_splits option.splits)
  show ?thesis
    using track_write [OF assms(1) r e, of n s'] s' id n by auto
qed

lemma UpsertConfirmed_ids:
  assumes "ids_ok s" "remote_UpsertConfirmedNode sha1 now a pk src s = (s', r)"
  shows "ids_ok s' \<and> dom (lookup (rs_addressByID s)) \<subseteq> dom (lookup (rs_addressByID s')) \<and>
    (\<forall>n. r = Ok n \<longrightarrow> n_PublicKey n = pk \<and> (\<exists>tn. lookup (rs_nodes s') (n_ID n) = Some tn \<and> tn_node tn = n \<and>
       a \<in> na_Address ` set (tn_addresses tn)))"
proof (cases "is_ok r")
  case False
  then show ?thesis using assms
    by (auto simp: remote_UpsertConfirmedNode_def Let_def split: if_splits prod.splits)
next
  case True
  obtain s1 nid where r: "resolveNodeIDLocked sha1 a s = (s1, nid)" by (metis surj_pair)
  obtain s2 tn where e: "ensureTrackedLocked now nid a s1 = (s2, tn)" by (metis surj_pair)
  have id: "n_ID (tn_node tn) = nid"
    using ensure_tracked [OF e] resolve_frame [OF r] assms(1) by (auto simp: ids_ok_alt tracked_ok_def)
  from True obtain n where n: "r = Ok n" by (auto simp: is_ok_iff)
  with assms(2) r e have
    s': "rs_nodes s' = AList.update nid (tn\<lparr>tn_node := n\<rparr>) (rs_nodes s2)"
      "rs_addressByID s' = rs_addressByID s2" "rs_idByAddress s' = rs_idByAddress s2"
      "n_ID n = n_ID (tn_node tn)" "n_PublicKey n = pk"
    by (auto simp: remote_UpsertConfirmedNode_def Let_def split: if_splits option.splits)
  show ?thesis
    using track_write [OF assms(1) r e, of n s'] s' id n by auto
qed

lemma ids_ok_cong:
  "rs_nodes s' = rs_nodes s \<Longrightarrow> rs_addressByID s' = rs_addressByID s \<Longrightarrow>
   rs_idByAddress s' = rs_idByAddress s \<Longrightarrow> ids_ok s' = ids_ok s"
  by (simp add: ids_ok_def)

lemma ids_ok_put:
  assumes "ids_ok s" "tracked_ok nid tn" "nid \<in> dom (lookup (rs_addressByID s'))"
    "rs_nodes s' = AList.update nid tn (rs_nodes s)"
    "dom (lookup (rs_addressByID s')) = insert nid (dom (lookup (rs_addressByID s)))"
    "ran (lookup (rs_idByAddress s')) \<subseteq> insert nid (ran (lookup (rs_idByAddress s)))"
  shows "ids_ok s'"
proof -
  have "ran (lookup (rs_idByAddress s')) \<subseteq> insert nid (dom (lookup (rs_nodes s)))"
    using assms(1,6) unfolding ids_ok_def by blast
  then show ?thesis using assms unfolding ids_ok_alt by (auto simp: distinct_update)
qed

lemma RecordHealthCheck_ids:
  assumes "ids_ok s"
  shows "ids_ok (fst (remote_RecordHealthCheck now i s))"
proof (cases "lookup (rs_nodes s) (hci_NodeID i)")
  case None
  then show ?thesis using assms
    by (auto simp: remote_RecordHealthCheck_def Let_def split: option.splits intro: ids_ok_cong [THEN iffD2])
next
  case (Some tn)
  define tn' where "tn' = tn\<lparr>tn_hasHealthChecks := True, tn_node := (tn_node tn)\<lparr>n_LastSeen := now\<rparr>\<rparr>"
  have "tracked_ok (hci_NodeID i) tn" "hci_NodeID i \<in> dom (lookup (rs_addressByID s))"
    using Some assms by (auto simp: ids_ok_alt)
  then have "tracked_ok (hci_NodeID i) tn'" "insert (hci_NodeID i) (dom (lookup (rs_addressByID s))) = dom (lookup (rs_addressByID s))"
    by (auto simp: tracked_ok_def tn'_def)
  from ids_ok_put [OF assms this(1), of "set_tracked (hci_NodeID i) tn' s"] this(2)
  have "ids_ok (set_tracked (hci_NodeID i) tn' s)" by auto
  then have "ids_ok (maybeSignalFlushLocked (set_tracked (hci_NodeID i) tn' s\<lparr>rs_pending := b\<rparr>))" for b
    by (rule ids_ok_cong [THEN iffD2, rotated 3]) simp_all
  then show ?thesis using assms Some
    by (auto simp: remote_RecordHealthCheck_def Let_def tn'_def split: option.splits)
qed

lemma RecordPeerEdge_ids:
  "ids_ok s \<Longrightarrow> ids_ok (fst (remote_RecordPeerEdgeObservation now x y m s))"
  by (auto simp: remote_RecordPeerEdgeObservation_def Let_def split: option.splits intro: ids_ok_cong [THEN iffD2])

lemma ran_foldl_update:
  "ran (lookup (foldl (\<lambda>m a. AList.update a v m) m as)) \<subseteq> insert v (ran (lookup m))"
proof (induction as arbitrary: m)
  case (Cons a as)
  have "ran (lookup (foldl (\<lambda>m a. AList.update a v m) (AList.update a v m) as)) \<subseteq>
    insert v (ran (lookup (AList.update a v m)))" by (rule Cons.IH)
  also have "\<dots> \<subseteq> insert v (ran (lookup m))"
    using ran_update_subset [of "lookup m" a v] by auto
  finally show ?case by simp
qed auto

lemma merge_candidate_ids:
  assumes "ids_ok s"
  shows "ids_ok (merge_candidate now s c) \<and>
    dom (lookup (rs_addressByID s)) \<subseteq> dom (lookup (rs_addressByID (merge_candidate now s c)))"
proof (cases "length (sw_Addresses c) = 0 \<or> hex_DecodeString (sw_PublicKey c) = None")
  case True
  then show ?thesis using assms by (auto simp: merge_candidate_def)
next
  case False
  then obtain pubkey where pk: "hex_DecodeString (sw_PublicKey c) = Some pubkey" by auto
  define s' where "s' = merge_candidate now s c"
  have "\<exists>tn. tracked_ok (sw_NodeID c) tn \<and> rs_nodes s' = AList.update (sw_NodeID c) tn (rs_nodes s)"
    unfolding s'_def merge_candidate_def Let_def using False pk
    by simp (rule exI, rule conjI [rotated], rule refl, simp add: tracked_ok_def)
  then obtain tn where tn: "tracked_ok (sw_NodeID c) tn" "rs_nodes s' = AList.update (sw_NodeID c) tn (rs_nodes s)"
    by blast
  have a: "dom (lookup (rs_addressByID s')) = insert (sw_NodeID c) (dom (lookup (rs_addressByID s)))"
    using False pk by (auto simp: s'_def merge_candidate_def Let_def)
  have "ran (lookup (rs_idByAddress s')) \<subseteq> insert (sw_NodeID c) (ran (lookup (rs_idByAddress s)))"
    using False pk ran_foldl_update [of "sw_NodeID c"] by (simp add: s'_def merge_candidate_def Let_def)
  from ids_ok_put [OF assms tn(1) _ tn(2) a this] a show ?thesis
    unfolding s'_def [symmetric] by auto
qed

lemma refreshCache_ids:
  assumes "ids_ok s"
  shows "ids_ok (fst (refreshCache http now s)) \<and>
    dom (lookup (rs_addressByID s)) \<subseteq> dom (lookup (rs_addressByID (fst (refreshCache http now s))))"
proof -
  have "ids_ok (foldl (merge_candidate now) s cs) \<and>
    dom (lookup (rs_addressByID s)) \<subseteq> dom (lookup (rs_addressByID (foldl (merge_candidate now) s cs)))" for cs
    using assms
  proof (induction cs arbitrary: s)
    case (Cons c cs)
    from merge_candidate_ids [OF Cons.prems, of now c] Cons.IH [of "merge_candidate now s c"] show ?case by auto
  qed simp
  then show ?thesis using assms by (auto simp: refreshCache_def Let_def split: httpResult.splits option.splits)
qed

lemma do_write_ids:
  assumes "ids_ok s"
  shows "ids_ok (do_write sha1 now w s) \<and>
    dom (lookup (rs_addressByID s)) \<subseteq> dom (lookup (rs_addressByID (do_write sha1 now w s)))"
proof (cases w)
  case (WDiscovered a src tags label)
  then show ?thesis
    using UpsertDiscovered_ids [OF assms, of sha1 now a src tags label, OF surjective_pairing]
    by (simp add: do_write_def)
next
  case (WConfirmed a pk src)
  then show ?thesis using UpsertConfirmed_ids [OF assms, of sha1 now a pk src, OF surjective_pairing]
    by (simp add: do_write_def)
next
  case (WHealth i)
  then show ?thesis
    using RecordHealthCheck_ids [OF assms] RecordHealthCheck_frame [of now i s, OF surjective_pairing]
    by (simp add: do_write_def)
next
  case (WEdge x y m)
  then show ?thesis
    using RecordPeerEdge_ids [OF assms] RecordPeerEdge_frame [of now x y m s, OF surjective_pairing]
    by (simp add: do_write_def)
qed

lemma step_ids:
  assumes "step sha1 c c'" "ids_ok (c_store c)"
  shows "ids_ok (c_store c') \<and>
    dom (lookup (rs_addressByID (c_store c))) \<subseteq> dom (lookup (rs_addressByID (c_store c')))"
  using assms
proof (induction rule: step.induct)
  case (Write s' now w c)
  then show ?case using do_write_ids [of "c_store c" sha1 now w] by simp
next
  case (Refresh c http now)
  then show ?case using refreshCache_ids [of "c_store c" http now] by simp
qed (auto simp: ids_ok_def restore_buffers_def)

lemma steps_ids:
  assumes "(step sha1)\<^sup>*\<^sup>* c c'" "ids_ok (c_store c)"
  shows "ids_ok (c_store c') \<and>
    dom (lookup (rs_addressByID (c_store c))) \<subseteq> dom (lookup (rs_addressByID (c_store c')))"
  using assms
proof (induction rule: rtranclp_induct)
  case (step y z)
  then show ?case using step_ids [of sha1 y z] by auto
qed simp

lemma reachable_ids: "reachable sha1 cfg c \<Longrightarrow> ids_ok (c_store c)"
proof (induction rule: reachable.induct)
  case (Init s)
  then show ?case by (auto simp: New_def ids_ok_def split: if_splits)
next
  case (Step c c')
  then show ?case using step_ids by blast
qed



section \<open>Health of the report channel\<close>

text \<open>The store after a history of report requests: when each ended, and with which error.\<close>

definition after_attempts :: "(time \<times> error option) list \<Rightarrow> RemoteStore \<Rightarrow> RemoteStore" where
  "after_attempts h s = foldl (\<lambda>s (t, e). recordFlushResultLocked t e s) s h"

definition last_success :: "time \<Rightarrow> (time \<times> error option) list \<Rightarrow> time" where
  "last_success t0 h = foldl (\<lambda>t (t', e). if e = None then t' else t) t0 h"

lemma after_attempts_fields:
  "rs_lastFlushSuccess (after_attempts h s) = last_success (rs_lastFlushSuccess s) h \<and>
   rs_cfg (after_attempts h s) = rs_cfg s \<and>
   (h \<noteq> [] \<longrightarrow> rs_lastFlushAttempt (after_attempts h s) = fst (last h) \<and>
               rs_lastFlushErr (after_attempts h s) = snd (last h))"
proof (induction h rule: rev_induct)
  case (snoc x h)
  then show ?case
    by (cases x) (auto simp: after_attempts_def last_success_def recordFlushResultLocked_def Let_def)
qed (simp add: after_attempts_def last_success_def)

lemma last_success_none: "\<forall>x\<in>set h. snd x \<noteq> None \<Longrightarrow> last_success t0 h = t0"
  by (induction h arbitrary: t0) (auto simp: last_success_def)

text \<open>
  What \<^verbatim>\<open>Ping\<close> says of the report channel, exactly.  With the central API up, after any
  history of report requests on a new store, \<^verbatim>\<open>Ping\<close> fails if and only if the last
  request failed and more than the threshold has passed since the last success, or, when
  none ever succeeded, since the last request.
\<close>

theorem Ping_report_channel:
  assumes "New cfg = Ok s" "h \<noteq> []" "\<forall>x\<in>set h. 0 < fst x" "\<And>url. http url = HttpResponse StatusOK b"
  shows "\<not> is_ok (Ping http now (after_attempts h s)) \<longleftrightarrow>
    snd (last h) \<noteq> None \<and>
    now - (if last_success 0 h = 0 then fst (last h) else last_success 0 h) > reportChannelUnhealthyThreshold s"
proof -
  have "rs_lastFlushSuccess s = 0" "rs_cfg s = cfg" using assms(1) by (auto simp: New_def split: if_splits)
  moreover have "fst (last h) \<noteq> 0" using assms(2,3) last_in_set by fastforce
  ultimately show ?thesis
    using after_attempts_fields [of h s] assms(2,4)
    by (simp add: Ping_def Let_def reportChannelUnhealthyThreshold_def)
qed

theorem Ping_report_channel_witness:
  "\<not> is_ok (Ping (\<lambda>_. HttpResponse StatusOK None) (1 + 301 * Second)
      (after_attempts [(1, None), (1 + 60 * Second, Some ErrClosed)] fresh_store))"
  using Ping_report_channel [OF New_example, of "[(1, None), (1 + 60 * Second, Some ErrClosed)]"
      "\<lambda>_. HttpResponse StatusOK None" None "1 + 301 * Second"]
  by (simp add: duration_defs last_success_def reportChannelUnhealthyThreshold_def fresh_store_def
      example_store_def example_cfg_def DefaultReportChannelUnhealthyThreshold_def DefaultFlushInterval_def)

text \<open>
  A channel that has never worked can look healthy indefinitely.  If every report
  request ever made failed, \<^verbatim>\<open>Ping\<close> succeeds as long as the most recent one is within the
  threshold, however long ago the first one was: retrying more often than the threshold
  keeps it green.
\<close>

theorem Ping_never_worked:
  assumes "New cfg = Ok s" "h \<noteq> []" "\<forall>x\<in>set h. snd x \<noteq> None"
    "now - fst (last h) \<le> reportChannelUnhealthyThreshold s" "\<And>url. http url = HttpResponse StatusOK b"
  shows "Ping http now (after_attempts h s) = Ok ()"
proof -
  have "rs_lastFlushSuccess s = 0" "rs_cfg s = cfg" using assms(1) by (auto simp: New_def split: if_splits)
  then show ?thesis
    using after_attempts_fields [of h s] assms(2,4,5) last_success_none [OF assms(3)]
    by (auto simp: Ping_def Let_def reportChannelUnhealthyThreshold_def split: if_splits)
qed

theorem Ping_never_worked_witness:
  "Ping (\<lambda>_. HttpResponse StatusOK None) (24 * Hour + Minute)
     (after_attempts [(1, Some ErrClosed), (24 * Hour, Some ErrClosed)] fresh_store) = Ok ()"
  using Ping_never_worked [OF New_example, of "[(1, Some ErrClosed), (24 * Hour, Some ErrClosed)]"
      "24 * Hour + Minute" "\<lambda>_. HttpResponse StatusOK None" None]
  by (simp add: duration_defs reportChannelUnhealthyThreshold_def fresh_store_def
      example_store_def example_cfg_def DefaultReportChannelUnhealthyThreshold_def DefaultFlushInterval_def)

section \<open>Retries\<close>

definition losing_net :: network where
  "losing_net log url key req = (int (length log) + 1, TransportError)"

text \<open>
  A retried request need not repeat the one that failed.  A flush of one record fails,
  a second record is buffered, and the next flush sends both in one request, which differs
  from the first one although it contains its record: an idempotency key derived from the
  bytes of the request does not recognise it.
\<close>

theorem retry_not_identical:
  "let s0 = example_store\<lparr>rs_cfg := example_cfg\<lparr>cfg_FlushBatchSize := 500\<rparr>,
              rs_pending := no_buffers\<lparr>b_discovered := [\<lparr>pdn_Address = ''a:1''\<rparr>]\<rparr>\<rparr>;
       s1 = fst (snd (flushOnce losing_net [] s0));
       s2 = fst (remote_UpsertDiscoveredNode (\<lambda>_ _. 7) 3 ''b:1'' DiscoverySourceP2P [] None s1)
   in map (\<lambda>x. map dw_Address (rq_DiscoveredNodes (fst x))) (fst (flushOnce losing_net [] s0)) = [[''a:1'']] \<and>
      map (\<lambda>x. map dw_Address (rq_DiscoveredNodes (fst x))) (fst (flushOnce losing_net [] s2)) = [[''a:1'', ''b:1'']]"
  by code_simp

section \<open>Listing\<close>

lemma matchesFilter_iff:
  "matchesFilterLocked tn f \<longleftrightarrow>
     (nf_DiscoverySource f = [] \<or> n_DiscoverySource (tn_node tn) = nf_DiscoverySource f) \<and>
     (\<forall>c. nf_Confirmed f = Some c \<longrightarrow> c = (n_PublicKey (tn_node tn) \<noteq> [])) \<and>
     (\<forall>h. nf_HasHealthChecks f = Some h \<longrightarrow> h = tn_hasHealthChecks tn) \<and>
     (\<forall>ow. nf_Owned f = Some ow \<longrightarrow> ow = isPoolOwned (tn_node tn)) \<and>
     (nf_ReachableSince f = None \<or> tn_cacheDerived tn)"
  by (auto simp: matchesFilterLocked_def Let_def isOwnedTags_eq split: option.splits)

text \<open>The interface of a paginated listing, for the satellite's store.\<close>

definition remote_matching :: "NodeFilter \<Rightarrow> RemoteStore \<Rightarrow> Node list" where
  "remote_matching f s = map tn_node (filter (\<lambda>tn. matchesFilterLocked tn f) (map snd (rs_nodes s)))"

interpretation remote_listing: node_listing remote_ListNodes remote_CountNodes remote_matching
proof unfold_locales
  show "remote_ListNodes f s = Ok (paginate (nf_Offset f) (nf_Limit f) (sort_by_address (remote_matching f s)))" for f s
    by (simp add: remote_ListNodes_def listNodesLocked_def remote_matching_def)
  show m: "remote_matching (f\<lparr>nf_Limit := l, nf_Offset := off\<rparr>) s = remote_matching f s" for f s l off
    by (simp add: remote_matching_def matchesFilterLocked_def)
  show "remote_CountNodes f s = Ok (length (remote_matching f s))" for f s
    using m [where f = f and s = s and l = 0 and off = 0] by (simp add: remote_CountNodes_def listNodesLocked_def remote_matching_def [symmetric] Let_def)
qed

text \<open>
  The satellite's node listing.  The pages of any positive size, read in order,
  make up the whole listing exactly once, in address order; the whole listing consists of
  the tracked nodes that satisfy every set field of the filter the satellite evaluates,
  and the count is its length.
\<close>

theorem remote_ListNodes_pages:
  assumes "0 < l" "length (remote_matching f s) \<le> l * k"
  shows "\<exists>all. remote_ListNodes (f\<lparr>nf_Limit := 0, nf_Offset := 0\<rparr>) s = Ok all \<and>
    remote_CountNodes f s = Ok (length all) \<and> sorted_wrt address_le all \<and>
    mset all = image_mset tn_node {#tn \<in># mset (map snd (rs_nodes s)). matchesFilterLocked tn f#} \<and>
    map (\<lambda>p. remote_ListNodes (f\<lparr>nf_Limit := int l, nf_Offset := int (p * l)\<rparr>) s) [0..<k] =
      map (\<lambda>p. Ok (take l (drop (p * l) all))) [0..<k] \<and>
    concat (map (\<lambda>p. take l (drop (p * l) all)) [0..<k]) = all"
proof -
  obtain all where "remote_ListNodes (f\<lparr>nf_Limit := 0, nf_Offset := 0\<rparr>) s = Ok all \<and>
    remote_CountNodes f s = Ok (length all) \<and> sorted_wrt address_le all \<and> mset all = mset (remote_matching f s) \<and>
    map (\<lambda>p. remote_ListNodes (f\<lparr>nf_Limit := int l, nf_Offset := int (p * l)\<rparr>) s) [0..<k] =
      map (\<lambda>p. Ok (take l (drop (p * l) all))) [0..<k] \<and>
    concat (map (\<lambda>p. take l (drop (p * l) all)) [0..<k]) = all"
    using remote_listing.pages [OF assms] by blast
  then show ?thesis by (simp add: remote_matching_def mset_filter)
qed

theorem remote_ListNodes_pages_witness:
  "\<exists>all. remote_ListNodes (emptyFilter\<lparr>nf_Limit := 0, nf_Offset := 0\<rparr>) fresh_store = Ok all \<and> length all = 0"
  using remote_ListNodes_pages [of 1 emptyFilter fresh_store 0]
  by (auto simp: remote_matching_def fresh_store_def example_store_def)

section \<open>The satellite's store keeps the contract\<close>

text \<open>
  The satellite never retires an identifier; a client that respects the preconditions sees
  no error but that of a closed store.
\<close>

lemma ids_ok_tracked: "ids_ok s \<Longrightarrow> lookup (rs_nodes s) i = Some tn \<Longrightarrow> i \<in> dom (lookup (rs_addressByID s))"
  unfolding ids_ok_def by (metis domI)

lemma UpsertDiscovered_error:
  "remote_UpsertDiscoveredNode sha1 now a src tags label s = (s', Inl e) \<Longrightarrow> a \<noteq> [] \<Longrightarrow> src \<noteq> [] \<Longrightarrow> e = ErrClosed"
  by (auto simp: remote_UpsertDiscoveredNode_def Let_def split: if_splits prod.splits)

lemma UpsertConfirmed_error:
  "remote_UpsertConfirmedNode sha1 now a pk src s = (s', Inl e) \<Longrightarrow> a \<noteq> [] \<Longrightarrow> pk \<noteq> [] \<Longrightarrow> src \<noteq> [] \<Longrightarrow> e = ErrClosed"
  by (auto simp: remote_UpsertConfirmedNode_def Let_def split: if_splits prod.splits)

lemma valid_nonempty: "valid_source src \<Longrightarrow> src \<noteq> []" "valid_probe p \<Longrightarrow> p \<noteq> []"
  by (auto simp: valid_source_def valid_probe_def source_defs)

interpretation remote_contract: store_contract "remote_Store sha1" ids_ok "\<lambda>s. dom (lookup (rs_addressByID s))"
  "\<lambda>s. dom (lookup (rs_addressByID s))" "\<lambda>e. e = ErrClosed"
proof unfold_locales
  fix a :: string and src X K now tags label
  assume as: "a \<noteq> []" "valid_source src"
  show "triple (\<lambda>s. ids_ok s \<and> X \<subseteq> dom (lookup (rs_addressByID s)) \<and> K \<subseteq> dom (lookup (rs_addressByID s)))
        (UpsertDiscoveredNode (remote_Store sha1) now a src tags label)
        (\<lambda>n s. ids_ok s \<and> insert (n_ID n) X \<subseteq> dom (lookup (rs_addressByID s)) \<and> K \<subseteq> dom (lookup (rs_addressByID s)))
        (\<lambda>e s. ids_ok s \<and> e = ErrClosed)"
  proof (rule tripleI)
    fix s s' r
    assume s: "ids_ok s \<and> X \<subseteq> dom (lookup (rs_addressByID s)) \<and> K \<subseteq> dom (lookup (rs_addressByID s))"
      and u: "UpsertDiscoveredNode (remote_Store sha1) now a src tags label s = (s', r)"
    have u': "remote_UpsertDiscoveredNode sha1 now a src tags label s = (s', r)" using u by (simp add: remote_Store_def)
    have "e = ErrClosed" if "r = Inl e" for e
      using UpsertDiscovered_error [of sha1 now a src tags label s s' e] u' that as valid_nonempty by blast
    moreover have "n_ID n \<in> dom (lookup (rs_addressByID s'))" if "r = Inr n" for n
      using UpsertDiscovered_ids [OF _ u'] s that ids_ok_tracked by blast
    moreover note UpsertDiscovered_ids [OF _ u'] s
    ultimately show "case r of Inl e \<Rightarrow> ids_ok s' \<and> e = ErrClosed
      | Inr n \<Rightarrow> ids_ok s' \<and> insert (n_ID n) X \<subseteq> dom (lookup (rs_addressByID s')) \<and> K \<subseteq> dom (lookup (rs_addressByID s'))"
      by (cases r) (simp_all, blast+)
  qed
next
  fix a :: string and pk :: bytes and src K now
  assume as: "a \<noteq> []" "pk \<noteq> []" "valid_source src"
  show "triple (\<lambda>s. ids_ok s \<and> K \<subseteq> dom (lookup (rs_addressByID s))) (UpsertConfirmedNode (remote_Store sha1) now a pk src)
        (\<lambda>n s. ids_ok s \<and> insert (n_ID n) K \<subseteq> dom (lookup (rs_addressByID s))) (\<lambda>e s. ids_ok s \<and> e = ErrClosed)"
  proof (rule tripleI)
    fix s s' r
    assume s: "ids_ok s \<and> K \<subseteq> dom (lookup (rs_addressByID s))"
      and u: "UpsertConfirmedNode (remote_Store sha1) now a pk src s = (s', r)"
    have u': "remote_UpsertConfirmedNode sha1 now a pk src s = (s', r)" using u by (simp add: remote_Store_def)
    have "e = ErrClosed" if "r = Inl e" for e
      using UpsertConfirmed_error [of sha1 now a pk src s s' e] u' that as valid_nonempty by blast
    moreover have "n_ID n \<in> dom (lookup (rs_addressByID s'))" if "r = Inr n" for n
      using UpsertConfirmed_ids [OF _ u'] s that ids_ok_tracked by blast
    moreover note UpsertConfirmed_ids [OF _ u'] s
    ultimately show "case r of Inl e \<Rightarrow> ids_ok s' \<and> e = ErrClosed
      | Inr n \<Rightarrow> ids_ok s' \<and> insert (n_ID n) K \<subseteq> dom (lookup (rs_addressByID s'))"
      by (cases r) (simp_all, blast+)
  qed
next
  fix i :: HealthCheckInput and X K now
  assume as: "hci_NodeID i \<in> X" "valid_probe (hci_ProbeSource i)"
  show "triple (\<lambda>s. ids_ok s \<and> X \<subseteq> dom (lookup (rs_addressByID s)) \<and> K \<subseteq> dom (lookup (rs_addressByID s)))
        (RecordHealthCheck (remote_Store sha1) now i)
        (\<lambda>_ s. ids_ok s \<and> X \<subseteq> dom (lookup (rs_addressByID s)) \<and> K \<subseteq> dom (lookup (rs_addressByID s)))
        (\<lambda>e s. ids_ok s \<and> e = ErrClosed)"
  proof (rule tripleI)
    fix s s' r
    assume s: "ids_ok s \<and> X \<subseteq> dom (lookup (rs_addressByID s)) \<and> K \<subseteq> dom (lookup (rs_addressByID s))"
      and u: "RecordHealthCheck (remote_Store sha1) now i s = (s', r)"
    have u': "remote_RecordHealthCheck now i s = (s', r)" using u by (simp add: remote_Store_def)
    obtain addr where "lookup (rs_addressByID s) (hci_NodeID i) = Some addr" using s as by blast
    then have "e = ErrClosed" if "r = Inl e" for e
      using u' that valid_nonempty(2) [OF as(2)] by (auto simp: remote_RecordHealthCheck_def Let_def split: if_splits)
    with s RecordHealthCheck_frame [OF u'] RecordHealthCheck_ids [of s now i] u'
    show "case r of Inl e \<Rightarrow> ids_ok s' \<and> e = ErrClosed
      | Inr _ \<Rightarrow> ids_ok s' \<and> X \<subseteq> dom (lookup (rs_addressByID s')) \<and> K \<subseteq> dom (lookup (rs_addressByID s'))"
      by (cases r) auto
  qed
next
  fix x y :: uuid and X K now meta
  assume as: "x \<in> X" "y \<in> X"
  show "triple (\<lambda>s. ids_ok s \<and> X \<subseteq> dom (lookup (rs_addressByID s)) \<and> K \<subseteq> dom (lookup (rs_addressByID s)))
        (RecordPeerEdgeObservation (remote_Store sha1) now x y meta)
        (\<lambda>_ s. ids_ok s \<and> X \<subseteq> dom (lookup (rs_addressByID s)) \<and> K \<subseteq> dom (lookup (rs_addressByID s)))
        (\<lambda>e s. ids_ok s \<and> e = ErrClosed)"
  proof (rule tripleI)
    fix s s' r
    assume s: "ids_ok s \<and> X \<subseteq> dom (lookup (rs_addressByID s)) \<and> K \<subseteq> dom (lookup (rs_addressByID s))"
      and u: "RecordPeerEdgeObservation (remote_Store sha1) now x y meta s = (s', r)"
    have u': "remote_RecordPeerEdgeObservation now x y meta s = (s', r)" using u by (simp add: remote_Store_def)
    obtain xa ya where "lookup (rs_addressByID s) x = Some xa" "lookup (rs_addressByID s) y = Some ya" using s as by blast
    then have "e = ErrClosed" if "r = Inl e" for e
      using u' that by (auto simp: remote_RecordPeerEdgeObservation_def Let_def split: if_splits)
    with s RecordPeerEdge_frame [OF u'] RecordPeerEdge_ids [of s now x y meta] u'
    show "case r of Inl e \<Rightarrow> ids_ok s' \<and> e = ErrClosed
      | Inr _ \<Rightarrow> ids_ok s' \<and> X \<subseteq> dom (lookup (rs_addressByID s')) \<and> K \<subseteq> dom (lookup (rs_addressByID s'))"
      by (cases r) auto
  qed
qed simp

end
