(* ===== verification/Pg_Schema.thy ===== *)
theory Pg_Schema
  imports Listing
begin

text \<open>
  The central database: the tables the migrations under
  \<^verbatim>\<open>internal/storage/migrations\<close> create, with their constraints, and what executing one
  SQL statement does.  A table is the list of its rows; a statement that leaves a
  constraint violated fails and changes nothing.  \<^verbatim>\<open>SELECT\<close> without \<^verbatim>\<open>ORDER BY\<close>
  scans a table in list order; since the theorems hold for every list of rows, they hold
  for every scan order.  \<^verbatim>\<open>gen_random_uuid()\<close> draws from \<open>db_random\<close>, about which
  nothing is assumed: a value drawn twice makes an insertion fail on the primary key.
  \<^verbatim>\<open>now()\<close> is an argument.  A NULL public key is the empty byte string, which the code
  never stores.
\<close>

section \<open>Tables\<close>

record HealthRow = HealthCheck +
  hr_ReportedByCollector :: "string option"
  hr_ReportBatchID :: "uuid option"

record PeerEdgeObservation =
  po_ID :: uuid
  po_FromNodeID :: uuid
  po_ToNodeID :: uuid
  po_ObservedAt :: time
  po_ReportedByCollector :: "string option"
  po_ReportBatchID :: "uuid option"

record DB =
  db_nodes :: "Node list"
  db_node_addresses :: "NodeAddress list"
  db_node_health :: "HealthRow list"
  db_peer_edges :: "PeerEdgeObservation list"
  db_pending_submissions :: "PendingSubmission list"
  db_pending_wallet_submissions :: "PendingWalletSubmission list"
  db_geoip_cache :: "GeoIPEntry list"
  db_random :: "nat \<Rightarrow> uuid"
  db_draws :: nat

definition valid_status :: "string \<Rightarrow> bool" where
  "valid_status s \<longleftrightarrow> s = SubmissionStatusPending \<or> s = SubmissionStatusApproved \<or> s = SubmissionStatusRejected"

definition valid_port :: "int \<Rightarrow> bool" where
  "valid_port p \<longleftrightarrow> 1 \<le> p \<and> p \<le> 65535"

section \<open>Constraints\<close>

definition pkeys_ok :: "DB \<Rightarrow> bool" where
  "pkeys_ok db \<longleftrightarrow> distinct (map n_ID (db_nodes db)) \<and> distinct (map na_ID (db_node_addresses db)) \<and>
     distinct (map (\<lambda>h. (hc_ID h, hc_Timestamp h)) (db_node_health db)) \<and>
     distinct (map po_ID (db_peer_edges db)) \<and> distinct (map ps_ID (db_pending_submissions db)) \<and>
     distinct (map pw_ID (db_pending_wallet_submissions db)) \<and> distinct (map ge_IP (db_geoip_cache db))"

definition nodes_ok :: "Node list \<Rightarrow> bool" where
  "nodes_ok t \<longleftrightarrow> distinct (map n_PublicKey (filter (\<lambda>n. n_PublicKey n \<noteq> []) t)) \<and>
     list_all (\<lambda>n. valid_source (n_DiscoverySource n) \<and>
       (case n_WalletHTTPPort n of None \<Rightarrow> True | Some p \<Rightarrow> valid_port p)) t"

definition addresses_ok :: "uuid list \<Rightarrow> NodeAddress list \<Rightarrow> bool" where
  "addresses_ok ids t \<longleftrightarrow> distinct (map (\<lambda>a. (na_NodeID a, na_Address a)) t) \<and>
     list_all (\<lambda>a. na_NodeID a \<in> set ids) t"

definition health_ok :: "uuid list \<Rightarrow> HealthRow list \<Rightarrow> bool" where
  "health_ok ids t \<longleftrightarrow> list_all (\<lambda>h. hc_NodeID h \<in> set ids \<and> valid_probe (hc_ProbeSource h)) t"

definition edges_ok :: "uuid list \<Rightarrow> PeerEdgeObservation list \<Rightarrow> bool" where
  "edges_ok ids t \<longleftrightarrow>
     distinct (map (\<lambda>e. (po_FromNodeID e, po_ToNodeID e, po_ReportBatchID e)) (filter (\<lambda>e. po_ReportBatchID e \<noteq> None) t)) \<and>
     list_all (\<lambda>e. po_FromNodeID e \<in> set ids \<and> po_ToNodeID e \<in> set ids) t"

definition references :: "uuid list \<Rightarrow> uuid option \<Rightarrow> bool" where
  "references ids r \<longleftrightarrow> (case r of None \<Rightarrow> True | Some i \<Rightarrow> i \<in> set ids)"

definition pending_ok :: "uuid list \<Rightarrow> PendingSubmission list \<Rightarrow> bool" where
  "pending_ok ids t \<longleftrightarrow>
     distinct (map ps_Address (filter (\<lambda>p. ps_Status p = SubmissionStatusPending) t)) \<and>
     list_all (\<lambda>p. valid_status (ps_Status p) \<and> references ids (ps_PromotedNodeID p)) t"

definition wallet_ok :: "uuid list \<Rightarrow> PendingWalletSubmission list \<Rightarrow> bool" where
  "wallet_ok ids t \<longleftrightarrow>
     distinct (map pw_Host (filter (\<lambda>p. pw_Status p = SubmissionStatusPending) t)) \<and>
     list_all (\<lambda>p. valid_status (pw_Status p) \<and> valid_port (pw_WalletHTTPPort p) \<and> references ids (pw_PromotedNodeID p)) t"

definition node_ids :: "DB \<Rightarrow> uuid list" where
  "node_ids db = map n_ID (db_nodes db)"

definition constraints_ok :: "DB \<Rightarrow> bool" where
  "constraints_ok db \<longleftrightarrow> nodes_ok (db_nodes db) \<and> addresses_ok (node_ids db) (db_node_addresses db) \<and>
     health_ok (node_ids db) (db_node_health db) \<and> edges_ok (node_ids db) (db_peer_edges db) \<and>
     pending_ok (node_ids db) (db_pending_submissions db) \<and>
     wallet_ok (node_ids db) (db_pending_wallet_submissions db)"

definition schema_ok :: "DB \<Rightarrow> bool" where
  "schema_ok db \<longleftrightarrow> pkeys_ok db \<and> constraints_ok db"

section \<open>Statements and transactions\<close>

definition ErrPrimaryKey :: error where "ErrPrimaryKey = ErrConstraint ''duplicate key value violates primary key''"
definition ErrIntegrity :: error where "ErrIntegrity = ErrConstraint ''integrity constraint violation''"

text \<open>Undoing what was done since \<open>db\<close>: the random draws are not undone.\<close>

definition rollback :: "DB \<Rightarrow> DB \<Rightarrow> DB" where
  "rollback db db' = db\<lparr>db_draws := db_draws db'\<rparr>"

definition exec :: "(DB \<Rightarrow> DB) \<Rightarrow> (DB, unit) op" where
  "exec f db = (let db' = f db in
     if \<not> pkeys_ok db' then (rollback db db', Fail ErrPrimaryKey)
     else if \<not> constraints_ok db' then (rollback db db', Fail ErrIntegrity)
     else (db', Ok ()))"

definition in_tx :: "(DB, 'a) op \<Rightarrow> (DB, 'a) op" where
  "in_tx m db = (case m db of (db', Inl e) \<Rightarrow> (rollback db db', Inl e) | (db', Inr x) \<Rightarrow> (db', Inr x))"

definition draw :: "DB \<Rightarrow> DB" where
  "draw db = db\<lparr>db_draws := db_draws db + 1\<rparr>"

definition gen_random_uuid :: "DB \<Rightarrow> uuid" where
  "gen_random_uuid db = db_random db (db_draws db)"

text \<open>\<^verbatim>\<open>DELETE FROM nodes\<close> cascades to the tables declared \<^verbatim>\<open>ON DELETE CASCADE\<close>.\<close>

definition delete_node :: "uuid \<Rightarrow> DB \<Rightarrow> DB" where
  "delete_node nid db = db\<lparr>
     db_nodes := filter (\<lambda>n. n_ID n \<noteq> nid) (db_nodes db),
     db_node_addresses := filter (\<lambda>a. na_NodeID a \<noteq> nid) (db_node_addresses db),
     db_node_health := filter (\<lambda>h. hc_NodeID h \<noteq> nid) (db_node_health db),
     db_peer_edges := filter (\<lambda>e. po_FromNodeID e \<noteq> nid \<and> po_ToNodeID e \<noteq> nid) (db_peer_edges db)\<rparr>"

text \<open>The rows of two states of the database, whatever was drawn in between.\<close>

definition same_tables :: "DB \<Rightarrow> DB \<Rightarrow> bool" where
  "same_tables db db' \<longleftrightarrow> db\<lparr>db_draws := 0\<rparr> = db'\<lparr>db_draws := 0\<rparr>"

section \<open>Facts\<close>

lemma same_tables_refl [simp]: "same_tables db db"
  by (simp add: same_tables_def)

lemma same_tables_rollback [simp]: "same_tables db (rollback db db')" "same_tables (rollback db db') db"
  by (simp_all add: same_tables_def rollback_def)

lemma same_tables_fields:
  assumes "same_tables db db'"
  shows "db_nodes db = db_nodes db'" "db_node_addresses db = db_node_addresses db'"
    "db_node_health db = db_node_health db'" "db_peer_edges db = db_peer_edges db'"
    "db_pending_submissions db = db_pending_submissions db'"
    "db_pending_wallet_submissions db = db_pending_wallet_submissions db'"
    "db_geoip_cache db = db_geoip_cache db'" "db_random db = db_random db'"
  using assms by (cases db; cases db'; simp add: same_tables_def)+

lemma same_tables_trans: "same_tables a b \<Longrightarrow> same_tables b c \<Longrightarrow> same_tables a c"
  by (simp add: same_tables_def)

lemma schema_ok_same: "same_tables db db' \<Longrightarrow> schema_ok db = schema_ok db'"
  by (simp add: schema_ok_def pkeys_ok_def constraints_ok_def node_ids_def same_tables_fields [of db db'])

lemma exec_Ok: "schema_ok (f db) \<Longrightarrow> exec f db = (f db, Ok ())"
  by (simp add: exec_def Let_def schema_ok_def)

lemma schema_ok_rollback [simp]: "schema_ok (rollback db db') = schema_ok db"
  by (rule schema_ok_same) simp

lemma exec_schema: "schema_ok db \<Longrightarrow> exec f db = (db', r) \<Longrightarrow> schema_ok db'"
  unfolding exec_def Let_def by (auto simp: schema_ok_def [of "f db"] split: if_splits)

lemma distinct_map_coarser:
  assumes "distinct (map k xs)" "\<And>x y. x \<in> set xs \<Longrightarrow> y \<in> set xs \<Longrightarrow> k' x = k' y \<Longrightarrow> k x = k y"
  shows "distinct (map k' xs)"
proof -
  have "distinct xs" "inj_on k (set xs)" using assms(1) by (simp_all add: distinct_map)
  moreover have "inj_on k' (set xs)"
    using assms(2) \<open>inj_on k (set xs)\<close> unfolding inj_on_def by blast
  ultimately show ?thesis by (simp add: distinct_map)
qed

lemma distinct_key_unique:
  "distinct (map k xs) \<Longrightarrow> x \<in> set xs \<Longrightarrow> y \<in> set xs \<Longrightarrow> k x = k y \<Longrightarrow> x = y"
  by (auto simp: distinct_map inj_on_def)

lemma map_map_key: "(\<And>x. k (g x) = k x) \<Longrightarrow> map k (map g xs) = map k xs"
  by simp

section \<open>Predicates kept by statements\<close>

text \<open>A predicate on the tables: it does not depend on how much randomness was drawn.\<close>

definition on_tables :: "(DB \<Rightarrow> bool) \<Rightarrow> bool" where
  "on_tables P \<longleftrightarrow> (\<forall>db db'. same_tables db db' \<longrightarrow> P db \<longrightarrow> P db')"

lemma keeps_exec:
  assumes "on_tables P" "\<And>db. P db \<Longrightarrow> P (f db)"
  shows "keeps P (exec f)"
proof (rule tripleI)
  fix db db' r assume "P db" "exec f db = (db', r)"
  then show "case r of Inl e \<Rightarrow> P db' | Inr x \<Rightarrow> P db'"
    using assms unfolding exec_def Let_def on_tables_def
    by (auto split: if_splits) (metis same_tables_rollback(1))+
qed

lemma keeps_in_tx:
  assumes "on_tables P" "keeps P m"
  shows "keeps P (in_tx m)"
proof (rule tripleI)
  fix db db' r assume p: "P db" and tx: "in_tx m db = (db', r)"
  have roll: "P (rollback db d)" for d using assms(1) p unfolding on_tables_def by (metis same_tables_rollback(1))
  obtain d x where m: "m db = (d, x)" by (metis surj_pair)
  with tripleD [OF assms(2) p m] tx roll show "case r of Inl e \<Rightarrow> P db' | Inr x \<Rightarrow> P db'"
    by (auto simp: in_tx_def split: sum.splits)
qed

lemma triple_in_tx:
  assumes "triple P m Q E"
  shows "triple P (in_tx m) Q (\<lambda>_ db'. \<exists>db. P db \<and> same_tables db db')"
proof (rule tripleI)
  fix db db' r assume p: "P db" and tx: "in_tx m db = (db', r)"
  obtain d x where m: "m db = (d, x)" by (metis surj_pair)
  with tripleD [OF assms p m] tx p show "case r of Inl e \<Rightarrow> \<exists>db. P db \<and> same_tables db db' | Inr x \<Rightarrow> Q x db'"
    by (auto simp: in_tx_def split: sum.splits)
qed

end
