(* ===== verification/Pg_Nodes.thy ===== *)
theory Pg_Nodes
  imports Pg_Schema
begin

text \<open>
  \<^verbatim>\<open>internal/storage/storage.go\<close>, the nodes: how an address or a public key is resolved to
  a row, the upserts, and the merge of a placeholder into a confirmed node.  Each SQL
  statement is a function on the database; the Go functions are their composition.
\<close>

section \<open>Lookups\<close>

definition getNodeByID :: "uuid \<Rightarrow> DB \<Rightarrow> Node result" where
  "getNodeByID nid db = (case List.find (\<lambda>n. n_ID n = nid) (db_nodes db) of
     None \<Rightarrow> Fail ErrNotFound | Some n \<Rightarrow> Ok n)"

definition get_node_op :: "uuid \<Rightarrow> (DB, Node) op" where
  "get_node_op nid db = (db, getNodeByID nid db)"

definition node_by_pubkey :: "bytes \<Rightarrow> DB \<Rightarrow> Node option" where
  "node_by_pubkey pk db = List.find (\<lambda>n. n_PublicKey n = pk) (db_nodes db)"

text \<open>\<^verbatim>\<open>SELECT node_id FROM node_addresses\<close>, then the fallback to \<^verbatim>\<open>nodes.address\<close>.\<close>

definition id_by_address :: "string \<Rightarrow> DB \<Rightarrow> uuid option" where
  "id_by_address address db =
     (case List.find (\<lambda>a. na_Address a = address) (db_node_addresses db) of
        Some a \<Rightarrow> Some (na_NodeID a)
      | None \<Rightarrow> (case List.find (\<lambda>n. n_Address n = address) (db_nodes db) of
                   Some n \<Rightarrow> Some (n_ID n) | None \<Rightarrow> None))"

text \<open>The join of \<^verbatim>\<open>node_addresses\<close> and \<^verbatim>\<open>nodes\<close>, then the same fallback.\<close>

definition node_by_address :: "string \<Rightarrow> DB \<Rightarrow> Node option" where
  "node_by_address address db =
     (case concat (map (\<lambda>a. filter (\<lambda>n. n_ID n = na_NodeID a) (db_nodes db))
                    (filter (\<lambda>a. na_Address a = address) (db_node_addresses db))) of
        n # _ \<Rightarrow> Some n
      | [] \<Rightarrow> List.find (\<lambda>n. n_Address n = address) (db_nodes db))"

section \<open>Statements\<close>

definition sql_upsert_address :: "time \<Rightarrow> uuid \<Rightarrow> string \<Rightarrow> DB \<Rightarrow> DB" where
  "sql_upsert_address now nid address db =
     (if list_ex (\<lambda>a. na_NodeID a = nid \<and> na_Address a = address) (db_node_addresses db)
      then db\<lparr>db_node_addresses := map (\<lambda>a. if na_NodeID a = nid \<and> na_Address a = address
                then a\<lparr>na_LastSeen := now\<rparr> else a) (db_node_addresses db)\<rparr>
      else (draw db)\<lparr>db_node_addresses := db_node_addresses db @
             [\<lparr>na_ID = gen_random_uuid db, na_NodeID = nid, na_Address = address, na_FirstSeen = now, na_LastSeen = now\<rparr>]\<rparr>)"

definition ensureNodeAddress :: "time \<Rightarrow> uuid \<Rightarrow> string \<Rightarrow> (DB, unit) op" where
  "ensureNodeAddress now nid address = exec (sql_upsert_address now nid address)"

definition update_node :: "uuid \<Rightarrow> (Node \<Rightarrow> Node) \<Rightarrow> DB \<Rightarrow> DB" where
  "update_node nid f db = db\<lparr>db_nodes := map (\<lambda>n. if n_ID n = nid then f n else n) (db_nodes db)\<rparr>"

text \<open>\<^verbatim>\<open>CASE WHEN discovery_source = $1 THEN discovery_source ELSE 'both' END\<close>.\<close>

definition sql_merge_source :: "string \<Rightarrow> string \<Rightarrow> string" where
  "sql_merge_source new old = (if old = new then old else DiscoverySourceBoth)"

definition bumpNodeSeen :: "time \<Rightarrow> uuid \<Rightarrow> string \<Rightarrow> (DB, unit) op" where
  "bumpNodeSeen now nid discoverySource = exec (update_node nid (\<lambda>n. n\<lparr>
     n_DiscoverySource := sql_merge_source discoverySource (n_DiscoverySource n), n_LastSeen := now\<rparr>))"

definition sql_insert_node ::
  "time \<Rightarrow> string \<Rightarrow> bytes \<Rightarrow> string \<Rightarrow> tags \<Rightarrow> string option \<Rightarrow> DB \<Rightarrow> DB" where
  "sql_insert_node now address publicKey discoverySource tags label db =
     (draw db)\<lparr>db_nodes := db_nodes db @
       [\<lparr>n_ID = gen_random_uuid db, n_Address = address, n_PublicKey = publicKey,
         n_DiscoverySource = discoverySource, n_Tags = tags, n_Label = label, n_FirstSeen = now,
         n_LastSeen = now, n_WalletHTTPPort = None\<rparr>]\<rparr>"

text \<open>An insertion with \<^verbatim>\<open>RETURNING id\<close>.\<close>

definition insert_returning ::
  "time \<Rightarrow> string \<Rightarrow> bytes \<Rightarrow> string \<Rightarrow> tags \<Rightarrow> string option \<Rightarrow> (DB, uuid) op" where
  "insert_returning now address publicKey discoverySource tags label =
     bindE (getE gen_random_uuid) (\<lambda>nid.
     bindE (exec (sql_insert_node now address publicKey discoverySource tags label)) (\<lambda>_. returnE nid))"

definition insertConfirmedNode :: "time \<Rightarrow> string \<Rightarrow> bytes \<Rightarrow> string \<Rightarrow> (DB, uuid) op" where
  "insertConfirmedNode now address publicKey discoverySource =
     bindE (insert_returning now address publicKey discoverySource [] None) (\<lambda>nid.
     bindE (ensureNodeAddress now nid address) (\<lambda>_. returnE nid))"

section \<open>The merge\<close>

definition dedupe_addresses :: "uuid \<Rightarrow> uuid \<Rightarrow> DB \<Rightarrow> DB" where
  "dedupe_addresses p c db = db\<lparr>db_node_addresses := filter (\<lambda>na. \<not> (na_NodeID na = p \<and>
     list_ex (\<lambda>na2. na_NodeID na2 = c \<and> na_Address na2 = na_Address na) (db_node_addresses db))) (db_node_addresses db)\<rparr>"

definition repoint_addresses :: "uuid \<Rightarrow> uuid \<Rightarrow> DB \<Rightarrow> DB" where
  "repoint_addresses p c db = db\<lparr>db_node_addresses :=
     map (\<lambda>a. if na_NodeID a = p then a\<lparr>na_NodeID := c\<rparr> else a) (db_node_addresses db)\<rparr>"

definition dedupe_edges_from :: "uuid \<Rightarrow> uuid \<Rightarrow> DB \<Rightarrow> DB" where
  "dedupe_edges_from p c db = db\<lparr>db_peer_edges := filter (\<lambda>e. \<not> (po_FromNodeID e = p \<and> po_ReportBatchID e \<noteq> None \<and>
     list_ex (\<lambda>e2. po_FromNodeID e2 = c \<and> po_ToNodeID e2 = po_ToNodeID e \<and>
       po_ReportBatchID e2 = po_ReportBatchID e) (db_peer_edges db))) (db_peer_edges db)\<rparr>"

definition repoint_edges_from :: "uuid \<Rightarrow> uuid \<Rightarrow> DB \<Rightarrow> DB" where
  "repoint_edges_from p c db = db\<lparr>db_peer_edges :=
     map (\<lambda>e. if po_FromNodeID e = p then e\<lparr>po_FromNodeID := c\<rparr> else e) (db_peer_edges db)\<rparr>"

definition dedupe_edges_to :: "uuid \<Rightarrow> uuid \<Rightarrow> DB \<Rightarrow> DB" where
  "dedupe_edges_to p c db = db\<lparr>db_peer_edges := filter (\<lambda>e. \<not> (po_ToNodeID e = p \<and> po_ReportBatchID e \<noteq> None \<and>
     list_ex (\<lambda>e2. po_ToNodeID e2 = c \<and> po_FromNodeID e2 = po_FromNodeID e \<and>
       po_ReportBatchID e2 = po_ReportBatchID e) (db_peer_edges db))) (db_peer_edges db)\<rparr>"

definition repoint_edges_to :: "uuid \<Rightarrow> uuid \<Rightarrow> DB \<Rightarrow> DB" where
  "repoint_edges_to p c db = db\<lparr>db_peer_edges :=
     map (\<lambda>e. if po_ToNodeID e = p then e\<lparr>po_ToNodeID := c\<rparr> else e) (db_peer_edges db)\<rparr>"

definition repoint_health :: "uuid \<Rightarrow> uuid \<Rightarrow> DB \<Rightarrow> DB" where
  "repoint_health p c db = db\<lparr>db_node_health :=
     map (\<lambda>h. if hc_NodeID h = p then h\<lparr>hc_NodeID := c\<rparr> else h) (db_node_health db)\<rparr>"

definition repoint_pending :: "uuid \<Rightarrow> uuid \<Rightarrow> DB \<Rightarrow> DB" where
  "repoint_pending p c db = db\<lparr>db_pending_submissions :=
     map (\<lambda>s. if ps_PromotedNodeID s = Some p then s\<lparr>ps_PromotedNodeID := Some c\<rparr> else s) (db_pending_submissions db)\<rparr>"

definition repoint_wallet :: "uuid \<Rightarrow> uuid \<Rightarrow> DB \<Rightarrow> DB" where
  "repoint_wallet p c db = db\<lparr>db_pending_wallet_submissions :=
     map (\<lambda>s. if pw_PromotedNodeID s = Some p then s\<lparr>pw_PromotedNodeID := Some c\<rparr> else s) (db_pending_wallet_submissions db)\<rparr>"

text \<open>Executing statements one after the other until one fails.\<close>

fun exec_all :: "(DB \<Rightarrow> DB) list \<Rightarrow> (DB, unit) op" where
  "exec_all [] = returnE ()"
| "exec_all (f # fs) = bindE (exec f) (\<lambda>_. exec_all fs)"

definition mergeNodeInto :: "time \<Rightarrow> uuid \<Rightarrow> uuid \<Rightarrow> (DB, unit) op" where
  "mergeNodeInto now placeholderID confirmedID = exec_all
     [dedupe_addresses placeholderID confirmedID,
      repoint_addresses placeholderID confirmedID,
      dedupe_edges_from placeholderID confirmedID,
      repoint_edges_from placeholderID confirmedID,
      dedupe_edges_to placeholderID confirmedID,
      repoint_edges_to placeholderID confirmedID,
      repoint_health placeholderID confirmedID,
      repoint_pending placeholderID confirmedID,
      repoint_wallet placeholderID confirmedID,
      delete_node placeholderID,
      update_node confirmedID (\<lambda>n. n\<lparr>n_LastSeen := now\<rparr>)]"

section \<open>Upserts\<close>

definition pg_UpsertDiscoveredNode ::
  "time \<Rightarrow> string \<Rightarrow> string \<Rightarrow> tags \<Rightarrow> string option \<Rightarrow> (DB, Node) op" where
  "pg_UpsertDiscoveredNode now address discoverySource tags label =
     (if address = [] then throwE (Err ''address is required'')
      else if discoverySource = [] then throwE (Err ''discovery_source is required'')
      else in_tx (
        bindE (getE (id_by_address address)) (\<lambda>found.
        bindE (case found of
                 None \<Rightarrow> insert_returning now address [] discoverySource tags label
               | Some nodeID \<Rightarrow>
                   bindE (exec (update_node nodeID (\<lambda>n. n\<lparr>
                       n_DiscoverySource := sql_merge_source discoverySource (n_DiscoverySource n),
                       n_Tags := merge_tags (n_Tags n) tags,
                       n_Label := (case label of Some l \<Rightarrow> Some l | None \<Rightarrow> n_Label n),
                       n_LastSeen := now\<rparr>))) (\<lambda>_. returnE nodeID)) (\<lambda>nodeID.
        bindE (ensureNodeAddress now nodeID address) (\<lambda>_.
        get_node_op nodeID)))))"

definition pg_UpsertConfirmedNode ::
  "time \<Rightarrow> string \<Rightarrow> bytes \<Rightarrow> string \<Rightarrow> (DB, Node) op" where
  "pg_UpsertConfirmedNode now address publicKey discoverySource =
     (if address = [] then throwE (Err ''address is required'')
      else if publicKey = [] then throwE (Err ''public_key is required'')
      else if discoverySource = [] then throwE (Err ''discovery_source is required'')
      else in_tx (
        bindE (getE (\<lambda>db. (node_by_pubkey publicKey db, node_by_address address db))) (\<lambda>found.
        bindE (case found of
                 (Some byPubkey, None) \<Rightarrow>
                   bindE (ensureNodeAddress now (n_ID byPubkey) address) (\<lambda>_.
                   bindE (bumpNodeSeen now (n_ID byPubkey) discoverySource) (\<lambda>_.
                   returnE (n_ID byPubkey)))
               | (Some byPubkey, Some byAddr) \<Rightarrow>
                   if n_ID byAddr = n_ID byPubkey then
                     bindE (ensureNodeAddress now (n_ID byPubkey) address) (\<lambda>_.
                     bindE (bumpNodeSeen now (n_ID byPubkey) discoverySource) (\<lambda>_.
                     returnE (n_ID byPubkey)))
                   else if n_PublicKey byAddr = [] then
                     bindE (mergeNodeInto now (n_ID byAddr) (n_ID byPubkey)) (\<lambda>_.
                     returnE (n_ID byPubkey))
                   else
                     bindE (ensureNodeAddress now (n_ID byPubkey) address) (\<lambda>_.
                     bindE (bumpNodeSeen now (n_ID byPubkey) discoverySource) (\<lambda>_.
                     returnE (n_ID byPubkey)))
               | (None, Some byAddr) \<Rightarrow>
                   if n_PublicKey byAddr = [] then
                     bindE (exec (update_node (n_ID byAddr) (\<lambda>n. n\<lparr>n_PublicKey := publicKey,
                       n_DiscoverySource := sql_merge_source discoverySource (n_DiscoverySource n),
                       n_LastSeen := now\<rparr>))) (\<lambda>_.
                     bindE (ensureNodeAddress now (n_ID byAddr) address) (\<lambda>_.
                     returnE (n_ID byAddr)))
                   else insertConfirmedNode now address publicKey discoverySource
               | (None, None) \<Rightarrow> insertConfirmedNode now address publicKey discoverySource) (\<lambda>nodeID.
        get_node_op nodeID))))"

definition pg_UpsertConfirmedNodeByPubKey :: "time \<Rightarrow> bytes \<Rightarrow> string \<Rightarrow> (DB, Node) op" where
  "pg_UpsertConfirmedNodeByPubKey now publicKey discoverySource =
     (if publicKey = [] then throwE (Err ''public_key is required'')
      else if discoverySource = [] then throwE (Err ''discovery_source is required'')
      else in_tx (
        bindE (getE (node_by_pubkey publicKey)) (\<lambda>found.
        bindE (case found of
                 Some n \<Rightarrow> bindE (bumpNodeSeen now (n_ID n) discoverySource) (\<lambda>_. returnE (n_ID n))
               | None \<Rightarrow> insert_returning now [] publicKey discoverySource [] None) (\<lambda>nodeID.
        get_node_op nodeID))))"

lemma keeps_get_node: "keeps P (get_node_op nid)"
  by (simp add: triple_def get_node_op_def split: sum.splits)

lemma keeps_insert_returning:
  assumes "on_tables P" "\<And>db. P db \<Longrightarrow> P (sql_insert_node now a pk src tags label db)"
  shows "keeps P (insert_returning now a pk src tags label)"
  unfolding insert_returning_def by (intro keeps_rules keeps_exec assms)

lemma keeps_ensureNodeAddress:
  assumes "on_tables P" "\<And>db. P db \<Longrightarrow> P (sql_upsert_address now nid a db)"
  shows "keeps P (ensureNodeAddress now nid a)"
  unfolding ensureNodeAddress_def by (intro keeps_exec assms)

lemma keeps_exec_all:
  assumes "on_tables P" "\<And>f db. f \<in> set fs \<Longrightarrow> P db \<Longrightarrow> P (f db)"
  shows "keeps P (exec_all fs)"
  using assms by (induction fs) (auto intro!: keeps_rules keeps_exec)

text \<open>A predicate every statement of an upsert keeps is kept by the upsert.\<close>

lemma keeps_UpsertDiscovered:
  assumes "on_tables P" "\<And>db. P db \<Longrightarrow> P (sql_insert_node now a [] src tags label db)"
    "\<And>nid db. P db \<Longrightarrow> P (update_node nid (\<lambda>n. n\<lparr>n_DiscoverySource := sql_merge_source src (n_DiscoverySource n),
                       n_Tags := merge_tags (n_Tags n) tags,
                       n_Label := (case label of Some l \<Rightarrow> Some l | None \<Rightarrow> n_Label n),
                       n_LastSeen := now\<rparr>) db)"
    "\<And>nid db. P db \<Longrightarrow> P (sql_upsert_address now nid a db)"
  shows "keeps P (pg_UpsertDiscoveredNode now a src tags label)"
  unfolding pg_UpsertDiscoveredNode_def
  by (intro keeps_rules keeps_in_tx keeps_exec keeps_insert_returning keeps_ensureNodeAddress keeps_get_node assms)

lemma keeps_UpsertConfirmed:
  assumes "on_tables P" "\<And>db. P db \<Longrightarrow> P (sql_insert_node now a pk src [] None db)"
    "\<And>nid f db. (\<And>n. n_ID (f n) = n_ID n) \<Longrightarrow> (\<And>n. n_Address (f n) = n_Address n) \<Longrightarrow> (\<And>n. n_Tags (f n) = n_Tags n) \<Longrightarrow>
      (\<And>n. n_DiscoverySource (f n) \<in> {n_DiscoverySource n, sql_merge_source src (n_DiscoverySource n)}) \<Longrightarrow>
      P db \<Longrightarrow> P (update_node nid f db)"
    "\<And>nid db. P db \<Longrightarrow> P (sql_upsert_address now nid a db)"
    "\<And>p c f db. f \<in> {dedupe_addresses p c, repoint_addresses p c, dedupe_edges_from p c, repoint_edges_from p c,
        dedupe_edges_to p c, repoint_edges_to p c, repoint_health p c, repoint_pending p c, repoint_wallet p c,
        delete_node p} \<Longrightarrow> P db \<Longrightarrow> P (f db)"
  shows "keeps P (pg_UpsertConfirmedNode now a pk src)"
proof -
  have merge: "keeps P (mergeNodeInto now p c)" for p c
    unfolding mergeNodeInto_def
  proof (rule keeps_exec_all [OF assms(1)])
    fix f db
    assume f: "f \<in> set [dedupe_addresses p c, repoint_addresses p c, dedupe_edges_from p c, repoint_edges_from p c,
        dedupe_edges_to p c, repoint_edges_to p c, repoint_health p c, repoint_pending p c, repoint_wallet p c,
        delete_node p, update_node c (\<lambda>n. n\<lparr>n_LastSeen := now\<rparr>)]" and P: "P db"
    have "P (update_node c (\<lambda>n. n\<lparr>n_LastSeen := now\<rparr>) db)" by (rule assms(3) [OF _ _ _ _ P]) auto
    moreover note assms(5) [OF _ P, of f p c]
    ultimately show "P (f db)" using f by auto
  qed
  have bump: "keeps P (bumpNodeSeen now nid src)" for nid
    unfolding bumpNodeSeen_def by (rule keeps_exec [OF assms(1)], rule assms(3)) auto
  have ins: "keeps P (insertConfirmedNode now a pk src)"
    unfolding insertConfirmedNode_def
    by (intro keeps_rules keeps_insert_returning keeps_ensureNodeAddress assms(1,2,4))
  have prom: "keeps P (exec (update_node nid (\<lambda>n. n\<lparr>n_PublicKey := pk,
      n_DiscoverySource := sql_merge_source src (n_DiscoverySource n), n_LastSeen := now\<rparr>)))" for nid
    by (rule keeps_exec [OF assms(1)], rule assms(3)) auto
  show ?thesis
    unfolding pg_UpsertConfirmedNode_def
    by (intro keeps_rules keeps_in_tx keeps_ensureNodeAddress keeps_get_node merge bump ins prom assms(1,4))
qed

section \<open>Replacing one table\<close>

lemmas schema_defs = schema_ok_def pkeys_ok_def constraints_ok_def node_ids_def

lemma schema_put_addresses:
  "schema_ok db \<Longrightarrow> distinct (map na_ID t) \<Longrightarrow> addresses_ok (node_ids db) t \<Longrightarrow>
   schema_ok (db\<lparr>db_node_addresses := t\<rparr>)"
  by (simp add: schema_defs)

lemma schema_put_edges:
  "schema_ok db \<Longrightarrow> distinct (map po_ID t) \<Longrightarrow> edges_ok (node_ids db) t \<Longrightarrow>
   schema_ok (db\<lparr>db_peer_edges := t\<rparr>)"
  by (simp add: schema_defs)

lemma schema_put_health:
  "schema_ok db \<Longrightarrow> distinct (map (\<lambda>h. (hc_ID h, hc_Timestamp h)) t) \<Longrightarrow> health_ok (node_ids db) t \<Longrightarrow>
   schema_ok (db\<lparr>db_node_health := t\<rparr>)"
  by (simp add: schema_defs)

lemma schema_put_pending:
  "schema_ok db \<Longrightarrow> distinct (map ps_ID t) \<Longrightarrow> pending_ok (node_ids db) t \<Longrightarrow>
   schema_ok (db\<lparr>db_pending_submissions := t\<rparr>)"
  by (simp add: schema_defs)

lemma schema_put_wallet:
  "schema_ok db \<Longrightarrow> distinct (map pw_ID t) \<Longrightarrow> wallet_ok (node_ids db) t \<Longrightarrow>
   schema_ok (db\<lparr>db_pending_wallet_submissions := t\<rparr>)"
  by (simp add: schema_defs)

lemma schema_put_nodes:
  "schema_ok db \<Longrightarrow> map n_ID t = node_ids db \<Longrightarrow> nodes_ok t \<Longrightarrow> schema_ok (db\<lparr>db_nodes := t\<rparr>)"
  by (simp add: schema_defs)

lemma schema_facts:
  assumes "schema_ok db"
  shows "distinct (node_ids db)" "nodes_ok (db_nodes db)"
    "distinct (map na_ID (db_node_addresses db))" "addresses_ok (node_ids db) (db_node_addresses db)"
    "distinct (map po_ID (db_peer_edges db))" "edges_ok (node_ids db) (db_peer_edges db)"
    "distinct (map (\<lambda>h. (hc_ID h, hc_Timestamp h)) (db_node_health db))" "health_ok (node_ids db) (db_node_health db)"
    "distinct (map ps_ID (db_pending_submissions db))" "pending_ok (node_ids db) (db_pending_submissions db)"
    "distinct (map pw_ID (db_pending_wallet_submissions db))" "wallet_ok (node_ids db) (db_pending_wallet_submissions db)"
  using assms by (simp_all add: schema_defs)

lemma schema_draw [simp]: "schema_ok (db\<lparr>db_draws := k\<rparr>) = schema_ok db"
  by (simp add: schema_defs)

lemma map_if_key: "(\<And>x. k (g x) = k x) \<Longrightarrow> map k (map (\<lambda>x. if P x then g x else x) xs) = map k xs"
  by simp

lemma distinct_map_filter_imp: "distinct (map k xs) \<Longrightarrow> distinct (map k (filter P xs))"
  by (rule distinct_map_filter)

section \<open>The statements of the merge keep the schema\<close>

lemma dedupe_addresses_ok: "schema_ok db \<Longrightarrow> schema_ok (dedupe_addresses p c db)"
  unfolding dedupe_addresses_def
  by (rule schema_put_addresses)
    (auto simp: addresses_ok_def list_all_iff distinct_map_filter dest: schema_facts(3,4))

lemma repoint_addresses_ok:
  assumes "schema_ok db" "c \<in> set (node_ids db)"
    "\<And>a b. a \<in> set (db_node_addresses db) \<Longrightarrow> b \<in> set (db_node_addresses db) \<Longrightarrow>
       na_NodeID a = p \<Longrightarrow> na_NodeID b = c \<Longrightarrow> na_Address a \<noteq> na_Address b"
  shows "schema_ok (repoint_addresses p c db)"
  unfolding repoint_addresses_def
proof (rule schema_put_addresses [OF assms(1)])
  let ?g = "\<lambda>a. if na_NodeID a = p then a\<lparr>na_NodeID := c\<rparr> else a"
  show "distinct (map na_ID (map ?g (db_node_addresses db)))"
    using schema_facts(3) [OF assms(1)] by (subst map_if_key) auto
  have "distinct (map (\<lambda>a. (na_NodeID (?g a), na_Address (?g a))) (db_node_addresses db))"
  proof (rule distinct_map_coarser)
    show "distinct (map (\<lambda>a. (na_NodeID a, na_Address a)) (db_node_addresses db))"
      using schema_facts(4) [OF assms(1)] by (simp add: addresses_ok_def)
    fix x y assume "x \<in> set (db_node_addresses db)" "y \<in> set (db_node_addresses db)"
      "(na_NodeID (?g x), na_Address (?g x)) = (na_NodeID (?g y), na_Address (?g y))"
    then show "(na_NodeID x, na_Address x) = (na_NodeID y, na_Address y)"
      using assms(3) [of x y] assms(3) [of y x] by (cases "na_NodeID x = p"; cases "na_NodeID y = p") auto
  qed
  then show "addresses_ok (node_ids db) (map ?g (db_node_addresses db))"
    using schema_facts(4) [OF assms(1)] assms(2)
    by (auto simp: addresses_ok_def list_all_iff comp_def)
qed

lemma dedupe_edges_ok: "schema_ok db \<Longrightarrow> edges = filter P (db_peer_edges db) \<Longrightarrow> schema_ok (db\<lparr>db_peer_edges := edges\<rparr>)"
proof (rule schema_put_edges, assumption)
  assume ok: "schema_ok db" and e: "edges = filter P (db_peer_edges db)"
  show "distinct (map po_ID edges)" using schema_facts(5) [OF ok] e by (simp add: distinct_map_filter)
  have f: "filter (\<lambda>e. po_ReportBatchID e \<noteq> None) edges = filter P (filter (\<lambda>e. po_ReportBatchID e \<noteq> None) (db_peer_edges db))"
    by (simp add: e conj_commute)
  show "edges_ok (node_ids db) edges"
    using schema_facts(6) [OF ok] unfolding edges_ok_def f by (simp only: distinct_map_filter) (simp add: e list_all_iff)
qed

lemma repoint_edges_ok:
  assumes ok: "schema_ok db"
    and g: "\<And>e. po_ID (g e) = po_ID e" "\<And>e. po_ReportBatchID (g e) = po_ReportBatchID e"
      "\<And>e. e \<in> set (db_peer_edges db) \<Longrightarrow> po_FromNodeID (g e) \<in> set (node_ids db) \<and> po_ToNodeID (g e) \<in> set (node_ids db)"
    and inj: "\<And>e e'. e \<in> set (db_peer_edges db) \<Longrightarrow> e' \<in> set (db_peer_edges db) \<Longrightarrow> po_ReportBatchID e \<noteq> None \<Longrightarrow>
      po_ReportBatchID e = po_ReportBatchID e' \<Longrightarrow> po_FromNodeID (g e) = po_FromNodeID (g e') \<Longrightarrow>
      po_ToNodeID (g e) = po_ToNodeID (g e') \<Longrightarrow> po_FromNodeID e = po_FromNodeID e' \<and> po_ToNodeID e = po_ToNodeID e'"
  shows "schema_ok (db\<lparr>db_peer_edges := map g (db_peer_edges db)\<rparr>)"
proof (rule schema_put_edges [OF ok])
  show "distinct (map po_ID (map g (db_peer_edges db)))"
    using schema_facts(5) [OF ok] by (simp add: comp_def g)
  have f: "filter (\<lambda>e. po_ReportBatchID e \<noteq> None) (map g (db_peer_edges db)) =
    map g (filter (\<lambda>e. po_ReportBatchID e \<noteq> None) (db_peer_edges db))"
    by (simp add: filter_map comp_def g)
  have "distinct (map (\<lambda>e. (po_FromNodeID (g e), po_ToNodeID (g e), po_ReportBatchID (g e)))
    (filter (\<lambda>e. po_ReportBatchID e \<noteq> None) (db_peer_edges db)))"
  proof (rule distinct_map_coarser)
    show "distinct (map (\<lambda>e. (po_FromNodeID e, po_ToNodeID e, po_ReportBatchID e))
      (filter (\<lambda>e. po_ReportBatchID e \<noteq> None) (db_peer_edges db)))"
      using schema_facts(6) [OF ok] by (simp only: edges_ok_def)
    fix x y assume "x \<in> set (filter (\<lambda>e. po_ReportBatchID e \<noteq> None) (db_peer_edges db))"
      "y \<in> set (filter (\<lambda>e. po_ReportBatchID e \<noteq> None) (db_peer_edges db))"
      "(po_FromNodeID (g x), po_ToNodeID (g x), po_ReportBatchID (g x)) =
       (po_FromNodeID (g y), po_ToNodeID (g y), po_ReportBatchID (g y))"
    then show "(po_FromNodeID x, po_ToNodeID x, po_ReportBatchID x) = (po_FromNodeID y, po_ToNodeID y, po_ReportBatchID y)"
      using inj [of x y] by (simp add: g)
  qed
  then show "edges_ok (node_ids db) (map g (db_peer_edges db))"
    using g(3) unfolding edges_ok_def f by (auto simp: list_all_iff comp_def)
qed

lemma dedupe_edges_from_ok: "schema_ok db \<Longrightarrow> schema_ok (dedupe_edges_from p c db)"
  unfolding dedupe_edges_from_def by (rule dedupe_edges_ok) auto

lemma dedupe_edges_to_ok: "schema_ok db \<Longrightarrow> schema_ok (dedupe_edges_to p c db)"
  unfolding dedupe_edges_to_def by (rule dedupe_edges_ok) auto

lemma edges_ids:
  "schema_ok db \<Longrightarrow> e \<in> set (db_peer_edges db) \<Longrightarrow>
   po_FromNodeID e \<in> set (node_ids db) \<and> po_ToNodeID e \<in> set (node_ids db)"
  by (drule schema_facts(6)) (simp add: edges_ok_def list_all_iff)

lemma repoint_edges_from_ok:
  assumes "schema_ok db" "c \<in> set (node_ids db)"
    "\<And>e e'. e \<in> set (db_peer_edges db) \<Longrightarrow> e' \<in> set (db_peer_edges db) \<Longrightarrow> po_FromNodeID e = p \<Longrightarrow>
       po_ReportBatchID e \<noteq> None \<Longrightarrow> po_FromNodeID e' = c \<Longrightarrow> po_ToNodeID e' = po_ToNodeID e \<Longrightarrow>
       po_ReportBatchID e' \<noteq> po_ReportBatchID e"
  shows "schema_ok (repoint_edges_from p c db)"
  unfolding repoint_edges_from_def
proof (rule repoint_edges_ok [OF assms(1)])
  fix e assume "e \<in> set (db_peer_edges db)"
  then show "po_FromNodeID (if po_FromNodeID e = p then e\<lparr>po_FromNodeID := c\<rparr> else e) \<in> set (node_ids db) \<and>
    po_ToNodeID (if po_FromNodeID e = p then e\<lparr>po_FromNodeID := c\<rparr> else e) \<in> set (node_ids db)"
    using edges_ids [OF assms(1)] assms(2) by simp
next
  fix e e'
  assume "e \<in> set (db_peer_edges db)" "e' \<in> set (db_peer_edges db)" "po_ReportBatchID e \<noteq> None"
    "po_ReportBatchID e = po_ReportBatchID e'"
    "po_FromNodeID (if po_FromNodeID e = p then e\<lparr>po_FromNodeID := c\<rparr> else e) =
     po_FromNodeID (if po_FromNodeID e' = p then e'\<lparr>po_FromNodeID := c\<rparr> else e')"
    "po_ToNodeID (if po_FromNodeID e = p then e\<lparr>po_FromNodeID := c\<rparr> else e) =
     po_ToNodeID (if po_FromNodeID e' = p then e'\<lparr>po_FromNodeID := c\<rparr> else e')"
  then show "po_FromNodeID e = po_FromNodeID e' \<and> po_ToNodeID e = po_ToNodeID e'"
    using assms(3) [of e e'] assms(3) [of e' e]
    by (cases "po_FromNodeID e = p"; cases "po_FromNodeID e' = p") auto
qed auto

lemma repoint_edges_to_ok:
  assumes "schema_ok db" "c \<in> set (node_ids db)"
    "\<And>e e'. e \<in> set (db_peer_edges db) \<Longrightarrow> e' \<in> set (db_peer_edges db) \<Longrightarrow> po_ToNodeID e = p \<Longrightarrow>
       po_ReportBatchID e \<noteq> None \<Longrightarrow> po_ToNodeID e' = c \<Longrightarrow> po_FromNodeID e' = po_FromNodeID e \<Longrightarrow>
       po_ReportBatchID e' \<noteq> po_ReportBatchID e"
  shows "schema_ok (repoint_edges_to p c db)"
  unfolding repoint_edges_to_def
proof (rule repoint_edges_ok [OF assms(1)])
  fix e assume "e \<in> set (db_peer_edges db)"
  then show "po_FromNodeID (if po_ToNodeID e = p then e\<lparr>po_ToNodeID := c\<rparr> else e) \<in> set (node_ids db) \<and>
    po_ToNodeID (if po_ToNodeID e = p then e\<lparr>po_ToNodeID := c\<rparr> else e) \<in> set (node_ids db)"
    using edges_ids [OF assms(1)] assms(2) by simp
next
  fix e e'
  assume "e \<in> set (db_peer_edges db)" "e' \<in> set (db_peer_edges db)" "po_ReportBatchID e \<noteq> None"
    "po_ReportBatchID e = po_ReportBatchID e'"
    "po_FromNodeID (if po_ToNodeID e = p then e\<lparr>po_ToNodeID := c\<rparr> else e) =
     po_FromNodeID (if po_ToNodeID e' = p then e'\<lparr>po_ToNodeID := c\<rparr> else e')"
    "po_ToNodeID (if po_ToNodeID e = p then e\<lparr>po_ToNodeID := c\<rparr> else e) =
     po_ToNodeID (if po_ToNodeID e' = p then e'\<lparr>po_ToNodeID := c\<rparr> else e')"
  then show "po_FromNodeID e = po_FromNodeID e' \<and> po_ToNodeID e = po_ToNodeID e'"
    using assms(3) [of e e'] assms(3) [of e' e]
    by (cases "po_ToNodeID e = p"; cases "po_ToNodeID e' = p") auto
qed auto

lemma repoint_health_ok:
  assumes "schema_ok db" "c \<in> set (node_ids db)"
  shows "schema_ok (repoint_health p c db)"
  unfolding repoint_health_def
proof (rule schema_put_health [OF assms(1)])
  show "distinct (map (\<lambda>h. (hc_ID h, hc_Timestamp h))
      (map (\<lambda>h. if hc_NodeID h = p then h\<lparr>hc_NodeID := c\<rparr> else h) (db_node_health db)))"
    using schema_facts(7) [OF assms(1)] by (subst map_if_key) auto
  show "health_ok (node_ids db) (map (\<lambda>h. if hc_NodeID h = p then h\<lparr>hc_NodeID := c\<rparr> else h) (db_node_health db))"
    using schema_facts(8) [OF assms(1)] assms(2) by (auto simp: health_ok_def list_all_iff)
qed

lemma filter_map_if_key:
  "(\<And>x. Q (g x) = Q x) \<Longrightarrow> (\<And>x. k (g x) = k x) \<Longrightarrow>
   map k (filter Q (map (\<lambda>x. if P x then g x else x) xs)) = map k (filter Q xs)"
  by (induction xs) auto

lemma repoint_pending_ok:
  assumes "schema_ok db" "c \<in> set (node_ids db)"
  shows "schema_ok (repoint_pending p c db)"
  unfolding repoint_pending_def
proof (rule schema_put_pending [OF assms(1)])
  let ?g = "\<lambda>s. if ps_PromotedNodeID s = Some p then s\<lparr>ps_PromotedNodeID := Some c\<rparr> else s"
  show "distinct (map ps_ID (map ?g (db_pending_submissions db)))"
    using schema_facts(9) [OF assms(1)] by (subst map_if_key) auto
  have "map ps_Address (filter (\<lambda>p. ps_Status p = SubmissionStatusPending) (map ?g (db_pending_submissions db))) =
    map ps_Address (filter (\<lambda>p. ps_Status p = SubmissionStatusPending) (db_pending_submissions db))"
    by (rule filter_map_if_key) simp_all
  then show "pending_ok (node_ids db) (map ?g (db_pending_submissions db))"
    using schema_facts(10) [OF assms(1)] assms(2)
    unfolding pending_ok_def by (simp only:) (auto simp: list_all_iff references_def)
qed

lemma repoint_wallet_ok:
  assumes "schema_ok db" "c \<in> set (node_ids db)"
  shows "schema_ok (repoint_wallet p c db)"
  unfolding repoint_wallet_def
proof (rule schema_put_wallet [OF assms(1)])
  let ?g = "\<lambda>s. if pw_PromotedNodeID s = Some p then s\<lparr>pw_PromotedNodeID := Some c\<rparr> else s"
  show "distinct (map pw_ID (map ?g (db_pending_wallet_submissions db)))"
    using schema_facts(11) [OF assms(1)] by (subst map_if_key) auto
  have "map pw_Host (filter (\<lambda>p. pw_Status p = SubmissionStatusPending) (map ?g (db_pending_wallet_submissions db))) =
    map pw_Host (filter (\<lambda>p. pw_Status p = SubmissionStatusPending) (db_pending_wallet_submissions db))"
    by (rule filter_map_if_key) simp_all
  then show "wallet_ok (node_ids db) (map ?g (db_pending_wallet_submissions db))"
    using schema_facts(12) [OF assms(1)] assms(2)
    unfolding wallet_ok_def by (simp only:) (auto simp: list_all_iff references_def)
qed

text \<open>No row of any table refers to the node.\<close>

definition unreferenced :: "uuid \<Rightarrow> DB \<Rightarrow> bool" where
  "unreferenced p db \<longleftrightarrow> (\<forall>a\<in>set (db_node_addresses db). na_NodeID a \<noteq> p) \<and>
     (\<forall>h\<in>set (db_node_health db). hc_NodeID h \<noteq> p) \<and>
     (\<forall>e\<in>set (db_peer_edges db). po_FromNodeID e \<noteq> p \<and> po_ToNodeID e \<noteq> p) \<and>
     (\<forall>s\<in>set (db_pending_submissions db). ps_PromotedNodeID s \<noteq> Some p) \<and>
     (\<forall>s\<in>set (db_pending_wallet_submissions db). pw_PromotedNodeID s \<noteq> Some p)"

lemma delete_node_unreferenced:
  "unreferenced p db \<Longrightarrow> delete_node p db = db\<lparr>db_nodes := filter (\<lambda>n. n_ID n \<noteq> p) (db_nodes db)\<rparr>"
  by (simp add: delete_node_def unreferenced_def)

lemma nodes_ok_filter: "nodes_ok t \<Longrightarrow> nodes_ok (filter P t)"
proof -
  assume ok: "nodes_ok t"
  have f: "filter (\<lambda>n. n_PublicKey n \<noteq> []) (filter P t) = filter P (filter (\<lambda>n. n_PublicKey n \<noteq> []) t)"
    by (simp add: conj_commute)
  show ?thesis using ok unfolding nodes_ok_def f by (auto simp: list_all_iff distinct_map_filter simp del: filter_filter)
qed

lemma delete_node_ok:
  assumes ok: "schema_ok db" and u: "unreferenced p db"
  shows "schema_ok (delete_node p db)"
proof -
  have "references ids r \<Longrightarrow> r \<noteq> Some p \<Longrightarrow> references (filter (\<lambda>i. i \<noteq> p) ids) r" for ids r
    by (auto simp: references_def split: option.splits)
  moreover have "map n_ID (filter (\<lambda>n. n_ID n \<noteq> p) (db_nodes db)) = filter (\<lambda>i. i \<noteq> p) (node_ids db)"
    by (simp add: node_ids_def filter_map comp_def)
  ultimately show ?thesis
    using ok u nodes_ok_filter [of "db_nodes db" "\<lambda>n. n_ID n \<noteq> p"]
    unfolding delete_node_unreferenced [OF u] schema_ok_def pkeys_ok_def constraints_ok_def
    by (auto simp: node_ids_def addresses_ok_def health_ok_def edges_ok_def pending_ok_def wallet_ok_def
        list_all_iff unreferenced_def)
qed

lemma update_node_ids [simp]: "(\<And>n. n_ID (f n) = n_ID n) \<Longrightarrow> node_ids (update_node nid f db) = node_ids db"
  by (simp add: update_node_def node_ids_def)

text \<open>An update that keeps the keys and leaves a valid discovery source.\<close>

lemma update_node_ok:
  assumes ok: "schema_ok db" and f: "\<And>n. n_ID (f n) = n_ID n" "\<And>n. n_PublicKey (f n) = n_PublicKey n"
    "\<And>n. n_WalletHTTPPort (f n) = n_WalletHTTPPort n"
    "\<And>n. valid_source (n_DiscoverySource n) \<Longrightarrow> valid_source (n_DiscoverySource (f n))"
  shows "schema_ok (update_node nid f db)"
  unfolding update_node_def
proof (rule schema_put_nodes [OF ok])
  let ?t = "map (\<lambda>n. if n_ID n = nid then f n else n) (db_nodes db)"
  show "map n_ID ?t = node_ids db" by (simp add: node_ids_def f)
  have "map n_PublicKey (filter (\<lambda>n. n_PublicKey n \<noteq> []) ?t) = map n_PublicKey (filter (\<lambda>n. n_PublicKey n \<noteq> []) (db_nodes db))"
    by (rule filter_map_if_key) (simp_all add: f)
  then show "nodes_ok ?t"
    using schema_facts(2) [OF ok] unfolding nodes_ok_def by (simp only:) (auto simp: list_all_iff f)
qed

section \<open>The merge\<close>

definition repointed :: "uuid \<Rightarrow> uuid \<Rightarrow> uuid \<Rightarrow> uuid" where
  "repointed p c i = (if i = p then c else i)"

definition address_keys :: "DB \<Rightarrow> (uuid \<times> string) set" where
  "address_keys db = (\<lambda>a. (na_NodeID a, na_Address a)) ` set (db_node_addresses db)"

definition edge_keys :: "DB \<Rightarrow> (uuid \<times> uuid \<times> uuid option) set" where
  "edge_keys db = (\<lambda>e. (po_FromNodeID e, po_ToNodeID e, po_ReportBatchID e)) ` set (db_peer_edges db)"

text \<open>Dropping rows that coincide with another row once repointed loses no key.\<close>

lemma dedupe_repoint_image:
  assumes "\<And>x. D x \<Longrightarrow> M x \<and> list_ex (R x) t"
    "\<And>x y. M x \<Longrightarrow> R x y \<Longrightarrow> \<not> M y \<and> k (g y) = k (g x)"
  shows "k ` set (map g (filter (\<lambda>x. \<not> D x) t)) = (\<lambda>x. k (g x)) ` set t"
proof (intro equalityI subsetI)
  fix z assume "z \<in> (\<lambda>x. k (g x)) ` set t"
  then obtain x where "x \<in> set t" "z = k (g x)" by auto
  show "z \<in> k ` set (map g (filter (\<lambda>x. \<not> D x) t))"
  proof (cases "D x")
    case True
    then obtain y where y: "y \<in> set t" "R x y" "M x" using assms(1) [OF True] by (auto simp: list_ex_iff)
    then have "\<not> D y" "k (g y) = z" using assms(1) [of y] assms(2) [of x y] \<open>z = k (g x)\<close> by auto
    with y show ?thesis by auto
  qed (use \<open>x \<in> set t\<close> \<open>z = k (g x)\<close> in auto)
qed auto

lemma merge_addresses:
  assumes ok: "schema_ok db" and pc: "p \<noteq> c" "c \<in> set (node_ids db)"
  defines "db2 \<equiv> repoint_addresses p c (dedupe_addresses p c db)"
  shows "schema_ok db2" "address_keys db2 = (\<lambda>(i, a). (repointed p c i, a)) ` address_keys db"
    "\<forall>a\<in>set (db_node_addresses db2). na_NodeID a \<noteq> p"
proof -
  have "schema_ok (dedupe_addresses p c db)" using ok by (rule dedupe_addresses_ok)
  from repoint_addresses_ok [OF this, of c p] pc show "schema_ok db2"
    by (fastforce simp: db2_def dedupe_addresses_def node_ids_def list_ex_iff)
  show "\<forall>a\<in>set (db_node_addresses db2). na_NodeID a \<noteq> p"
    using pc by (auto simp: db2_def repoint_addresses_def)
  have t: "db_node_addresses db2 = map (\<lambda>a. if na_NodeID a = p then a\<lparr>na_NodeID := c\<rparr> else a)
     (filter (\<lambda>na. \<not> (na_NodeID na = p \<and> list_ex (\<lambda>na2. na_NodeID na2 = c \<and> na_Address na2 = na_Address na)
        (db_node_addresses db))) (db_node_addresses db))"
    by (simp add: db2_def repoint_addresses_def dedupe_addresses_def)
  have "address_keys db2 = (\<lambda>a. (\<lambda>a. (na_NodeID a, na_Address a)) (if na_NodeID a = p then a\<lparr>na_NodeID := c\<rparr> else a)) `
      set (db_node_addresses db)"
    unfolding address_keys_def t
    by (rule dedupe_repoint_image [where M = "\<lambda>a. na_NodeID a = p"
        and R = "\<lambda>na na2. na_NodeID na2 = c \<and> na_Address na2 = na_Address na"]) (use pc in auto)
  also have "\<dots> = (\<lambda>(i, a). (repointed p c i, a)) ` address_keys db"
    unfolding address_keys_def image_image by (rule image_cong) (auto simp: repointed_def)
  finally show "address_keys db2 = (\<lambda>(i, a). (repointed p c i, a)) ` address_keys db" .
qed

lemma merge_edges_from:
  assumes ok: "schema_ok db" and pc: "p \<noteq> c" "c \<in> set (node_ids db)"
  defines "db2 \<equiv> repoint_edges_from p c (dedupe_edges_from p c db)"
  shows "schema_ok db2" "edge_keys db2 = (\<lambda>(i, j, b). (repointed p c i, j, b)) ` edge_keys db"
    "\<forall>e\<in>set (db_peer_edges db2). po_FromNodeID e \<noteq> p"
proof -
  have "schema_ok (dedupe_edges_from p c db)" using ok by (rule dedupe_edges_from_ok)
  from repoint_edges_from_ok [OF this, of c p] pc show "schema_ok db2"
    by (fastforce simp: db2_def dedupe_edges_from_def node_ids_def list_ex_iff)
  show "\<forall>e\<in>set (db_peer_edges db2). po_FromNodeID e \<noteq> p"
    using pc by (auto simp: db2_def repoint_edges_from_def)
  have t: "db_peer_edges db2 = map (\<lambda>e. if po_FromNodeID e = p then e\<lparr>po_FromNodeID := c\<rparr> else e)
     (filter (\<lambda>e. \<not> (po_FromNodeID e = p \<and> po_ReportBatchID e \<noteq> None \<and>
        list_ex (\<lambda>e2. po_FromNodeID e2 = c \<and> po_ToNodeID e2 = po_ToNodeID e \<and>
          po_ReportBatchID e2 = po_ReportBatchID e) (db_peer_edges db))) (db_peer_edges db))"
    by (simp add: db2_def repoint_edges_from_def dedupe_edges_from_def)
  have "edge_keys db2 = (\<lambda>e. (\<lambda>e. (po_FromNodeID e, po_ToNodeID e, po_ReportBatchID e))
      (if po_FromNodeID e = p then e\<lparr>po_FromNodeID := c\<rparr> else e)) ` set (db_peer_edges db)"
    unfolding edge_keys_def t
    by (rule dedupe_repoint_image [where M = "\<lambda>e. po_FromNodeID e = p"
        and R = "\<lambda>e e2. po_FromNodeID e2 = c \<and> po_ToNodeID e2 = po_ToNodeID e \<and> po_ReportBatchID e2 = po_ReportBatchID e"])
      (use pc in auto)
  also have "\<dots> = (\<lambda>(i, j, b). (repointed p c i, j, b)) ` edge_keys db"
    unfolding edge_keys_def image_image by (rule image_cong) (auto simp: repointed_def)
  finally show "edge_keys db2 = (\<lambda>(i, j, b). (repointed p c i, j, b)) ` edge_keys db" .
qed

lemma merge_edges_to:
  assumes ok: "schema_ok db" and pc: "p \<noteq> c" "c \<in> set (node_ids db)"
  defines "db2 \<equiv> repoint_edges_to p c (dedupe_edges_to p c db)"
  shows "schema_ok db2" "edge_keys db2 = (\<lambda>(i, j, b). (i, repointed p c j, b)) ` edge_keys db"
    "\<forall>e\<in>set (db_peer_edges db2). po_ToNodeID e \<noteq> p"
proof -
  have "schema_ok (dedupe_edges_to p c db)" using ok by (rule dedupe_edges_to_ok)
  from repoint_edges_to_ok [OF this, of c p] pc show "schema_ok db2"
    by (fastforce simp: db2_def dedupe_edges_to_def node_ids_def list_ex_iff)
  show "\<forall>e\<in>set (db_peer_edges db2). po_ToNodeID e \<noteq> p"
    using pc by (auto simp: db2_def repoint_edges_to_def)
  have t: "db_peer_edges db2 = map (\<lambda>e. if po_ToNodeID e = p then e\<lparr>po_ToNodeID := c\<rparr> else e)
     (filter (\<lambda>e. \<not> (po_ToNodeID e = p \<and> po_ReportBatchID e \<noteq> None \<and>
        list_ex (\<lambda>e2. po_ToNodeID e2 = c \<and> po_FromNodeID e2 = po_FromNodeID e \<and>
          po_ReportBatchID e2 = po_ReportBatchID e) (db_peer_edges db))) (db_peer_edges db))"
    by (simp add: db2_def repoint_edges_to_def dedupe_edges_to_def)
  have "edge_keys db2 = (\<lambda>e. (\<lambda>e. (po_FromNodeID e, po_ToNodeID e, po_ReportBatchID e))
      (if po_ToNodeID e = p then e\<lparr>po_ToNodeID := c\<rparr> else e)) ` set (db_peer_edges db)"
    unfolding edge_keys_def t
    by (rule dedupe_repoint_image [where M = "\<lambda>e. po_ToNodeID e = p"
        and R = "\<lambda>e e2. po_ToNodeID e2 = c \<and> po_FromNodeID e2 = po_FromNodeID e \<and> po_ReportBatchID e2 = po_ReportBatchID e"])
      (use pc in auto)
  also have "\<dots> = (\<lambda>(i, j, b). (i, repointed p c j, b)) ` edge_keys db"
    unfolding edge_keys_def image_image by (rule image_cong) (auto simp: repointed_def)
  finally show "edge_keys db2 = (\<lambda>(i, j, b). (i, repointed p c j, b)) ` edge_keys db" .
qed

text \<open>The rows of the history tables, with one node's identifier replaced.\<close>

definition repoint_health_row :: "uuid \<Rightarrow> uuid \<Rightarrow> HealthRow \<Rightarrow> HealthRow" where
  "repoint_health_row p c h = h\<lparr>hc_NodeID := repointed p c (hc_NodeID h)\<rparr>"

definition repoint_edge :: "uuid \<Rightarrow> uuid \<Rightarrow> PeerEdgeObservation \<Rightarrow> PeerEdgeObservation" where
  "repoint_edge p c e = e\<lparr>po_FromNodeID := repointed p c (po_FromNodeID e), po_ToNodeID := repointed p c (po_ToNodeID e)\<rparr>"

lemma repoint_health_eq: "db_node_health (repoint_health p c db) = map (repoint_health_row p c) (db_node_health db)"
  by (auto simp: repoint_health_def repoint_health_row_def repointed_def)

lemma unbatched_edges:
  "filter (\<lambda>e. po_ReportBatchID e = None)
     (db_peer_edges (repoint_edges_to p c (dedupe_edges_to p c (repoint_edges_from p c (dedupe_edges_from p c db))))) =
   map (repoint_edge p c) (filter (\<lambda>e. po_ReportBatchID e = None) (db_peer_edges db))"
proof -
  have a: "filter (\<lambda>e. po_ReportBatchID e = None) (db_peer_edges (dedupe_edges_from p c d)) =
    filter (\<lambda>e. po_ReportBatchID e = None) (db_peer_edges d)" for d
    by (auto simp: dedupe_edges_from_def intro: filter_cong)
  have b: "filter (\<lambda>e. po_ReportBatchID e = None) (db_peer_edges (dedupe_edges_to p c d)) =
    filter (\<lambda>e. po_ReportBatchID e = None) (db_peer_edges d)" for d
    by (auto simp: dedupe_edges_to_def intro: filter_cong)
  have f: "filter (\<lambda>e. po_ReportBatchID e = None) (map g xs) = map g (filter (\<lambda>e. po_ReportBatchID e = None) xs)"
    if "\<And>e. po_ReportBatchID (g e) = po_ReportBatchID e" for g xs
    using that by (simp add: filter_map comp_def)
  show ?thesis
    by (simp add: repoint_edges_to_def [of p c "dedupe_edges_to p c _"] f b)
      (simp add: repoint_edges_from_def f a repoint_edge_def repointed_def)
qed

lemma exec_all_Cons: "schema_ok (f db) \<Longrightarrow> exec_all (f # fs) db = exec_all fs (f db)"
  by (simp add: bindE_def exec_Ok)

text \<open>The database just before the placeholder is deleted.\<close>

definition repoint_all :: "uuid \<Rightarrow> uuid \<Rightarrow> DB \<Rightarrow> DB" where
  "repoint_all p c db =
     repoint_wallet p c (repoint_pending p c (repoint_health p c
      (repoint_edges_to p c (dedupe_edges_to p c (repoint_edges_from p c (dedupe_edges_from p c
       (repoint_addresses p c (dedupe_addresses p c db))))))))"

lemma merge_frames [simp]:
  "node_ids (dedupe_addresses p c db) = node_ids db" "node_ids (repoint_addresses p c db) = node_ids db"
  "node_ids (dedupe_edges_from p c db) = node_ids db" "node_ids (repoint_edges_from p c db) = node_ids db"
  "node_ids (dedupe_edges_to p c db) = node_ids db" "node_ids (repoint_edges_to p c db) = node_ids db"
  "node_ids (repoint_health p c db) = node_ids db" "node_ids (repoint_pending p c db) = node_ids db"
  "node_ids (repoint_wallet p c db) = node_ids db"
  by (simp_all add: node_ids_def dedupe_addresses_def repoint_addresses_def dedupe_edges_from_def
      repoint_edges_from_def dedupe_edges_to_def repoint_edges_to_def repoint_health_def
      repoint_pending_def repoint_wallet_def)

lemmas repoint_defs = dedupe_addresses_def repoint_addresses_def dedupe_edges_from_def repoint_edges_from_def
  dedupe_edges_to_def repoint_edges_to_def repoint_health_def repoint_pending_def repoint_wallet_def

lemma repoint_all_tables:
  "db_nodes (repoint_all p c db) = db_nodes db"
  "db_node_addresses (repoint_all p c db) = db_node_addresses (repoint_addresses p c (dedupe_addresses p c db))"
  "db_peer_edges (repoint_all p c db) =
     db_peer_edges (repoint_edges_to p c (dedupe_edges_to p c (repoint_edges_from p c (dedupe_edges_from p c db))))"
  "db_node_health (repoint_all p c db) = db_node_health (repoint_health p c db)"
  "db_pending_submissions (repoint_all p c db) = db_pending_submissions (repoint_pending p c db)"
  "db_pending_wallet_submissions (repoint_all p c db) = db_pending_wallet_submissions (repoint_wallet p c db)"
  by (simp_all add: repoint_all_def repoint_defs)

lemma repoint_all_edges:
  assumes ok: "schema_ok db" and pc: "p \<noteq> c" "c \<in> set (node_ids db)" and e: "e \<in> set (db_peer_edges (repoint_all p c db))"
  shows "po_FromNodeID e \<noteq> p \<and> po_ToNodeID e \<noteq> p"
proof -
  note f = merge_edges_from [OF ok pc]
  note t = merge_edges_to [OF f(1) pc(1), simplified, OF pc(2)]
  have "\<exists>e'\<in>set (db_peer_edges d). po_FromNodeID e' = po_FromNodeID e"
    if "e \<in> set (db_peer_edges (repoint_edges_to p c (dedupe_edges_to p c d)))" for d
    using that by (auto simp: repoint_edges_to_def dedupe_edges_to_def)
  then show ?thesis using e f(3) t(3) unfolding repoint_all_tables by fastforce
qed

lemma repoint_all_unreferenced:
  assumes ok: "schema_ok db" and pc: "p \<noteq> c" "c \<in> set (node_ids db)"
  shows "unreferenced p (repoint_all p c db)"
  unfolding unreferenced_def
proof (intro conjI)
  show "\<forall>a\<in>set (db_node_addresses (repoint_all p c db)). na_NodeID a \<noteq> p"
    using merge_addresses(3) [OF ok pc] by (simp only: repoint_all_tables)
  show "\<forall>h\<in>set (db_node_health (repoint_all p c db)). hc_NodeID h \<noteq> p"
    using pc by (auto simp: repoint_all_tables repoint_health_def)
  show "\<forall>e\<in>set (db_peer_edges (repoint_all p c db)). po_FromNodeID e \<noteq> p \<and> po_ToNodeID e \<noteq> p"
    using repoint_all_edges [OF ok pc] by blast
  show "\<forall>s\<in>set (db_pending_submissions (repoint_all p c db)). ps_PromotedNodeID s \<noteq> Some p"
    using pc by (auto simp: repoint_all_tables repoint_pending_def)
  show "\<forall>s\<in>set (db_pending_wallet_submissions (repoint_all p c db)). pw_PromotedNodeID s \<noteq> Some p"
    using pc by (auto simp: repoint_all_tables repoint_wallet_def)
qed

text \<open>Every statement of the merge succeeds.\<close>

lemma merge_executes:
  assumes ok: "schema_ok db" and pc: "p \<noteq> c" "c \<in> set (node_ids db)"
  shows "mergeNodeInto now p c db =
      (update_node c (\<lambda>n. n\<lparr>n_LastSeen := now\<rparr>) (delete_node p (repoint_all p c db)), Ok ()) \<and>
    unreferenced p (repoint_all p c db) \<and> schema_ok (repoint_all p c db)"
proof -
  have d1: "schema_ok (dedupe_addresses p c db)" using ok by (rule dedupe_addresses_ok)
  note a = merge_addresses [OF ok pc]
  have d3: "schema_ok (dedupe_edges_from p c (repoint_addresses p c (dedupe_addresses p c db)))"
    using a(1) by (rule dedupe_edges_from_ok)
  note f = merge_edges_from [OF a(1) pc(1), simplified, OF pc(2)]
  have d5: "schema_ok (dedupe_edges_to p c (repoint_edges_from p c (dedupe_edges_from p c
      (repoint_addresses p c (dedupe_addresses p c db)))))"
    using f(1) by (rule dedupe_edges_to_ok)
  note t = merge_edges_to [OF f(1) pc(1), simplified, OF pc(2)]
  note h = repoint_health_ok [OF t(1), simplified, OF pc(2), of p]
  note q = repoint_pending_ok [OF h, simplified, OF pc(2), of p]
  note w = repoint_wallet_ok [OF q, simplified, OF pc(2), of p]
  have u: "unreferenced p (repoint_all p c db)" using ok pc by (rule repoint_all_unreferenced)
  have r: "schema_ok (repoint_all p c db)" using w by (simp only: repoint_all_def)
  have del: "schema_ok (delete_node p (repoint_all p c db))" using r u by (rule delete_node_ok)
  have upd: "schema_ok (update_node c (\<lambda>n. n\<lparr>n_LastSeen := now\<rparr>) (delete_node p (repoint_all p c db)))"
    using del by (rule update_node_ok) simp_all
  show ?thesis
    using u r unfolding mergeNodeInto_def
    by (simp only: exec_all_Cons d1 a(1) d3 f(1) d5 t(1) h q w del [unfolded repoint_all_def]
        upd [unfolded repoint_all_def] repoint_all_def exec_all.simps(1) op_simps simp_thms)
qed

lemma merge_address_keys:
  "schema_ok db \<Longrightarrow> p \<noteq> c \<Longrightarrow> c \<in> set (node_ids db) \<Longrightarrow>
   address_keys (repoint_all p c db) = (\<lambda>(i, a). (repointed p c i, a)) ` address_keys db"
  using merge_addresses(2) [of db p c] unfolding address_keys_def repoint_all_tables by simp

lemma merge_edge_keys:
  assumes ok: "schema_ok db" and pc: "p \<noteq> c" "c \<in> set (node_ids db)"
  shows "edge_keys (repoint_all p c db) = (\<lambda>(i, j, b). (repointed p c i, repointed p c j, b)) ` edge_keys db"
proof -
  note f = merge_edges_from [OF ok pc]
  note t = merge_edges_to [OF f(1) pc(1), simplified, OF pc(2)]
  have "edge_keys (repoint_all p c db) =
    edge_keys (repoint_edges_to p c (dedupe_edges_to p c (repoint_edges_from p c (dedupe_edges_from p c db))))"
    by (simp only: edge_keys_def repoint_all_tables)
  also have "\<dots> = (\<lambda>(i, j, b). (i, repointed p c j, b)) ` (\<lambda>(i, j, b). (repointed p c i, j, b)) ` edge_keys db"
    using t(2) f(2) by simp
  finally show ?thesis by (simp add: image_image case_prod_beta)
qed

text \<open>The database after a merge, table by table.\<close>

definition merged :: "time \<Rightarrow> uuid \<Rightarrow> uuid \<Rightarrow> DB \<Rightarrow> DB \<Rightarrow> bool" where
  "merged now p c db db' \<longleftrightarrow> schema_ok db' \<and>
     db_nodes db' = map (\<lambda>n. if n_ID n = c then n\<lparr>n_LastSeen := now\<rparr> else n) (filter (\<lambda>n. n_ID n \<noteq> p) (db_nodes db)) \<and>
     address_keys db' = (\<lambda>(i, a). (repointed p c i, a)) ` address_keys db \<and>
     db_node_health db' = map (repoint_health_row p c) (db_node_health db) \<and>
     edge_keys db' = (\<lambda>(i, j, b). (repointed p c i, repointed p c j, b)) ` edge_keys db \<and>
     filter (\<lambda>e. po_ReportBatchID e = None) (db_peer_edges db') =
       map (repoint_edge p c) (filter (\<lambda>e. po_ReportBatchID e = None) (db_peer_edges db)) \<and>
     unreferenced p db'"

lemma merged_ids: "merged now p c db db' \<Longrightarrow> node_ids db' = filter (\<lambda>i. i \<noteq> p) (node_ids db)"
proof -
  assume "merged now p c db db'"
  then have "node_ids db' = map n_ID (map (\<lambda>n. if n_ID n = c then n\<lparr>n_LastSeen := now\<rparr> else n) (filter (\<lambda>n. n_ID n \<noteq> p) (db_nodes db)))"
    by (simp only: merged_def node_ids_def)
  also have "\<dots> = map n_ID (filter (\<lambda>n. n_ID n \<noteq> p) (db_nodes db))" by (rule map_if_key) simp
  finally show ?thesis by (simp add: node_ids_def filter_map comp_def)
qed

lemma merge_correct:
  assumes ok: "schema_ok db" and pc: "p \<noteq> c" "c \<in> set (node_ids db)"
  shows "\<exists>db'. mergeNodeInto now p c db = (db', Ok ()) \<and> merged now p c db db'"
proof -
  define d where "d = repoint_all p c db"
  define db' where "db' = update_node c (\<lambda>n. n\<lparr>n_LastSeen := now\<rparr>) (delete_node p d)"
  note m = merge_executes [OF ok pc, of now]
  have u: "unreferenced p d" and sd: "schema_ok d" using m by (auto simp: d_def)
  have sok: "schema_ok db'"
    unfolding db'_def by (rule update_node_ok [OF delete_node_ok [OF sd u]]) simp_all
  have tables: "db_node_addresses db' = db_node_addresses d" "db_node_health db' = db_node_health d"
    "db_peer_edges db' = db_peer_edges d" "db_pending_submissions db' = db_pending_submissions d"
    "db_pending_wallet_submissions db' = db_pending_wallet_submissions d"
    "db_nodes db' = map (\<lambda>n. if n_ID n = c then n\<lparr>n_LastSeen := now\<rparr> else n) (filter (\<lambda>n. n_ID n \<noteq> p) (db_nodes d))"
    by (simp_all add: db'_def update_node_def delete_node_unreferenced [OF u])
  have "address_keys db' = address_keys d" "edge_keys db' = edge_keys d"
    by (simp_all add: address_keys_def edge_keys_def tables)
  moreover have "unreferenced p db'" using u by (simp add: unreferenced_def tables)
  moreover have "db_node_health db' = map (repoint_health_row p c) (db_node_health db)"
    by (simp add: tables d_def repoint_all_tables repoint_health_eq)
  moreover have "filter (\<lambda>e. po_ReportBatchID e = None) (db_peer_edges db') =
       map (repoint_edge p c) (filter (\<lambda>e. po_ReportBatchID e = None) (db_peer_edges db))"
    by (simp only: tables d_def repoint_all_tables unbatched_edges)
  ultimately have "merged now p c db db'"
    using sok merge_address_keys [OF ok pc] merge_edge_keys [OF ok pc]
    by (simp add: merged_def tables d_def repoint_all_tables)
  with m show ?thesis by (auto simp: db'_def d_def)
qed

text \<open>
  C2: the merge of a placeholder into a confirmed node always goes through and loses no
  history.  On any database that satisfies the schema, with two different existing nodes,
  none of the eleven statements violates a unique index or a foreign key, the result
  satisfies the schema, nothing refers to the placeholder any more, and every address,
  health check and peer observation of the placeholder is found at the confirmed node:
  health checks and observations outside report batches row by row, observations of a
  batch up to the duplicates the unique index forbids.
\<close>

theorem mergeNodeInto_correct:
  assumes "schema_ok db" "p \<noteq> c" "p \<in> set (node_ids db)" "c \<in> set (node_ids db)"
  shows "\<exists>db'. mergeNodeInto now p c db = (db', Ok ()) \<and> schema_ok db' \<and> unreferenced p db' \<and>
    set (node_ids db') = set (node_ids db) - {p} \<and>
    address_keys db' = (\<lambda>(i, a). (repointed p c i, a)) ` address_keys db \<and>
    db_node_health db' = map (repoint_health_row p c) (db_node_health db) \<and>
    edge_keys db' = (\<lambda>(i, j, b). (repointed p c i, repointed p c j, b)) ` edge_keys db \<and>
    filter (\<lambda>e. po_ReportBatchID e = None) (db_peer_edges db') =
      map (repoint_edge p c) (filter (\<lambda>e. po_ReportBatchID e = None) (db_peer_edges db))"
proof -
  obtain db' where "mergeNodeInto now p c db = (db', Ok ())" "merged now p c db db'"
    using merge_correct [OF assms(1,2,4)] by blast
  with merged_ids [OF this(2)] show ?thesis by (intro exI [of _ db']) (auto simp: merged_def)
qed

text \<open>
  A placeholder 1 and a confirmed node 2 that share an address and, within report batch 9,
  an observed peer 3.
\<close>

definition example_node :: "uuid \<Rightarrow> string \<Rightarrow> bytes \<Rightarrow> Node" where
  "example_node i a pk = \<lparr>n_ID = i, n_Address = a, n_PublicKey = pk, n_DiscoverySource = DiscoverySourceP2P,
     n_Tags = [], n_Label = None, n_FirstSeen = 1, n_LastSeen = 1, n_WalletHTTPPort = None\<rparr>"

definition example_address :: "uuid \<Rightarrow> uuid \<Rightarrow> string \<Rightarrow> NodeAddress" where
  "example_address i n a = \<lparr>na_ID = i, na_NodeID = n, na_Address = a, na_FirstSeen = 1, na_LastSeen = 1\<rparr>"

definition example_edge :: "uuid \<Rightarrow> uuid \<Rightarrow> uuid \<Rightarrow> PeerEdgeObservation" where
  "example_edge i f t = \<lparr>po_ID = i, po_FromNodeID = f, po_ToNodeID = t, po_ObservedAt = 1,
     po_ReportedByCollector = None, po_ReportBatchID = Some 9\<rparr>"

definition example_db :: DB where
  "example_db = \<lparr>db_nodes = [example_node 1 ''p:1'' [], example_node 2 ''c:1'' [7], example_node 3 ''x:1'' []],
     db_node_addresses = [example_address 11 1 ''p:1'', example_address 12 2 ''c:1'', example_address 13 3 ''x:1'',
       example_address 14 2 ''p:1''],
     db_node_health = [], db_peer_edges = [example_edge 21 3 1, example_edge 22 3 2],
     db_pending_submissions = [], db_pending_wallet_submissions = [], db_geoip_cache = [],
     db_random = (\<lambda>k. of_nat (k + 100)), db_draws = 0\<rparr>"

lemmas example_db_defs = example_db_def example_node_def example_address_def example_edge_def

lemma example_db_ok: "schema_ok example_db"
  by (simp add: example_db_defs schema_defs nodes_ok_def addresses_ok_def health_ok_def edges_ok_def
      pending_ok_def wallet_ok_def valid_source_def)

lemma example_db_ids: "node_ids example_db = [1, 2, 3]"
  by (simp add: node_ids_def example_db_defs)

theorem mergeNodeInto_correct_witness:
  "\<exists>db'. mergeNodeInto 5 1 2 example_db = (db', Ok ()) \<and> set (node_ids db') = {2, 3} \<and>
     edge_keys db' = {(3, 2, Some 9)}"
proof -
  have "(1 :: uuid) \<noteq> 2" "1 \<in> set (node_ids example_db)" "2 \<in> set (node_ids example_db)"
    by (simp_all add: example_db_ids)
  from mergeNodeInto_correct [OF example_db_ok this, of 5] obtain db' where
    "mergeNodeInto 5 1 2 example_db = (db', Ok ())" "set (node_ids db') = set (node_ids example_db) - {1}"
    "edge_keys db' = (\<lambda>(i, j, b). (repointed 1 2 i, repointed 1 2 j, b)) ` edge_keys example_db" by blast
  moreover have "edge_keys example_db = {(3, 1, Some 9), (3, 2, Some 9)}"
    by (simp add: edge_keys_def example_db_defs)
  ultimately show ?thesis by (auto simp: example_db_ids repointed_def)
qed

section \<open>Outcomes of an operation\<close>

text \<open>
  A statement on a database that satisfies the schema can still fail in one way the code
  cannot prevent: a primary key drawn twice.  The rules below compose operations that
  otherwise succeed.
\<close>

definition succeeds :: "DB \<times> 'a result \<Rightarrow> (DB \<Rightarrow> 'a \<Rightarrow> bool) \<Rightarrow> bool" where
  "succeeds x Q \<longleftrightarrow> (case x of (db', Inl e) \<Rightarrow> e = ErrPrimaryKey | (db', Inr v) \<Rightarrow> Q db' v)"

lemma succeeds_simps [simp]:
  "succeeds (db', Inl e) Q \<longleftrightarrow> e = ErrPrimaryKey" "succeeds (db', Inr v) Q \<longleftrightarrow> Q db' v"
  by (simp_all add: succeeds_def)

lemma succeeds_bind:
  assumes "succeeds (m db) Q" "\<And>db' v. Q db' v \<Longrightarrow> succeeds (k v db') R"
  shows "succeeds (bindE m k db) R"
  using assms by (cases "m db"; cases "snd (m db)") (auto simp: bindE_def)

lemma succeeds_get: "succeeds (k (f db) db) R \<Longrightarrow> succeeds (bindE (getE f) k db) R"
  by (simp add: bindE_def)

lemma succeeds_mono: "succeeds x Q \<Longrightarrow> (\<And>db' v. Q db' v \<Longrightarrow> R db' v) \<Longrightarrow> succeeds x R"
  by (auto simp: succeeds_def split: prod.splits sum.splits)

lemma succeeds_tx:
  assumes "in_tx m db = (db', r)" "succeeds (m db) Q"
  shows "(\<exists>v. r = Ok v \<and> Q db' v) \<or> (r = Fail ErrPrimaryKey \<and> same_tables db db')"
  using assms by (cases "m db"; cases "snd (m db)") (auto simp: in_tx_def)

lemma succeeds_exec:
  assumes "pkeys_ok (f db) \<Longrightarrow> constraints_ok (f db)" "schema_ok (f db) \<Longrightarrow> Q (f db) ()"
  shows "succeeds (exec f db) Q"
  using assms by (auto simp: exec_def Let_def schema_ok_def)

section \<open>The upserts\<close>

text \<open>Every node's own address is also in \<^verbatim>\<open>node_addresses\<close>, as the upserts and the migration ensure.\<close>

definition addresses_recorded :: "DB \<Rightarrow> bool" where
  "addresses_recorded db \<longleftrightarrow>
     (\<forall>n\<in>set (db_nodes db). n_Address n = [] \<or> (n_ID n, n_Address n) \<in> address_keys db)"

definition store_ok :: "DB \<Rightarrow> bool" where
  "store_ok db \<longleftrightarrow> schema_ok db \<and> addresses_recorded db"

text \<open>The public key of every node is kept.\<close>

definition keys_kept :: "DB \<Rightarrow> DB \<Rightarrow> bool" where
  "keys_kept db db' \<longleftrightarrow>
     (\<forall>n\<in>set (db_nodes db). \<exists>n'\<in>set (db_nodes db'). n_ID n' = n_ID n \<and> n_PublicKey n' = n_PublicKey n)"

lemma keys_kept_refl: "db_nodes db' = db_nodes db \<Longrightarrow> keys_kept db db'"
  by (auto simp: keys_kept_def)

lemma keys_kept_trans: "keys_kept a b \<Longrightarrow> keys_kept b c \<Longrightarrow> keys_kept a c"
  unfolding keys_kept_def by metis

lemma upsert_address_keys: "address_keys (sql_upsert_address now nid a db) = insert (nid, a) (address_keys db)"
proof (cases "list_ex (\<lambda>r. na_NodeID r = nid \<and> na_Address r = a) (db_node_addresses db)")
  case True
  have "map (\<lambda>a. (na_NodeID a, na_Address a)) (db_node_addresses (sql_upsert_address now nid a db)) =
    map (\<lambda>a. (na_NodeID a, na_Address a)) (db_node_addresses db)"
    using True by (simp add: sql_upsert_address_def)
  then have "address_keys (sql_upsert_address now nid a db) = address_keys db"
    unfolding address_keys_def set_map [symmetric] by (rule arg_cong)
  with True show ?thesis by (auto simp: address_keys_def list_ex_iff)
next
  case False
  then show ?thesis by (auto simp: sql_upsert_address_def address_keys_def draw_def)
qed

lemma ensureNodeAddress_spec:
  assumes ok: "schema_ok db" and nid: "nid \<in> set (node_ids db)"
  shows "succeeds (ensureNodeAddress now nid a db)
    (\<lambda>db' _. schema_ok db' \<and> db_nodes db' = db_nodes db \<and> address_keys db' = insert (nid, a) (address_keys db))"
  unfolding ensureNodeAddress_def
proof (rule succeeds_exec)
  let ?db' = "sql_upsert_address now nid a db"
  show "constraints_ok ?db'" if pk: "pkeys_ok ?db'"
  proof (cases "list_ex (\<lambda>r. na_NodeID r = nid \<and> na_Address r = a) (db_node_addresses db)")
    case True
    let ?t = "map (\<lambda>r. if na_NodeID r = nid \<and> na_Address r = a then r\<lparr>na_LastSeen := now\<rparr> else r) (db_node_addresses db)"
    have k: "map (\<lambda>a. (na_NodeID a, na_Address a)) ?t = map (\<lambda>a. (na_NodeID a, na_Address a)) (db_node_addresses db)"
      by (rule map_if_key) simp
    have "addresses_ok (node_ids db) ?t"
      using schema_facts(4) [OF ok] unfolding addresses_ok_def k by (auto simp: list_all_iff)
    then show ?thesis
      using ok True by (simp add: sql_upsert_address_def schema_ok_def constraints_ok_def node_ids_def)
  next
    case False
    then have "addresses_ok (node_ids db) (db_node_addresses db @
      [\<lparr>na_ID = gen_random_uuid db, na_NodeID = nid, na_Address = a, na_FirstSeen = now, na_LastSeen = now\<rparr>])"
      using schema_facts(4) [OF ok] nid by (auto simp: addresses_ok_def list_ex_iff)
    then show ?thesis
      using ok False by (simp add: sql_upsert_address_def schema_ok_def constraints_ok_def node_ids_def draw_def)
  qed
  have "address_keys ?db' = insert (nid, a) (address_keys db)" by (rule upsert_address_keys)
  then show "schema_ok ?db' \<Longrightarrow> schema_ok ?db' \<and> db_nodes ?db' = db_nodes db \<and>
      address_keys ?db' = insert (nid, a) (address_keys db)"
    by (simp add: sql_upsert_address_def draw_def)
qed

lemma insert_returning_spec:
  assumes ok: "schema_ok db" and src: "valid_source src"
    and pk: "pk \<noteq> [] \<Longrightarrow> pk \<notin> n_PublicKey ` set (db_nodes db)"
  shows "succeeds (insert_returning now a pk src tags label db)
    (\<lambda>db' nid. schema_ok db' \<and> nid \<notin> set (node_ids db) \<and> address_keys db' = address_keys db \<and>
       (\<exists>n. db_nodes db' = db_nodes db @ [n] \<and> n_ID n = nid \<and> n_Address n = a \<and> n_PublicKey n = pk \<and>
          n_DiscoverySource n = src))"
  unfolding insert_returning_def
proof (rule succeeds_get, rule succeeds_bind)
  let ?db' = "sql_insert_node now a pk src tags label db"
  show "succeeds (exec (sql_insert_node now a pk src tags label) db) (\<lambda>db' _. schema_ok db' \<and> db' = ?db')"
  proof (rule succeeds_exec)
    show "constraints_ok ?db'"
      using ok src pk
      by (auto simp: sql_insert_node_def draw_def schema_ok_def constraints_ok_def node_ids_def nodes_ok_def
          addresses_ok_def health_ok_def edges_ok_def pending_ok_def wallet_ok_def list_all_iff references_def
          split: option.splits)
  qed simp
  fix db' v assume d: "schema_ok db' \<and> db' = ?db'"
  then have "distinct (node_ids db')" by (rule schema_facts(1) [OF conjunct1])
  with d have "gen_random_uuid db \<notin> set (node_ids db)"
    by (auto simp: node_ids_def sql_insert_node_def draw_def)
  with d show "succeeds (returnE (gen_random_uuid db) db') (\<lambda>db' nid. schema_ok db' \<and> nid \<notin> set (node_ids db) \<and>
      address_keys db' = address_keys db \<and> (\<exists>n. db_nodes db' = db_nodes db @ [n] \<and> n_ID n = nid \<and> n_Address n = a \<and>
        n_PublicKey n = pk \<and> n_DiscoverySource n = src))"
    by (auto simp: sql_insert_node_def draw_def address_keys_def)
qed

lemma keys_kept_update:
  assumes "\<And>n. n_ID (f n) = n_ID n" "\<And>n. n_PublicKey (f n) = n_PublicKey n"
  shows "keys_kept db (update_node nid f db)"
  unfolding keys_kept_def
proof
  fix n assume "n \<in> set (db_nodes db)"
  then have "(if n_ID n = nid then f n else n) \<in> set (db_nodes (update_node nid f db))"
    by (auto simp: update_node_def)
  then show "\<exists>n'\<in>set (db_nodes (update_node nid f db)). n_ID n' = n_ID n \<and> n_PublicKey n' = n_PublicKey n"
    using assms by (intro bexI) auto
qed

lemma update_node_exec:
  assumes "schema_ok db" "\<And>n. n_ID (f n) = n_ID n" "\<And>n. n_PublicKey (f n) = n_PublicKey n"
    "\<And>n. n_WalletHTTPPort (f n) = n_WalletHTTPPort n" "\<And>n. n_Address (f n) = n_Address n"
    "\<And>n. valid_source (n_DiscoverySource n) \<Longrightarrow> valid_source (n_DiscoverySource (f n))"
  shows "succeeds (exec (update_node nid f) db)
    (\<lambda>db' _. schema_ok db' \<and> db_nodes db' = map (\<lambda>n. if n_ID n = nid then f n else n) (db_nodes db) \<and>
       address_keys db' = address_keys db \<and> keys_kept db db' \<and> node_ids db' = node_ids db)"
proof (rule succeeds_exec)
  have "schema_ok (update_node nid f db)" using assms by (intro update_node_ok) auto
  then show "constraints_ok (update_node nid f db)" by (simp add: schema_ok_def)
  show "schema_ok (update_node nid f db) \<and> db_nodes (update_node nid f db) = map (\<lambda>n. if n_ID n = nid then f n else n) (db_nodes db) \<and>
      address_keys (update_node nid f db) = address_keys db \<and> keys_kept db (update_node nid f db) \<and>
      node_ids (update_node nid f db) = node_ids db" if "schema_ok (update_node nid f db)"
    using that keys_kept_update [of f db nid, OF assms(2,3)] assms(2)
    by (simp add: update_node_def address_keys_def node_ids_def)
qed

lemma sql_merge_source_valid: "valid_source old \<Longrightarrow> valid_source (sql_merge_source new old)"
  by (auto simp: sql_merge_source_def valid_source_def)

lemma get_node_spec:
  assumes "distinct (node_ids db)" "n \<in> set (db_nodes db)" "n_ID n = nid"
  shows "getNodeByID nid db = Ok n"
proof -
  have "List.find (\<lambda>n. n_ID n = nid) (db_nodes db) = Some n'" if "n' \<in> set (db_nodes db)" "n_ID n' = nid" for n'
  proof (cases "List.find (\<lambda>n. n_ID n = nid) (db_nodes db)")
    case None
    then show ?thesis using that by (simp add: find_None_all)
  next
    case (Some m)
    then have "m \<in> set (db_nodes db)" "n_ID m = nid" using find_Some_set by fastforce+
    then show ?thesis using Some that assms(1) distinct_key_unique [of n_ID "db_nodes db" m n'] by (simp add: node_ids_def)
  qed
  then show ?thesis using assms by (simp add: getNodeByID_def)
qed

lemma address_update_recorded:
  assumes "addresses_recorded db" "address_keys db \<subseteq> address_keys db'"
    "\<And>n'. n' \<in> set (db_nodes db') \<Longrightarrow> (n_ID n', n_Address n') \<in> address_keys db' \<or> n_Address n' = [] \<or>
       (\<exists>n\<in>set (db_nodes db). n_ID n = n_ID n' \<and> n_Address n = n_Address n')"
  shows "addresses_recorded db'"
  unfolding addresses_recorded_def
proof
  fix n' assume "n' \<in> set (db_nodes db')"
  from assms(3) [OF this] assms(1,2) show "n_Address n' = [] \<or> (n_ID n', n_Address n') \<in> address_keys db'"
    unfolding addresses_recorded_def by (metis subsetD)
qed

lemma keys_kept_append: "db_nodes db' = db_nodes db @ ns \<Longrightarrow> keys_kept db db'"
  by (auto simp: keys_kept_def)

lemma succeeds_get_node:
  assumes "schema_ok db" "nid \<in> set (node_ids db)"
    "\<And>n. n \<in> set (db_nodes db) \<Longrightarrow> n_ID n = nid \<Longrightarrow> getNodeByID nid db = Ok n \<Longrightarrow> Q db n"
  shows "succeeds (get_node_op nid db) Q"
proof -
  obtain n where n: "n \<in> set (db_nodes db)" "n_ID n = nid" using assms(2) by (auto simp: node_ids_def)
  with get_node_spec [OF schema_facts(1) [OF assms(1)] n] show ?thesis
    using assms(3) by (simp add: get_node_op_def)
qed

text \<open>What an upsert of an address leaves behind.\<close>

definition upserted :: "DB \<Rightarrow> string \<Rightarrow> DB \<Rightarrow> Node \<Rightarrow> bool" where
  "upserted db a db' n \<longleftrightarrow> store_ok db' \<and> n \<in> set (db_nodes db') \<and> getNodeByID (n_ID n) db' = Ok n \<and>
     (n_ID n, a) \<in> address_keys db' \<and> keys_kept db db'"

lemma id_by_address_known:
  assumes "schema_ok db" "id_by_address a db = Some nid"
  shows "nid \<in> set (node_ids db)"
proof (cases "List.find (\<lambda>r. na_Address r = a) (db_node_addresses db)")
  case None
  then show ?thesis using assms(2) find_Some_set by (fastforce simp: id_by_address_def node_ids_def split: option.splits)
next
  case (Some r)
  then have "r \<in> set (db_node_addresses db)" using find_Some_set by fastforce
  then show ?thesis using assms Some schema_facts(4) [OF assms(1)]
    by (auto simp: id_by_address_def addresses_ok_def list_all_iff)
qed

lemma discovered_body:
  assumes ok: "store_ok db" and src: "valid_source src"
  shows "succeeds ((case id_by_address a db of
                 None \<Rightarrow> insert_returning now a [] src tags label
               | Some nodeID \<Rightarrow>
                   bindE (exec (update_node nodeID (\<lambda>n. n\<lparr>
                       n_DiscoverySource := sql_merge_source src (n_DiscoverySource n),
                       n_Tags := merge_tags (n_Tags n) tags,
                       n_Label := (case label of Some l \<Rightarrow> Some l | None \<Rightarrow> n_Label n),
                       n_LastSeen := now\<rparr>))) (\<lambda>_. returnE nodeID)) db)
    (\<lambda>db' nid. schema_ok db' \<and> nid \<in> set (node_ids db') \<and> keys_kept db db' \<and> address_keys db' = address_keys db \<and>
       (\<forall>n'\<in>set (db_nodes db'). (n_ID n', n_Address n') = (nid, a) \<or> n_Address n' = [] \<or>
          (\<exists>n\<in>set (db_nodes db). n_ID n = n_ID n' \<and> n_Address n = n_Address n')) \<and>
       (case id_by_address a db of Some i \<Rightarrow> nid = i \<and> node_ids db' = node_ids db | None \<Rightarrow> nid \<notin> set (node_ids db)))"
proof (cases "id_by_address a db")
  case None
  show ?thesis unfolding None option.case
    by (rule succeeds_mono [OF insert_returning_spec])
      (use ok src in \<open>auto simp: store_ok_def node_ids_def keys_kept_append\<close>)
next
  case (Some i)
  have i: "i \<in> set (node_ids db)" using id_by_address_known Some ok by (auto simp: store_ok_def)
  show ?thesis unfolding Some option.case
    by (rule succeeds_bind, rule update_node_exec)
      (use ok i in \<open>auto simp: store_ok_def sql_merge_source_valid\<close>)
qed

lemma UpsertDiscovered_spec:
  assumes ok: "store_ok db" and a: "a \<noteq> []" and src: "valid_source src"
    and res: "pg_UpsertDiscoveredNode now a src tags label db = (db', r)"
  shows "(\<exists>n. r = Ok n \<and> upserted db a db' n \<and>
      (case id_by_address a db of Some i \<Rightarrow> n_ID n = i \<and> node_ids db' = node_ids db | None \<Rightarrow> n_ID n \<notin> set (node_ids db))) \<or>
    (r = Fail ErrPrimaryKey \<and> same_tables db db')"
proof -
  let ?body = "\<lambda>found. case found of
                 None \<Rightarrow> insert_returning now a [] src tags label
               | Some nodeID \<Rightarrow>
                   bindE (exec (update_node nodeID (\<lambda>n. n\<lparr>
                       n_DiscoverySource := sql_merge_source src (n_DiscoverySource n),
                       n_Tags := merge_tags (n_Tags n) tags,
                       n_Label := (case label of Some l \<Rightarrow> Some l | None \<Rightarrow> n_Label n),
                       n_LastSeen := now\<rparr>))) (\<lambda>_. returnE nodeID)"
  have src': "src \<noteq> []" using src by (auto simp: valid_source_def source_defs)
  have "succeeds (bindE (getE (id_by_address a)) (\<lambda>found. bindE (?body found) (\<lambda>nodeID.
      bindE (ensureNodeAddress now nodeID a) (\<lambda>_. get_node_op nodeID))) db)
    (\<lambda>db' n. upserted db a db' n \<and>
      (case id_by_address a db of Some i \<Rightarrow> n_ID n = i \<and> node_ids db' = node_ids db | None \<Rightarrow> n_ID n \<notin> set (node_ids db)))"
  proof (rule succeeds_get, rule succeeds_bind, rule discovered_body [OF ok src])
    fix d nid
    assume d: "schema_ok d \<and> nid \<in> set (node_ids d) \<and> keys_kept db d \<and> address_keys d = address_keys db \<and>
       (\<forall>n'\<in>set (db_nodes d). (n_ID n', n_Address n') = (nid, a) \<or> n_Address n' = [] \<or>
          (\<exists>n\<in>set (db_nodes db). n_ID n = n_ID n' \<and> n_Address n = n_Address n')) \<and>
       (case id_by_address a db of Some i \<Rightarrow> nid = i \<and> node_ids d = node_ids db | None \<Rightarrow> nid \<notin> set (node_ids db))"
    show "succeeds (bindE (ensureNodeAddress now nid a) (\<lambda>_. get_node_op nid) d) (\<lambda>db' n. upserted db a db' n \<and>
      (case id_by_address a db of Some i \<Rightarrow> n_ID n = i \<and> node_ids db' = node_ids db | None \<Rightarrow> n_ID n \<notin> set (node_ids db)))"
    proof (rule succeeds_bind, rule ensureNodeAddress_spec)
      fix d2 :: DB and u :: unit
      assume d2: "schema_ok d2 \<and> db_nodes d2 = db_nodes d \<and> address_keys d2 = insert (nid, a) (address_keys d)"
      have "addresses_recorded d2"
        by (rule address_update_recorded [of db]) (use ok d d2 in \<open>auto simp: store_ok_def\<close>)
      moreover have "keys_kept db d2" using d d2 keys_kept_trans keys_kept_refl by blast
      ultimately show "succeeds (get_node_op nid d2) (\<lambda>db' n. upserted db a db' n \<and>
        (case id_by_address a db of Some i \<Rightarrow> n_ID n = i \<and> node_ids db' = node_ids db | None \<Rightarrow> n_ID n \<notin> set (node_ids db)))"
        using d d2 by (intro succeeds_get_node)
          (auto simp: upserted_def store_ok_def node_ids_def split: option.splits)
    qed (use d in auto)
  qed
  note body = this
  have "in_tx (bindE (getE (id_by_address a)) (\<lambda>found. bindE (?body found) (\<lambda>nodeID.
      bindE (ensureNodeAddress now nodeID a) (\<lambda>_. get_node_op nodeID)))) db = (db', r)"
    using res a src' by (simp add: pg_UpsertDiscoveredNode_def)
  from succeeds_tx [OF this body] show ?thesis by blast
qed

section \<open>Confirming a node\<close>

text \<open>Confirmed nodes keep their row and key; placeholders may be promoted or merged away.\<close>

definition confirmed_kept :: "DB \<Rightarrow> DB \<Rightarrow> bool" where
  "confirmed_kept db db' \<longleftrightarrow>
     (\<forall>n\<in>set (db_nodes db). n_PublicKey n \<noteq> [] \<longrightarrow>
        (\<exists>n'\<in>set (db_nodes db'). n_ID n' = n_ID n \<and> n_PublicKey n' = n_PublicKey n) \<and>
        (\<forall>a. (n_ID n, a) \<in> address_keys db \<longrightarrow> (n_ID n, a) \<in> address_keys db'))"

definition confirmed_as :: "DB \<Rightarrow> string \<Rightarrow> bytes \<Rightarrow> DB \<Rightarrow> uuid \<Rightarrow> bool" where
  "confirmed_as db a pk db' nid \<longleftrightarrow> store_ok db' \<and> (nid, a) \<in> address_keys db' \<and> confirmed_kept db db' \<and>
     (\<exists>n\<in>set (db_nodes db'). n_ID n = nid \<and> n_PublicKey n = pk)"

lemma keys_kept_confirmed: "keys_kept db db' \<Longrightarrow> address_keys db \<subseteq> address_keys db' \<Longrightarrow> confirmed_kept db db'"
  by (auto simp: keys_kept_def confirmed_kept_def)

lemma node_by_pubkey_Some: "node_by_pubkey pk db = Some n \<Longrightarrow> n \<in> set (db_nodes db) \<and> n_PublicKey n = pk"
  unfolding node_by_pubkey_def by (drule find_Some_set) simp

lemma node_by_pubkey_None: "node_by_pubkey pk db = None \<Longrightarrow> pk \<notin> n_PublicKey ` set (db_nodes db)"
  by (auto simp: node_by_pubkey_def find_None_all)

lemma node_by_address_Some:
  assumes ok: "store_ok db" and a: "a \<noteq> []" and n: "node_by_address a db = Some n"
  shows "n \<in> set (db_nodes db)" "(n_ID n, a) \<in> address_keys db"
proof -
  let ?join = "concat (map (\<lambda>r. filter (\<lambda>n. n_ID n = na_NodeID r) (db_nodes db))
                    (filter (\<lambda>r. na_Address r = a) (db_node_addresses db)))"
  have *: "n \<in> set (db_nodes db) \<and> (n_ID n, a) \<in> address_keys db"
  proof (cases ?join)
    case Nil
    with n have f: "List.find (\<lambda>n. n_Address n = a) (db_nodes db) = Some n"
      unfolding node_by_address_def by (simp only: Nil list.case)
    then have "n \<in> set (db_nodes db)" "n_Address n = a" using find_Some_set [OF f] by auto
    then show ?thesis using ok a by (auto simp: store_ok_def addresses_recorded_def)
  next
    case (Cons m ms)
    with n have "n = m" unfolding node_by_address_def by (simp only: Cons list.case option.inject)
    then have "n \<in> set ?join" by (simp only: Cons list.set_intros)
    then show ?thesis by (auto simp: address_keys_def)
  qed
  then show "n \<in> set (db_nodes db)" "(n_ID n, a) \<in> address_keys db" by auto
qed

lemma attach_spec:
  assumes ok: "store_ok db" and n: "n \<in> set (db_nodes db)" "n_PublicKey n = pk"
  shows "succeeds (bindE (ensureNodeAddress now (n_ID n) a) (\<lambda>_.
     bindE (bumpNodeSeen now (n_ID n) src) (\<lambda>_. returnE (n_ID n))) db)
    (\<lambda>db' nid. nid = n_ID n \<and> confirmed_as db a pk db' nid)"
proof (rule succeeds_bind, rule ensureNodeAddress_spec)
  fix d :: DB and u :: unit
  assume d: "schema_ok d \<and> db_nodes d = db_nodes db \<and> address_keys d = insert (n_ID n, a) (address_keys db)"
  show "succeeds (bindE (bumpNodeSeen now (n_ID n) src) (\<lambda>_. returnE (n_ID n)) d)
    (\<lambda>db' nid. nid = n_ID n \<and> confirmed_as db a pk db' nid)"
    unfolding bumpNodeSeen_def
  proof (rule succeeds_bind, rule update_node_exec)
    fix d2 :: DB and u :: unit
    assume d2: "schema_ok d2 \<and> db_nodes d2 = map (\<lambda>m. if n_ID m = n_ID n then m\<lparr>n_DiscoverySource :=
        sql_merge_source src (n_DiscoverySource m), n_LastSeen := now\<rparr> else m) (db_nodes d) \<and>
      address_keys d2 = address_keys d \<and> keys_kept d d2 \<and> node_ids d2 = node_ids d"
    have "addresses_recorded d2"
      by (rule address_update_recorded [of db]) (use ok d d2 in \<open>auto simp: store_ok_def\<close>)
    moreover have kk: "keys_kept db d2" using d d2 keys_kept_trans keys_kept_refl by blast
    moreover obtain n' where "n' \<in> set (db_nodes d2)" "n_ID n' = n_ID n" "n_PublicKey n' = pk"
      using kk n unfolding keys_kept_def by blast
    ultimately show "succeeds (returnE (n_ID n) d2) (\<lambda>db' nid. nid = n_ID n \<and> confirmed_as db a pk db' nid)"
      using d d2 keys_kept_confirmed [OF kk] by (auto simp: confirmed_as_def store_ok_def)
  qed (use d in \<open>auto simp: sql_merge_source_valid\<close>)
qed (use ok n in \<open>auto simp: store_ok_def node_ids_def\<close>)

lemma merge_spec:
  assumes ok: "store_ok db" and c: "c \<in> set (db_nodes db)" "n_PublicKey c = pk" "pk \<noteq> []"
    and p: "p \<in> set (db_nodes db)" "n_PublicKey p = []" "(n_ID p, a) \<in> address_keys db" and ne: "n_ID p \<noteq> n_ID c"
  shows "succeeds (bindE (mergeNodeInto now (n_ID p) (n_ID c)) (\<lambda>_. returnE (n_ID c)) db)
    (\<lambda>db' nid. nid = n_ID c \<and> confirmed_as db a pk db' nid)"
proof -
  have "schema_ok db" "n_ID c \<in> set (node_ids db)" using ok c by (auto simp: store_ok_def node_ids_def)
  from merge_correct [OF this(1) ne this(2)] obtain db' where
    m: "mergeNodeInto now (n_ID p) (n_ID c) db = (db', Ok ())" "merged now (n_ID p) (n_ID c) db db'" by blast
  have kept: "\<exists>n'\<in>set (db_nodes db'). n_ID n' = n_ID n \<and> n_PublicKey n' = n_PublicKey n"
    if n: "n \<in> set (db_nodes db)" "n_ID n \<noteq> n_ID p" for n
  proof -
    have "(if n_ID n = n_ID c then n\<lparr>n_LastSeen := now\<rparr> else n) \<in> set (db_nodes db')"
      using m(2) n by (auto simp: merged_def)
    then show ?thesis by (intro bexI) auto
  qed
  have pid: "n_ID n \<noteq> n_ID p" if "n \<in> set (db_nodes db)" "n_PublicKey n \<noteq> []" for n
    using that p distinct_key_unique [of n_ID "db_nodes db" n p] schema_facts(1) [of db] ok
    by (auto simp: store_ok_def node_ids_def)
  have "addresses_recorded db'"
    unfolding addresses_recorded_def
  proof
    fix n' assume "n' \<in> set (db_nodes db')"
    then obtain n where n: "n \<in> set (db_nodes db)" "n_ID n \<noteq> n_ID p" "n_ID n' = n_ID n" "n_Address n' = n_Address n"
      using m(2) by (auto simp: merged_def)
    then have "n_Address n = [] \<or> (n_ID n, n_Address n) \<in> address_keys db"
      using ok by (auto simp: store_ok_def addresses_recorded_def)
    then show "n_Address n' = [] \<or> (n_ID n', n_Address n') \<in> address_keys db'"
      using n m(2) by (force simp: merged_def repointed_def)
  qed
  moreover have "(n_ID c, a) \<in> address_keys db'"
    using m(2) p(3) by (force simp: merged_def repointed_def)
  moreover have "confirmed_kept db db'"
    unfolding confirmed_kept_def
  proof (intro ballI impI conjI allI)
    fix n assume n: "n \<in> set (db_nodes db)" "n_PublicKey n \<noteq> []"
    show "\<exists>n'\<in>set (db_nodes db'). n_ID n' = n_ID n \<and> n_PublicKey n' = n_PublicKey n"
      using kept pid n by blast
    show "(n_ID n, b) \<in> address_keys db'" if "(n_ID n, b) \<in> address_keys db" for b
      using that pid [OF n] m(2) by (force simp: merged_def repointed_def)
  qed
  moreover have "\<exists>n\<in>set (db_nodes db'). n_ID n = n_ID c \<and> n_PublicKey n = pk"
    using kept [OF c(1)] ne c(2) by auto
  ultimately have "confirmed_as db a pk db' (n_ID c)"
    using m(2) by (simp add: confirmed_as_def store_ok_def merged_def)
  then show ?thesis using m(1) by (simp add: bindE_def)
qed

lemma promote_ok:
  assumes ok: "schema_ok db" and pk: "pk \<notin> n_PublicKey ` set (db_nodes db)"
    and n: "n \<in> set (db_nodes db)" "n_PublicKey n = []"
    and f: "\<And>m. n_ID (f m) = n_ID m" "\<And>m. n_PublicKey (f m) = pk" "\<And>m. n_WalletHTTPPort (f m) = n_WalletHTTPPort m"
      "\<And>m. valid_source (n_DiscoverySource m) \<Longrightarrow> valid_source (n_DiscoverySource (f m))"
  shows "schema_ok (update_node (n_ID n) f db)"
  unfolding update_node_def
proof (rule schema_put_nodes [OF ok])
  let ?g = "\<lambda>m. if n_ID m = n_ID n then f m else m"
  show "map n_ID (map ?g (db_nodes db)) = node_ids db" by (simp add: node_ids_def f)
  have uniq: "m = n" if "m \<in> set (db_nodes db)" "n_ID m = n_ID n" for m
    using that n distinct_key_unique [of n_ID "db_nodes db" m n] schema_facts(1) [OF ok] by (simp add: node_ids_def)
  have nok: "nodes_ok (db_nodes db)" using schema_facts(2) [OF ok] .
  have dn: "distinct (db_nodes db)"
    using schema_facts(1) [OF ok] by (simp add: node_ids_def distinct_map)
  have "distinct (map n_PublicKey (filter (\<lambda>m. n_PublicKey m \<noteq> []) (map ?g xs)))"
    if "distinct xs" "set xs \<subseteq> set (db_nodes db)" "distinct (map n_PublicKey (filter (\<lambda>m. n_PublicKey m \<noteq> []) xs))" for xs
    using that
  proof (induction xs)
    case (Cons x xs)
    then have IH: "distinct (map n_PublicKey (filter (\<lambda>m. n_PublicKey m \<noteq> []) (map ?g xs)))"
      by (auto split: if_splits)
    show ?case
    proof (cases "x = n")
      case True
      then have "\<forall>y\<in>set xs. ?g y = y" using Cons.prems uniq by auto
      then have "map ?g xs = xs" by (simp add: map_idI)
      then show ?thesis using IH True pk Cons.prems by (auto simp: f)
    next
      case False
      then have gx: "?g x = x" using Cons.prems uniq by auto
      have "n_PublicKey x \<notin> n_PublicKey ` set (filter (\<lambda>m. n_PublicKey m \<noteq> []) (map ?g xs))" if "n_PublicKey x \<noteq> []"
        using that Cons.prems pk by (auto simp: f split: if_splits)
      then show ?thesis using IH gx by auto
    qed
  qed simp
  from this [OF dn subset_refl] nok show "nodes_ok (map ?g (db_nodes db))"
    by (auto simp: nodes_ok_def list_all_iff f)
qed

lemma promote_spec:
  assumes ok: "store_ok db" and pk: "pk \<notin> n_PublicKey ` set (db_nodes db)"
    and n: "n \<in> set (db_nodes db)" "n_PublicKey n = []"
  shows "succeeds (bindE (exec (update_node (n_ID n) (\<lambda>m. m\<lparr>n_PublicKey := pk,
       n_DiscoverySource := sql_merge_source src (n_DiscoverySource m), n_LastSeen := now\<rparr>))) (\<lambda>_.
     bindE (ensureNodeAddress now (n_ID n) a) (\<lambda>_. returnE (n_ID n))) db)
    (\<lambda>db' nid. nid = n_ID n \<and> confirmed_as db a pk db' nid)"
proof -
  define f where "f = (\<lambda>m. m\<lparr>n_PublicKey := pk,
       n_DiscoverySource := sql_merge_source src (n_DiscoverySource m), n_LastSeen := now\<rparr> :: Node)"
  define d where "d = update_node (n_ID n) f db"
  have sd: "schema_ok d"
    unfolding d_def by (rule promote_ok [OF _ pk n]) (use ok in \<open>auto simp: f_def store_ok_def sql_merge_source_valid\<close>)
  have nodes: "db_nodes d = map (\<lambda>m. if n_ID m = n_ID n then f m else m) (db_nodes db)" "address_keys d = address_keys db"
    by (simp_all add: d_def update_node_def address_keys_def)
  have fn: "f n \<in> set (db_nodes d)" using n by (auto simp: nodes)
  have kept: "confirmed_kept db d"
    unfolding confirmed_kept_def
  proof (intro ballI impI conjI allI)
    fix m assume m: "m \<in> set (db_nodes db)" "n_PublicKey m \<noteq> []"
    show "(n_ID m, b) \<in> address_keys d" if "(n_ID m, b) \<in> address_keys db" for b
      using that by (simp add: nodes)
    from m have "m \<noteq> n" using n by auto
    then have "n_ID m \<noteq> n_ID n"
      using m n distinct_key_unique [of n_ID "db_nodes db" m n] schema_facts(1) [of db] ok
      by (auto simp: store_ok_def node_ids_def)
    then show "\<exists>n'\<in>set (db_nodes d). n_ID n' = n_ID m \<and> n_PublicKey n' = n_PublicKey m"
      using m by (intro bexI [of _ m]) (auto simp: nodes)
  qed
  have "succeeds (bindE (ensureNodeAddress now (n_ID n) a) (\<lambda>_. returnE (n_ID n)) d)
    (\<lambda>db' nid. nid = n_ID n \<and> confirmed_as db a pk db' nid)"
  proof (rule succeeds_bind, rule ensureNodeAddress_spec [OF sd])
    show "n_ID n \<in> set (node_ids d)" using n by (auto simp: node_ids_def d_def update_node_def f_def)
    fix d2 :: DB and u :: unit
    assume d2: "schema_ok d2 \<and> db_nodes d2 = db_nodes d \<and> address_keys d2 = insert (n_ID n, a) (address_keys d)"
    have "addresses_recorded d2"
      by (rule address_update_recorded [of db])
        (use ok nodes d2 in \<open>auto simp: store_ok_def f_def split: if_splits\<close>)
    moreover have "\<exists>m\<in>set (db_nodes d2). n_ID m = n_ID n \<and> n_PublicKey m = pk"
      using fn d2 by (intro bexI [of _ "f n"]) (auto simp: f_def)
    ultimately show "succeeds (returnE (n_ID n) d2) (\<lambda>db' nid. nid = n_ID n \<and> confirmed_as db a pk db' nid)"
      using d2 kept by (auto simp: confirmed_as_def store_ok_def confirmed_kept_def)
  qed
  with exec_Ok [of "update_node (n_ID n) f" db] sd show ?thesis
    by (simp add: bindE_def [of "exec _"] f_def d_def)
qed

lemma insertConfirmed_spec:
  assumes ok: "store_ok db" and pk: "pk \<notin> n_PublicKey ` set (db_nodes db)" and src: "valid_source src"
  shows "succeeds (insertConfirmedNode now a pk src db)
    (\<lambda>db' nid. nid \<notin> set (node_ids db) \<and> confirmed_as db a pk db' nid)"
  unfolding insertConfirmedNode_def
proof (rule succeeds_bind, rule insert_returning_spec)
  fix d nid
  assume d: "schema_ok d \<and> nid \<notin> set (node_ids db) \<and> address_keys d = address_keys db \<and>
    (\<exists>n. db_nodes d = db_nodes db @ [n] \<and> n_ID n = nid \<and> n_Address n = a \<and> n_PublicKey n = pk \<and> n_DiscoverySource n = src)"
  show "succeeds (bindE (ensureNodeAddress now nid a) (\<lambda>_. returnE nid) d)
    (\<lambda>db' nid. nid \<notin> set (node_ids db) \<and> confirmed_as db a pk db' nid)"
  proof (rule succeeds_bind, rule ensureNodeAddress_spec)
    fix d2 :: DB and u :: unit
    assume d2: "schema_ok d2 \<and> db_nodes d2 = db_nodes d \<and> address_keys d2 = insert (nid, a) (address_keys d)"
    have "addresses_recorded d2"
      by (rule address_update_recorded [of db]) (use ok d d2 in \<open>auto simp: store_ok_def\<close>)
    moreover have "confirmed_kept db d2" using d d2 by (auto simp: confirmed_kept_def)
    ultimately show "succeeds (returnE nid d2) (\<lambda>db' nid. nid \<notin> set (node_ids db) \<and> confirmed_as db a pk db' nid)"
      using d d2 by (auto simp: confirmed_as_def store_ok_def)
  qed (use d in \<open>auto simp: node_ids_def\<close>)
qed (use ok pk src in \<open>auto simp: store_ok_def\<close>)

lemma UpsertConfirmed_spec:
  assumes ok: "store_ok db" and a: "a \<noteq> []" and pk: "pk \<noteq> []" and src: "valid_source src"
    and res: "pg_UpsertConfirmedNode now a pk src db = (db', r)"
  shows "(\<exists>n. r = Ok n \<and> confirmed_as db a pk db' (n_ID n) \<and> n \<in> set (db_nodes db') \<and> n_PublicKey n = pk \<and>
        getNodeByID (n_ID n) db' = Ok n \<and> (\<forall>m. node_by_pubkey pk db = Some m \<longrightarrow> n_ID n = n_ID m)) \<or>
    (r = Fail ErrPrimaryKey \<and> same_tables db db')"
proof -
  define attach where "attach byPubkey =
       bindE (ensureNodeAddress now (n_ID byPubkey) a) (\<lambda>_. bindE (bumpNodeSeen now (n_ID byPubkey) src) (\<lambda>_.
       returnE (n_ID byPubkey)))" for byPubkey :: Node
  define promote where "promote byAddr =
       bindE (exec (update_node (n_ID byAddr) (\<lambda>n. n\<lparr>n_PublicKey := pk,
         n_DiscoverySource := sql_merge_source src (n_DiscoverySource n), n_LastSeen := now\<rparr>))) (\<lambda>_.
       bindE (ensureNodeAddress now (n_ID byAddr) a) (\<lambda>_. returnE (n_ID byAddr)))" for byAddr :: Node
  define body where "body = (\<lambda>found :: Node option \<times> Node option. case found of
       (Some byPubkey, None) \<Rightarrow> attach byPubkey
     | (Some byPubkey, Some byAddr) \<Rightarrow>
         if n_ID byAddr = n_ID byPubkey then attach byPubkey
         else if n_PublicKey byAddr = [] then
           bindE (mergeNodeInto now (n_ID byAddr) (n_ID byPubkey)) (\<lambda>_. returnE (n_ID byPubkey))
         else attach byPubkey
     | (None, Some byAddr) \<Rightarrow> if n_PublicKey byAddr = [] then promote byAddr else insertConfirmedNode now a pk src
     | (None, None) \<Rightarrow> insertConfirmedNode now a pk src)"
  let ?found = "(node_by_pubkey pk db, node_by_address a db)"
  let ?Q = "\<lambda>db' nid. confirmed_as db a pk db' nid \<and> (\<forall>m. node_by_pubkey pk db = Some m \<longrightarrow> nid = n_ID m)"
  have body_ok: "succeeds (body ?found db) ?Q"
  proof (cases "node_by_pubkey pk db")
    case None
    note new = insertConfirmed_spec [OF ok node_by_pubkey_None [OF None] src, of now a]
    have ins: "succeeds (insertConfirmedNode now a pk src db) ?Q"
      by (rule succeeds_mono [OF new]) (auto simp: None)
    show ?thesis
    proof (cases "node_by_address a db")
      case (Some n)
      note m = node_by_address_Some [OF ok a Some]
      show ?thesis
      proof (cases "n_PublicKey n = []")
        case True
        have "succeeds (promote n db) ?Q"
          unfolding promote_def
          by (rule succeeds_mono [OF promote_spec [OF ok node_by_pubkey_None [OF None] m(1) True]]) (auto simp: None)
        then show ?thesis using True Some None by (simp add: body_def)
      qed (use ins None Some in \<open>simp add: body_def\<close>)
    qed (use ins None in \<open>simp add: body_def\<close>)
  next
    case (Some c)
    note c = node_by_pubkey_Some [OF Some]
    have at: "succeeds (attach c db) ?Q"
      unfolding attach_def
      by (rule succeeds_mono [OF attach_spec [OF ok c [THEN conjunct1] c [THEN conjunct2]]]) (auto simp: Some)
    show ?thesis
    proof (cases "node_by_address a db")
      case (Some p)
      note m = node_by_address_Some [OF ok a Some]
      show ?thesis
      proof (cases "n_ID p \<noteq> n_ID c \<and> n_PublicKey p = []")
        case True
        have "succeeds (bindE (mergeNodeInto now (n_ID p) (n_ID c)) (\<lambda>_. returnE (n_ID c)) db) ?Q"
          by (rule succeeds_mono [OF merge_spec [OF ok c [THEN conjunct1] c [THEN conjunct2] pk m(1) _ m(2)]])
            (use True \<open>node_by_pubkey pk db = Some c\<close> in auto)
        then show ?thesis using True Some \<open>node_by_pubkey pk db = Some c\<close> by (simp add: body_def)
      qed (use at Some \<open>node_by_pubkey pk db = Some c\<close> in \<open>auto simp: body_def\<close>)
    qed (use at Some in \<open>simp add: body_def\<close>)
  qed
  have all: "succeeds (bindE (getE (\<lambda>db. (node_by_pubkey pk db, node_by_address a db))) (\<lambda>found.
      bindE (body found) get_node_op) db)
    (\<lambda>db' n. confirmed_as db a pk db' (n_ID n) \<and> n \<in> set (db_nodes db') \<and> n_PublicKey n = pk \<and>
        getNodeByID (n_ID n) db' = Ok n \<and> (\<forall>m. node_by_pubkey pk db = Some m \<longrightarrow> n_ID n = n_ID m))"
  proof (rule succeeds_get, rule succeeds_bind, rule body_ok)
    fix d nid assume d: "?Q d nid"
    then obtain n where n: "n \<in> set (db_nodes d)" "n_ID n = nid" "n_PublicKey n = pk" "schema_ok d"
      by (auto simp: confirmed_as_def store_ok_def)
    then have "getNodeByID nid d = Ok n" by (intro get_node_spec schema_facts(1)) auto
    with n d show "succeeds (get_node_op nid d) (\<lambda>db' n. confirmed_as db a pk db' (n_ID n) \<and> n \<in> set (db_nodes db') \<and>
        n_PublicKey n = pk \<and> getNodeByID (n_ID n) db' = Ok n \<and> (\<forall>m. node_by_pubkey pk db = Some m \<longrightarrow> n_ID n = n_ID m))"
      by (simp add: get_node_op_def)
  qed
  have "src \<noteq> []" using src by (auto simp: valid_source_def source_defs)
  then have "in_tx (bindE (getE (\<lambda>db. (node_by_pubkey pk db, node_by_address a db))) (\<lambda>found.
      bindE (body found) get_node_op)) db = (db', r)"
    using res a pk unfolding pg_UpsertConfirmedNode_def body_def attach_def promote_def by (simp only: if_False)
  from succeeds_tx [OF this all] show ?thesis by blast
qed

text \<open>
  C27: recording a discovered address.  On a well-formed database and with a valid
  discovery source, the upsert succeeds unless a random identifier collides, in which case no
  table changes.  On success the database is well-formed again, the returned node is what
  a later lookup of its identifier returns, the address resolves to it, it is the node the
  address already resolved to if there was one (then no node is added), and no node
  anywhere loses or changes its public key.
\<close>

theorem pg_UpsertDiscoveredNode_correct:
  assumes "store_ok db" "a \<noteq> []" "valid_source src"
    "pg_UpsertDiscoveredNode now a src tags label db = (db', r)"
  shows "store_ok db' \<and>
    ((\<exists>n. r = Ok n \<and> getNodeByID (n_ID n) db' = Ok n \<and> (n_ID n, a) \<in> address_keys db' \<and> keys_kept db db' \<and>
       (\<forall>i. id_by_address a db = Some i \<longrightarrow> n_ID n = i \<and> node_ids db' = node_ids db)) \<or>
     (r = Fail ErrPrimaryKey \<and> same_tables db db'))"
proof -
  have "store_ok db'" if "same_tables db db'"
    using assms(1) that schema_ok_same [OF that]
    by (simp add: store_ok_def addresses_recorded_def address_keys_def same_tables_fields [OF that])
  with UpsertDiscovered_spec [OF assms] show ?thesis
    by (auto simp: upserted_def split: option.splits)
qed

lemma example_store_ok: "store_ok example_db"
  using example_db_ok by (simp add: store_ok_def addresses_recorded_def address_keys_def example_db_defs)

theorem pg_UpsertDiscoveredNode_correct_witness:
  "\<exists>db' r. pg_UpsertDiscoveredNode 5 ''p:1'' DiscoverySourceRegistry [] None example_db = (db', r) \<and> store_ok db'"
proof -
  obtain db' r where u: "pg_UpsertDiscoveredNode 5 ''p:1'' DiscoverySourceRegistry [] None example_db = (db', r)"
    by (metis surj_pair)
  with pg_UpsertDiscoveredNode_correct [OF example_store_ok _ _ u] show ?thesis by (auto simp: valid_source_def)
qed

text \<open>
  C1: confirming a node.  On a well-formed database and with valid arguments the
  upsert succeeds unless a random identifier collides, in which case no table changes; in
  particular the merge it may perform never violates a constraint.  On success the
  database is well-formed, the returned node carries the confirmed key, is the only node
  with it, is found by its identifier and holds the address; a node that already had the
  key keeps its identifier, and every confirmed node keeps its identifier, its key and the
  addresses it holds.
\<close>

theorem pg_UpsertConfirmedNode_correct:
  assumes "store_ok db" "a \<noteq> []" "pk \<noteq> []" "valid_source src"
    "pg_UpsertConfirmedNode now a pk src db = (db', r)"
  shows "store_ok db' \<and>
    ((\<exists>n. r = Ok n \<and> n_PublicKey n = pk \<and> getNodeByID (n_ID n) db' = Ok n \<and> (n_ID n, a) \<in> address_keys db' \<and>
       (\<forall>m\<in>set (db_nodes db'). n_PublicKey m = pk \<longrightarrow> m = n) \<and>
       (\<forall>m\<in>set (db_nodes db). n_PublicKey m = pk \<longrightarrow> n_ID m = n_ID n) \<and> confirmed_kept db db') \<or>
     (r = Fail ErrPrimaryKey \<and> same_tables db db'))"
proof -
  have uniq: "m = n" if "schema_ok d" "m \<in> set (db_nodes d)" "n \<in> set (db_nodes d)" "n_PublicKey m = pk" "n_PublicKey n = pk" for d m n
    using schema_facts(2) [OF that(1)] that assms(3)
      distinct_key_unique [of n_PublicKey "filter (\<lambda>n. n_PublicKey n \<noteq> []) (db_nodes d)" m n]
    by (auto simp: nodes_ok_def)
  have same: "store_ok db'" if "same_tables db db'"
    using assms(1) that schema_ok_same [OF that]
    by (simp add: store_ok_def addresses_recorded_def address_keys_def same_tables_fields [OF that])
  from UpsertConfirmed_spec [OF assms] show ?thesis
  proof
    assume "\<exists>n. r = Ok n \<and> confirmed_as db a pk db' (n_ID n) \<and> n \<in> set (db_nodes db') \<and> n_PublicKey n = pk \<and>
        getNodeByID (n_ID n) db' = Ok n \<and> (\<forall>m. node_by_pubkey pk db = Some m \<longrightarrow> n_ID n = n_ID m)"
    then obtain n where n: "r = Ok n" "confirmed_as db a pk db' (n_ID n)" "n \<in> set (db_nodes db')" "n_PublicKey n = pk"
        "getNodeByID (n_ID n) db' = Ok n" "\<forall>m. node_by_pubkey pk db = Some m \<longrightarrow> n_ID n = n_ID m" by blast
    have ok': "store_ok db'" using n(2) by (simp add: confirmed_as_def)
    have "n_ID m = n_ID n" if m: "m \<in> set (db_nodes db)" "n_PublicKey m = pk" for m
    proof -
      obtain m' where m': "node_by_pubkey pk db = Some m'"
        using m node_by_pubkey_None [of pk db] by (cases "node_by_pubkey pk db") auto
      with node_by_pubkey_Some [OF m'] m uniq [of db m m'] assms(1) n(6) show ?thesis by (auto simp: store_ok_def)
    qed
    moreover have "m = n" if "m \<in> set (db_nodes db')" "n_PublicKey m = pk" for m
      using uniq [of db' m n] that n ok' by (simp add: store_ok_def)
    moreover have "(n_ID n, a) \<in> address_keys db'" "confirmed_kept db db'" using n(2) by (auto simp: confirmed_as_def)
    ultimately show ?thesis using n ok' by blast
  next
    assume "r = Fail ErrPrimaryKey \<and> same_tables db db'"
    then show ?thesis using same by blast
  qed
qed

theorem pg_UpsertConfirmedNode_correct_witness:
  "\<exists>db' r. pg_UpsertConfirmedNode 5 ''p:1'' [7] DiscoverySourceP2P example_db = (db', r) \<and> store_ok db'"
proof -
  obtain db' r where u: "pg_UpsertConfirmedNode 5 ''p:1'' [7] DiscoverySourceP2P example_db = (db', r)"
    by (metis surj_pair)
  with pg_UpsertConfirmedNode_correct [OF example_store_ok _ _ _ u] show ?thesis by (auto simp: valid_source_def)
qed

text \<open>
  What a merge keeps of the placeholder's own row.  Nothing: after merging \<open>p\<close> into
  \<open>c\<close>, the surviving row is the confirmed node's row with \<^verbatim>\<open>last_seen\<close> bumped, so the
  placeholder's tags, label, wallet port and discovery source (a registration included)
  are gone, and its identifier is no longer found.
\<close>

theorem merge_keeps_confirmed_row:
  assumes "schema_ok db" "p \<in> set (db_nodes db)" "c \<in> set (db_nodes db)" "n_ID p \<noteq> n_ID c"
  shows "\<exists>db'. mergeNodeInto now (n_ID p) (n_ID c) db = (db', Ok ()) \<and>
    getNodeByID (n_ID c) db' = Ok (c\<lparr>n_LastSeen := now\<rparr>) \<and> getNodeByID (n_ID p) db' = Fail ErrNotFound"
proof -
  have "n_ID c \<in> set (node_ids db)" using assms(3) by (auto simp: node_ids_def)
  from merge_correct [OF assms(1,4) this] obtain db' where
    m: "mergeNodeInto now (n_ID p) (n_ID c) db = (db', Ok ())" "merged now (n_ID p) (n_ID c) db db'" by blast
  have nodes: "db_nodes db' = map (\<lambda>n. if n_ID n = n_ID c then n\<lparr>n_LastSeen := now\<rparr> else n)
      (filter (\<lambda>n. n_ID n \<noteq> n_ID p) (db_nodes db))" and ok': "schema_ok db'"
    using m(2) by (auto simp: merged_def)
  have "c\<lparr>n_LastSeen := now\<rparr> \<in> set (db_nodes db')" using assms(3,4) by (auto simp: nodes)
  then have "getNodeByID (n_ID c) db' = Ok (c\<lparr>n_LastSeen := now\<rparr>)"
    by (intro get_node_spec schema_facts(1) [OF ok']) simp_all
  moreover have "List.find (\<lambda>n. n_ID n = n_ID p) (db_nodes db') = None"
    using assms(4) by (auto simp: find_None_all nodes)
  ultimately show ?thesis using m(1) by (simp add: getNodeByID_def)
qed

theorem merge_keeps_confirmed_row_witness:
  "\<exists>db'. mergeNodeInto 5 1 2 example_db = (db', Ok ()) \<and> getNodeByID 1 db' = Fail ErrNotFound"
proof -
  have "example_node 1 ''p:1'' [] \<in> set (db_nodes example_db)" "example_node 2 ''c:1'' [7] \<in> set (db_nodes example_db)"
    by (simp_all add: example_db_def)
  from merge_keeps_confirmed_row [OF example_db_ok this, of 5] show ?thesis by (auto simp: example_node_def)
qed

end
