(* ===== verification/Pg_Observations.thy ===== *)
theory Pg_Observations
  imports Pg_Nodes
begin

text \<open>
  \<^verbatim>\<open>internal/storage/storage.go\<close>, observations and reads: health checks and peer edges
  with the idempotency key of a report batch, the retention loop, node histories, and the
  listing of nodes with its filter clauses in SQL's three-valued logic.  Text is ordered
  bytewise (the C collation).
\<close>

section \<open>Recording\<close>

definition health_row :: "time \<Rightarrow> uuid \<Rightarrow> HealthCheckInput \<Rightarrow> HealthRow" where
  "health_row now i inp = \<lparr>hc_ID = i, hc_NodeID = hci_NodeID inp, hc_Timestamp = now, hc_Reachable = hci_Reachable inp,
     hc_ProbeSource = hci_ProbeSource inp, hc_Height = hci_Height inp, hc_ChainTipHeight = hci_ChainTipHeight inp,
     hc_Version = hci_Version inp, hc_LatencyMS = hci_LatencyMS inp, hc_RxtHashrate = hci_RxtHashrate inp,
     hc_C29Hashrate = hci_C29Hashrate inp, hc_Sha3xHashrate = hci_Sha3xHashrate inp,
     hc_PeerIdentityUpdatedAt = hci_PeerIdentityUpdatedAt inp,
     hr_ReportedByCollector = hci_ReportedByCollector inp, hr_ReportBatchID = hci_ReportBatchID inp\<rparr>"

definition sql_insert_health :: "time \<Rightarrow> HealthCheckInput \<Rightarrow> DB \<Rightarrow> DB" where
  "sql_insert_health now inp db = (draw db)\<lparr>db_node_health := db_node_health db @ [health_row now (gen_random_uuid db) inp]\<rparr>"

definition pg_RecordHealthCheck :: "time \<Rightarrow> HealthCheckInput \<Rightarrow> (DB, unit) op" where
  "pg_RecordHealthCheck now inp =
     (if hci_ProbeSource inp = [] then throwE (Err ''probe_source is required'')
      else bindE (getE (\<lambda>db. case hci_ReportBatchID inp of
                 None \<Rightarrow> False
               | Some b \<Rightarrow> list_ex (\<lambda>h. hc_NodeID h = hci_NodeID inp \<and> hr_ReportBatchID h = Some b) (db_node_health db)))
        (\<lambda>exists. if exists then returnE () else exec (sql_insert_health now inp)))"

definition sql_insert_edge :: "time \<Rightarrow> uuid \<Rightarrow> uuid \<Rightarrow> string option \<Rightarrow> uuid option \<Rightarrow> DB \<Rightarrow> DB" where
  "sql_insert_edge now from to collectorName batchID db =
     (if batchID \<noteq> None \<and> list_ex (\<lambda>e. po_FromNodeID e = from \<and> po_ToNodeID e = to \<and> po_ReportBatchID e = batchID) (db_peer_edges db)
      then db
      else (draw db)\<lparr>db_peer_edges := db_peer_edges db @ [\<lparr>po_ID = gen_random_uuid db, po_FromNodeID = from,
             po_ToNodeID = to, po_ObservedAt = now, po_ReportedByCollector = collectorName, po_ReportBatchID = batchID\<rparr>]\<rparr>)"

definition pg_RecordPeerEdgeObservation ::
  "time \<Rightarrow> uuid \<Rightarrow> uuid \<Rightarrow> PeerEdgeReportMeta option \<Rightarrow> (DB, unit) op" where
  "pg_RecordPeerEdgeObservation now fromNodeID toNodeID meta =
     (let (collectorName, batchID) = (case meta of
            None \<Rightarrow> (None, None)
          | Some m \<Rightarrow> (if pm_ReportedByCollector m \<noteq> [] then Some (pm_ReportedByCollector m) else None, pm_ReportBatchID m))
      in exec (sql_insert_edge now fromNodeID toNodeID collectorName batchID))"

section \<open>Retention\<close>

text \<open>
  The loop of \<^verbatim>\<open>PruneOldPeerEdgeObservations\<close>: what it returns is the total deleted and the
  error.  A negative \<^verbatim>\<open>LIMIT\<close> is an error of the database.
\<close>

definition sql_prune_batch :: "time \<Rightarrow> nat \<Rightarrow> DB \<Rightarrow> DB" where
  "sql_prune_batch olderThan n db =
     (let ids = map po_ID (take n (filter (\<lambda>e. po_ObservedAt e < olderThan) (db_peer_edges db)))
      in db\<lparr>db_peer_edges := filter (\<lambda>e. po_ID e \<notin> set ids) (db_peer_edges db)\<rparr>)"

partial_function (option) prune_loop :: "time \<Rightarrow> int \<Rightarrow> nat \<Rightarrow> DB \<Rightarrow> (DB \<times> nat \<times> error option) option" where
  "prune_loop olderThan batchSize deletedTotal db =
     (if batchSize < 0 then Some (db, deletedTotal, Some (Err ''LIMIT must not be negative''))
      else let db' = sql_prune_batch olderThan (nat batchSize) db;
               deleted = length (db_peer_edges db) - length (db_peer_edges db');
               deletedTotal = deletedTotal + deleted
           in if int deleted < batchSize then Some (db', deletedTotal, None)
              else prune_loop olderThan batchSize deletedTotal db')"

definition PruneOldPeerEdgeObservations :: "time \<Rightarrow> int \<Rightarrow> DB \<Rightarrow> (DB \<times> nat \<times> error option) option" where
  "PruneOldPeerEdgeObservations olderThan batchSize db = prune_loop olderThan batchSize 0 db"

section \<open>Reads\<close>

definition coalesce :: "'a option \<Rightarrow> 'a \<Rightarrow> 'a" where
  "coalesce p d = (case p of Some x \<Rightarrow> x | None \<Rightarrow> d)"

text \<open>\<^verbatim>\<open>ORDER BY ts DESC LIMIT n\<close>.\<close>

definition newest :: "int \<Rightarrow> HealthRow list \<Rightarrow> HealthCheck list" where
  "newest limit rows = map HealthCheck.truncate (take (nat limit) (sort_key (\<lambda>h. - hc_Timestamp h) rows))"

definition default_limit :: "int \<Rightarrow> int" where
  "default_limit limit = (if limit \<le> 0 then 20 else limit)"

definition pg_GetNodeHistory :: "uuid \<Rightarrow> int \<Rightarrow> DB \<Rightarrow> HealthCheck list result" where
  "pg_GetNodeHistory nid limit db =
     Ok (newest (default_limit limit) (filter (\<lambda>h. hc_NodeID h = nid) (db_node_health db)))"

definition pg_GetLatestHealthCheck :: "uuid \<Rightarrow> string \<Rightarrow> DB \<Rightarrow> HealthCheck option result" where
  "pg_GetLatestHealthCheck nid probeSource db =
     (case newest 1 (filter (\<lambda>h. hc_NodeID h = nid \<and> hc_ProbeSource h = probeSource) (db_node_health db)) of
        [] \<Rightarrow> Ok None | h # _ \<Rightarrow> Ok (Some h))"

definition pg_GetRecentSuccessfulHealthChecks :: "uuid \<Rightarrow> int \<Rightarrow> DB \<Rightarrow> HealthCheck list result" where
  "pg_GetRecentSuccessfulHealthChecks nid limit db =
     Ok (newest (default_limit limit) (filter (\<lambda>h. hc_NodeID h = nid \<and> hc_Reachable h) (db_node_health db)))"

text \<open>
  The batch forms fill a map in which every requested identifier has an entry.  The window
  \<^verbatim>\<open>ROW_NUMBER() OVER (PARTITION BY node_id ORDER BY ts DESC)\<close> keeps the newest rows of
  each node.
\<close>

definition pg_GetNodeHistoryForNodes :: "uuid list \<Rightarrow> int \<Rightarrow> DB \<Rightarrow> (uuid \<times> HealthCheck list) list result" where
  "pg_GetNodeHistoryForNodes ids limit db =
     (let limit = default_limit limit;
          out = foldl (\<lambda>m i. AList.update i [] m) [] ids;
          nodes = remdups (map hc_NodeID (filter (\<lambda>h. hc_NodeID h \<in> set ids) (db_node_health db)));
          rows = concat (map (\<lambda>i. newest limit (filter (\<lambda>h. hc_NodeID h = i) (db_node_health db))) nodes)
      in if ids = [] then Ok out
         else Ok (foldl (\<lambda>m h. AList.update (hc_NodeID h) (coalesce (lookup m (hc_NodeID h)) [] @ [h]) m) out rows))"

definition pg_ListNodeAddresses :: "uuid \<Rightarrow> DB \<Rightarrow> NodeAddress list result" where
  "pg_ListNodeAddresses nid db = Ok (sort_key na_FirstSeen (filter (\<lambda>a. na_NodeID a = nid) (db_node_addresses db)))"

definition pg_ListNodeAddressesForNodes :: "uuid list \<Rightarrow> DB \<Rightarrow> (uuid \<times> NodeAddress list) list result" where
  "pg_ListNodeAddressesForNodes ids db =
     (let out = foldl (\<lambda>m i. AList.update i [] m) [] ids;
          nodes = remdups (map na_NodeID (filter (\<lambda>a. na_NodeID a \<in> set ids) (db_node_addresses db)));
          rows = concat (map (\<lambda>i. sort_key na_FirstSeen (filter (\<lambda>a. na_NodeID a = i) (db_node_addresses db))) nodes)
      in if ids = [] then Ok out
         else Ok (foldl (\<lambda>m a. AList.update (na_NodeID a) (coalesce (lookup m (na_NodeID a)) [] @ [a]) m) out rows))"

section \<open>Filters\<close>

text \<open>SQL truth values: NULL is \<open>None\<close>.\<close>

type_synonym sql_bool = "bool option"

definition sql_or :: "sql_bool \<Rightarrow> sql_bool \<Rightarrow> sql_bool" where
  "sql_or p q = (if p = Some True \<or> q = Some True then Some True
     else if p = Some False \<and> q = Some False then Some False else None)"

definition sql_and :: "sql_bool \<Rightarrow> sql_bool \<Rightarrow> sql_bool" where
  "sql_and p q = (if p = Some False \<or> q = Some False then Some False
     else if p = Some True \<and> q = Some True then Some True else None)"

definition sql_not :: "sql_bool \<Rightarrow> sql_bool" where
  "sql_not p = map_option Not p"

text \<open>\<^verbatim>\<open>jsonb_typeof(tags->key)\<close> and \<^verbatim>\<open>tags->>key\<close>; the latter is NULL for a JSON null.\<close>

definition jsonb_typeof :: "jval option \<Rightarrow> string option" where
  "jsonb_typeof v = (case v of None \<Rightarrow> None | Some JNull \<Rightarrow> Some ''null'' | Some (JBool _) \<Rightarrow> Some ''boolean''
     | Some (JNum _) \<Rightarrow> Some ''number'' | Some (JStr _) \<Rightarrow> Some ''string'' | Some (JOther _) \<Rightarrow> Some ''object'')"

definition jsonb_text :: "jval option \<Rightarrow> string option" where
  "jsonb_text v = (case v of None \<Rightarrow> None | Some JNull \<Rightarrow> None | Some (JBool b) \<Rightarrow> Some (if b then ''true'' else ''false'')
     | Some (JNum i) \<Rightarrow> Some (Itoa i) | Some (JStr s) \<Rightarrow> Some s | Some (JOther s) \<Rightarrow> Some s)"

definition sql_eq :: "'a option \<Rightarrow> 'a \<Rightarrow> sql_bool" where
  "sql_eq p x = map_option (\<lambda>y. y = x) p"

definition ownedPredicate :: "tags \<Rightarrow> bool" where
  "ownedPredicate tags = coalesce
     (sql_or (Some (lookup tags ''pool_owned'' = Some (JBool True)))
        (sql_and (sql_eq (jsonb_typeof (lookup tags ''owner'')) ''string'')
                 (sql_not (sql_eq (jsonb_text (lookup tags ''owner'')) [])))) False"

text \<open>The clauses, one per field that is set, on one row.\<close>

definition nodeFilterClauses :: "DB \<Rightarrow> NodeFilter \<Rightarrow> Node \<Rightarrow> sql_bool list" where
  "nodeFilterClauses db f n =
     (if nf_DiscoverySource f \<noteq> [] then [Some (n_DiscoverySource n = nf_DiscoverySource f)] else []) @
     (case nf_ReachableSince f of None \<Rightarrow> []
      | Some t \<Rightarrow> [Some (list_ex (\<lambda>h. hc_NodeID h = n_ID n \<and> hc_Reachable h \<and> hc_Timestamp h \<ge> t) (db_node_health db))]) @
     (case nf_Confirmed f of None \<Rightarrow> []
      | Some c \<Rightarrow> [Some (if c then n_PublicKey n \<noteq> [] else n_PublicKey n = [])]) @
     (case nf_HasHealthChecks f of None \<Rightarrow> []
      | Some b \<Rightarrow> [let e = Some (list_ex (\<lambda>h. hc_NodeID h = n_ID n) (db_node_health db)) in if b then e else sql_not e]) @
     (case nf_Owned f of None \<Rightarrow> []
      | Some b \<Rightarrow> [let e = Some (ownedPredicate (n_Tags n)) in if b then e else sql_not e]) @
     (case nf_HasWalletHTTPPort f of None \<Rightarrow> []
      | Some b \<Rightarrow> [Some (if b then n_WalletHTTPPort n \<noteq> None else n_WalletHTTPPort n = None)]) @
     (if nf_Owner f \<noteq> [] then [sql_eq (jsonb_text (lookup (n_Tags n) ''owner'')) (nf_Owner f)] else [])"

text \<open>A row is selected when the conjunction of the clauses is true, neither false nor NULL.\<close>

definition selected :: "DB \<Rightarrow> NodeFilter \<Rightarrow> Node \<Rightarrow> bool" where
  "selected db f n \<longleftrightarrow> foldr sql_and (nodeFilterClauses db f n) (Some True) = Some True"

definition pg_matching :: "NodeFilter \<Rightarrow> DB \<Rightarrow> Node list" where
  "pg_matching f db = filter (selected db f) (db_nodes db)"

definition pg_ListNodes :: "NodeFilter \<Rightarrow> DB \<Rightarrow> Node list result" where
  "pg_ListNodes f db =
     (let rows = sort_by_address (pg_matching f db);
          rows = (if nf_Offset f > 0 then drop (nat (nf_Offset f)) rows else rows)
      in Ok (if nf_Limit f > 0 then take (nat (nf_Limit f)) rows else rows))"

definition pg_CountNodes :: "NodeFilter \<Rightarrow> DB \<Rightarrow> nat result" where
  "pg_CountNodes f db = Ok (length (pg_matching f db))"

definition pg_GetNode :: "uuid \<Rightarrow> DB \<Rightarrow> Node result" where
  "pg_GetNode nid db = getNodeByID nid db"

definition pg_Store :: "DB Store" where
  "pg_Store = \<lparr>UpsertDiscoveredNode = pg_UpsertDiscoveredNode, UpsertConfirmedNode = pg_UpsertConfirmedNode,
     RecordHealthCheck = pg_RecordHealthCheck, RecordPeerEdgeObservation = pg_RecordPeerEdgeObservation,
     ListNodes = pg_ListNodes, GetNode = pg_GetNode, ListNodeAddresses = pg_ListNodeAddresses,
     GetNodeHistory = pg_GetNodeHistory, ListNodeAddressesForNodes = pg_ListNodeAddressesForNodes\<rparr>"

section \<open>Recording is idempotent within a batch\<close>

lemma recorded_health_present:
  assumes "pg_RecordHealthCheck now i db = (db1, Ok ())" "hci_ReportBatchID i = Some b"
  shows "list_ex (\<lambda>h. hc_NodeID h = hci_NodeID i \<and> hr_ReportBatchID h = Some b) (db_node_health db1)"
  using assms
  by (auto simp: pg_RecordHealthCheck_def bindE_def exec_def Let_def sql_insert_health_def draw_def health_row_def
      split: if_splits option.splits)

lemma health_present_skips:
  "hci_ProbeSource j \<noteq> [] \<Longrightarrow> hci_ReportBatchID j = Some b \<Longrightarrow>
   list_ex (\<lambda>h. hc_NodeID h = hci_NodeID j \<and> hr_ReportBatchID h = Some b) (db_node_health db) \<Longrightarrow>
   pg_RecordHealthCheck now j db = (db, Ok ())"
  by (simp add: pg_RecordHealthCheck_def bindE_def)

text \<open>
  Within a report batch the first health check of a node wins.  After a health check
  of a batch has been recorded, recording any health check of the same node and batch
  succeeds and changes nothing: a retry of the same one, as intended, but also a
  different one, say of another probe or another address of the node, which is dropped.
\<close>

theorem health_batch_first_wins:
  assumes "pg_RecordHealthCheck now i db = (db1, Ok ())" "hci_ReportBatchID i = Some b"
    "hci_NodeID j = hci_NodeID i" "hci_ReportBatchID j = Some b" "hci_ProbeSource j \<noteq> []"
  shows "pg_RecordHealthCheck later j db1 = (db1, Ok ())"
  using health_present_skips [OF assms(5,4)] recorded_health_present [OF assms(1,2)] assms(3) by simp

definition example_input :: "string \<Rightarrow> HealthCheckInput" where
  "example_input probe = zeroHealthCheckInput\<lparr>hci_NodeID := 2, hci_ProbeSource := probe, hci_ReportBatchID := Some 9\<rparr>"

lemma example_record: "\<exists>db1. pg_RecordHealthCheck 5 (example_input ProbeSourceGRPC) example_db = (db1, Ok ())"
proof -
  have "schema_ok (sql_insert_health 5 (example_input ProbeSourceGRPC) example_db)"
    unfolding sql_insert_health_def draw_def using example_db_ok
    by (simp add: example_db_defs schema_defs nodes_ok_def addresses_ok_def health_ok_def edges_ok_def
        pending_ok_def wallet_ok_def valid_source_def valid_probe_def health_row_def example_input_def zeroHealthCheckInput_def)
  moreover have "db_node_health example_db = []" by (simp add: example_db_def)
  ultimately show ?thesis
    by (simp add: pg_RecordHealthCheck_def bindE_def exec_Ok example_input_def zeroHealthCheckInput_def)
qed

theorem health_batch_first_wins_witness:
  "\<exists>db1. pg_RecordHealthCheck 5 (example_input ProbeSourceGRPC) example_db = (db1, Ok ()) \<and>
     pg_RecordHealthCheck 6 (example_input ProbeSourceP2P) db1 = (db1, Ok ())"
proof -
  obtain db1 where d: "pg_RecordHealthCheck 5 (example_input ProbeSourceGRPC) example_db = (db1, Ok ())"
    using example_record by blast
  from health_batch_first_wins [OF d, of 9 "example_input ProbeSourceP2P" 6] d show ?thesis
    by (simp add: example_input_def zeroHealthCheckInput_def)
qed

lemma sql_insert_edge_again:
  assumes "exec (sql_insert_edge now x y nm (Some b)) db = (db1, Ok ())"
  shows "sql_insert_edge later x y nm' (Some b) db1 = db1"
proof -
  have "db1 = sql_insert_edge now x y nm (Some b) db" using assms by (auto simp: exec_def Let_def split: if_splits)
  then have "list_ex (\<lambda>e. po_FromNodeID e = x \<and> po_ToNodeID e = y \<and> po_ReportBatchID e = Some b) (db_peer_edges db1)"
    by (auto simp: sql_insert_edge_def draw_def)
  then show ?thesis by (simp add: sql_insert_edge_def)
qed

text \<open>
  A peer edge reported again in the same batch is recorded once.  On a database that
  satisfies the schema, after an edge of a batch has been recorded, recording the same
  edge and batch again, at any time and by any collector, succeeds and changes nothing;
  without a batch every observation adds a row.
\<close>

theorem edge_batch_idempotent:
  assumes "schema_ok db" "pg_RecordPeerEdgeObservation now x y (Some m) db = (db1, Ok ())"
    "pm_ReportBatchID m = Some b" "pm_ReportBatchID m' = Some b"
  shows "schema_ok db1 \<and> pg_RecordPeerEdgeObservation later x y (Some m') db1 = (db1, Ok ())"
proof -
  from assms(2,3) have e: "exec (sql_insert_edge now x y (if pm_ReportedByCollector m \<noteq> [] then Some (pm_ReportedByCollector m) else None) (Some b)) db = (db1, Ok ())"
    by (simp add: pg_RecordPeerEdgeObservation_def)
  have ok: "schema_ok db1" using exec_schema [OF assms(1) e] .
  show ?thesis using ok assms(4) sql_insert_edge_again [OF e]
    by (simp add: pg_RecordPeerEdgeObservation_def exec_def Let_def schema_ok_def)
qed

theorem edge_batch_idempotent_witness:
  "pg_RecordPeerEdgeObservation 7 3 1 (Some \<lparr>pm_ReportedByCollector = ''z'', pm_ReportBatchID = Some 9\<rparr>) example_db =
     (example_db, Ok ())"
proof -
  have "pg_RecordPeerEdgeObservation 5 3 1 (Some \<lparr>pm_ReportedByCollector = [], pm_ReportBatchID = Some 9\<rparr>) example_db =
     (example_db, Ok ())"
    using example_db_ok by (simp add: pg_RecordPeerEdgeObservation_def exec_def Let_def schema_ok_def
      sql_insert_edge_def example_db_def example_edge_def)
  from edge_batch_idempotent [OF example_db_ok this, of 9 "\<lparr>pm_ReportedByCollector = ''z'', pm_ReportBatchID = Some 9\<rparr>" 7]
  show ?thesis by simp
qed

section \<open>Retention terminates\<close>

lemma filter_not_in_take:
  assumes "distinct F"
  shows "filter (\<lambda>x. x \<notin> set (take n F)) F = drop n F"
proof -
  have "filter (\<lambda>x. x \<notin> set (take n F)) (take n F @ drop n F) = drop n F"
    unfolding filter_append using set_take_disj_set_drop_if_distinct [OF assms, of n n]
    by (auto simp: filter_empty_conv intro!: filter_True)
  then show ?thesis by simp
qed

text \<open>The rows a retention pass is to remove.\<close>

definition expired :: "time \<Rightarrow> DB \<Rightarrow> PeerEdgeObservation list" where
  "expired t db = filter (\<lambda>e. po_ObservedAt e < t) (db_peer_edges db)"

lemma prune_batch_edges:
  assumes "distinct (map po_ID (db_peer_edges db))"
  shows "expired t (sql_prune_batch t n db) = drop n (expired t db) \<and>
    filter (\<lambda>e. \<not> po_ObservedAt e < t) (db_peer_edges (sql_prune_batch t n db)) =
      filter (\<lambda>e. \<not> po_ObservedAt e < t) (db_peer_edges db) \<and>
    length (db_peer_edges db) - length (db_peer_edges (sql_prune_batch t n db)) = min n (length (expired t db))"
proof -
  have sub: "set (take n (expired t db)) \<subseteq> set (db_peer_edges db)" using set_take_subset [of n "expired t db"] by (auto simp: expired_def)
  have mem: "po_ID e \<in> set (map po_ID (take n (expired t db))) \<longleftrightarrow> e \<in> set (take n (expired t db))"
    if "e \<in> set (db_peer_edges db)" for e
  proof
    assume "po_ID e \<in> set (map po_ID (take n (expired t db)))"
    then obtain e' where "e' \<in> set (take n (expired t db))" "po_ID e' = po_ID e" by auto
    then show "e \<in> set (take n (expired t db))"
      using that sub distinct_key_unique [OF assms(1), of e' e] by auto
  qed simp
  have edges: "db_peer_edges (sql_prune_batch t n db) = filter (\<lambda>e. e \<notin> set (take n (expired t db))) (db_peer_edges db)"
    using mem by (auto simp: sql_prune_batch_def Let_def expired_def intro!: filter_cong)
  have dist: "distinct (expired t db)" using assms(1) by (simp add: expired_def distinct_map)
  have 1: "expired t (sql_prune_batch t n db) = drop n (expired t db)"
  proof -
    have "expired t (sql_prune_batch t n db) = filter (\<lambda>e. e \<notin> set (take n (expired t db))) (expired t db)"
      unfolding expired_def [of t "sql_prune_batch t n db"] edges by (simp add: expired_def conj_commute)
    then show ?thesis using filter_not_in_take [OF dist] by simp
  qed
  have 2: "filter (\<lambda>e. \<not> po_ObservedAt e < t) (db_peer_edges (sql_prune_batch t n db)) =
      filter (\<lambda>e. \<not> po_ObservedAt e < t) (db_peer_edges db)"
    unfolding edges using set_take_subset [of n "expired t db"] by (auto simp: expired_def intro!: filter_cong)
  have len: "length (db_peer_edges d) = length (expired t d) + length (filter (\<lambda>e. \<not> po_ObservedAt e < t) (db_peer_edges d))" for d
    unfolding expired_def using filter_partition_length [of "\<lambda>e. po_ObservedAt e < t" "db_peer_edges d"] by simp
  from 1 2 len [of db] len [of "sql_prune_batch t n db"] show ?thesis by (auto simp: min_def)
qed

lemma prune_batch_frame:
  "sql_prune_batch t n db = db\<lparr>db_peer_edges := db_peer_edges (sql_prune_batch t n db)\<rparr>"
  "\<exists>P. db_peer_edges (sql_prune_batch t n db) = filter P (db_peer_edges db)"
  by (auto simp: sql_prune_batch_def Let_def)

lemma prune_batch_distinct:
  "distinct (map po_ID (db_peer_edges db)) \<Longrightarrow> distinct (map po_ID (db_peer_edges (sql_prune_batch t n db)))"
  by (simp add: sql_prune_batch_def Let_def distinct_map_filter)

lemma prune_loop_returns:
  assumes "distinct (map po_ID (db_peer_edges db))" "0 < batchSize"
  shows "\<exists>db'. prune_loop t batchSize k db = Some (db', k + length (expired t db), None) \<and>
    db' = db\<lparr>db_peer_edges := filter (\<lambda>e. \<not> po_ObservedAt e < t) (db_peer_edges db)\<rparr>"
  using assms
proof (induction "length (expired t db)" arbitrary: db k rule: less_induct)
  case less
  define d where "d = sql_prune_batch t (nat batchSize) db"
  note b = prune_batch_edges [OF less.prems(1), of t "nat batchSize", folded d_def]
  have dd: "distinct (map po_ID (db_peer_edges d))" using prune_batch_distinct [OF less.prems(1)] by (simp add: d_def)
  have frame: "d = db\<lparr>db_peer_edges := db_peer_edges d\<rparr>" unfolding d_def by (rule prune_batch_frame)
  show ?case
  proof (cases "length (expired t db) < nat batchSize")
    case True
    then have e: "expired t d = []" using b by simp
    then have "db_peer_edges d = filter (\<lambda>e. \<not> po_ObservedAt e < t) (db_peer_edges db)"
      using b by (simp add: expired_def filter_empty_conv)
    moreover have "prune_loop t batchSize k db = Some (d, k + length (expired t db), None)"
    proof -
      have "int (length (expired t db)) < batchSize" using True by linarith
      with True b less.prems(2) show ?thesis
        by (subst prune_loop.simps) (simp add: d_def [symmetric] Let_def min_def)
    qed
    ultimately show ?thesis using frame by (intro exI [of _ d]) (simp only:)
  next
    case False
    have step: "prune_loop t batchSize k db = prune_loop t batchSize (k + nat batchSize) d"
      using False b less.prems(2) by (subst prune_loop.simps) (simp add: d_def [symmetric] Let_def min_def)
    have "length (expired t d) < length (expired t db)" using b False less.prems(2) by auto
    from less.hyps [OF this dd less.prems(2), of "k + nat batchSize"] obtain db' where
      db': "prune_loop t batchSize (k + nat batchSize) d = Some (db', k + nat batchSize + length (expired t d), None)"
      "db' = d\<lparr>db_peer_edges := filter (\<lambda>e. \<not> po_ObservedAt e < t) (db_peer_edges d)\<rparr>" by blast
    have "db' = db\<lparr>db_peer_edges := filter (\<lambda>e. \<not> po_ObservedAt e < t) (db_peer_edges db)\<rparr>"
      unfolding db'(2) using b by (subst frame) simp
    moreover have "k + nat batchSize + length (expired t d) = k + length (expired t db)" using b False by simp
    ultimately show ?thesis using step db'(1) by simp
  qed
qed

text \<open>
  C37: the retention loop ends, and removes exactly the expired rows.  For every positive
  batch size and every database that satisfies the schema, however many batches it takes,
  the loop returns without error; the rows observed before the cutoff are gone, all
  others and all other tables are untouched, and the reported total is the number
  removed.
\<close>

theorem prune_complete:
  assumes "schema_ok db" "0 < batchSize"
  shows "PruneOldPeerEdgeObservations t batchSize db =
    Some (db\<lparr>db_peer_edges := filter (\<lambda>e. \<not> po_ObservedAt e < t) (db_peer_edges db)\<rparr>, length (expired t db), None)"
  using prune_loop_returns [OF schema_facts(5) [OF assms(1)] assms(2), of t 0]
  by (auto simp: PruneOldPeerEdgeObservations_def)

theorem prune_complete_witness:
  "\<exists>db'. PruneOldPeerEdgeObservations 2 1 example_db = Some (db', 2, None)"
  using prune_complete [OF example_db_ok, of 1 2] by (simp add: expired_def example_db_def example_edge_def)

lemma prune_loop_zero: "prune_loop t 0 k db = Some r \<Longrightarrow> False"
proof -
  have "batchSize \<noteq> 0" if "prune_loop t batchSize k db = Some r" for batchSize :: int
    by (rule prune_loop.raw_induct [where P = "\<lambda>t n k db r. n \<noteq> 0", OF _ that])
      (auto simp: Let_def split: if_splits)
  then show "prune_loop t 0 k db = Some r \<Longrightarrow> False" by blast
qed

text \<open>
  With a batch size of zero the loop never returns, on any database: \<^verbatim>\<open>LIMIT 0\<close> deletes
  nothing and zero is never less than the batch size.
\<close>

theorem prune_zero_diverges: "PruneOldPeerEdgeObservations t 0 db = None"
  using prune_loop_zero [of t 0 db] by (cases "prune_loop t 0 0 db") (auto simp: PruneOldPeerEdgeObservations_def)

section \<open>Listing\<close>

lemma foldr_sql_and_true: "foldr sql_and cs (Some True) = Some True \<longleftrightarrow> (\<forall>c\<in>set cs. c = Some True)"
  by (induction cs) (auto simp: sql_and_def split: if_splits)

lemma ownedPredicate_iff: "ownedPredicate (n_Tags n) \<longleftrightarrow> isPoolOwned n"
  by (auto simp: ownedPredicate_def isPoolOwned_def HasOwnerTag_def coalesce_def sql_or_def sql_and_def sql_eq_def
      sql_not_def jsonb_typeof_def jsonb_text_def split: option.splits jval.splits)

interpretation pg_listing: node_listing pg_ListNodes pg_CountNodes pg_matching
proof unfold_locales
  show "pg_ListNodes f db = Ok (paginate (nf_Offset f) (nf_Limit f) (sort_by_address (pg_matching f db)))" for f db
    by (simp add: pg_ListNodes_def paginate_eq Let_def)
  show "pg_matching (f\<lparr>nf_Limit := l, nf_Offset := off\<rparr>) db = pg_matching f db" for f db l off
    by (simp add: pg_matching_def selected_def [abs_def] nodeFilterClauses_def)
  show "pg_CountNodes f db = Ok (length (pg_matching f db))" for f db
    by (simp add: pg_CountNodes_def)
qed

text \<open>
  The node listing of the central store.  The whole listing consists of the rows that
  satisfy every clause of the filter, in address order; its pages of any positive size,
  read in order, make it up exactly once; the count is its length; and the clause for
  ownership, written in SQL's three-valued logic, selects exactly the nodes the collector
  considers owned, for true and for false.
\<close>

theorem pg_ListNodes_pages:
  assumes "0 < l" "length (pg_matching f db) \<le> l * k"
  shows "(\<exists>all. pg_ListNodes (f\<lparr>nf_Limit := 0, nf_Offset := 0\<rparr>) db = Ok all \<and>
    pg_CountNodes f db = Ok (length all) \<and> sorted_wrt address_le all \<and>
    mset all = {#n \<in># mset (db_nodes db). selected db f n#} \<and>
    map (\<lambda>p. pg_ListNodes (f\<lparr>nf_Limit := int l, nf_Offset := int (p * l)\<rparr>) db) [0..<k] =
      map (\<lambda>p. Ok (take l (drop (p * l) all))) [0..<k] \<and>
    concat (map (\<lambda>p. take l (drop (p * l) all)) [0..<k]) = all) \<and>
    selected db (emptyFilter\<lparr>nf_Owned := Some b\<rparr>) n = (b = isPoolOwned n)"
proof -
  obtain all where "pg_ListNodes (f\<lparr>nf_Limit := 0, nf_Offset := 0\<rparr>) db = Ok all \<and>
    pg_CountNodes f db = Ok (length all) \<and> sorted_wrt address_le all \<and> mset all = mset (pg_matching f db) \<and>
    map (\<lambda>p. pg_ListNodes (f\<lparr>nf_Limit := int l, nf_Offset := int (p * l)\<rparr>) db) [0..<k] =
      map (\<lambda>p. Ok (take l (drop (p * l) all))) [0..<k] \<and>
    concat (map (\<lambda>p. take l (drop (p * l) all)) [0..<k]) = all"
    using pg_listing.pages [OF assms] by blast
  moreover have "selected db (emptyFilter\<lparr>nf_Owned := Some b\<rparr>) n = (b = isPoolOwned n)"
    by (cases b) (auto simp: selected_def nodeFilterClauses_def emptyFilter_def ownedPredicate_iff sql_not_def sql_and_def)
  ultimately show ?thesis by (auto simp: pg_matching_def mset_filter)
qed

theorem pg_ListNodes_pages_witness:
  "\<exists>all. pg_ListNodes (emptyFilter\<lparr>nf_Limit := 0, nf_Offset := 0\<rparr>) example_db = Ok all \<and> sorted_wrt address_le all"
proof -
  have "length (pg_matching emptyFilter example_db) \<le> length (db_nodes example_db)" by (simp add: pg_matching_def)
  also have "\<dots> = 3 * 1" by (simp add: example_db_def)
  finally show ?thesis using pg_ListNodes_pages [of 3 emptyFilter example_db 1] by auto
qed

section \<open>The central store keeps the contract\<close>

fun pg_fact :: "DB \<Rightarrow> fact \<Rightarrow> bool" where
  "pg_fact db (Known i) = (i \<in> set (node_ids db))"
| "pg_fact db (Holds i a) = ((i, a) \<in> address_keys db)"
| "pg_fact db (Keyed i pk) = (pk \<noteq> [] \<and> (\<exists>n\<in>set (db_nodes db). n_ID n = i \<and> n_PublicKey n = pk))"
| "pg_fact db (Checked i b) = (\<exists>h\<in>set (db_node_health db). hc_NodeID h = i \<and> hr_ReportBatchID h = Some b)"
| "pg_fact db (Observed i j b) = ((i, j, Some b) \<in> edge_keys db)"

definition pg_facts :: "DB \<Rightarrow> fact set" where
  "pg_facts db = {f. pg_fact db f}"

lemma store_ok_same: "same_tables db db' \<Longrightarrow> store_ok db \<Longrightarrow> store_ok db'"
  using schema_ok_same [of db db']
  by (simp add: store_ok_def addresses_recorded_def address_keys_def same_tables_fields [of db db'])

definition same_observations :: "DB \<Rightarrow> DB \<Rightarrow> bool" where
  "same_observations db db' \<longleftrightarrow> db_node_health db' = db_node_health db \<and> db_peer_edges db' = db_peer_edges db"

lemma on_tables_observations: "on_tables (same_observations db)"
  by (auto simp: on_tables_def same_observations_def dest: same_tables_fields)

lemma keeps_discovered_observations:
  "keeps (same_observations d) (pg_UpsertDiscoveredNode now a src tags label)"
  by (rule keeps_UpsertDiscovered [OF on_tables_observations])
    (auto simp: same_observations_def update_node_def sql_insert_node_def sql_upsert_address_def draw_def)

lemma keeps_discovered_addresses:
  "keeps (\<lambda>db. address_keys d \<subseteq> address_keys db) (pg_UpsertDiscoveredNode now a src tags label)"
proof (rule keeps_UpsertDiscovered)
  show "on_tables (\<lambda>db. address_keys d \<subseteq> address_keys db)"
    unfolding on_tables_def address_keys_def by (intro allI impI) (simp only: same_tables_fields(2))
next
  fix nid f db assume "address_keys d \<subseteq> address_keys db"
  moreover have "address_keys (update_node nid f db) = address_keys db" for nid f db
    by (simp add: address_keys_def update_node_def)
  ultimately show "address_keys d \<subseteq> address_keys (update_node nid (\<lambda>n. n\<lparr>n_DiscoverySource :=
      sql_merge_source src (n_DiscoverySource n), n_Tags := merge_tags (n_Tags n) tags,
      n_Label := (case label of Some l \<Rightarrow> Some l | None \<Rightarrow> n_Label n), n_LastSeen := now\<rparr>) db)" by simp
next
  fix nid db assume "address_keys d \<subseteq> address_keys db"
  then show "address_keys d \<subseteq> address_keys (sql_upsert_address now nid a db)" by (auto simp: upsert_address_keys)
qed (simp add: sql_insert_node_def draw_def address_keys_def)

lemma Known_mono:
  assumes "keys_kept db db'" "pg_fact db (Known i)"
  shows "pg_fact db' (Known i)"
proof -
  obtain n where "n \<in> set (db_nodes db)" "n_ID n = i" using assms(2) by (auto simp: node_ids_def)
  then obtain n' where "n' \<in> set (db_nodes db')" "n_ID n' = i" using assms(1) unfolding keys_kept_def by metis
  then show ?thesis by (auto simp: node_ids_def)
qed

lemma Keyed_mono: "keys_kept db db' \<Longrightarrow> pg_fact db (Keyed i pk) \<Longrightarrow> pg_fact db' (Keyed i pk)"
  unfolding keys_kept_def pg_fact.simps by metis

lemma pg_discovered:
  assumes "a \<noteq> []" "valid_source src"
  shows "triple (\<lambda>db. store_ok db \<and> F \<subseteq> pg_facts db) (pg_UpsertDiscoveredNode now a src tags label)
    (\<lambda>n db. store_ok db \<and> insert (Holds (n_ID n) a) F \<subseteq> pg_facts db) (\<lambda>e db. store_ok db \<and> e = ErrPrimaryKey)"
proof (rule tripleI)
  fix db db' r
  assume db: "store_ok db \<and> F \<subseteq> pg_facts db" and u: "pg_UpsertDiscoveredNode now a src tags label db = (db', r)"
  have o: "same_observations db db'"
    using keeps_fst [OF keeps_discovered_observations [of db now a src tags label], of db] u
    by (simp add: same_observations_def)
  from UpsertDiscovered_spec [OF _ assms u] db
  consider n where "r = Ok n" "upserted db a db' n" | "r = Fail ErrPrimaryKey" "same_tables db db'" by blast
  then show "case r of Inl e \<Rightarrow> store_ok db' \<and> e = ErrPrimaryKey
    | Inr n \<Rightarrow> store_ok db' \<and> insert (Holds (n_ID n) a) F \<subseteq> pg_facts db'"
  proof cases
    case (1 n)
    have kept: "pg_fact db' f" if "pg_fact db f" for f
    proof (cases f)
      case (Holds i b)
      have "address_keys db \<subseteq> address_keys db'"
        using keeps_fst [OF keeps_discovered_addresses [of db now a src tags label], of db] u by simp
      then show ?thesis using that Holds by auto
    qed (use that 1 o Known_mono [of db db'] Keyed_mono [of db db']
         in \<open>auto simp: upserted_def same_observations_def edge_keys_def simp del: pg_fact.simps(1,3)\<close>)
    then show ?thesis using 1 db by (auto simp: upserted_def pg_facts_def)
  qed (use db store_ok_same in auto)
qed

lemma pg_confirmed:
  assumes "a \<noteq> []" "pk \<noteq> []" "valid_source src" "anchored F"
  shows "triple (\<lambda>db. store_ok db \<and> F \<subseteq> pg_facts db) (pg_UpsertConfirmedNode now a pk src)
    (\<lambda>n db. store_ok db \<and> {Keyed (n_ID n) pk, Holds (n_ID n) a} \<union> F \<subseteq> pg_facts db)
    (\<lambda>e db. store_ok db \<and> e = ErrPrimaryKey)"
proof (rule tripleI)
  fix db db' r
  assume db: "store_ok db \<and> F \<subseteq> pg_facts db" and u: "pg_UpsertConfirmedNode now a pk src db = (db', r)"
  from UpsertConfirmed_spec [OF _ assms(1-3) u] db
  consider n where "r = Ok n" "confirmed_as db a pk db' (n_ID n)" | "r = Fail ErrPrimaryKey" "same_tables db db'" by blast
  then show "case r of Inl e \<Rightarrow> store_ok db' \<and> e = ErrPrimaryKey
    | Inr n \<Rightarrow> store_ok db' \<and> {Keyed (n_ID n) pk, Holds (n_ID n) a} \<union> F \<subseteq> pg_facts db'"
  proof cases
    case (1 n)
    have "pg_fact db' f" if "f \<in> F" for f
    proof -
      from assms(4) that obtain i k where k: "Keyed i k \<in> F" "f = Known i \<or> (\<exists>b. f = Holds i b) \<or> (\<exists>k. f = Keyed i k)"
        unfolding anchored_def by blast
      then have f: "pg_fact db f" "pg_fact db (Keyed i k)" using db that by (auto simp: pg_facts_def)
      then obtain m where m: "m \<in> set (db_nodes db)" "n_ID m = i" "n_PublicKey m = k" "k \<noteq> []" by auto
      have kept: "\<exists>n'\<in>set (db_nodes db'). n_ID n' = n_ID x \<and> n_PublicKey n' = n_PublicKey x"
        "(n_ID x, b) \<in> address_keys db \<Longrightarrow> (n_ID x, b) \<in> address_keys db'"
        if "x \<in> set (db_nodes db)" "n_PublicKey x \<noteq> []" for x b
        using 1(2) that by (auto simp: confirmed_as_def confirmed_kept_def)
      from k(2) show ?thesis
      proof (elim disjE exE)
        assume "f = Known i"
        moreover obtain n' where "n' \<in> set (db_nodes db')" "n_ID n' = i" using kept(1) [OF m(1)] m by auto
        ultimately show ?thesis by (auto simp: node_ids_def)
      next
        fix b assume "f = Holds i b"
        then show ?thesis using kept(2) [OF m(1), of b] m f(1) by auto
      next
        fix k' assume "f = Keyed i k'"
        then show ?thesis using kept(1) f(1) by auto
      qed
    qed
    then show ?thesis using 1 assms(2) by (auto simp: confirmed_as_def pg_facts_def)
  qed (use db store_ok_same in auto)
qed

lemma insert_health_ok:
  assumes "schema_ok db" "hci_NodeID i \<in> set (node_ids db)" "valid_probe (hci_ProbeSource i)"
  shows "constraints_ok (sql_insert_health now i db)"
  using assms
  by (simp add: sql_insert_health_def draw_def schema_ok_def constraints_ok_def node_ids_def health_ok_def health_row_def)

lemma insert_edge_ok:
  assumes "schema_ok db" "x \<in> set (node_ids db)" "y \<in> set (node_ids db)"
  shows "constraints_ok (sql_insert_edge now x y c b db)"
proof (cases "b \<noteq> None \<and> list_ex (\<lambda>e. po_FromNodeID e = x \<and> po_ToNodeID e = y \<and> po_ReportBatchID e = b) (db_peer_edges db)")
  case False
  have "edges_ok (node_ids db) (db_peer_edges db @ [\<lparr>po_ID = i, po_FromNodeID = x, po_ToNodeID = y, po_ObservedAt = now,
      po_ReportedByCollector = c, po_ReportBatchID = b\<rparr>])" for i
    using schema_facts(6) [OF assms(1)] False assms(2,3) by (auto simp: edges_ok_def list_ex_iff)
  then show ?thesis using assms(1) False
    by (simp add: sql_insert_edge_def draw_def schema_ok_def constraints_ok_def node_ids_def del: not_None_eq)
qed (use assms(1) in \<open>simp add: sql_insert_edge_def schema_ok_def\<close>)

lemma exec_cases:
  assumes "exec f db = (db', r)" "constraints_ok (f db)"
  shows "(r = Ok () \<and> db' = f db \<and> schema_ok (f db)) \<or> (r = Fail ErrPrimaryKey \<and> same_tables db db')"
  using assms by (auto simp: exec_def Let_def schema_ok_def split: if_splits)

lemma pg_health:
  assumes "Known (hci_NodeID i) \<in> F" "valid_probe (hci_ProbeSource i)"
  shows "triple (\<lambda>db. store_ok db \<and> F \<subseteq> pg_facts db) (pg_RecordHealthCheck now i)
    (\<lambda>_ db. store_ok db \<and> F \<union> {f. \<exists>b. hci_ReportBatchID i = Some b \<and> f = Checked (hci_NodeID i) b} \<subseteq> pg_facts db)
    (\<lambda>e db. store_ok db \<and> e = ErrPrimaryKey)"
proof (rule tripleI)
  fix db db' r
  assume db: "store_ok db \<and> F \<subseteq> pg_facts db" and u: "pg_RecordHealthCheck now i db = (db', r)"
  have id: "hci_NodeID i \<in> set (node_ids db)" using db assms(1) by (auto simp: pg_facts_def)
  have ps: "hci_ProbeSource i \<noteq> []" using assms(2) by (auto simp: valid_probe_def)
  from db have sdb: "schema_ok db" by (simp add: store_ok_def)
  consider "r = Ok ()" "db' = db" "\<forall>b. hci_ReportBatchID i = Some b \<longrightarrow> pg_fact db (Checked (hci_NodeID i) b)"
    | "exec (sql_insert_health now i) db = (db', r)"
    using u ps by (auto simp: pg_RecordHealthCheck_def bindE_def list_ex_iff split: option.splits if_splits)
  then show "case r of Inl e \<Rightarrow> store_ok db' \<and> e = ErrPrimaryKey
    | Inr _ \<Rightarrow> store_ok db' \<and> F \<union> {f. \<exists>b. hci_ReportBatchID i = Some b \<and> f = Checked (hci_NodeID i) b} \<subseteq> pg_facts db'"
  proof cases
    case 1
    then show ?thesis using db by (auto simp: pg_facts_def simp del: pg_fact.simps)
  next
    case 2
    from exec_cases [OF this insert_health_ok [OF sdb id assms(2)]] show ?thesis
    proof
      let ?d = "sql_insert_health now i db"
      assume d: "r = Ok () \<and> db' = ?d \<and> schema_ok ?d"
      have tabs: "db_nodes ?d = db_nodes db" "db_node_addresses ?d = db_node_addresses db" "db_peer_edges ?d = db_peer_edges db"
        "set (db_node_health ?d) = insert (health_row now (gen_random_uuid db) i) (set (db_node_health db))"
        by (simp_all add: sql_insert_health_def draw_def)
      have "pg_fact ?d f" if "pg_fact db f" for f
        using that by (cases f) (auto simp: tabs node_ids_def address_keys_def edge_keys_def)
      moreover have "pg_fact ?d (Checked (hci_NodeID i) b)" if "hci_ReportBatchID i = Some b" for b
        using that by (auto simp: tabs health_row_def)
      moreover have "store_ok ?d" using db d by (simp add: store_ok_def addresses_recorded_def tabs address_keys_def)
      ultimately show ?thesis using d db by (auto simp: pg_facts_def simp del: pg_fact.simps)
    qed (use db store_ok_same in auto)
  qed
qed

lemma pg_edge:
  assumes "Known x \<in> F" "Known y \<in> F"
  shows "triple (\<lambda>db. store_ok db \<and> F \<subseteq> pg_facts db) (pg_RecordPeerEdgeObservation now x y meta)
    (\<lambda>_ db. store_ok db \<and> F \<union> {f. \<exists>m b. meta = Some m \<and> pm_ReportBatchID m = Some b \<and> f = Observed x y b} \<subseteq> pg_facts db)
    (\<lambda>e db. store_ok db \<and> e = ErrPrimaryKey)"
proof (rule tripleI)
  fix db db' r
  assume db: "store_ok db \<and> F \<subseteq> pg_facts db" and u: "pg_RecordPeerEdgeObservation now x y meta db = (db', r)"
  have ids: "x \<in> set (node_ids db)" "y \<in> set (node_ids db)" "schema_ok db"
    using db assms by (auto simp: pg_facts_def store_ok_def)
  define b where "b = (case meta of None \<Rightarrow> None | Some m \<Rightarrow> pm_ReportBatchID m)"
  obtain c where e: "exec (sql_insert_edge now x y c b) db = (db', r)"
    using u by (cases meta) (auto simp: pg_RecordPeerEdgeObservation_def b_def)
  from exec_cases [OF this insert_edge_ok [OF ids(3,1,2)]]
  show "case r of Inl e \<Rightarrow> store_ok db' \<and> e = ErrPrimaryKey
    | Inr _ \<Rightarrow> store_ok db' \<and> F \<union> {f. \<exists>m b. meta = Some m \<and> pm_ReportBatchID m = Some b \<and> f = Observed x y b} \<subseteq> pg_facts db'"
  proof
    let ?d = "sql_insert_edge now x y c b db"
    assume d: "r = Ok () \<and> db' = ?d \<and> schema_ok ?d"
    have tabs: "db_nodes ?d = db_nodes db" "db_node_addresses ?d = db_node_addresses db" "db_node_health ?d = db_node_health db"
      "edge_keys ?d = insert (x, y, b) (edge_keys db)"
      by (auto simp: sql_insert_edge_def draw_def edge_keys_def list_ex_iff)
    have "pg_fact ?d f" if "pg_fact db f" for f
      using that by (cases f) (auto simp: tabs node_ids_def address_keys_def)
    moreover have "pg_fact ?d (Observed x y b')" if "b = Some b'" for b'
      unfolding that [symmetric] pg_fact.simps tabs by simp
    moreover have "store_ok ?d" using db d by (simp add: store_ok_def addresses_recorded_def tabs address_keys_def)
    ultimately show ?thesis using d db by (auto simp: pg_facts_def b_def simp del: pg_fact.simps)
  qed (use db store_ok_same in auto)
qed

interpretation pg_reporting: reporting_store pg_Store store_ok pg_facts "\<lambda>e. e = ErrPrimaryKey"
proof unfold_locales
  show "Known i \<in> pg_facts db" if "store_ok db" "Holds i a \<in> pg_facts db" for db i a
    using that schema_facts(4) [of db]
    by (auto simp: pg_facts_def store_ok_def address_keys_def addresses_ok_def list_all_iff)
  show "Known i \<in> pg_facts db" if "Keyed i pk \<in> pg_facts db" for db i pk
    using that by (auto simp: pg_facts_def node_ids_def)
qed (unfold pg_Store_def Store.simps, rule pg_discovered pg_confirmed pg_health pg_edge; assumption)+

end
