(* ===== verification/Pg_Submissions.thy ===== *)
theory Pg_Submissions
  imports Pg_Observations
begin

text \<open>
  \<^verbatim>\<open>internal/storage/storage.go\<close>, the review queues: submissions of nodes and of wallet
  endpoints, the lookups their handlers use, and the wallet port of a node.  Each method is
  one statement, executed as in \<^verbatim>\<open>Pg_Schema\<close>.
\<close>

section \<open>Lookups\<close>

definition IsAddressPubliclyOptedIn :: "string \<Rightarrow> DB \<Rightarrow> bool" where
  "IsAddressPubliclyOptedIn address db =
     list_ex (\<lambda>a. na_Address a = address \<and>
       list_ex (\<lambda>n. n_ID n = na_NodeID a \<and>
         (n_DiscoverySource n = DiscoverySourceRegistry \<or> n_DiscoverySource n = DiscoverySourceBoth)) (db_nodes db))
       (db_node_addresses db)"

text \<open>\<^verbatim>\<open>nodes n LEFT JOIN node_addresses na\<close>, with \<^verbatim>\<open>COALESCE(na.address, n.address)\<close>.\<close>

definition nodes_with_addresses :: "DB \<Rightarrow> (Node \<times> string) list" where
  "nodes_with_addresses db = concat (map (\<lambda>n.
     case filter (\<lambda>a. na_NodeID a = n_ID n) (db_node_addresses db) of
       [] \<Rightarrow> [(n, n_Address n)]
     | as \<Rightarrow> map (\<lambda>a. (n, na_Address a)) as) (db_nodes db))"

definition FindNodeByHost :: "string \<Rightarrow> DB \<Rightarrow> Node option result" where
  "FindNodeByHost host db =
     (if host = [] then Fail (Err ''host is required'')
      else let plainPrefix = host @ '':''; bracketedPrefix = ''['' @ host @ '']:'';
               rows = filter (\<lambda>(n, a). has_prefix a plainPrefix \<or> has_prefix a bracketedPrefix) (nodes_with_addresses db)
           in case sort_key (\<lambda>(n, a). - n_LastSeen n) rows of
                [] \<Rightarrow> Ok None
              | (n, _) # _ \<Rightarrow> Ok (List.find (\<lambda>m. n_ID m = n_ID n) (db_nodes db)))"

section \<open>Node submissions\<close>

definition is_pending :: "PendingSubmission \<Rightarrow> bool" where
  "is_pending p \<longleftrightarrow> ps_Status p = SubmissionStatusPending"

definition sql_create_submission :: "time \<Rightarrow> string \<Rightarrow> string option \<Rightarrow> string option \<Rightarrow> DB \<Rightarrow> DB" where
  "sql_create_submission now address label ownerTag db =
     (if list_ex (\<lambda>p. is_pending p \<and> ps_Address p = address) (db_pending_submissions db)
      then db\<lparr>db_pending_submissions := map (\<lambda>p. if is_pending p \<and> ps_Address p = address
             then p\<lparr>ps_Label := label, ps_OwnerTag := ownerTag, ps_SubmittedAt := now\<rparr> else p) (db_pending_submissions db)\<rparr>
      else (draw db)\<lparr>db_pending_submissions := db_pending_submissions db @
             [\<lparr>ps_ID = gen_random_uuid db, ps_Address = address, ps_Label = label, ps_OwnerTag = ownerTag,
               ps_Status = SubmissionStatusPending, ps_SubmittedAt = now, ps_ReviewedAt = None,
               ps_RejectionReason = None, ps_PromotedNodeID = None, ps_ProbeAttemptedAt = None,
               ps_ProbeReachable = None\<rparr>]\<rparr>)"

text \<open>The row a statement returns (\<^verbatim>\<open>RETURNING\<close>), or that a query selects.\<close>

definition row_or :: "error \<Rightarrow> 'a option \<Rightarrow> (DB, 'a) op" where
  "row_or e r = (case r of Some x \<Rightarrow> returnE x | None \<Rightarrow> throwE e)"

definition pg_CreatePendingSubmission ::
  "time \<Rightarrow> string \<Rightarrow> string option \<Rightarrow> string option \<Rightarrow> (DB, PendingSubmission) op" where
  "pg_CreatePendingSubmission now address label ownerTag =
     (if address = [] then throwE (Err ''address is required'')
      else bindE (exec (sql_create_submission now address label ownerTag)) (\<lambda>_.
           bindE (getE (\<lambda>db. List.find (\<lambda>p. is_pending p \<and> ps_Address p = address) (db_pending_submissions db))) (row_or ErrNotFound)))"

definition pg_ListPendingSubmissions :: "string \<Rightarrow> DB \<Rightarrow> PendingSubmission list result" where
  "pg_ListPendingSubmissions status db =
     (let status = (if status = [] then SubmissionStatusPending else status)
      in Ok (sort_key (\<lambda>p. - ps_SubmittedAt p) (filter (\<lambda>p. ps_Status p = status) (db_pending_submissions db))))"

definition pg_GetPendingSubmission :: "uuid \<Rightarrow> DB \<Rightarrow> PendingSubmission result" where
  "pg_GetPendingSubmission sid db =
     (case List.find (\<lambda>p. ps_ID p = sid) (db_pending_submissions db) of None \<Rightarrow> Fail ErrNotFound | Some p \<Rightarrow> Ok p)"

definition pg_CountPendingSubmissions :: "DB \<Rightarrow> nat" where
  "pg_CountPendingSubmissions db = length (filter is_pending (db_pending_submissions db))"

text \<open>\<^verbatim>\<open>UPDATE pending_submissions ... WHERE id = $1 AND status = 'pending'\<close>.\<close>

definition update_pending :: "uuid \<Rightarrow> (PendingSubmission \<Rightarrow> PendingSubmission) \<Rightarrow> DB \<Rightarrow> DB" where
  "update_pending sid f db = db\<lparr>db_pending_submissions :=
     map (\<lambda>p. if ps_ID p = sid \<and> is_pending p then f p else p) (db_pending_submissions db)\<rparr>"

text \<open>What the two review methods share: the update, \<^verbatim>\<open>RowsAffected\<close>, and the error for no row.\<close>

definition review :: "uuid \<Rightarrow> (PendingSubmission \<Rightarrow> PendingSubmission) \<Rightarrow> (DB, unit) op" where
  "review sid f =
     bindE (getE (\<lambda>db. length (filter (\<lambda>p. ps_ID p = sid \<and> is_pending p) (db_pending_submissions db)))) (\<lambda>affected.
     bindE (exec (update_pending sid f)) (\<lambda>_.
     if affected = 0
     then bindE (\<lambda>db. (db, pg_GetPendingSubmission sid db)) (\<lambda>_. throwE (Err ''submission is not pending''))
     else returnE ()))"

definition pg_ApprovePendingSubmission :: "time \<Rightarrow> uuid \<Rightarrow> uuid \<Rightarrow> (DB, unit) op" where
  "pg_ApprovePendingSubmission now sid promotedNodeID = review sid (\<lambda>p. p\<lparr>
     ps_Status := SubmissionStatusApproved, ps_ReviewedAt := Some now, ps_PromotedNodeID := Some promotedNodeID\<rparr>)"

definition pg_RejectPendingSubmission :: "time \<Rightarrow> uuid \<Rightarrow> string option \<Rightarrow> (DB, unit) op" where
  "pg_RejectPendingSubmission now sid reason = review sid (\<lambda>p. p\<lparr>
     ps_Status := SubmissionStatusRejected, ps_ReviewedAt := Some now, ps_RejectionReason := reason\<rparr>)"

definition pg_RecordSubmissionProbeResult :: "time \<Rightarrow> uuid \<Rightarrow> bool \<Rightarrow> (DB, unit) op" where
  "pg_RecordSubmissionProbeResult now sid reachable = exec (\<lambda>db. db\<lparr>db_pending_submissions :=
     map (\<lambda>p. if ps_ID p = sid then p\<lparr>ps_ProbeAttemptedAt := Some now, ps_ProbeReachable := Some reachable\<rparr> else p)
       (db_pending_submissions db)\<rparr>)"

section \<open>Wallet submissions\<close>

definition is_pending_wallet :: "PendingWalletSubmission \<Rightarrow> bool" where
  "is_pending_wallet p \<longleftrightarrow> pw_Status p = SubmissionStatusPending"

definition sql_create_wallet_submission :: "time \<Rightarrow> string \<Rightarrow> int \<Rightarrow> DB \<Rightarrow> DB" where
  "sql_create_wallet_submission now host port db =
     (if list_ex (\<lambda>p. is_pending_wallet p \<and> pw_Host p = host) (db_pending_wallet_submissions db)
      then db\<lparr>db_pending_wallet_submissions := map (\<lambda>p. if is_pending_wallet p \<and> pw_Host p = host
             then p\<lparr>pw_WalletHTTPPort := port, pw_SubmittedAt := now\<rparr> else p) (db_pending_wallet_submissions db)\<rparr>
      else (draw db)\<lparr>db_pending_wallet_submissions := db_pending_wallet_submissions db @
             [\<lparr>pw_ID = gen_random_uuid db, pw_Host = host, pw_WalletHTTPPort = port, pw_Status = SubmissionStatusPending,
               pw_SubmittedAt = now, pw_ReviewedAt = None, pw_RejectionReason = None, pw_PromotedNodeID = None,
               pw_ProbeAttemptedAt = None, pw_ProbeReachable = None, pw_ProbeSucceeded = None, pw_ProbeCheckedAt = None,
               pw_ProbeIsSynced = None, pw_ProbeHeight = None\<rparr>]\<rparr>)"

definition pg_CreatePendingWalletSubmission :: "time \<Rightarrow> string \<Rightarrow> int \<Rightarrow> (DB, PendingWalletSubmission) op" where
  "pg_CreatePendingWalletSubmission now host port =
     (if host = [] then throwE (Err ''host is required'')
      else bindE (exec (sql_create_wallet_submission now host port)) (\<lambda>_.
           bindE (getE (\<lambda>db. List.find (\<lambda>p. is_pending_wallet p \<and> pw_Host p = host) (db_pending_wallet_submissions db)))
             (row_or ErrNotFound)))"

definition pg_ListPendingWalletSubmissions :: "string \<Rightarrow> DB \<Rightarrow> PendingWalletSubmission list result" where
  "pg_ListPendingWalletSubmissions status db =
     (let status = (if status = [] then SubmissionStatusPending else status)
      in Ok (sort_key (\<lambda>p. - pw_SubmittedAt p) (filter (\<lambda>p. pw_Status p = status) (db_pending_wallet_submissions db))))"

definition pg_GetPendingWalletSubmission :: "uuid \<Rightarrow> DB \<Rightarrow> PendingWalletSubmission result" where
  "pg_GetPendingWalletSubmission sid db =
     (case List.find (\<lambda>p. pw_ID p = sid) (db_pending_wallet_submissions db) of None \<Rightarrow> Fail ErrNotFound | Some p \<Rightarrow> Ok p)"

definition update_pending_wallet :: "uuid \<Rightarrow> (PendingWalletSubmission \<Rightarrow> PendingWalletSubmission) \<Rightarrow> DB \<Rightarrow> DB" where
  "update_pending_wallet sid f db = db\<lparr>db_pending_wallet_submissions :=
     map (\<lambda>p. if pw_ID p = sid \<and> is_pending_wallet p then f p else p) (db_pending_wallet_submissions db)\<rparr>"

definition review_wallet :: "uuid \<Rightarrow> (PendingWalletSubmission \<Rightarrow> PendingWalletSubmission) \<Rightarrow> (DB, unit) op" where
  "review_wallet sid f =
     bindE (getE (\<lambda>db. length (filter (\<lambda>p. pw_ID p = sid \<and> is_pending_wallet p) (db_pending_wallet_submissions db)))) (\<lambda>affected.
     bindE (exec (update_pending_wallet sid f)) (\<lambda>_.
     if affected = 0
     then bindE (\<lambda>db. (db, pg_GetPendingWalletSubmission sid db)) (\<lambda>_. throwE (Err ''wallet submission is not pending''))
     else returnE ()))"

definition pg_ApprovePendingWalletSubmission :: "time \<Rightarrow> uuid \<Rightarrow> uuid \<Rightarrow> WalletProbeOutcome \<Rightarrow> (DB, unit) op" where
  "pg_ApprovePendingWalletSubmission now sid promotedNodeID outcome = review_wallet sid (\<lambda>p. p\<lparr>
     pw_Status := SubmissionStatusApproved, pw_ReviewedAt := Some now, pw_PromotedNodeID := Some promotedNodeID,
     pw_ProbeSucceeded := Some True, pw_ProbeCheckedAt := Some now, pw_ProbeIsSynced := Some (wo_IsSynced outcome),
     pw_ProbeHeight := wo_Height outcome\<rparr>)"

definition pg_RejectPendingWalletSubmission :: "time \<Rightarrow> uuid \<Rightarrow> string option \<Rightarrow> (DB, unit) op" where
  "pg_RejectPendingWalletSubmission now sid reason = review_wallet sid (\<lambda>p. p\<lparr>
     pw_Status := SubmissionStatusRejected, pw_ReviewedAt := Some now, pw_RejectionReason := reason\<rparr>)"

definition pg_RecordWalletSubmissionProbeResult :: "time \<Rightarrow> uuid \<Rightarrow> bool \<Rightarrow> (DB, unit) op" where
  "pg_RecordWalletSubmissionProbeResult now sid reachable = exec (\<lambda>db. db\<lparr>db_pending_wallet_submissions :=
     map (\<lambda>p. if pw_ID p = sid then p\<lparr>pw_ProbeAttemptedAt := Some now, pw_ProbeReachable := Some reachable\<rparr> else p)
       (db_pending_wallet_submissions db)\<rparr>)"

section \<open>Wallet ports\<close>

definition pg_SetNodeWalletHTTPPort :: "uuid \<Rightarrow> int option \<Rightarrow> (DB, unit) op" where
  "pg_SetNodeWalletHTTPPort nid port = exec (update_node nid (\<lambda>n. n\<lparr>n_WalletHTTPPort := port\<rparr>))"

text \<open>
  A scalar subquery fails when it yields more than one row; the one over \<^verbatim>\<open>node_addresses\<close>
  has no \<^verbatim>\<open>LIMIT\<close>.
\<close>

definition ErrCardinality :: error where
  "ErrCardinality = ErrConstraint ''more than one row returned by a subquery used as an expression''"

definition pg_SetNodeWalletHTTPPortByAddress :: "string \<Rightarrow> int \<Rightarrow> (DB, bool) op" where
  "pg_SetNodeWalletHTTPPortByAddress address port =
     (if address = [] then throwE (Err ''address is required'')
      else bindE (getE (\<lambda>db. (filter (\<lambda>a. na_Address a = address) (db_node_addresses db),
                             List.find (\<lambda>n. n_Address n = address) (db_nodes db)))) (\<lambda>(held, byNode).
           case held of
             _ # _ # _ \<Rightarrow> throwE ErrCardinality
           | [a] \<Rightarrow> bindE (exec (update_node (na_NodeID a) (\<lambda>n. n\<lparr>n_WalletHTTPPort := Some port\<rparr>))) (\<lambda>_.
                    getE (\<lambda>db. na_NodeID a \<in> set (node_ids db)))
           | [] \<Rightarrow> (case byNode of
                      None \<Rightarrow> returnE False
                    | Some n \<Rightarrow> bindE (exec (update_node (n_ID n) (\<lambda>n. n\<lparr>n_WalletHTTPPort := Some port\<rparr>))) (\<lambda>_. returnE True))))"

end
