(* ===== verification/Peer_Collector.thy ===== *)
theory Peer_Collector
  imports Node_Clients Remote_Store Pg_Submissions
begin

text \<open>
  \<^verbatim>\<open>internal/collector/collector.go\<close>: probing nodes, the intervals between probes, and the
  walk of the peer graph.  The operations take the store through the interface
  \<^verbatim>\<open>storage.Store\<close>, so they run on the central database as well as on a satellite.  A
  \<^verbatim>\<open>NodeClient\<close> is what it answers per address: within one pass an address is dialled at
  most once per client.  A method of the store that only one operation uses is an argument
  of that operation.  The context's deadline is the number of iterations a loop may
  make.  Log lines, the metrics callback and the dial jitter have no effect on the state.
\<close>

section \<open>Probing a node\<close>

text \<open>A probe returns \<^verbatim>\<open>success\<close>, \<^verbatim>\<open>skip\<close> and the error.\<close>

definition err_of :: "'a result \<Rightarrow> error option" where
  "err_of r = (case r of Inl e \<Rightarrow> Some e | Inr _ \<Rightarrow> None)"

definition record_health :: "'s Store \<Rightarrow> time \<Rightarrow> bool \<Rightarrow> HealthCheckInput \<Rightarrow> 's \<Rightarrow> 's \<times> bool \<times> bool \<times> error option" where
  "record_health store now success inp s =
     (let (s', r) = RecordHealthCheck store now inp s in (s', success, False, err_of r))"

definition pollOnceWithSource ::
  "NodeClient \<Rightarrow> 's Store \<Rightarrow> time \<Rightarrow> Node \<Rightarrow> string \<Rightarrow> 's \<Rightarrow> 's \<times> bool \<times> bool \<times> error option" where
  "pollOnceWithSource client store now node probeSource s =
     (case GetInfo client (n_Address node) of
        Inl e \<Rightarrow>
          if e = ErrGRPCAddressUnknown then (s, False, True, None)
          else record_health store now False
                 (zeroHealthCheckInput\<lparr>hci_NodeID := n_ID node, hci_Reachable := False, hci_ProbeSource := probeSource\<rparr>) s
      | Inr info \<Rightarrow>
          let (s, nodeID) =
                (if length (ni_PublicKey info) > 0
                 then (case UpsertConfirmedNode store now (n_Address node) (ni_PublicKey info) DiscoverySourceP2P s of
                         (s', Inl _) \<Rightarrow> (s', n_ID node)
                       | (s', Inr confirmed) \<Rightarrow> (s', n_ID confirmed))
                 else (s, n_ID node))
          in record_health store now True
               \<lparr>hci_NodeID = nodeID, hci_Reachable = ni_Reachable info, hci_ProbeSource = probeSource,
                hci_Height = ni_Height info, hci_ChainTipHeight = ni_ChainTipHeight info, hci_Version = ni_Version info,
                hci_LatencyMS = ni_LatencyMS info, hci_RxtHashrate = ni_RxtHashrate info,
                hci_C29Hashrate = ni_C29Hashrate info, hci_Sha3xHashrate = ni_Sha3xHashrate info,
                hci_PeerIdentityUpdatedAt = ni_PeerIdentityUpdatedAt info,
                hci_ReportedByCollector = None, hci_ReportBatchID = None\<rparr> s)"

definition pollTransportOnce ::
  "NodeClient \<Rightarrow> 's Store \<Rightarrow> time \<Rightarrow> Node \<Rightarrow> string \<Rightarrow> 's \<Rightarrow> 's \<times> error option" where
  "pollTransportOnce client store now node probeSource s =
     (let (s', success, skip, err) = pollOnceWithSource client store now node probeSource s
      in if skip then (s', None) else (s', err))"

definition walletHTTPTarget :: "Node \<Rightarrow> string option" where
  "walletHTTPTarget node =
     (case n_WalletHTTPPort node of
        None \<Rightarrow> None
      | Some port \<Rightarrow>
          (case SplitHostPort (n_Address node) of
             Inl _ \<Rightarrow> None
           | Inr (host, _) \<Rightarrow> if host = [] then None else Some (JoinHostPort host (Itoa port))))"

definition pollWalletHTTPOnce :: "NodeClient \<Rightarrow> 's Store \<Rightarrow> time \<Rightarrow> Node \<Rightarrow> 's \<Rightarrow> 's \<times> bool \<times> bool \<times> error option" where
  "pollWalletHTTPOnce client store now node s =
     (if n_WalletHTTPPort node = None then (s, False, True, None)
      else case walletHTTPTarget node of
        None \<Rightarrow> (s, False, True, None)
      | Some target \<Rightarrow>
          (case GetInfo client target of
             Inl _ \<Rightarrow> record_health store now False
                 (zeroHealthCheckInput\<lparr>hci_NodeID := n_ID node, hci_Reachable := False, hci_ProbeSource := ProbeSourceWalletHTTP\<rparr>) s
           | Inr info \<Rightarrow> record_health store now True
                 (zeroHealthCheckInput\<lparr>hci_NodeID := n_ID node, hci_Reachable := ni_Reachable info,
                    hci_ProbeSource := ProbeSourceWalletHTTP, hci_Height := ni_Height info,
                    hci_ChainTipHeight := ni_ChainTipHeight info\<rparr>) s))"

definition pollWalletHTTPTransportOnce :: "NodeClient \<Rightarrow> 's Store \<Rightarrow> time \<Rightarrow> Node \<Rightarrow> 's \<Rightarrow> 's \<times> error option" where
  "pollWalletHTTPTransportOnce client store now node s =
     (let (s', success, skip, err) = pollWalletHTTPOnce client store now node s
      in if skip then (s', None) else (s', err))"

text \<open>The three probes in turn; \<^verbatim>\<open>errors.Join\<close> is the list of the errors.\<close>

definition add_probe :: "('s \<Rightarrow> 's \<times> error option) option \<Rightarrow> 's \<times> error list \<Rightarrow> 's \<times> error list" where
  "add_probe probe se =
     (case probe of
        None \<Rightarrow> se
      | Some p \<Rightarrow> (case p (fst se) of (s', None) \<Rightarrow> (s', snd se) | (s', Some e) \<Rightarrow> (s', snd se @ [e])))"

definition PollOnce ::
  "NodeClient option \<Rightarrow> NodeClient option \<Rightarrow> NodeClient option \<Rightarrow> 's Store \<Rightarrow> time \<Rightarrow> Node \<Rightarrow> 's \<Rightarrow> 's \<times> error list" where
  "PollOnce grpcClient p2pClient walletHTTPClient store now node s =
     add_probe (map_option (\<lambda>c. pollWalletHTTPTransportOnce c store now node) walletHTTPClient)
     (add_probe (map_option (\<lambda>c. pollTransportOnce c store now node ProbeSourceP2P) p2pClient)
     (add_probe (map_option (\<lambda>c. pollTransportOnce c store now node ProbeSourceGRPC) grpcClient) (s, [])))"

section \<open>Intervals\<close>

definition PollIntervalGeneric :: duration where "PollIntervalGeneric = Hour"
definition PollIntervalPoolOwned :: duration where "PollIntervalPoolOwned = 5 * Minute"
definition PollIntervalUnconfirmed :: duration where "PollIntervalUnconfirmed = 15 * Minute"
definition PollIntervalLikelyDead :: duration where "PollIntervalLikelyDead = 7 * 24 * Hour"
definition NewNodeCheckpoint1 :: duration where "NewNodeCheckpoint1 = 15 * Minute"
definition NewNodeCheckpoint2 :: duration where "NewNodeCheckpoint2 = 30 * Minute"
definition NewNodeCheckpoint3 :: duration where "NewNodeCheckpoint3 = 60 * Minute"
definition PollIntervalNeverContacted :: duration where "PollIntervalNeverContacted = NewNodeCheckpoint1"
definition DiscoveryIntervalGeneric :: duration where "DiscoveryIntervalGeneric = Hour"
definition DiscoveryIntervalPoolOwned :: duration where "DiscoveryIntervalPoolOwned = 10 * Minute"

lemmas interval_defs = PollIntervalGeneric_def PollIntervalPoolOwned_def PollIntervalUnconfirmed_def PollIntervalLikelyDead_def
  NewNodeCheckpoint1_def NewNodeCheckpoint2_def NewNodeCheckpoint3_def PollIntervalNeverContacted_def
  DiscoveryIntervalGeneric_def DiscoveryIntervalPoolOwned_def

text \<open>\<^verbatim>\<open>collectorLikelyDead\<close> is \<^verbatim>\<open>storage.IsLikelyDead\<close>.  The clock reading is an argument.\<close>

definition pollInterval :: "'s Store \<Rightarrow> time \<Rightarrow> Node \<Rightarrow> 's \<Rightarrow> duration" where
  "pollInterval store now n s =
     (if n_PublicKey n = [] then
        (let age = now - n_FirstSeen n in
         if age < NewNodeCheckpoint1 then NewNodeCheckpoint1 - age
         else if age < NewNodeCheckpoint2 then NewNodeCheckpoint2 - age
         else if age < NewNodeCheckpoint3 then NewNodeCheckpoint3 - age
         else (case GetNodeHistory store (n_ID n) 3 s of
                 Inl _ \<Rightarrow> PollIntervalUnconfirmed
               | Inr history \<Rightarrow>
                   if length history = 0 then PollIntervalNeverContacted
                   else if IsLikelyDead history then PollIntervalLikelyDead
                   else PollIntervalUnconfirmed))
      else if isPoolOwned n then PollIntervalPoolOwned
      else PollIntervalGeneric)"

definition discoveryInterval :: "Node \<Rightarrow> duration" where
  "discoveryInterval n = (if isPoolOwned n then DiscoveryIntervalPoolOwned else DiscoveryIntervalGeneric)"

section \<open>The collector\<close>

record 's Collector =
  co_SeedNodes :: "string list"
  co_Storage :: 's
  co_GRPCClient :: "NodeClient option"
  co_P2PClient :: "NodeClient option"
  co_WalletHTTPClient :: "NodeClient option"
  co_OwnedWalletHTTPPorts :: "(string \<times> int) list"
  co_WalletHTTPEnabled :: bool
  co_PeerEdgeRetentionEnabled :: bool
  co_PeerEdgeObservationRetention :: duration
  co_nextPoll :: "(string \<times> time) list"
  co_nextDiscovery :: "(string \<times> time) list"

definition due :: "string \<Rightarrow> time \<Rightarrow> 's Collector \<Rightarrow> bool" where
  "due addr now c = (case lookup (co_nextPoll c) addr of None \<Rightarrow> True | Some t \<Rightarrow> \<not> now < t)"

definition setNextPoll :: "string \<Rightarrow> time \<Rightarrow> 's Collector \<Rightarrow> 's Collector" where
  "setNextPoll addr t c = c\<lparr>co_nextPoll := AList.update addr t (co_nextPoll c)\<rparr>"

definition dueForDiscovery :: "string \<Rightarrow> time \<Rightarrow> 's Collector \<Rightarrow> bool" where
  "dueForDiscovery key now c = (case lookup (co_nextDiscovery c) key of None \<Rightarrow> True | Some t \<Rightarrow> \<not> now < t)"

definition setNextDiscovery :: "string \<Rightarrow> time \<Rightarrow> 's Collector \<Rightarrow> 's Collector" where
  "setNextDiscovery key t c = c\<lparr>co_nextDiscovery := AList.update key t (co_nextDiscovery c)\<rparr>"

definition discoveryCooldownKey :: "string \<Rightarrow> string \<Rightarrow> string" where
  "discoveryCooldownKey transportLabel addr = transportLabel @ '':'' @ addr"

section \<open>The walk\<close>

text \<open>The loop over the reported peers: what is recorded, and the peers that were allowed and recorded.\<close>

fun record_peers :: "'s Store \<Rightarrow> time \<Rightarrow> Node \<Rightarrow> DiscoveredPeer list \<Rightarrow> 's \<Rightarrow> 's \<times> DiscoveredPeer list" where
  "record_peers store now fromNode [] s = (s, [])"
| "record_peers store now fromNode (peer # peers) s =
     (if \<not> peerAddressAllowed (dp_Address peer) then record_peers store now fromNode peers s
      else case UpsertDiscoveredNode store now (dp_Address peer) DiscoverySourceP2P [] None s of
        (s', Inl _) \<Rightarrow> record_peers store now fromNode peers s'
      | (s', Inr toNode) \<Rightarrow>
          let s'' = fst (RecordPeerEdgeObservation store now (n_ID fromNode) (n_ID toNode) None s');
              (s3, allowed) = record_peers store now fromNode peers s''
          in (s3, peer # allowed))"

definition walkNodePeers ::
  "'s Store \<Rightarrow> NodeClient \<Rightarrow> string \<Rightarrow> string \<Rightarrow> time \<Rightarrow> 's Collector \<Rightarrow> 's Collector \<times> DiscoveredPeer list" where
  "walkNodePeers store client transportLabel addr now c =
     (case UpsertDiscoveredNode store now addr DiscoverySourceP2P [] None (co_Storage c) of
        (s, Inl _) \<Rightarrow> (c\<lparr>co_Storage := s\<rparr>, [])
      | (s, Inr fromNode) \<Rightarrow>
          let c = c\<lparr>co_Storage := s\<rparr>; cooldownKey = discoveryCooldownKey transportLabel addr
          in if \<not> dueForDiscovery cooldownKey now c then (c, [])
             else case GetPeers client addr of
               Inl _ \<Rightarrow> (c, [])
             | Inr peers \<Rightarrow>
                 let c = setNextDiscovery cooldownKey (now + discoveryInterval fromNode) c;
                     (s, allowed) = record_peers store now fromNode peers (co_Storage c)
                 in (c\<lparr>co_Storage := s\<rparr>, allowed))"

text \<open>
  The breadth-first walk.  \<open>budget\<close> is how many iterations fit before the deadline; the
  result includes the queue that is left and the addresses visited.
\<close>

fun discover_loop ::
  "nat \<Rightarrow> 's Store \<Rightarrow> NodeClient \<Rightarrow> string \<Rightarrow> time \<Rightarrow> string list \<Rightarrow> string list \<Rightarrow> 's Collector \<Rightarrow>
   's Collector \<times> string list \<times> string list" where
  "discover_loop budget store client label now visited [] c = (c, visited, [])"
| "discover_loop 0 store client label now visited queue c = (c, visited, queue)"
| "discover_loop (Suc budget) store client label now visited (addr # queue) c =
     (if addr \<in> set visited then discover_loop budget store client label now visited queue c
      else let visited = addr # visited;
               (c, peers) = walkNodePeers store client label addr now c;
               queue = queue @ filter (\<lambda>a. a \<notin> set visited) (map dp_Address peers)
           in discover_loop budget store client label now visited queue c)"

definition discoverWith ::
  "nat \<Rightarrow> 's Store \<Rightarrow> NodeClient \<Rightarrow> string \<Rightarrow> time \<Rightarrow> 's Collector \<Rightarrow> 's Collector \<times> string list \<times> string list" where
  "discoverWith budget store client transportLabel now c =
     discover_loop budget store client transportLabel now [] (co_SeedNodes c) c"

definition Discover :: "nat \<Rightarrow> 's Store \<Rightarrow> time \<Rightarrow> 's Collector \<Rightarrow> 's Collector" where
  "Discover budget store now c =
     (let c = (case co_GRPCClient c of None \<Rightarrow> c | Some client \<Rightarrow> fst (discoverWith budget store client ''grpc'' now c))
      in case co_P2PClient c of None \<Rightarrow> c | Some client \<Rightarrow> fst (discoverWith budget store client ''p2p'' now c))"

text \<open>The flat fan-out over owned nodes; the workers are run one after the other.\<close>

fun add_unseen :: "string list \<Rightarrow> string list \<Rightarrow> string list" where
  "add_unseen addrs [] = addrs"
| "add_unseen addrs (a # as) = add_unseen (if a \<in> set addrs then addrs else addrs @ [a]) as"

definition ownedAddresses :: "'s Store \<Rightarrow> 's Collector \<Rightarrow> string list result" where
  "ownedAddresses store c =
     (let addrs = add_unseen [] (co_SeedNodes c)
      in case ListNodes store (emptyFilter\<lparr>nf_Owned := Some True\<rparr>) (co_Storage c) of
           Inl e \<Rightarrow> Fail e
         | Inr nodes \<Rightarrow> Ok (add_unseen addrs (map n_Address nodes)))"

definition discoverOwnedWith ::
  "'s Store \<Rightarrow> NodeClient \<Rightarrow> string \<Rightarrow> time \<Rightarrow> 's Collector \<Rightarrow> 's Collector \<times> error option" where
  "discoverOwnedWith store client transportLabel now c =
     (case ownedAddresses store c of
        Inl e \<Rightarrow> (c, Some e)
      | Inr addrs \<Rightarrow> (foldl (\<lambda>c addr. fst (walkNodePeers store client transportLabel addr now c)) c addrs, None))"

fun syncOwnedWalletHTTPPorts :: "(string \<Rightarrow> int \<Rightarrow> 's \<Rightarrow> 's \<times> bool result) \<Rightarrow> (string \<times> int) list \<Rightarrow> 's \<Rightarrow> 's" where
  "syncOwnedWalletHTTPPorts SetNodeWalletHTTPPortByAddress [] s = s"
| "syncOwnedWalletHTTPPorts SetNodeWalletHTTPPortByAddress ((addr, port) # ports) s =
     syncOwnedWalletHTTPPorts SetNodeWalletHTTPPortByAddress ports (fst (SetNodeWalletHTTPPortByAddress addr port s))"

definition DiscoverOwned ::
  "'s Store \<Rightarrow> (string \<Rightarrow> int \<Rightarrow> 's \<Rightarrow> 's \<times> bool result) \<Rightarrow> time \<Rightarrow> 's Collector \<Rightarrow> 's Collector \<times> error option" where
  "DiscoverOwned store SetNodeWalletHTTPPortByAddress now c =
     (let c = c\<lparr>co_Storage := syncOwnedWalletHTTPPorts SetNodeWalletHTTPPortByAddress (co_OwnedWalletHTTPPorts c) (co_Storage c)\<rparr>;
          (c, err) = (case co_GRPCClient c of None \<Rightarrow> (c, None) | Some client \<Rightarrow> discoverOwnedWith store client ''grpc'' now c)
      in if err \<noteq> None then (c, err)
         else case co_P2PClient c of None \<Rightarrow> (c, None) | Some client \<Rightarrow> discoverOwnedWith store client ''p2p'' now c)"

section \<open>Polling passes\<close>

text \<open>
  A pass decides for every listed node whether it is due and when it is due next, and
  starts its probes; the probes are \<open>task\<close>s, run by the worker pools in some order.  A
  P2P probe goes to the pool of its shard.
\<close>

datatype task = GRPCTask Node | P2PTask int Node | WalletTask Node

definition start :: "'s Collector \<Rightarrow> Node \<Rightarrow> task list" where
  "start c n =
     (if co_GRPCClient c \<noteq> None then [GRPCTask n] else []) @
     (if co_P2PClient c \<noteq> None then [P2PTask (P2PShardIndex (n_Address n) (p2pShardCount (co_P2PClient c))) n] else []) @
     (if co_WalletHTTPEnabled c \<and> co_WalletHTTPClient c \<noteq> None \<and> n_WalletHTTPPort n \<noteq> None then [WalletTask n] else [])"

fun schedule :: "'s Store \<Rightarrow> time \<Rightarrow> Node list \<Rightarrow> 's Collector \<Rightarrow> 's Collector \<times> task list" where
  "schedule store now [] c = (c, [])"
| "schedule store now (n # ns) c =
     (if \<not> due (n_Address n) now c then schedule store now ns c
      else let c = setNextPoll (n_Address n) (now + pollInterval store now n (co_Storage c)) c;
               (c, ts) = schedule store now ns c
           in (c, start c n @ ts))"

text \<open>What a worker does; its error is logged.\<close>

definition run_task :: "'s Store \<Rightarrow> time \<Rightarrow> 's Collector \<Rightarrow> task \<Rightarrow> 's Collector" where
  "run_task store now c t = c\<lparr>co_Storage :=
     (case t of
        GRPCTask n \<Rightarrow> (case co_GRPCClient c of None \<Rightarrow> co_Storage c
          | Some client \<Rightarrow> fst (pollTransportOnce client store now n ProbeSourceGRPC (co_Storage c)))
      | P2PTask _ n \<Rightarrow> (case co_P2PClient c of None \<Rightarrow> co_Storage c
          | Some client \<Rightarrow> fst (pollTransportOnce client store now n ProbeSourceP2P (co_Storage c)))
      | WalletTask n \<Rightarrow> (case co_WalletHTTPClient c of None \<Rightarrow> co_Storage c
          | Some client \<Rightarrow> fst (pollWalletHTTPTransportOnce client store now n (co_Storage c))))\<rparr>"

text \<open>\<open>order\<close> is the order in which the workers happen to run.\<close>

definition poll ::
  "'s Store \<Rightarrow> (task list \<Rightarrow> task list) \<Rightarrow> time \<Rightarrow> NodeFilter \<Rightarrow> 's Collector \<Rightarrow> 's Collector \<times> error option" where
  "poll store order now f c =
     (case ListNodes store f (co_Storage c) of
        Inl e \<Rightarrow> (c, Some e)
      | Inr nodes \<Rightarrow> let (c, ts) = schedule store now nodes c in (foldl (run_task store now) c (order ts), None))"

definition ownedConfirmedFilter :: NodeFilter where
  "ownedConfirmedFilter = emptyFilter\<lparr>nf_Confirmed := Some True, nf_Owned := Some True\<rparr>"
definition genericConfirmedFilter :: NodeFilter where
  "genericConfirmedFilter = emptyFilter\<lparr>nf_Confirmed := Some True, nf_Owned := Some False\<rparr>"
definition unconfirmedFilter :: NodeFilter where
  "unconfirmedFilter = emptyFilter\<lparr>nf_Confirmed := Some False, nf_HasHealthChecks := Some True\<rparr>"
definition neverContactedFilter :: NodeFilter where
  "neverContactedFilter = emptyFilter\<lparr>nf_Confirmed := Some False, nf_HasHealthChecks := Some False\<rparr>"

definition QueueSizes :: "'s Store \<Rightarrow> 's Collector \<Rightarrow> (nat \<times> nat \<times> nat \<times> nat) result" where
  "QueueSizes store c =
     (case ListNodes store ownedConfirmedFilter (co_Storage c) of
        Inl e \<Rightarrow> Fail e
      | Inr ownedConfirmedNodes \<Rightarrow>
     (case ListNodes store genericConfirmedFilter (co_Storage c) of
        Inl e \<Rightarrow> Fail e
      | Inr genericConfirmedNodes \<Rightarrow>
     (case ListNodes store unconfirmedFilter (co_Storage c) of
        Inl e \<Rightarrow> Fail e
      | Inr unconfirmedNodes \<Rightarrow>
     (case ListNodes store neverContactedFilter (co_Storage c) of
        Inl e \<Rightarrow> Fail e
      | Inr neverContactedNodes \<Rightarrow>
          Ok (length ownedConfirmedNodes, length genericConfirmedNodes, length unconfirmedNodes, length neverContactedNodes)))))"

lemmas queue_filter_defs = ownedConfirmedFilter_def genericConfirmedFilter_def unconfirmedFilter_def neverContactedFilter_def

section \<open>Retention\<close>

definition defaultPeerEdgeObservationRetention :: duration where
  "defaultPeerEdgeObservationRetention = 30 * 24 * Hour"
definition peerEdgeRetentionBatchSize :: int where "peerEdgeRetentionBatchSize = 5000"

definition collector_PruneOldPeerEdgeObservations :: "time \<Rightarrow> DB Collector \<Rightarrow> (DB Collector \<times> nat \<times> error option) option" where
  "collector_PruneOldPeerEdgeObservations now c =
     (if \<not> co_PeerEdgeRetentionEnabled c then Some (c, 0, None)
      else let retention = (if co_PeerEdgeObservationRetention c \<le> 0 then defaultPeerEdgeObservationRetention
                            else co_PeerEdgeObservationRetention c);
               cutoff = now + - retention
           in map_option (\<lambda>(db, deleted, err). (c\<lparr>co_Storage := db\<rparr>, deleted, err))
                (PruneOldPeerEdgeObservations cutoff peerEdgeRetentionBatchSize (co_Storage c)))"

end
