(* ===== verification/Auth.thy ===== *)
theory Auth
  imports Go_Strings
begin

text \<open>
  The two gates in front of the privileged routes: \<^verbatim>\<open>internal/adminauth/adminauth.go\<close>
  (HTTP Basic Auth for \<^verbatim>\<open>/admin/*\<close>) and \<^verbatim>\<open>internal/api/collector_auth.go\<close> (the per-collector
  key of the report channel).  A handler takes a request and the state behind the API and
  returns the new state with the response; a middleware maps handlers to handlers.
\<close>

section \<open>HTTP\<close>

text \<open>
  The parts of a request the modelled handlers read: the headers, what \<^verbatim>\<open>r.BasicAuth()\<close>
  yields, the remote address, and the body (what reading it to the end yields).
\<close>

record http_request =
  rq_Header :: "string \<Rightarrow> string"
  rq_BasicAuth :: "(string \<times> string) option"
  rq_RemoteAddr :: string
  rq_Body :: "string result"

datatype 'b response = Response int 'b | ErrorResponse int error

type_synonym ('s, 'b) handler = "http_request \<Rightarrow> 's \<Rightarrow> 's \<times> 'b response"

abbreviation StatusOK :: int where "StatusOK \<equiv> 200"
abbreviation StatusAccepted :: int where "StatusAccepted \<equiv> 202"
abbreviation StatusBadRequest :: int where "StatusBadRequest \<equiv> 400"
abbreviation StatusUnauthorized :: int where "StatusUnauthorized \<equiv> 401"
abbreviation StatusNotFound :: int where "StatusNotFound \<equiv> 404"
abbreviation StatusConflict :: int where "StatusConflict \<equiv> 409"
abbreviation StatusTooManyRequests :: int where "StatusTooManyRequests \<equiv> 429"
abbreviation StatusInternalServerError :: int where "StatusInternalServerError \<equiv> 500"
abbreviation StatusServiceUnavailable :: int where "StatusServiceUnavailable \<equiv> 503"

section \<open>crypto/subtle\<close>

definition xor_bytes :: "string \<Rightarrow> string \<Rightarrow> nat list" where
  "xor_bytes x y = map2 (\<lambda>a b. xor (of_char a) (of_char b)) x y"

definition ConstantTimeCompare :: "string \<Rightarrow> string \<Rightarrow> int" where
  "ConstantTimeCompare x y =
     (if length x \<noteq> length y then 0
      else if foldl or 0 (xor_bytes x y) = 0 then 1 else 0)"

section \<open>adminauth\<close>

record Credentials =
  cr_Username :: string
  cr_Password :: string

definition Configured :: "Credentials \<Rightarrow> bool" where
  "Configured c \<longleftrightarrow> cr_Username c \<noteq> [] \<and> cr_Password c \<noteq> []"

definition basicAuthMiddleware :: "string \<Rightarrow> string \<Rightarrow> ('s, 'b) handler \<Rightarrow> ('s, 'b) handler" where
  "basicAuthMiddleware username password next_handler r s =
     (let (user, pass, ok) = (case rq_BasicAuth r of Some (u, p) \<Rightarrow> (u, p, True) | None \<Rightarrow> ([], [], False));
          validUser = (ConstantTimeCompare user username = 1);
          validPass = (ConstantTimeCompare pass password = 1)
      in if \<not> ok \<or> \<not> validUser \<or> \<not> validPass then (s, ErrorResponse StatusUnauthorized (Err ''unauthorized''))
         else next_handler r s)"

definition Wrap :: "Credentials \<Rightarrow> ('s, 'b) handler \<Rightarrow> ('s, 'b) handler" where
  "Wrap creds next_handler =
     (if \<not> Configured creds
      then (\<lambda>r s. (s, ErrorResponse StatusServiceUnavailable (Err ''admin area disabled'')))
      else basicAuthMiddleware (cr_Username creds) (cr_Password creds) next_handler)"

section \<open>Collector keys\<close>

definition collectorKeyHeader :: string where "collectorKeyHeader = ''X-Collector-Key''"

record CollectorConfig =
  cc_APIKey :: string
  cc_SelfAddresses :: "string list"

text \<open>The loop over the map of collectors, in whichever order it is iterated; a later match wins.\<close>

fun match_collector :: "string \<Rightarrow> (string \<times> CollectorConfig) list \<Rightarrow> string \<times> bool \<Rightarrow> string \<times> bool" where
  "match_collector provided [] acc = acc"
| "match_collector provided ((candidateName, cfg) # rest) acc =
     match_collector provided rest
       (if cc_APIKey cfg = [] then acc
        else if ConstantTimeCompare provided (cc_APIKey cfg) = 1 then (candidateName, True)
        else acc)"

definition authenticateCollector :: "(string \<times> CollectorConfig) list \<Rightarrow> http_request \<Rightarrow> string \<times> bool" where
  "authenticateCollector collectors r =
     (let provided = rq_Header r collectorKeyHeader
      in if provided = [] then ([], False) else match_collector provided collectors ([], False))"

record collectorContext =
  cx_Name :: string
  cx_SelfAddresses :: "string list"

definition wrapCollectorAuth ::
  "(string \<times> CollectorConfig) list \<Rightarrow> (collectorContext \<Rightarrow> ('s, 'b) handler) \<Rightarrow> ('s, 'b) handler" where
  "wrapCollectorAuth collectors next_handler =
     (if length collectors = 0
      then (\<lambda>r s. (s, ErrorResponse StatusServiceUnavailable (Err ''collector ingestion disabled'')))
      else (\<lambda>r s.
        let (name, ok) = authenticateCollector collectors r
        in if \<not> ok then (s, ErrorResponse StatusUnauthorized (Err ''unauthorized''))
           else next_handler \<lparr>cx_Name = name,
                  cx_SelfAddresses = (case lookup collectors name of Some cfg \<Rightarrow> cc_SelfAddresses cfg | None \<Rightarrow> [])\<rparr> r s))"

section \<open>Properties\<close>

lemma foldl_or_zero: "foldl or a ws = (0 :: nat) \<longleftrightarrow> a = 0 \<and> (\<forall>w\<in>set ws. w = 0)"
proof (induction ws arbitrary: a)
  case (Cons w ws)
  have "or a w = 0 \<longleftrightarrow> a = 0 \<and> w = 0" by (auto simp: bit_eq_iff bit_or_iff)
  then show ?case using Cons by auto
qed simp

lemma xor_char_zero: "xor (of_char a) (of_char b) = (0 :: nat) \<longleftrightarrow> a = b"
proof -
  have "xor x y = 0 \<longleftrightarrow> x = y" for x y :: nat by (auto simp: bit_eq_iff bit_xor_iff)
  then show ?thesis by simp
qed

lemma ConstantTimeCompare_eq: "ConstantTimeCompare x y = 1 \<longleftrightarrow> x = y"
proof -
  have "(\<forall>w\<in>set (xor_bytes x y). w = 0) \<longleftrightarrow> x = y" if "length x = length y"
    using that by (induction x y rule: list_induct2) (auto simp: xor_bytes_def xor_char_zero)
  then show ?thesis by (auto simp: ConstantTimeCompare_def foldl_or_zero)
qed

text \<open>
  The admin gate.  A request reaches the handler exactly when both credentials are
  configured and the request supplies exactly them; otherwise nothing changes and the
  answer is 503 (not configured) or 401.
\<close>

theorem admin_gate:
  "Wrap creds h r s =
     (if cr_Username creds = [] \<or> cr_Password creds = []
      then (s, ErrorResponse StatusServiceUnavailable (Err ''admin area disabled''))
      else if rq_BasicAuth r = Some (cr_Username creds, cr_Password creds) then h r s
      else (s, ErrorResponse StatusUnauthorized (Err ''unauthorized'')))"
  by (auto simp: Wrap_def Configured_def basicAuthMiddleware_def ConstantTimeCompare_eq split: option.splits)

lemma match_collector_result:
  "match_collector key cs acc = (name, ok) \<Longrightarrow>
   (ok \<and> (\<exists>cfg. (name, cfg) \<in> set cs \<and> cc_APIKey cfg = key \<and> key \<noteq> [])) \<or>
   ((name, ok) = acc \<and> (\<forall>(n, cfg)\<in>set cs. cc_APIKey cfg = [] \<or> cc_APIKey cfg \<noteq> key))"
proof (induction cs arbitrary: acc)
  case (Cons c cs)
  obtain n cfg where c: "c = (n, cfg)" by (cases c)
  from Cons.IH [of "if cc_APIKey cfg = [] then acc else if ConstantTimeCompare key (cc_APIKey cfg) = 1 then (n, True) else acc"]
    Cons.prems show ?case by (auto simp: c ConstantTimeCompare_eq split: if_splits)
qed simp

lemma collector_auth_cases:
  assumes "distinct (map fst collectors)"
  shows "(\<exists>name cfg. (name, cfg) \<in> set collectors \<and> cc_APIKey cfg = rq_Header r collectorKeyHeader \<and> cc_APIKey cfg \<noteq> [] \<and>
      wrapCollectorAuth collectors h r s = h \<lparr>cx_Name = name, cx_SelfAddresses = cc_SelfAddresses cfg\<rparr> r s) \<or>
    ((rq_Header r collectorKeyHeader = [] \<or> rq_Header r collectorKeyHeader \<notin> cc_APIKey ` snd ` set collectors) \<and>
      (\<exists>e. wrapCollectorAuth collectors h r s =
        (s, ErrorResponse (if collectors = [] then StatusServiceUnavailable else StatusUnauthorized) e)))"
proof -
  let ?key = "rq_Header r collectorKeyHeader"
  consider "collectors = []" | "collectors \<noteq> []" "?key = []" | "collectors \<noteq> []" "?key \<noteq> []" by blast
  then show ?thesis
  proof cases
    case 3
    obtain name ok where m: "match_collector ?key collectors ([], False) = (name, ok)" by (metis surj_pair)
    from match_collector_result [OF this] show ?thesis
    proof
      assume "ok \<and> (\<exists>cfg. (name, cfg) \<in> set collectors \<and> cc_APIKey cfg = ?key \<and> ?key \<noteq> [])"
      then obtain cfg where ok: ok and c: "(name, cfg) \<in> set collectors" "cc_APIKey cfg = ?key" "?key \<noteq> []" by blast
      have "lookup collectors name = Some cfg" using c(1) assms by simp
      with 3 m ok have "wrapCollectorAuth collectors h r s = h \<lparr>cx_Name = name, cx_SelfAddresses = cc_SelfAddresses cfg\<rparr> r s"
        by (simp add: wrapCollectorAuth_def authenticateCollector_def)
      with c show ?thesis by metis
    next
      assume n: "(name, ok) = ([], False) \<and> (\<forall>(n, cfg)\<in>set collectors. cc_APIKey cfg = [] \<or> cc_APIKey cfg \<noteq> ?key)"
      then have "?key \<notin> cc_APIKey ` snd ` set collectors" using 3 by fastforce
      with 3 m n show ?thesis by (simp add: wrapCollectorAuth_def authenticateCollector_def)
    qed
  qed (simp_all add: wrapCollectorAuth_def authenticateCollector_def)
qed

text \<open>
  The gate of the report channel.  Either the request carries the key of a configured
  collector, and the handler runs with that collector's name and its own configured
  addresses, or the key is empty or nobody's, nothing changes, and the answer is 401, or
  503 when no collector is configured at all.  A collector whose configured key is empty
  admits nobody.
\<close>

theorem collector_gate:
  assumes "distinct (map fst collectors)"
  shows "(\<exists>name cfg. (name, cfg) \<in> set collectors \<and> cc_APIKey cfg = rq_Header r collectorKeyHeader \<and> cc_APIKey cfg \<noteq> [] \<and>
      wrapCollectorAuth collectors h r s = h \<lparr>cx_Name = name, cx_SelfAddresses = cc_SelfAddresses cfg\<rparr> r s) \<or>
    ((rq_Header r collectorKeyHeader = [] \<or> rq_Header r collectorKeyHeader \<notin> cc_APIKey ` snd ` set collectors) \<and>
      (\<exists>e. wrapCollectorAuth collectors h r s =
        (s, ErrorResponse (if collectors = [] then StatusServiceUnavailable else StatusUnauthorized) e)))"
  using assms by (rule collector_auth_cases)

theorem collector_gate_witness:
  "\<exists>e. wrapCollectorAuth [(''eu'', \<lparr>cc_APIKey = ''k'', cc_SelfAddresses = []\<rparr>)] (\<lambda>_ _ s. (s, Response 200 ()))
     \<lparr>rq_Header = (\<lambda>_. ''x''), rq_BasicAuth = None, rq_RemoteAddr = [], rq_Body = Ok []\<rparr> (7 :: nat) = (7, ErrorResponse 401 e)"
  using collector_gate [of "[(''eu'', \<lparr>cc_APIKey = ''k'', cc_SelfAddresses = []\<rparr>)]"
      "\<lparr>rq_Header = (\<lambda>_. ''x''), rq_BasicAuth = None, rq_RemoteAddr = [], rq_Body = Ok []\<rparr>" "\<lambda>_ _ s. (s, Response 200 ())" "7 :: nat"]
  by simp

end
