(* ===== verification/Submission_Api.thy ===== *)
theory Submission_Api
  imports Interleaving Peer_Collector Rate_Limit Auth
begin

text \<open>
  \<^verbatim>\<open>internal/api/api.go\<close>, \<^verbatim>\<open>wallet_nodes.go\<close> and \<^verbatim>\<open>probe.go\<close>: the registration of nodes
  and of wallet endpoints, its review by an operator, and the forced poll.  A handler is a
  program (theory \<^verbatim>\<open>Interleaving\<close>) whose actions are the store's methods and the operations
  of the limiter and the lockout tracker; it ends with the response.  Goroutines a handler
  launches are added to \<open>api_jobs\<close>.  JSON decoding, \<^verbatim>\<open>uuid.Parse\<close> and the token bucket are
  parameters.  Response headers are not modelled, and \<^verbatim>\<open>PollOnce\<close> is one action.
\<close>

section \<open>State\<close>

datatype job =
    ProbeSubmission uuid string
  | ProbeWalletSubmission uuid string int
  | PollApproved Node

record 'l api =
  api_db :: DB
  api_now :: time
  api_limiter :: "'l ipRateLimiter"
  api_lockouts :: tracker
  api_jobs :: "job list"

text \<open>
  What the router hands to the handlers.  A decoded JSON object's port may be absent or of
  any type; the wallet request has its port under another key and only the first two fields.
\<close>

record raw_request =
  raw_Host :: string
  raw_Port :: "jval option"
  raw_Label :: string
  raw_OwnerTag :: string

record 'l env =
  env_grpcClient :: "NodeClient option"
  env_p2pClient :: "NodeClient option"
  env_walletHTTPClient :: "NodeClient option"
  env_newBucket :: "duration \<Rightarrow> nat \<Rightarrow> 'l"
  env_allow :: "time \<Rightarrow> 'l \<Rightarrow> 'l \<times> bool"
  env_decode :: "string result \<Rightarrow> raw_request result"
  env_decodeWallet :: "string result \<Rightarrow> raw_request result"
  env_decodeReason :: "string result \<Rightarrow> string result"
  env_parseUUID :: "string \<Rightarrow> uuid option"

definition MaxPendingSubmissions :: nat where "MaxPendingSubmissions = 100"

section \<open>Requests\<close>

definition flexPort_UnmarshalJSON :: "jval \<Rightarrow> int result" where
  "flexPort_UnmarshalJSON data =
     (case data of
        JNull \<Rightarrow> Ok 0
      | JNum n \<Rightarrow> if - (2 ^ 63) \<le> n \<and> n < 2 ^ 63 then Ok n else Fail (Err ''port must be a number'')
      | JStr s \<Rightarrow> (case Atoi s of None \<Rightarrow> Fail (Err ''port must be a number'') | Some n \<Rightarrow> Ok n)
      | _ \<Rightarrow> Fail (Err ''port must be a number''))"

record createNodeRequest =
  cn_Host :: string
  cn_Port :: int
  cn_Label :: string
  cn_OwnerTag :: string

definition decode_request :: "(string result \<Rightarrow> raw_request result) \<Rightarrow> string result \<Rightarrow> createNodeRequest result" where
  "decode_request decode body =
     (case decode body of
        Inl err \<Rightarrow> Fail err
      | Inr raw \<Rightarrow>
          (case (case raw_Port raw of None \<Rightarrow> Ok 0 | Some v \<Rightarrow> flexPort_UnmarshalJSON v) of
             Inl err \<Rightarrow> Fail err
           | Inr port \<Rightarrow> Ok \<lparr>cn_Host = raw_Host raw, cn_Port = port, cn_Label = raw_Label raw, cn_OwnerTag = raw_OwnerTag raw\<rparr>))"

section \<open>Actions\<close>

definition db_act :: "(time \<Rightarrow> DB \<Rightarrow> DB \<times> 'a) \<Rightarrow> ('l api, 'a) prog" where
  "db_act f = act (\<lambda>s. case f (api_now s) (api_db s) of (db, x) \<Rightarrow> (s\<lparr>api_db := db\<rparr>, x))"

definition db_read :: "(DB \<Rightarrow> 'a) \<Rightarrow> ('l api, 'a) prog" where
  "db_read f = observe (\<lambda>s. f (api_db s))"

definition go :: "job \<Rightarrow> ('l api, unit) prog" where
  "go j = act (\<lambda>s. (s\<lparr>api_jobs := api_jobs s @ [j]\<rparr>, ()))"

definition strike :: "string \<Rightarrow> ('l api, unit) prog" where
  "strike ip = act (\<lambda>s. (s\<lparr>api_lockouts := RecordInvalidStrike (api_now s) ip (api_lockouts s)\<rparr>, ()))"

definition locked_out :: "string \<Rightarrow> ('l api, bool) prog" where
  "locked_out ip = observe (\<lambda>s. fst (IsLockedOut (api_now s) ip (api_lockouts s)))"

definition allowed :: "'l env \<Rightarrow> string \<Rightarrow> ('l api, bool) prog" where
  "allowed e ip = act (\<lambda>s. case ipRateLimiter_Allow (env_newBucket e) (env_allow e) (api_now s) ip (api_limiter s) of
     (l, ok) \<Rightarrow> (s\<lparr>api_limiter := l\<rparr>, ok))"

text \<open>\<^verbatim>\<open>writeError\<close> ends a handler.\<close>

definition fails :: "int \<Rightarrow> error \<Rightarrow> ('l api, 'b response) prog" where
  "fails status err = Done (ErrorResponse status err)"

definition invalid :: "string \<Rightarrow> error \<Rightarrow> ('l api, 'b response) prog" where
  "invalid ip err = bindP (strike ip) (\<lambda>_. fails StatusBadRequest err)"

definition nonempty :: "string \<Rightarrow> string option" where
  "nonempty s = (if s \<noteq> [] then Some s else None)"

section \<open>Node submissions\<close>

definition handleCreateNode :: "'l env \<Rightarrow> http_request \<Rightarrow> ('l api, PendingSubmission response) prog" where
  "handleCreateNode e r =
     (case decode_request (env_decode e) (rq_Body r) of
        Inl _ \<Rightarrow> fails StatusBadRequest (Err ''invalid JSON body'')
      | Inr req \<Rightarrow>
          let ip = clientIP (rq_RemoteAddr r) in
          bindP (locked_out ip) (\<lambda>locked.
          if locked then fails StatusTooManyRequests (Err ''this source has been temporarily blocked'')
          else bindP (allowed e ip) (\<lambda>ok.
          if \<not> ok then fails StatusTooManyRequests (Err ''too many submissions from this source'')
          else if cn_Host req = [] then invalid ip (Err ''host is required'')
          else if cn_Port req < 1 \<or> cn_Port req > 65535 then invalid ip (Err ''port must be between 1 and 65535'')
          else case validateSubmittedHost (cn_Host req) of
            Inl err \<Rightarrow> invalid ip err
          | Inr _ \<Rightarrow>
              let address = cn_Host req @ '':'' @ Itoa (cn_Port req) in
              bindP (db_read (IsAddressPubliclyOptedIn address)) (\<lambda>optedIn.
              if optedIn then fails StatusConflict (Err ''this address is already publicly registered'')
              else bindP (db_read pg_CountPendingSubmissions) (\<lambda>pendingCount.
              if pendingCount \<ge> MaxPendingSubmissions then fails StatusServiceUnavailable (Err ''submission queue is full'')
              else bindP (db_act (\<lambda>now. pg_CreatePendingSubmission now address (nonempty (cn_Label req)) (nonempty (cn_OwnerTag req)))) (\<lambda>created.
              case created of
                Inl err \<Rightarrow> fails StatusInternalServerError err
              | Inr submission \<Rightarrow>
                  bindP (go (ProbeSubmission (ps_ID submission) address)) (\<lambda>_.
                  Done (Response StatusAccepted submission))))))))"

definition probeSubmission :: "'l env \<Rightarrow> uuid \<Rightarrow> string \<Rightarrow> ('l api, unit) prog" where
  "probeSubmission e sid address =
     (let answers = (\<lambda>client. case client of
            None \<Rightarrow> False
          | Some c \<Rightarrow> (case GetInfo c address of Inl _ \<Rightarrow> False | Inr info \<Rightarrow> ni_Reachable info))
      in bindP (db_act (\<lambda>now. pg_RecordSubmissionProbeResult now sid
           (list_ex answers [env_grpcClient e, env_p2pClient e]))) (\<lambda>_. Done ()))"

definition handleListSubmissions :: "string \<Rightarrow> ('l api, PendingSubmission list response) prog" where
  "handleListSubmissions status =
     bindP (db_read (pg_ListPendingSubmissions status)) (\<lambda>res. case res of
       Inl err \<Rightarrow> fails StatusInternalServerError err
     | Inr submissions \<Rightarrow> Done (Response StatusOK submissions))"

text \<open>The part approval and rejection share: the identifier, the submission and its status.\<close>

definition with_pending :: "'l env \<Rightarrow> string \<Rightarrow> (uuid \<Rightarrow> PendingSubmission \<Rightarrow> ('l api, 'b response) prog) \<Rightarrow> ('l api, 'b response) prog" where
  "with_pending e pathID k =
     (case env_parseUUID e pathID of
        None \<Rightarrow> fails StatusBadRequest (Err ''invalid submission id'')
      | Some sid \<Rightarrow> bindP (db_read (pg_GetPendingSubmission sid)) (\<lambda>res. case res of
          Inl err \<Rightarrow> if err = ErrNotFound then fails StatusNotFound (Err ''submission not found'')
                     else fails StatusInternalServerError err
        | Inr submission \<Rightarrow>
            if ps_Status submission \<noteq> SubmissionStatusPending then fails StatusConflict (Err ''submission already reviewed'')
            else k sid submission))"

definition handleApproveSubmission :: "'l env \<Rightarrow> string \<Rightarrow> ('l api, (Node \<times> PendingSubmission) response) prog" where
  "handleApproveSubmission e pathID = with_pending e pathID (\<lambda>sid submission.
     bindP (db_read (IsAddressPubliclyOptedIn (ps_Address submission))) (\<lambda>optedIn.
     if optedIn then fails StatusConflict (Err ''this address has since become publicly registered'')
     else
       let tags = (case ps_OwnerTag submission of
                     Some owner \<Rightarrow> if owner \<noteq> [] then [(''owner'', JStr owner)] else []
                   | None \<Rightarrow> []) in
       bindP (db_act (\<lambda>now. pg_UpsertDiscoveredNode now (ps_Address submission) DiscoverySourceRegistry tags (ps_Label submission))) (\<lambda>up.
       case up of
         Inl err \<Rightarrow> fails StatusInternalServerError err
       | Inr node \<Rightarrow>
           bindP (db_act (\<lambda>now. pg_ApprovePendingSubmission now sid (n_ID node))) (\<lambda>res. case res of
             Inl err \<Rightarrow> fails StatusInternalServerError err
           | Inr _ \<Rightarrow>
               bindP (go (PollApproved node)) (\<lambda>_.
               Done (Response StatusOK (node, submission\<lparr>ps_Status := SubmissionStatusApproved, ps_PromotedNodeID := Some (n_ID node)\<rparr>)))))))"

text \<open>An empty body is no reason: \<^verbatim>\<open>env_decodeReason\<close> then yields the empty string.\<close>

definition handleRejectSubmission :: "'l env \<Rightarrow> string \<Rightarrow> http_request \<Rightarrow> ('l api, PendingSubmission response) prog" where
  "handleRejectSubmission e pathID r =
     (case env_parseUUID e pathID of
        None \<Rightarrow> fails StatusBadRequest (Err ''invalid submission id'')
      | Some _ \<Rightarrow>
     (case env_decodeReason e (rq_Body r) of
        Inl _ \<Rightarrow> fails StatusBadRequest (Err ''invalid JSON body'')
      | Inr reason \<Rightarrow> with_pending e pathID (\<lambda>sid submission.
          bindP (db_act (\<lambda>now. pg_RejectPendingSubmission now sid (nonempty reason))) (\<lambda>res. case res of
            Inl err \<Rightarrow> fails StatusInternalServerError err
          | Inr _ \<Rightarrow> Done (Response StatusOK (submission\<lparr>ps_Status := SubmissionStatusRejected, ps_RejectionReason := nonempty reason\<rparr>))))))"

section \<open>Wallet submissions\<close>

definition handleCreateWalletNodeSubmission :: "'l env \<Rightarrow> http_request \<Rightarrow> ('l api, PendingWalletSubmission response) prog" where
  "handleCreateWalletNodeSubmission e r =
     (case decode_request (env_decodeWallet e) (rq_Body r) of
        Inl _ \<Rightarrow> fails StatusBadRequest (Err ''invalid JSON body'')
      | Inr req \<Rightarrow>
          let ip = clientIP (rq_RemoteAddr r) in
          bindP (locked_out ip) (\<lambda>locked.
          if locked then fails StatusTooManyRequests (Err ''this source has been temporarily blocked'')
          else bindP (allowed e ip) (\<lambda>ok.
          if \<not> ok then fails StatusTooManyRequests (Err ''too many submissions from this source'')
          else if cn_Port req < 1 \<or> cn_Port req > 65535
          then invalid ip (Err ''wallet_http_port is required and must be between 1 and 65535'')
          else if cn_Host req = [] then invalid ip (Err ''host is required'')
          else case validateSubmittedHost (cn_Host req) of
            Inl err \<Rightarrow> invalid ip err
          | Inr _ \<Rightarrow>
              bindP (db_read (FindNodeByHost (cn_Host req))) (\<lambda>res. case res of
                Inl err \<Rightarrow> fails StatusInternalServerError err
              | Inr None \<Rightarrow> fails StatusNotFound (Err ''host does not match any node already known to netmap'')
              | Inr (Some _) \<Rightarrow>
                  bindP (db_act (\<lambda>now. pg_CreatePendingWalletSubmission now (cn_Host req) (cn_Port req))) (\<lambda>created. case created of
                    Inl err \<Rightarrow> fails StatusInternalServerError err
                  | Inr submission \<Rightarrow>
                      bindP (go (ProbeWalletSubmission (pw_ID submission) (cn_Host req) (cn_Port req))) (\<lambda>_.
                      Done (Response StatusAccepted submission)))))))"

definition probeWalletSubmission :: "'l env \<Rightarrow> uuid \<Rightarrow> string \<Rightarrow> int \<Rightarrow> ('l api, unit) prog" where
  "probeWalletSubmission e sid host port =
     (case env_walletHTTPClient e of
        None \<Rightarrow> Done ()
      | Some client \<Rightarrow>
          let reachable = (case GetInfo client (JoinHostPort host (Itoa port)) of Inl _ \<Rightarrow> False | Inr info \<Rightarrow> ni_Reachable info)
          in bindP (db_act (\<lambda>now. pg_RecordWalletSubmissionProbeResult now sid reachable)) (\<lambda>_. Done ()))"

definition handleListWalletSubmissions :: "string \<Rightarrow> ('l api, PendingWalletSubmission list response) prog" where
  "handleListWalletSubmissions status =
     bindP (db_read (pg_ListPendingWalletSubmissions status)) (\<lambda>res. case res of
       Inl err \<Rightarrow> fails StatusInternalServerError err
     | Inr submissions \<Rightarrow> Done (Response StatusOK submissions))"

definition with_pending_wallet ::
  "'l env \<Rightarrow> string \<Rightarrow> (uuid \<Rightarrow> PendingWalletSubmission \<Rightarrow> ('l api, 'b response) prog) \<Rightarrow> ('l api, 'b response) prog" where
  "with_pending_wallet e pathID k =
     (case env_parseUUID e pathID of
        None \<Rightarrow> fails StatusBadRequest (Err ''invalid submission id'')
      | Some sid \<Rightarrow> bindP (db_read (pg_GetPendingWalletSubmission sid)) (\<lambda>res. case res of
          Inl err \<Rightarrow> if err = ErrNotFound then fails StatusNotFound (Err ''wallet submission not found'')
                     else fails StatusInternalServerError err
        | Inr submission \<Rightarrow>
            if pw_Status submission \<noteq> SubmissionStatusPending then fails StatusConflict (Err ''wallet submission already reviewed'')
            else k sid submission))"

definition errWalletSanityProbeFailed :: error where
  "errWalletSanityProbeFailed = Err ''api: wallet-http sanity probe failed''"

definition handleApproveWalletSubmission :: "'l env \<Rightarrow> string \<Rightarrow> ('l api, (Node \<times> PendingWalletSubmission) response) prog" where
  "handleApproveWalletSubmission e pathID = with_pending_wallet e pathID (\<lambda>sid submission.
     bindP (db_read (FindNodeByHost (pw_Host submission))) (\<lambda>found. case found of
       Inl err \<Rightarrow> fails StatusInternalServerError err
     | Inr None \<Rightarrow> fails StatusConflict (Err ''host no longer matches any known node'')
     | Inr (Some node) \<Rightarrow>
     (case env_walletHTTPClient e of
        None \<Rightarrow> fails StatusInternalServerError (Err ''wallet-http probe client is not configured'')
      | Some client \<Rightarrow>
     (case GetInfo client (JoinHostPort (pw_Host submission) (Itoa (pw_WalletHTTPPort submission))) of
        Inl _ \<Rightarrow> fails StatusConflict errWalletSanityProbeFailed
      | Inr info \<Rightarrow>
          if \<not> ni_Reachable info then fails StatusConflict errWalletSanityProbeFailed
          else
            let port = pw_WalletHTTPPort submission in
            bindP (db_act (\<lambda>_. pg_SetNodeWalletHTTPPort (n_ID node) (Some port))) (\<lambda>res. case res of
              Inl err \<Rightarrow> fails StatusInternalServerError err
            | Inr _ \<Rightarrow>
                let node = node\<lparr>n_WalletHTTPPort := Some port\<rparr>;
                    outcome = \<lparr>wo_IsSynced = (case ni_IsSynced info of Some b \<Rightarrow> b | None \<Rightarrow> False), wo_Height = ni_Height info\<rparr> in
                bindP (db_act (\<lambda>now. pg_ApprovePendingWalletSubmission now sid (n_ID node) outcome)) (\<lambda>res. case res of
                  Inl err \<Rightarrow> fails StatusInternalServerError err
                | Inr _ \<Rightarrow>
                    bindP (observe api_now) (\<lambda>now.
                    Done (Response StatusOK (node, submission\<lparr>pw_Status := SubmissionStatusApproved,
                      pw_PromotedNodeID := Some (n_ID node), pw_ProbeSucceeded := Some True, pw_ProbeCheckedAt := Some now,
                      pw_ProbeIsSynced := Some (wo_IsSynced outcome), pw_ProbeHeight := wo_Height outcome\<rparr>)))))))))"

definition handleRejectWalletSubmission :: "'l env \<Rightarrow> string \<Rightarrow> http_request \<Rightarrow> ('l api, PendingWalletSubmission response) prog" where
  "handleRejectWalletSubmission e pathID r =
     (case env_parseUUID e pathID of
        None \<Rightarrow> fails StatusBadRequest (Err ''invalid submission id'')
      | Some _ \<Rightarrow>
     (case env_decodeReason e (rq_Body r) of
        Inl _ \<Rightarrow> fails StatusBadRequest (Err ''invalid JSON body'')
      | Inr reason \<Rightarrow> with_pending_wallet e pathID (\<lambda>sid submission.
          bindP (db_act (\<lambda>now. pg_RejectPendingWalletSubmission now sid (nonempty reason))) (\<lambda>res. case res of
            Inl err \<Rightarrow> fails StatusInternalServerError err
          | Inr _ \<Rightarrow> Done (Response StatusOK (submission\<lparr>pw_Status := SubmissionStatusRejected, pw_RejectionReason := nonempty reason\<rparr>))))))"

section \<open>The forced poll and the jobs\<close>

definition handlePollNow :: "'l env \<Rightarrow> http_request \<Rightarrow> ('l api, (Node \<times> error list) response) prog" where
  "handlePollNow e r =
     (case decode_request (env_decode e) (rq_Body r) of
        Inl _ \<Rightarrow> fails StatusBadRequest (Err ''invalid JSON body'')
      | Inr req \<Rightarrow>
          if cn_Host req = [] then fails StatusBadRequest (Err ''host is required'')
          else if cn_Port req < 1 \<or> cn_Port req > 65535 then fails StatusBadRequest (Err ''port must be between 1 and 65535'')
          else case validateHostSyntax (cn_Host req) of
            Inl err \<Rightarrow> fails StatusBadRequest err
          | Inr _ \<Rightarrow>
              let address = cn_Host req @ '':'' @ Itoa (cn_Port req) in
              bindP (db_act (\<lambda>now. pg_UpsertDiscoveredNode now address DiscoverySourceP2P [] None)) (\<lambda>up. case up of
                Inl err \<Rightarrow> fails StatusInternalServerError err
              | Inr node \<Rightarrow>
                  bindP (db_act (\<lambda>now. PollOnce (env_grpcClient e) (env_p2pClient e) (env_walletHTTPClient e) pg_Store now node)) (\<lambda>pollErr.
                  bindP (db_read (pg_GetNode (n_ID node))) (\<lambda>res. case res of
                    Inl err \<Rightarrow> fails StatusInternalServerError err
                  | Inr updated \<Rightarrow> Done (Response StatusOK (updated, pollErr))))))"

definition run_job :: "'l env \<Rightarrow> job \<Rightarrow> ('l api, unit) prog" where
  "run_job e j =
     (case j of
        ProbeSubmission sid address \<Rightarrow> probeSubmission e sid address
      | ProbeWalletSubmission sid host port \<Rightarrow> probeWalletSubmission e sid host port
      | PollApproved node \<Rightarrow>
          bindP (db_act (\<lambda>now. PollOnce (env_grpcClient e) (env_p2pClient e) (env_walletHTTPClient e) pg_Store now node)) (\<lambda>_. Done ()))"

end
