(* ===== verification/Pg_Trust.thy ===== *)
theory Pg_Trust
  imports Pg_Observations
begin

text \<open>
  How the central store's operations act on the tables that decide what is published: which
  statements leave the nodes alone, that no operation with the source \<^verbatim>\<open>p2p_discovered\<close> opts a
  node in, and that the upsert of an address touches only the node it returns.
\<close>

section \<open>Opting in\<close>

text \<open>Statements that only touch other tables.\<close>

lemma keeps_pg_health:
  assumes "on_tables P" "\<And>db t. P db \<Longrightarrow> P (db\<lparr>db_node_health := t\<rparr>)"
  shows "keeps P (pg_RecordHealthCheck now i)"
proof -
  have "P (sql_insert_health now i db)" if "P db" for db
  proof -
    have "P (db\<lparr>db_node_health := db_node_health db @ [health_row now (gen_random_uuid db) i]\<rparr>)" using assms(2) that .
    moreover have "same_tables (db\<lparr>db_node_health := db_node_health db @ [health_row now (gen_random_uuid db) i]\<rparr>) (sql_insert_health now i db)"
      by (simp add: same_tables_def sql_insert_health_def draw_def)
    ultimately show ?thesis using assms(1) unfolding on_tables_def by blast
  qed
  then show ?thesis unfolding pg_RecordHealthCheck_def by (intro keeps_rules keeps_exec assms(1))
qed

lemma keeps_pg_edge:
  assumes "on_tables P" "\<And>db t. P db \<Longrightarrow> P (db\<lparr>db_peer_edges := t\<rparr>)"
  shows "keeps P (pg_RecordPeerEdgeObservation now x y m)"
proof -
  have "P (sql_insert_edge now x y c b db)" if "P db" for c b db
  proof (cases "sql_insert_edge now x y c b db = db")
    case False
    define t where "t = db_peer_edges db @ [\<lparr>po_ID = gen_random_uuid db, po_FromNodeID = x,
             po_ToNodeID = y, po_ObservedAt = now, po_ReportedByCollector = c, po_ReportBatchID = b\<rparr>]"
    have "sql_insert_edge now x y c b db = (draw db)\<lparr>db_peer_edges := t\<rparr>"
      using False by (auto simp: sql_insert_edge_def t_def split: if_splits)
    then have "same_tables (db\<lparr>db_peer_edges := t\<rparr>) (sql_insert_edge now x y c b db)"
      by (simp add: same_tables_def draw_def)
    then show ?thesis using assms that unfolding on_tables_def by blast
  qed (use that in simp)
  then show ?thesis unfolding pg_RecordPeerEdgeObservation_def Let_def by (intro keeps_rules keeps_exec assms(1))
qed

text \<open>No node is opted in that was not before.\<close>

definition no_new_opt_in :: "DB \<Rightarrow> DB \<Rightarrow> bool" where
  "no_new_opt_in db db' \<longleftrightarrow> (\<forall>n\<in>set (db_nodes db'). valid_source (n_DiscoverySource n) \<and>
     (opted_in n \<longrightarrow> (\<exists>m\<in>set (db_nodes db). n_ID m = n_ID n \<and> opted_in m)))"

lemma on_tables_nodes: "(\<And>db db'. db_nodes db = db_nodes db' \<Longrightarrow> P db \<Longrightarrow> P db') \<Longrightarrow> on_tables P"
  unfolding on_tables_def using same_tables_fields(1) by blast

lemma no_new_opt_in_nodes: "db_nodes x = db_nodes y \<Longrightarrow> no_new_opt_in db x = no_new_opt_in db y"
  by (simp add: no_new_opt_in_def)

lemma no_new_opt_in_update:
  assumes "no_new_opt_in d db" "\<And>n. n_ID (f n) = n_ID n"
    "\<And>n. n_DiscoverySource (f n) \<in> {n_DiscoverySource n, sql_merge_source DiscoverySourceP2P (n_DiscoverySource n)}"
  shows "no_new_opt_in d (update_node nid f db)"
  unfolding no_new_opt_in_def
proof
  fix x assume "x \<in> set (db_nodes (update_node nid f db))"
  then obtain n where n: "n \<in> set (db_nodes db)" "x = n \<or> x = f n" by (auto simp: update_node_def split: if_splits)
  then have v: "valid_source (n_DiscoverySource n)" "opted_in n \<Longrightarrow> \<exists>m\<in>set (db_nodes d). n_ID m = n_ID n \<and> opted_in m"
    using assms(1) by (auto simp: no_new_opt_in_def)
  have "valid_source (n_DiscoverySource x)" "opted_in x \<Longrightarrow> opted_in n" "n_ID x = n_ID n"
    using n(2) v(1) assms(2,3) [of n] by (auto simp: valid_source_def opted_in_def sql_merge_source_def split: if_splits)
  then show "valid_source (n_DiscoverySource x) \<and> (opted_in x \<longrightarrow> (\<exists>m\<in>set (db_nodes d). n_ID m = n_ID x \<and> opted_in m))"
    using v(2) by simp
qed

lemma no_new_opt_in_insert:
  "no_new_opt_in d db \<Longrightarrow> no_new_opt_in d (sql_insert_node now a pk DiscoverySourceP2P tags label db)"
  by (auto simp: no_new_opt_in_def sql_insert_node_def draw_def valid_source_def opted_in_def)

lemma merge_statement_nodes:
  assumes "f \<in> {dedupe_addresses p c, repoint_addresses p c, dedupe_edges_from p c, repoint_edges_from p c,
        dedupe_edges_to p c, repoint_edges_to p c, repoint_health p c, repoint_pending p c, repoint_wallet p c, delete_node p}"
  shows "set (db_nodes (f db)) \<subseteq> set (db_nodes db)"
  using assms by (elim insertE emptyE) (simp_all add: dedupe_addresses_def repoint_addresses_def dedupe_edges_from_def
    repoint_edges_from_def dedupe_edges_to_def repoint_edges_to_def repoint_health_def repoint_pending_def
    repoint_wallet_def delete_node_def)

lemma upsert_address_nodes [simp]: "db_nodes (sql_upsert_address now nid a db) = db_nodes db"
  by (simp add: sql_upsert_address_def draw_def)

lemma on_tables_opt_in: "on_tables (no_new_opt_in d)"
  by (rule on_tables_nodes) (simp only: no_new_opt_in_def)

lemma opt_in_discovered: "keeps (no_new_opt_in d) (pg_UpsertDiscoveredNode now a DiscoverySourceP2P tags None)"
  by (rule keeps_UpsertDiscovered [OF on_tables_opt_in], erule no_new_opt_in_insert, erule no_new_opt_in_update)
    (simp_all add: no_new_opt_in_nodes [OF upsert_address_nodes])

lemma opt_in_confirmed: "keeps (no_new_opt_in d) (pg_UpsertConfirmedNode now a pk DiscoverySourceP2P)"
proof (rule keeps_UpsertConfirmed [OF on_tables_opt_in])
  fix p c f db assume f: "f \<in> {dedupe_addresses p c, repoint_addresses p c, dedupe_edges_from p c, repoint_edges_from p c,
      dedupe_edges_to p c, repoint_edges_to p c, repoint_health p c, repoint_pending p c, repoint_wallet p c, delete_node p}"
    and "no_new_opt_in d db"
  then show "no_new_opt_in d (f db)" using merge_statement_nodes [OF f, of db] by (auto simp: no_new_opt_in_def)
qed (erule no_new_opt_in_insert, erule no_new_opt_in_update, simp_all add: no_new_opt_in_nodes [OF upsert_address_nodes])

lemma opt_in_health: "keeps (no_new_opt_in d) (pg_RecordHealthCheck now i)"
  by (rule keeps_pg_health [OF on_tables_opt_in]) (simp add: no_new_opt_in_def)

lemma opt_in_edge: "keeps (no_new_opt_in d) (pg_RecordPeerEdgeObservation now x y m)"
  by (rule keeps_pg_edge [OF on_tables_opt_in]) (simp add: no_new_opt_in_def)

lemmas opt_in_kept = opt_in_discovered opt_in_confirmed opt_in_health opt_in_edge

lemma no_new_opt_in_refl: "store_ok db \<Longrightarrow> no_new_opt_in db db"
  using schema_facts(2) [of db] by (auto simp: no_new_opt_in_def store_ok_def nodes_ok_def list_all_iff)

section \<open>What an upsert touches\<close>

lemma discovered_failed:
  "pg_UpsertDiscoveredNode now a src tags label db = (db', Inl e) \<Longrightarrow> same_tables db db'"
  by (auto simp: pg_UpsertDiscoveredNode_def in_tx_def split: if_splits prod.splits sum.splits)

lemma exec_Ok_cases: "exec f db = (db', Inr u) \<Longrightarrow> db' = f db"
  by (auto simp: exec_def Let_def split: if_splits)

lemma get_node_op_cases: "get_node_op nid db = (db', Inr n) \<Longrightarrow> db' = db \<and> n_ID n = nid \<and> n \<in> set (db_nodes db)"
  by (auto simp: get_node_op_def getNodeByID_def split: option.splits dest: find_Some_set)

text \<open>An upsert of an address touches no node but the one it returns.\<close>

lemma discovered_touches:
  assumes "pg_UpsertDiscoveredNode now a src tags label db = (db', Inr n)"
  shows "address_keys db' = insert (n_ID n, a) (address_keys db)"
    "\<And>m. m \<in> set (db_nodes db') \<Longrightarrow> n_ID m \<noteq> n_ID n \<Longrightarrow> m \<in> set (db_nodes db)"
proof -
  obtain d1 nid d2 u where s: "(case id_by_address a db of
                 None \<Rightarrow> insert_returning now a [] src tags label
               | Some nodeID \<Rightarrow>
                   bindE (exec (update_node nodeID (\<lambda>n. n\<lparr>
                       n_DiscoverySource := sql_merge_source src (n_DiscoverySource n),
                       n_Tags := merge_tags (n_Tags n) tags,
                       n_Label := (case label of Some l \<Rightarrow> Some l | None \<Rightarrow> n_Label n),
                       n_LastSeen := now\<rparr>))) (\<lambda>_. returnE nodeID)) db = (d1, Inr nid)"
      "ensureNodeAddress now nid a d1 = (d2, Inr u)" "get_node_op nid d2 = (db', Inr n)"
    using assms unfolding pg_UpsertDiscoveredNode_def in_tx_def
    by (auto simp: bindE_cases split: if_splits prod.splits sum.splits)
  have d2: "d2 = sql_upsert_address now nid a d1" "db' = d2" "n_ID n = nid"
    using s(2,3) exec_Ok_cases get_node_op_cases by (auto simp: ensureNodeAddress_def)
  have "address_keys d1 = address_keys db \<and> (\<forall>m\<in>set (db_nodes d1). n_ID m \<noteq> nid \<longrightarrow> m \<in> set (db_nodes db))"
  proof (cases "id_by_address a db")
    case None
    with s(1) have "d1 = sql_insert_node now a [] src tags label db" "nid = gen_random_uuid db"
      using exec_Ok_cases by (fastforce simp: insert_returning_def bindE_cases)+
    then show ?thesis by (auto simp: sql_insert_node_def draw_def address_keys_def)
  next
    case (Some i)
    let ?f = "\<lambda>n. n\<lparr>n_DiscoverySource := sql_merge_source src (n_DiscoverySource n), n_Tags := merge_tags (n_Tags n) tags,
      n_Label := (case label of Some l \<Rightarrow> Some l | None \<Rightarrow> n_Label n), n_LastSeen := now\<rparr>"
    from Some s(1) have "d1 = update_node i ?f db" "nid = i"
      using exec_Ok_cases by (fastforce simp: bindE_cases)+
    then show ?thesis by (auto simp: update_node_def address_keys_def)
  qed
  then show "address_keys db' = insert (n_ID n, a) (address_keys db)"
    "\<And>m. m \<in> set (db_nodes db') \<Longrightarrow> n_ID m \<noteq> n_ID n \<Longrightarrow> m \<in> set (db_nodes db)"
    using d2 by (simp_all add: upsert_address_keys)
qed

end
