(* ===== verification/Collector_Walk.thy ===== *)
theory Collector_Walk
  imports Peer_Collector Pg_Trust
begin

text \<open>
  The walk of the peer graph.  What the store operations of a walk keep, the walk keeps,
  whatever the peers answer; so on the central database a walk brings in no address that
  is neither a seed nor allowed, no public key and no opt-in.  On a store whose upserts
  succeed the walk is complete: it visits exactly the addresses reachable from the seeds
  over allowed reports.
\<close>

section \<open>What a walk keeps\<close>

lemma record_peers_keeps:
  assumes "\<And>a. peerAddressAllowed a \<Longrightarrow> keeps I (UpsertDiscoveredNode store now a DiscoverySourceP2P [] None)"
    "\<And>x y. keeps I (RecordPeerEdgeObservation store now x y None)"
  shows "I s \<Longrightarrow> record_peers store now n ps s = (s', allowed) \<Longrightarrow>
    I s' \<and> (\<forall>p\<in>set allowed. peerAddressAllowed (dp_Address p))"
proof (induction ps arbitrary: s s' allowed)
  case (Cons p ps)
  show ?case
  proof (cases "peerAddressAllowed (dp_Address p)")
    case True
    obtain s1 r where u: "UpsertDiscoveredNode store now (dp_Address p) DiscoverySourceP2P [] None s = (s1, r)" by force
    have s1: "I s1" using keeps_fst [OF assms(1) [OF True] Cons.prems(1)] u by simp
    show ?thesis
    proof (cases r)
      case (Inl e)
      then show ?thesis using Cons.IH [OF s1] Cons.prems(2) True u by simp
    next
      case (Inr m)
      define s2 where "s2 = fst (RecordPeerEdgeObservation store now (n_ID n) (n_ID m) None s1)"
      have "I s2" unfolding s2_def by (rule keeps_fst [OF assms(2) s1])
      obtain s3 as where w: "record_peers store now n ps s2 = (s3, as)" by force
      with Cons.IH [OF \<open>I s2\<close> w] Cons.prems(2) True u Inr show ?thesis by (auto simp: s2_def)
    qed
  qed (use Cons in auto)
qed simp

lemma walk_keeps:
  assumes "\<And>a. a \<in> A \<Longrightarrow> keeps I (UpsertDiscoveredNode store now a DiscoverySourceP2P [] None)"
    "\<And>x y. keeps I (RecordPeerEdgeObservation store now x y None)" "Collect peerAddressAllowed \<subseteq> A" "addr \<in> A"
    "I (co_Storage c)" "walkNodePeers store client label addr now c = (c', peers)"
  shows "I (co_Storage c') \<and> dp_Address ` set peers \<subseteq> Collect peerAddressAllowed \<and>
    co_SeedNodes c' = co_SeedNodes c \<and> co_P2PClient c' = co_P2PClient c"
proof -
  obtain s r where u: "UpsertDiscoveredNode store now addr DiscoverySourceP2P [] None (co_Storage c) = (s, r)" by force
  have s: "I s" using keeps_fst [OF assms(1) [OF assms(4)] assms(5)] u by simp
  have "I s' \<and> (\<forall>p\<in>set allowed. peerAddressAllowed (dp_Address p))"
    if "record_peers store now n ps s = (s', allowed)" for n ps s' allowed
    by (rule record_peers_keeps [OF _ assms(2) s that]) (use assms(1,3) in auto)
  then show ?thesis using assms(6) u s
    by (auto simp: walkNodePeers_def Let_def setNextDiscovery_def split: sum.splits if_splits prod.splits)
qed

lemma discover_loop_keeps:
  assumes "\<And>a. a \<in> A \<Longrightarrow> keeps I (UpsertDiscoveredNode store now a DiscoverySourceP2P [] None)"
    "\<And>x y. keeps I (RecordPeerEdgeObservation store now x y None)" "Collect peerAddressAllowed \<subseteq> A"
  shows "I (co_Storage c) \<Longrightarrow> set queue \<subseteq> A \<Longrightarrow> discover_loop budget store client label now visited queue c = (c', v, q) \<Longrightarrow>
    I (co_Storage c') \<and> co_SeedNodes c' = co_SeedNodes c \<and> co_P2PClient c' = co_P2PClient c"
proof (induction budget arbitrary: visited queue c)
  case 0
  then show ?case by (cases queue) auto
next
  case (Suc budget)
  show ?case
  proof (cases queue)
    case (Cons addr rest)
    show ?thesis
    proof (cases "addr \<in> set visited")
      case False
      obtain c1 peers where w: "walkNodePeers store client label addr now c = (c1, peers)" by force
      from walk_keeps [OF assms _ Suc.prems(1) w] Suc.prems(2) Cons
      have c1: "I (co_Storage c1)" "dp_Address ` set peers \<subseteq> A" "co_SeedNodes c1 = co_SeedNodes c" "co_P2PClient c1 = co_P2PClient c"
        using assms(3) by auto
      then have "set (rest @ filter (\<lambda>a. a \<notin> set (addr # visited)) (map dp_Address peers)) \<subseteq> A"
        using Suc.prems(2) Cons by auto
      from Suc.IH [OF c1(1) this, of "addr # visited"] Suc.prems(3) Cons False w c1(3,4) show ?thesis by simp
    qed (use Suc Cons in auto)
  qed (use Suc in auto)
qed

lemma Discover_keeps:
  assumes "\<And>a. a \<in> set (co_SeedNodes c) \<Longrightarrow> keeps I (UpsertDiscoveredNode store now a DiscoverySourceP2P [] None)"
    "\<And>a. peerAddressAllowed a \<Longrightarrow> keeps I (UpsertDiscoveredNode store now a DiscoverySourceP2P [] None)"
    "\<And>x y. keeps I (RecordPeerEdgeObservation store now x y None)" "I (co_Storage c)"
  shows "I (co_Storage (Discover budget store now c))"
proof -
  define A where "A = set (co_SeedNodes c) \<union> Collect peerAddressAllowed"
  have A: "\<And>a. a \<in> A \<Longrightarrow> keeps I (UpsertDiscoveredNode store now a DiscoverySourceP2P [] None)"
    "Collect peerAddressAllowed \<subseteq> A" "set (co_SeedNodes c) \<subseteq> A"
    using assms by (auto simp: A_def)
  have pass: "I (co_Storage c2) \<and> co_SeedNodes c2 = co_SeedNodes c \<and> co_P2PClient c2 = co_P2PClient c1"
    if i: "I (co_Storage c1)" and s: "co_SeedNodes c1 = co_SeedNodes c"
      and c2: "c2 = fst (discoverWith budget store client label now c1)" for c1 c2 client label
  proof -
    obtain v q where d: "discover_loop budget store client label now [] (co_SeedNodes c1) c1 = (c2, v, q)"
      using c2 by (metis discoverWith_def prod.collapse)
    from discover_loop_keeps [OF A(1) assms(3) A(2) i _ d] A(3) s show ?thesis by simp
  qed
  define c1 where "c1 = (case co_GRPCClient c of None \<Rightarrow> c | Some client \<Rightarrow> fst (discoverWith budget store client ''grpc'' now c))"
  have "I (co_Storage c1) \<and> co_SeedNodes c1 = co_SeedNodes c"
    using pass [of c] assms(4) by (auto simp: c1_def split: option.splits)
  then show ?thesis using pass [of c1] by (auto simp: Discover_def Let_def c1_def [symmetric] split: option.splits)
qed

section \<open>The walk on the central database\<close>

text \<open>What a database \<open>db\<close> may have gained over \<open>d\<close>: addresses of \<open>A\<close>, but no key and no opt-in.\<close>

definition gained :: "string set \<Rightarrow> DB \<Rightarrow> DB \<Rightarrow> bool" where
  "gained A d db \<longleftrightarrow>
     (\<forall>n\<in>set (db_nodes db). n_PublicKey n \<noteq> [] \<longrightarrow>
        (\<exists>m\<in>set (db_nodes d). n_ID m = n_ID n \<and> n_PublicKey m = n_PublicKey n)) \<and>
     n_Address ` set (db_nodes db) \<subseteq> n_Address ` set (db_nodes d) \<union> A \<and>
     snd ` address_keys db \<subseteq> snd ` address_keys d \<union> A"

definition walked :: "string set \<Rightarrow> DB \<Rightarrow> DB \<Rightarrow> bool" where
  "walked A d db \<longleftrightarrow> store_ok db \<and> no_new_opt_in d db \<and> gained A d db"

lemma on_tables_gained: "on_tables (gained A d)"
  unfolding on_tables_def gained_def address_keys_def using same_tables_fields(1,2) by (metis (no_types, lifting))

lemma gained_insert: "a \<in> A \<Longrightarrow> gained A d db \<Longrightarrow> gained A d (sql_insert_node now a [] src tags label db)"
  by (auto simp: gained_def sql_insert_node_def draw_def address_keys_def)

lemma gained_update:
  assumes "gained A d db" "\<And>n. n_ID (f n) = n_ID n" "\<And>n. n_PublicKey (f n) = n_PublicKey n" "\<And>n. n_Address (f n) = n_Address n"
  shows "gained A d (update_node nid f db)"
proof -
  let ?g = "\<lambda>n. if n_ID n = nid then f n else n"
  have g: "n_ID (?g n) = n_ID n" "n_PublicKey (?g n) = n_PublicKey n" "n_Address (?g n) = n_Address n" for n
    using assms(2-4) by simp_all
  have "address_keys (update_node nid f db) = address_keys db" by (simp add: update_node_def address_keys_def)
  moreover have nodes: "set (db_nodes (update_node nid f db)) = ?g ` set (db_nodes db)"
    unfolding update_node_def by (simp add: set_map [symmetric] del: if_image_distrib set_map)
  moreover have "n_Address ` set (db_nodes (update_node nid f db)) = n_Address ` set (db_nodes db)"
    unfolding nodes image_image g(3) ..
  ultimately show ?thesis using assms(1) unfolding gained_def by (simp only: ball_simps(9) g simp_thms) blast
qed

lemma gained_address: "a \<in> A \<Longrightarrow> gained A d db \<Longrightarrow> gained A d (sql_upsert_address now nid a db)"
  by (auto simp: gained_def upsert_address_keys)

lemma gained_discovered: "a \<in> A \<Longrightarrow> keeps (gained A d) (pg_UpsertDiscoveredNode now a src tags label)"
  by (rule keeps_UpsertDiscovered [OF on_tables_gained])
    (simp_all add: gained_insert gained_update gained_address)

lemma gained_edge: "keeps (gained A d) (pg_RecordPeerEdgeObservation now x y m)"
  by (rule keeps_pg_edge [OF on_tables_gained]) (simp add: gained_def address_keys_def)

lemma keeps_conj: "keeps P m \<Longrightarrow> keeps Q m \<Longrightarrow> keeps (\<lambda>s. P s \<and> Q s) m"
  unfolding triple_def by (auto split: prod.splits sum.splits)

lemma store_ok_discovered: "valid_source src \<Longrightarrow> keeps store_ok (pg_UpsertDiscoveredNode now a src tags label)"
  using pg_discovered [of a src "{}" now tags label]
  by (cases "a = []") (auto simp: pg_UpsertDiscoveredNode_def keeps_throwE intro: triple_mono)

lemma on_tables_recorded: "on_tables addresses_recorded"
  unfolding on_tables_def addresses_recorded_def address_keys_def using same_tables_fields(1,2) by (metis (no_types, lifting))

lemma store_ok_edge: "keeps store_ok (pg_RecordPeerEdgeObservation now x y m)"
proof (rule tripleI)
  fix db db' r assume db: "store_ok db" and r: "pg_RecordPeerEdgeObservation now x y m db = (db', r)"
  obtain c b where e: "exec (sql_insert_edge now x y c b) db = (db', r)"
    using r by (cases m) (auto simp: pg_RecordPeerEdgeObservation_def)
  have "schema_ok db'" using exec_schema [OF _ e] db by (simp add: store_ok_def)
  moreover have "addresses_recorded db'"
  proof -
    have "keeps addresses_recorded (pg_RecordPeerEdgeObservation now x y m)"
      by (rule keeps_pg_edge [OF on_tables_recorded]) (simp add: addresses_recorded_def address_keys_def)
    from tripleD [OF this _ r] db show ?thesis by (cases r) (auto simp: store_ok_def)
  qed
  ultimately show "case r of Inl e \<Rightarrow> store_ok db' | Inr _ \<Rightarrow> store_ok db'" by (cases r) (auto simp: store_ok_def)
qed

text \<open>
  C28: a walk of the peer graph, on both transports, for any clients, deadline and answers of
  the peers.  The database stays well-formed; every address it gains is a seed or has
  passed \<open>peerAddressAllowed\<close>; no node gains a public key, although peers report keys; and
  no node is opted in to publication.
\<close>

theorem discover_safe:
  assumes "store_ok (co_Storage c)"
  shows "walked (set (co_SeedNodes c) \<union> Collect peerAddressAllowed) (co_Storage c) (co_Storage (Discover budget pg_Store now c))"
proof (rule Discover_keeps)
  let ?A = "set (co_SeedNodes c) \<union> Collect peerAddressAllowed"
  let ?I = "walked ?A (co_Storage c)"
  have u: "keeps ?I (UpsertDiscoveredNode pg_Store now a DiscoverySourceP2P [] None)" if "a \<in> ?A" for a
    unfolding walked_def pg_Store_def Store.simps
    by (intro keeps_conj store_ok_discovered opt_in_discovered gained_discovered [OF that]) (simp add: valid_source_def)
  show "keeps ?I (UpsertDiscoveredNode pg_Store now a DiscoverySourceP2P [] None)" if "a \<in> set (co_SeedNodes c)" for a
    using that by (intro u) simp
  show "keeps ?I (UpsertDiscoveredNode pg_Store now a DiscoverySourceP2P [] None)" if "peerAddressAllowed a" for a
    using that by (intro u) simp
  show "keeps ?I (RecordPeerEdgeObservation pg_Store now x y None)" for x y
    unfolding walked_def pg_Store_def Store.simps by (intro keeps_conj store_ok_edge opt_in_edge gained_edge)
  show "?I (co_Storage c)" using assms no_new_opt_in_refl by (auto simp: walked_def gained_def)
qed

section \<open>Completeness of the walk\<close>

text \<open>What a walk follows: the allowed peers a node reports.\<close>

definition reported :: "NodeClient \<Rightarrow> string \<Rightarrow> DiscoveredPeer list" where
  "reported client a = (case GetPeers client a of Inl _ \<Rightarrow> [] | Inr ps \<Rightarrow> filter (\<lambda>p. peerAddressAllowed (dp_Address p)) ps)"

definition links :: "NodeClient \<Rightarrow> (string \<times> string) set" where
  "links client = {(a, b). b \<in> dp_Address ` set (reported client a)}"

lemma SplitHostPort_empty: "SplitHostPort [] = Fail missingPort"
  by (simp add: SplitHostPort_def last_index_byte_None [THEN iffD2])

lemma allowed_nonempty: "peerAddressAllowed a \<Longrightarrow> a \<noteq> []"
  by (auto simp: peerAddressAllowed_def SplitHostPort_empty)

lemma links_nonempty: "(a, b) \<in> links client \<Longrightarrow> b \<noteq> []"
  by (auto simp: links_def reported_def split: sum.splits dest: allowed_nonempty)

text \<open>A store whose upserts succeed while it is \<open>live\<close>, and which a walk does not make less so.\<close>

locale reliable_store =
  fixes store :: "'s Store" and live :: "'s \<Rightarrow> bool"
  assumes upsert_succeeds: "live s \<Longrightarrow> a \<noteq> [] \<Longrightarrow>
      \<exists>s' n. UpsertDiscoveredNode store now a DiscoverySourceP2P [] None s = (s', Ok n) \<and> live s'"
    and edge_live: "live s \<Longrightarrow> live (fst (RecordPeerEdgeObservation store now x y None s))"
begin

lemma record_peers_live:
  "live s \<Longrightarrow> \<exists>s'. record_peers store now n ps s = (s', filter (\<lambda>p. peerAddressAllowed (dp_Address p)) ps) \<and> live s'"
proof (induction ps arbitrary: s)
  case (Cons p ps)
  show ?case
  proof (cases "peerAddressAllowed (dp_Address p)")
    case True
    from upsert_succeeds [OF Cons.prems allowed_nonempty [OF True]] obtain s1 m where
      u: "UpsertDiscoveredNode store now (dp_Address p) DiscoverySourceP2P [] None s = (s1, Ok m)" "live s1" by blast
    from Cons.IH [OF edge_live [OF u(2)]] obtain s2 where
      "record_peers store now n ps (fst (RecordPeerEdgeObservation store now (n_ID n) (n_ID m) None s1)) =
         (s2, filter (\<lambda>p. peerAddressAllowed (dp_Address p)) ps)" "live s2" by blast
    with True u show ?thesis by simp
  qed (use Cons in simp)
qed simp

lemma walk_live:
  assumes "live (co_Storage c)" "a \<noteq> []" "dueForDiscovery (discoveryCooldownKey label a) now c"
  shows "\<exists>c'. walkNodePeers store client label a now c = (c', reported client a) \<and> live (co_Storage c') \<and>
    (\<forall>b. b \<noteq> a \<longrightarrow> dueForDiscovery (discoveryCooldownKey label b) now c' = dueForDiscovery (discoveryCooldownKey label b) now c)"
proof -
  from upsert_succeeds [OF assms(1,2)] obtain s n where
    u: "UpsertDiscoveredNode store now a DiscoverySourceP2P [] None (co_Storage c) = (s, Ok n)" "live s" by blast
  note d = dueForDiscovery_def setNextDiscovery_def discoveryCooldownKey_def
  have due: "dueForDiscovery (discoveryCooldownKey label a) now (c\<lparr>co_Storage := s\<rparr>)" using assms(3) by (simp add: d)
  show ?thesis
  proof (cases "GetPeers client a")
    case (Inl e)
    then show ?thesis using u due by (simp add: walkNodePeers_def Let_def reported_def d)
  next
    case (Inr ps)
    from record_peers_live [OF u(2)] obtain s' where
      "record_peers store now n ps s = (s', filter (\<lambda>p. peerAddressAllowed (dp_Address p)) ps)" "live s'" by blast
    with u due Inr show ?thesis by (simp add: walkNodePeers_def Let_def reported_def d)
  qed
qed

text \<open>The loop, from any state of the walk: enough iterations visit a closed set and leave no queue.\<close>

lemma loop_reaches:
  assumes "finite R" "links client `` R \<subseteq> R" "[] \<notin> R"
  shows "live (co_Storage c) \<Longrightarrow> set visited \<union> set queue \<subseteq> R \<Longrightarrow> distinct visited \<Longrightarrow>
    links client `` set visited \<subseteq> set visited \<union> set queue \<Longrightarrow>
    \<forall>a. a \<notin> set visited \<longrightarrow> dueForDiscovery (discoveryCooldownKey label a) now c \<Longrightarrow>
    \<exists>b. \<forall>budget\<ge>b. \<exists>c' v. discover_loop budget store client label now visited queue c = (c', v, []) \<and>
      distinct v \<and> set visited \<union> set queue \<subseteq> set v \<and> set v \<subseteq> R \<and> links client `` set v \<subseteq> set v"
proof (induction "card (R - set visited)" arbitrary: visited queue c rule: less_induct)
  case less
  from less.prems show ?case
  proof (induction queue)
    case Nil
    then show ?case by auto
  next
    case (Cons a queue)
    have step: "\<exists>b. \<forall>budget\<ge>b. \<exists>c' v. discover_loop budget store client label now visited (a # queue) c = (c', v, []) \<and>
        distinct v \<and> set visited \<union> set (a # queue) \<subseteq> set v \<and> set v \<subseteq> R \<and> links client `` set v \<subseteq> set v"
      if b: "\<exists>b. \<forall>budget\<ge>b. \<exists>c' v. discover_loop budget store client label now vis q d = (c', v, []) \<and>
        distinct v \<and> set vis \<union> set q \<subseteq> set v \<and> set v \<subseteq> R \<and> links client `` set v \<subseteq> set v"
        and l: "\<And>k. discover_loop (Suc k) store client label now visited (a # queue) c = discover_loop k store client label now vis q d"
        and s: "set visited \<union> set (a # queue) \<subseteq> set vis \<union> set q" for vis q d
    proof -
      from b obtain b where b: "\<And>budget. b \<le> budget \<Longrightarrow> \<exists>c' v. discover_loop budget store client label now vis q d = (c', v, []) \<and>
        distinct v \<and> set vis \<union> set q \<subseteq> set v \<and> set v \<subseteq> R \<and> links client `` set v \<subseteq> set v" by blast
      show ?thesis
      proof (intro exI [of _ "Suc b"] allI impI)
        fix budget assume "Suc b \<le> budget"
        then obtain k where k: "budget = Suc k" "b \<le> k" using Suc_le_D by auto
        show "\<exists>c' v. discover_loop budget store client label now visited (a # queue) c = (c', v, []) \<and>
          distinct v \<and> set visited \<union> set (a # queue) \<subseteq> set v \<and> set v \<subseteq> R \<and> links client `` set v \<subseteq> set v"
          using b [OF k(2)] s unfolding k(1) l by blast
      qed
    qed
    show ?case
    proof (cases "a \<in> set visited")
      case True
      show ?thesis
        by (rule step [OF Cons.IH]) (use Cons.prems True in auto)
    next
      case False
      have a: "a \<in> R" "a \<noteq> []" using Cons.prems(2) assms(3) by auto
      from walk_live [OF Cons.prems(1) a(2)] Cons.prems(5) False obtain c1 where
        w: "walkNodePeers store client label a now c = (c1, reported client a)" "live (co_Storage c1)"
          "\<forall>b. b \<noteq> a \<longrightarrow> dueForDiscovery (discoveryCooldownKey label b) now c1 = dueForDiscovery (discoveryCooldownKey label b) now c"
        by blast
      define q where "q = queue @ filter (\<lambda>x. x \<notin> set (a # visited)) (map dp_Address (reported client a))"
      have link: "links client `` {a} = dp_Address ` set (reported client a)" by (auto simp: links_def)
      then have new: "dp_Address ` set (reported client a) \<subseteq> R" using assms(2) a(1) by blast
      have "card (R - set (a # visited)) < card (R - set visited)"
        by (rule psubset_card_mono) (use assms(1) a(1) False in auto)
      then show ?thesis
      proof (intro step [OF less.hyps])
        show "links client `` set (a # visited) \<subseteq> set (a # visited) \<union> set q"
          using Cons.prems(4) link by (auto simp: q_def)
        show "discover_loop (Suc k) store client label now visited (a # queue) c =
            discover_loop k store client label now (a # visited) q c1" for k
          using False w(1) by (simp add: q_def)
      qed (use Cons.prems w False a new in \<open>auto simp: q_def\<close>)
    qed
  qed
qed

lemma walk_reaches:
  assumes "live (co_Storage c)" "[] \<notin> set (co_SeedNodes c)" "finite ((links client)\<^sup>* `` set (co_SeedNodes c))"
    "\<forall>a. dueForDiscovery (discoveryCooldownKey label a) now c"
  shows "\<exists>b. \<forall>budget\<ge>b. \<exists>c' v. discoverWith budget store client label now c = (c', v, []) \<and>
    distinct v \<and> set v = (links client)\<^sup>* `` set (co_SeedNodes c)"
proof -
  define R where "R = (links client)\<^sup>* `` set (co_SeedNodes c)"
  have closed: "links client `` R \<subseteq> R" by (auto simp: R_def intro: rtrancl_into_rtrancl)
  have "[] \<notin> R" using assms(2) by (auto simp: R_def elim: rtranclE dest: links_nonempty)
  have "set (co_SeedNodes c) \<subseteq> R" by (auto simp: R_def)
  with loop_reaches [OF assms(3) [folded R_def] closed \<open>[] \<notin> R\<close> assms(1), of "[]" "co_SeedNodes c" label now] assms(4)
  obtain b where b: "\<And>budget. b \<le> budget \<Longrightarrow> \<exists>c' v. discover_loop budget store client label now [] (co_SeedNodes c) c = (c', v, []) \<and>
      distinct v \<and> set (co_SeedNodes c) \<subseteq> set v \<and> set v \<subseteq> R \<and> links client `` set v \<subseteq> set v" by auto
  have "R \<subseteq> set v" if "set (co_SeedNodes c) \<subseteq> set v" "links client `` set v \<subseteq> set v" for v
    using Image_closed_trancl [OF that(2)] that(1) unfolding R_def by blast
  then show ?thesis using b unfolding discoverWith_def R_def [symmetric] by (metis (no_types, lifting) subset_antisym)
qed

end

lemma remote_upsert_succeeds:
  assumes "\<not> rs_closed s" "a \<noteq> []"
  shows "\<exists>s' n. remote_UpsertDiscoveredNode sha1 now a DiscoverySourceP2P [] None s = (s', Ok n) \<and> \<not> rs_closed s'"
proof -
  obtain s' r where u: "remote_UpsertDiscoveredNode sha1 now a DiscoverySourceP2P [] None s = (s', r)" by force
  moreover have "is_ok r"
    using u assms by (auto simp: remote_UpsertDiscoveredNode_def DiscoverySourceP2P_def Let_def split: prod.splits)
  ultimately show ?thesis using UpsertDiscovered_frame [OF u] assms(1) by (auto simp: is_ok_iff)
qed

interpretation satellite: reliable_store "remote_Store sha1" "\<lambda>s. \<not> rs_closed s"
proof unfold_locales
  fix s :: RemoteStore and now and a :: string assume "\<not> rs_closed s" "a \<noteq> []"
  then show "\<exists>s' n. UpsertDiscoveredNode (remote_Store sha1) now a DiscoverySourceP2P [] None s = (s', Ok n) \<and> \<not> rs_closed s'"
    unfolding remote_Store_def Store.simps by (rule remote_upsert_succeeds)
next
  fix s :: RemoteStore and now x y assume "\<not> rs_closed s"
  then show "\<not> rs_closed (fst (RecordPeerEdgeObservation (remote_Store sha1) now x y None s))"
    using RecordPeerEdge_frame [of now x y None s] by (simp add: remote_Store_def) (metis fst_conv surj_pair)
qed


section \<open>Witnesses\<close>

definition example_collector :: "'s \<Rightarrow> 's Collector" where
  "example_collector s = \<lparr>co_SeedNodes = [''s.onion:1''], co_Storage = s, co_GRPCClient = None,
     co_P2PClient = Some stubClient, co_WalletHTTPClient = None, co_OwnedWalletHTTPPorts = [],
     co_WalletHTTPEnabled = False, co_PeerEdgeRetentionEnabled = False, co_PeerEdgeObservationRetention = 0,
     co_nextPoll = [], co_nextDiscovery = []\<rparr>"

theorem discover_safe_witness:
  "walked (set (co_SeedNodes (example_collector example_db)) \<union> Collect peerAddressAllowed) example_db
     (co_Storage (Discover 3 pg_Store 5 (example_collector example_db)))"
  using discover_safe [of "example_collector example_db" 3 5] example_store_ok by (simp add: example_collector_def)

text \<open>Two hidden services that report each other, and one of them a private address.\<close>

definition example_client :: NodeClient where
  "example_client = \<lparr>GetPeers = (\<lambda>a.
       if a = ''s.onion:1'' then Ok [\<lparr>dp_Address = ''t.onion:1'', dp_PublicKey = [1]\<rparr>, \<lparr>dp_Address = ''10.0.0.1:1'', dp_PublicKey = []\<rparr>]
       else Ok [\<lparr>dp_Address = ''s.onion:1'', dp_PublicKey = []\<rparr>]),
     GetInfo = (\<lambda>_. Fail ErrNotConnected), ShardCount = None\<rparr>"

lemma example_allowed: "peerAddressAllowed ''s.onion:1''" "peerAddressAllowed ''t.onion:1''" "\<not> peerAddressAllowed ''10.0.0.1:1''"
  by code_simp+

lemma example_links: "links example_client = {(a, b). b = (if a = ''s.onion:1'' then ''t.onion:1'' else ''s.onion:1'')}"
proof -
  have "map dp_Address (reported example_client a) = [if a = ''s.onion:1'' then ''t.onion:1'' else ''s.onion:1'']" for a
    by (simp add: reported_def example_client_def example_allowed)
  then show ?thesis unfolding links_def set_map [symmetric] by (simp del: set_map)
qed

lemma example_reach: "(links example_client)\<^sup>* `` {''s.onion:1''} = {''s.onion:1'', ''t.onion:1''}"
proof
  have "(links example_client)\<^sup>* `` {''s.onion:1'', ''t.onion:1''} = {''s.onion:1'', ''t.onion:1''}"
    by (rule Image_closed_trancl) (auto simp: example_links)
  then show "(links example_client)\<^sup>* `` {''s.onion:1''} \<subseteq> {''s.onion:1'', ''t.onion:1''}" by blast
  have "(''s.onion:1'', ''t.onion:1'') \<in> links example_client" by (simp add: example_links)
  then show "{''s.onion:1'', ''t.onion:1''} \<subseteq> (links example_client)\<^sup>* `` {''s.onion:1''}" by auto
qed


end
