(* ===== verification/Collector_Polling.thy ===== *)
theory Collector_Polling
  imports Collector_Walk "HOL-Library.Multiset"
begin

text \<open>
  The polling passes: which nodes a pass probes and when it probes them again, what a probe
  records on the central database, and how the four queues divide the nodes.
\<close>

section \<open>Scheduling\<close>

lemma pollInterval_pos: "0 < pollInterval store now n s"
  by (auto simp: pollInterval_def interval_defs duration_defs Let_def split: sum.splits)

lemma pollInterval_bound: "n_FirstSeen n \<le> now \<Longrightarrow> pollInterval store now n s \<le> 7 * 24 * Hour"
  by (auto simp: pollInterval_def interval_defs duration_defs Let_def split: sum.splits)

lemma start_cong [simp]: "start (c\<lparr>co_nextPoll := x\<rparr>) n = start c n"
  by (simp add: start_def)

lemma schedule_frame:
  "schedule store now ns c = (c', ts) \<Longrightarrow> co_GRPCClient c' = co_GRPCClient c \<and> co_P2PClient c' = co_P2PClient c \<and>
     co_WalletHTTPClient c' = co_WalletHTTPClient c \<and> co_WalletHTTPEnabled c' = co_WalletHTTPEnabled c"
proof (induction ns arbitrary: c c' ts)
  case (Cons n ns)
  define c1 where "c1 = setNextPoll (n_Address n) (now + pollInterval store now n (co_Storage c)) c"
  show ?case
  proof (cases "due (n_Address n) now c")
    case True
    obtain d ts1 where s: "schedule store now ns c1 = (d, ts1)" by force
    with Cons.IH [OF s] Cons.prems True show ?thesis by (simp add: c1_def setNextPoll_def)
  qed (use Cons in auto)
qed simp

lemma schedule_storage: "schedule store now ns c = (c', ts) \<Longrightarrow> co_Storage c' = co_Storage c"
proof (induction ns arbitrary: c c' ts)
  case (Cons n ns)
  define c1 where "c1 = setNextPoll (n_Address n) (now + pollInterval store now n (co_Storage c)) c"
  show ?case
  proof (cases "due (n_Address n) now c")
    case True
    obtain d ts1 where s: "schedule store now ns c1 = (d, ts1)" by force
    with Cons.IH [OF s] Cons.prems True show ?thesis by (simp add: c1_def setNextPoll_def)
  qed (use Cons in auto)
qed simp

text \<open>
  C32: a polling pass is polite and complete.  The probes it starts are those of a selection
  of the listed nodes, in order: one node for every listed address that is due, no address
  twice, no address that is not due.  Each selected address becomes due again exactly when
  its positive interval has passed (at most a week for a node that was not first seen in
  the future); all other addresses keep their times, and the store is only read.
\<close>

theorem poll_polite:
  assumes "schedule store now ns c = (c', ts)"
  shows "\<exists>ps. ts = concat (map (start c) ps) \<and> set ps \<subseteq> set ns \<and> distinct (map n_Address ps) \<and>
    n_Address ` set ps = {a \<in> n_Address ` set ns. due a now c} \<and>
    (\<forall>n\<in>set ps. \<exists>i. 0 < i \<and> (n_FirstSeen n \<le> now \<longrightarrow> i \<le> 7 * 24 * Hour) \<and>
       (\<forall>t. due (n_Address n) t c' \<longleftrightarrow> now + i \<le> t)) \<and>
    (\<forall>a t. a \<notin> n_Address ` set ps \<longrightarrow> due a t c' = due a t c) \<and> co_Storage c' = co_Storage c"
  using assms
proof (induction ns arbitrary: c c' ts)
  case Nil
  then show ?case by (intro exI [of _ "[]"]) simp
next
  case (Cons n ns)
  show ?case
  proof (cases "due (n_Address n) now c")
    case False
    with Cons.prems have "schedule store now ns c = (c', ts)" by simp
    from Cons.IH [OF this] obtain ps where ps: "ts = concat (map (start c) ps)" "set ps \<subseteq> set ns" "distinct (map n_Address ps)"
      "n_Address ` set ps = {a \<in> n_Address ` set ns. due a now c}"
      "\<forall>n\<in>set ps. \<exists>i. 0 < i \<and> (n_FirstSeen n \<le> now \<longrightarrow> i \<le> 7 * 24 * Hour) \<and> (\<forall>t. due (n_Address n) t c' \<longleftrightarrow> now + i \<le> t)"
      "\<forall>a t. a \<notin> n_Address ` set ps \<longrightarrow> due a t c' = due a t c" "co_Storage c' = co_Storage c" by blast
    show ?thesis
      by (intro exI [of _ ps] conjI ps(1,3,5,6,7)) (use ps(2,4) False in auto)
  next
    case True
    define i where "i = pollInterval store now n (co_Storage c)"
    define c1 where "c1 = setNextPoll (n_Address n) (now + i) c"
    obtain ts1 where s: "schedule store now ns c1 = (c', ts1)" "ts = start c' n @ ts1"
      using Cons.prems True by (auto simp: c1_def i_def Let_def split: prod.splits)
    from Cons.IH [OF s(1)] obtain ps where ps: "ts1 = concat (map (start c1) ps)" "set ps \<subseteq> set ns" "distinct (map n_Address ps)"
      "n_Address ` set ps = {a \<in> n_Address ` set ns. due a now c1}"
      "\<forall>n\<in>set ps. \<exists>i. 0 < i \<and> (n_FirstSeen n \<le> now \<longrightarrow> i \<le> 7 * 24 * Hour) \<and> (\<forall>t. due (n_Address n) t c' \<longleftrightarrow> now + i \<le> t)"
      "\<forall>a t. a \<notin> n_Address ` set ps \<longrightarrow> due a t c' = due a t c1" "co_Storage c' = co_Storage c1" by blast
    have i: "0 < i" "n_FirstSeen n \<le> now \<Longrightarrow> i \<le> 7 * 24 * Hour"
      unfolding i_def by (rule pollInterval_pos, rule pollInterval_bound)
    have due1: "due a t c1 = (if a = n_Address n then now + i \<le> t else due a t c)" for a t
      by (auto simp: due_def c1_def setNextPoll_def)
    have new: "n_Address n \<notin> n_Address ` set ps" using ps(4) due1 i(1) by auto
    have st: "start c' n = start c n" "start c1 = start c"
      using schedule_frame [OF s(1)] by (auto simp: c1_def setNextPoll_def start_def)
    have "due (n_Address n) t c' \<longleftrightarrow> now + i \<le> t" for t using ps(6) new due1 by simp
    then have here: "\<exists>i. 0 < i \<and> (n_FirstSeen n \<le> now \<longrightarrow> i \<le> 7 * 24 * Hour) \<and> (\<forall>t. due (n_Address n) t c' \<longleftrightarrow> now + i \<le> t)"
      using i by blast
    show ?thesis
    proof (intro exI [of _ "n # ps"] conjI)
      show "ts = concat (map (start c) (n # ps))" using s(2) ps(1) st by simp
      show "n_Address ` set (n # ps) = {a \<in> n_Address ` set (n # ns). due a now c}" using ps(4) due1 True i(1) by auto
      show "\<forall>a t. a \<notin> n_Address ` set (n # ps) \<longrightarrow> due a t c' = due a t c" using ps(6) due1 by simp
      show "co_Storage c' = co_Storage c" using ps(7) by (simp add: c1_def setNextPoll_def)
    qed (use ps here new in auto)
  qed
qed

section \<open>What a probe records\<close>

lemma pg_Store_simps [simp]:
  "UpsertConfirmedNode pg_Store = pg_UpsertConfirmedNode" "RecordHealthCheck pg_Store = pg_RecordHealthCheck"
  "UpsertDiscoveredNode pg_Store = pg_UpsertDiscoveredNode" "ListNodes pg_Store = pg_ListNodes"
  "RecordPeerEdgeObservation pg_Store = pg_RecordPeerEdgeObservation"
  by (simp_all add: pg_Store_def)

definition probe_input :: "uuid \<Rightarrow> string \<Rightarrow> NodeInfo \<Rightarrow> HealthCheckInput" where
  "probe_input nid probeSource info =
     \<lparr>hci_NodeID = nid, hci_Reachable = ni_Reachable info, hci_ProbeSource = probeSource,
      hci_Height = ni_Height info, hci_ChainTipHeight = ni_ChainTipHeight info, hci_Version = ni_Version info,
      hci_LatencyMS = ni_LatencyMS info, hci_RxtHashrate = ni_RxtHashrate info,
      hci_C29Hashrate = ni_C29Hashrate info, hci_Sha3xHashrate = ni_Sha3xHashrate info,
      hci_PeerIdentityUpdatedAt = ni_PeerIdentityUpdatedAt info,
      hci_ReportedByCollector = None, hci_ReportBatchID = None\<rparr>"

lemma probe_success:
  assumes "GetInfo client (n_Address node) = Ok info" "ni_PublicKey info \<noteq> []"
    "pg_UpsertConfirmedNode now (n_Address node) (ni_PublicKey info) DiscoverySourceP2P db = (d, r)"
  shows "pollTransportOnce client pg_Store now node src db =
    (let (db', res) = pg_RecordHealthCheck now
           (probe_input (case r of Inl _ \<Rightarrow> n_ID node | Inr m \<Rightarrow> n_ID m) src info) d
     in (db', err_of res))"
  using assms by (cases r) (simp_all add: pollTransportOnce_def pollOnceWithSource_def record_health_def probe_input_def Let_def
      split: prod.splits)

lemma probe_failure:
  assumes "GetInfo client (n_Address node) = Fail e" "e \<noteq> ErrGRPCAddressUnknown"
  shows "pollTransportOnce client pg_Store now node src db =
    (let (db', res) = pg_RecordHealthCheck now (zeroHealthCheckInput\<lparr>hci_NodeID := n_ID node, hci_Reachable := False,
           hci_ProbeSource := src\<rparr>) db in (db', err_of res))"
  using assms by (simp add: pollTransportOnce_def pollOnceWithSource_def record_health_def Let_def split: prod.splits)

lemma record_unbatched:
  assumes "valid_probe (hci_ProbeSource i)" "hci_ReportBatchID i = None"
  shows "pg_RecordHealthCheck now i = exec (sql_insert_health now i)"
  using assms by (auto simp: pg_RecordHealthCheck_def fun_eq_iff bindE_def valid_probe_def)

text \<open>
  C30: what a successful probe that yields a public key leaves in the database, over any
  transport: unless a random identifier collides, the surviving node that carries this key
  and holds the probed address (the placeholder itself, or the node it was merged into) has
  the health check with the answer of the probe, and the database stays well-formed.
\<close>

theorem probe_recorded:
  assumes "store_ok db" "n_Address node \<noteq> []" "valid_probe src"
    "GetInfo client (n_Address node) = Ok info" "ni_PublicKey info \<noteq> []"
    "pollTransportOnce client pg_Store now node src db = (db', err)"
  shows "(\<exists>m h. m \<in> set (db_nodes db') \<and> n_PublicKey m = ni_PublicKey info \<and> (n_ID m, n_Address node) \<in> address_keys db' \<and>
      h \<in> set (db_node_health db') \<and> hc_NodeID h = n_ID m \<and> hc_Timestamp h = now \<and> hc_ProbeSource h = src \<and>
      hc_Reachable h = ni_Reachable info \<and> hc_Height h = ni_Height info \<and> store_ok db' \<and> confirmed_kept db db' \<and> err = None) \<or>
    snd (pg_UpsertConfirmedNode now (n_Address node) (ni_PublicKey info) DiscoverySourceP2P db) = Fail ErrPrimaryKey \<or>
    err = Some ErrPrimaryKey"
proof -
  obtain d r where u: "pg_UpsertConfirmedNode now (n_Address node) (ni_PublicKey info) DiscoverySourceP2P db = (d, r)" by force
  have "valid_source DiscoverySourceP2P" by (simp add: valid_source_def)
  from UpsertConfirmed_spec [OF assms(1,2,5) this u]
  consider m where "r = Ok m" "confirmed_as db (n_Address node) (ni_PublicKey info) d (n_ID m)"
      "m \<in> set (db_nodes d)" "n_PublicKey m = ni_PublicKey info" | "r = Fail ErrPrimaryKey" by blast
  then show ?thesis
  proof cases
    case (1 m)
    define i where "i = probe_input (n_ID m) src info"
    obtain res where res: "exec (sql_insert_health now i) d = (db', res)" "err = err_of res"
      using assms(6) probe_success [OF assms(4,5) u] 1(1) assms(3) record_unbatched [of i now]
      by (auto simp: i_def probe_input_def Let_def split: prod.splits)
    have "schema_ok d" "n_ID m \<in> set (node_ids d)" using 1 by (auto simp: confirmed_as_def store_ok_def node_ids_def)
    then have "constraints_ok (sql_insert_health now i d)"
      using assms(3) by (intro insert_health_ok) (simp_all add: i_def probe_input_def)
    from exec_cases [OF res(1) this] show ?thesis
    proof
      assume ok: "res = Ok () \<and> db' = sql_insert_health now i d \<and> schema_ok (sql_insert_health now i d)"
      have t: "db_nodes db' = db_nodes d" "db_node_addresses db' = db_node_addresses d"
        "health_row now (gen_random_uuid d) i \<in> set (db_node_health db')"
        using ok by (simp_all add: sql_insert_health_def draw_def)
      have "schema_ok db'" using ok by simp
      then have "store_ok db'" using 1(2) by (simp add: confirmed_as_def store_ok_def addresses_recorded_def t address_keys_def)
      moreover have "confirmed_kept db db'" using 1(2) by (simp add: confirmed_as_def confirmed_kept_def t address_keys_def)
      moreover have "(n_ID m, n_Address node) \<in> address_keys db'" using 1(2) by (simp add: confirmed_as_def t address_keys_def)
      ultimately show ?thesis using 1(3,4) t ok res(2)
        by (intro disjI1 exI [of _ m] exI [of _ "health_row now (gen_random_uuid d) i"])
          (simp add: health_row_def i_def probe_input_def err_of_def)
    qed (simp add: res(2) err_of_def)
  qed (simp add: u)
qed

section \<open>A whole pass\<close>

lemma transport_keeps:
  assumes "\<And>a pk. keeps I (UpsertConfirmedNode store now a pk DiscoverySourceP2P)" "\<And>i. keeps I (RecordHealthCheck store now i)" "I s"
  shows "I (fst (pollTransportOnce client store now n src s))"
proof -
  have r: "I (fst (record_health store now b i t))" if "I t" for b i t
    using keeps_fst [OF assms(2) that, of i] by (simp add: record_health_def split_beta)
  have u: "I (fst (UpsertConfirmedNode store now a pk DiscoverySourceP2P s))" for a pk
    by (rule keeps_fst [OF assms(1,3)])
  have "I (fst (pollOnceWithSource client store now n src s))"
  proof (cases "GetInfo client (n_Address n)")
    case (Inl e)
    then show ?thesis by (simp add: pollOnceWithSource_def assms(3) r)
  next
    case (Inr info)
    obtain t x where t: "UpsertConfirmedNode store now (n_Address n) (ni_PublicKey info) DiscoverySourceP2P s = (t, x)" by force
    then have "I t" using u [of "n_Address n" "ni_PublicKey info"] by simp
    with Inr t show ?thesis by (cases x) (simp_all add: pollOnceWithSource_def assms(3) r)
  qed
  then show ?thesis by (simp add: pollTransportOnce_def split_beta)
qed

lemma wallet_transport_keeps:
  assumes "\<And>i. keeps I (RecordHealthCheck store now i)" "I s"
  shows "I (fst (pollWalletHTTPTransportOnce client store now n s))"
proof -
  have r: "I (fst (record_health store now b i s))" for b i
    using keeps_fst [OF assms, of i] by (simp add: record_health_def split_beta)
  then have "I (fst (pollWalletHTTPOnce client store now n s))"
    by (auto simp: pollWalletHTTPOnce_def assms(2) split: option.splits sum.splits)
  then show ?thesis by (simp add: pollWalletHTTPTransportOnce_def split_beta)
qed

lemma run_task_keeps:
  assumes "\<And>a pk. keeps I (UpsertConfirmedNode store now a pk DiscoverySourceP2P)" "\<And>i. keeps I (RecordHealthCheck store now i)"
    "I (co_Storage c)"
  shows "I (co_Storage (run_task store now c t))"
  using assms by (auto simp: run_task_def transport_keeps wallet_transport_keeps split: task.splits option.splits)

lemma run_tasks_keeps:
  assumes "\<And>a pk. keeps I (UpsertConfirmedNode store now a pk DiscoverySourceP2P)" "\<And>i. keeps I (RecordHealthCheck store now i)"
  shows "I (co_Storage c) \<Longrightarrow> I (co_Storage (foldl (run_task store now) c ts))"
  by (induction ts arbitrary: c) (simp_all add: run_task_keeps [OF assms])

lemma store_ok_health: "keeps store_ok (pg_RecordHealthCheck now i)"
proof (rule tripleI)
  fix db db' r assume db: "store_ok db" and r: "pg_RecordHealthCheck now i db = (db', r)"
  have "schema_ok db'"
    using db r exec_schema by (auto simp: pg_RecordHealthCheck_def store_ok_def bindE_def split: if_splits option.splits)
  moreover have "keeps addresses_recorded (pg_RecordHealthCheck now i)"
    by (rule keeps_pg_health [OF on_tables_recorded]) (simp add: addresses_recorded_def address_keys_def)
  from tripleD [OF this _ r] db have "addresses_recorded db'" by (cases r) (auto simp: store_ok_def)
  ultimately show "case r of Inl e \<Rightarrow> store_ok db' | Inr _ \<Rightarrow> store_ok db'" by (cases r) (auto simp: store_ok_def)
qed

lemma confirmed_kept_refl: "confirmed_kept db db"
  by (auto simp: confirmed_kept_def)

lemma confirmed_kept_trans: "confirmed_kept a b \<Longrightarrow> confirmed_kept b c \<Longrightarrow> confirmed_kept a c"
  unfolding confirmed_kept_def by (metis (no_types, lifting))

lemma confirmed_kept_same: "same_tables b c \<Longrightarrow> confirmed_kept a b \<Longrightarrow> confirmed_kept a c"
  by (simp add: confirmed_kept_def address_keys_def same_tables_fields [of b c])

lemma confirmed_kept_health: "keeps (confirmed_kept d) (pg_RecordHealthCheck now i)"
  by (rule keeps_pg_health) (use confirmed_kept_same in \<open>auto simp: on_tables_def confirmed_kept_def address_keys_def\<close>)

lemma confirmed_kept_upsert:
  "keeps (\<lambda>db. store_ok db \<and> confirmed_kept d db) (pg_UpsertConfirmedNode now a pk DiscoverySourceP2P)"
proof (rule tripleI)
  fix db db' r assume db: "store_ok db \<and> confirmed_kept d db" and r: "pg_UpsertConfirmedNode now a pk DiscoverySourceP2P db = (db', r)"
  show "case r of Inl e \<Rightarrow> store_ok db' \<and> confirmed_kept d db' | Inr _ \<Rightarrow> store_ok db' \<and> confirmed_kept d db'"
  proof (cases "a = [] \<or> pk = []")
    case True
    then show ?thesis using db r by (auto simp: pg_UpsertConfirmedNode_def split: if_splits)
  next
    case False
    have "valid_source DiscoverySourceP2P" by (simp add: valid_source_def)
    from UpsertConfirmed_spec [OF _ _ _ this r] db False
    consider n where "r = Ok n" "confirmed_as db a pk db' (n_ID n)" | "r = Fail ErrPrimaryKey" "same_tables db db'" by blast
    then show ?thesis
    proof cases
      case (1 n)
      then have "store_ok db'" "confirmed_kept db db'" by (simp_all add: confirmed_as_def)
      then show ?thesis using db confirmed_kept_trans [of d db db'] by (cases r) simp_all
    next
      case 2
      then show ?thesis using db store_ok_same [OF 2(2)] confirmed_kept_same [OF 2(2)] by simp
    qed
  qed
qed

text \<open>
  C31: a polling pass over any queue, with any clients and whatever order the worker pools run
  the probes in: it reports no error, keeps the database well-formed, takes no identifier,
  key or address from a confirmed node, and opts no node in to publication.
\<close>

theorem poll_pass_safe:
  assumes "store_ok (co_Storage c)" "poll pg_Store order now f c = (c', err)"
  shows "err = None \<and> store_ok (co_Storage c') \<and> confirmed_kept (co_Storage c) (co_Storage c') \<and>
    no_new_opt_in (co_Storage c) (co_Storage c')"
proof -
  let ?I = "\<lambda>db. (store_ok db \<and> confirmed_kept (co_Storage c) db) \<and> no_new_opt_in (co_Storage c) db"
  obtain ns where ns: "pg_ListNodes f (co_Storage c) = Ok ns" by (simp add: pg_ListNodes_def Let_def)
  obtain c1 ts where s: "schedule pg_Store now ns c = (c1, ts)" by force
  have "co_Storage c1 = co_Storage c" using schedule_storage [OF s] .
  then have "?I (co_Storage c1)" using assms(1) confirmed_kept_refl no_new_opt_in_refl by simp
  moreover have "keeps ?I (UpsertConfirmedNode pg_Store now a pk DiscoverySourceP2P)" for a pk
    unfolding pg_Store_simps by (intro keeps_conj confirmed_kept_upsert opt_in_confirmed)
  moreover have "keeps ?I (RecordHealthCheck pg_Store now i)" for i
    unfolding pg_Store_simps by (intro keeps_conj store_ok_health confirmed_kept_health opt_in_health)
  ultimately have "?I (co_Storage (foldl (run_task pg_Store now) c1 (order ts)))" by (intro run_tasks_keeps [where I = ?I])
  then show ?thesis using assms(2) ns s by (auto simp: poll_def Let_def)
qed

section \<open>The queues\<close>

lemma queue_rows:
  "selected db ownedConfirmedFilter n \<longleftrightarrow> n_PublicKey n \<noteq> [] \<and> isPoolOwned n"
  "selected db genericConfirmedFilter n \<longleftrightarrow> n_PublicKey n \<noteq> [] \<and> \<not> isPoolOwned n"
  "selected db unconfirmedFilter n \<longleftrightarrow> n_PublicKey n = [] \<and> n_ID n \<in> hc_NodeID ` set (db_node_health db)"
  "selected db neverContactedFilter n \<longleftrightarrow> n_PublicKey n = [] \<and> n_ID n \<notin> hc_NodeID ` set (db_node_health db)"
  by (auto simp: selected_def foldr_sql_and_true nodeFilterClauses_def queue_filter_defs emptyFilter_def ownedPredicate_iff
      sql_not_def sql_and_def list_ex_iff Let_def intro: rev_image_eqI)

lemma queue_listing:
  "f \<in> {ownedConfirmedFilter, genericConfirmedFilter, unconfirmedFilter, neverContactedFilter} \<Longrightarrow>
   pg_ListNodes f db = Ok (sort_by_address (filter (selected db f) (db_nodes db)))"
  by (auto simp: pg_ListNodes_def pg_matching_def queue_filter_defs emptyFilter_def)

lemma filter_four:
  assumes "\<And>x. x \<in> set xs \<Longrightarrow> of_bool (P x) + of_bool (Q x) + of_bool (R x) + of_bool (S x) = (1 :: nat)"
  shows "mset (filter P xs) + mset (filter Q xs) + mset (filter R xs) + mset (filter S xs) = mset xs"
  using assms
proof (induction xs)
  case (Cons x xs)
  then have "of_bool (P x) + of_bool (Q x) + of_bool (R x) + of_bool (S x) = (1 :: nat)" by simp
  then show ?case using Cons by (cases "P x"; cases "Q x"; cases "R x"; cases "S x") simp_all
qed simp

text \<open>
  The four polling queues are a partition of the nodes.  The four listings succeed,
  together they list every row of the table exactly once, and the queue sizes reported for
  the metrics are their lengths, so they add up to the number of nodes.
\<close>

theorem queues_partition:
  "\<exists>os gs us vs. pg_ListNodes ownedConfirmedFilter (co_Storage c) = Ok os \<and>
     pg_ListNodes genericConfirmedFilter (co_Storage c) = Ok gs \<and>
     pg_ListNodes unconfirmedFilter (co_Storage c) = Ok us \<and> pg_ListNodes neverContactedFilter (co_Storage c) = Ok vs \<and>
     mset os + mset gs + mset us + mset vs = mset (db_nodes (co_Storage c)) \<and>
     QueueSizes pg_Store c = Ok (length os, length gs, length us, length vs) \<and>
     length os + length gs + length us + length vs = length (db_nodes (co_Storage c))"
proof -
  let ?db = "co_Storage c" and ?q = "\<lambda>f. sort_by_address (filter (selected (co_Storage c) f) (db_nodes (co_Storage c)))"
  have "mset (?q ownedConfirmedFilter) + mset (?q genericConfirmedFilter) + mset (?q unconfirmedFilter) +
      mset (?q neverContactedFilter) = mset (db_nodes ?db)"
    unfolding sort_by_address_mset by (rule filter_four) (simp add: queue_rows of_bool_def)
  moreover from this have "length (?q ownedConfirmedFilter) + length (?q genericConfirmedFilter) + length (?q unconfirmedFilter) +
      length (?q neverContactedFilter) = length (db_nodes ?db)"
    by (metis size_mset size_union)
  moreover have "pg_ListNodes f ?db = Ok (?q f)"
    if "f \<in> {ownedConfirmedFilter, genericConfirmedFilter, unconfirmedFilter, neverContactedFilter}" for f
    by (rule queue_listing [OF that])
  ultimately show ?thesis by (simp add: QueueSizes_def)
qed

section \<open>A probe after a merge\<close>

lemma confirm_merges:
  assumes "store_ok db" "a \<noteq> []" "pk \<noteq> []" "node_by_address a db = Some p" "n_PublicKey p = []"
    "node_by_pubkey pk db = Some m"
  shows "\<exists>d n. pg_UpsertConfirmedNode now a pk DiscoverySourceP2P db = (d, Ok n) \<and> n_ID n = n_ID m \<and>
    merged now (n_ID p) (n_ID m) db d"
proof -
  note p = node_by_address_Some [OF assms(1,2,4)] and m = node_by_pubkey_Some [OF assms(6)]
  have sdb: "schema_ok db" using assms(1) by (simp add: store_ok_def)
  have ne: "n_ID p \<noteq> n_ID m"
    using distinct_key_unique [of n_ID "db_nodes db" p m] schema_facts(1) [OF sdb] p(1) m assms(3,5) by (auto simp: node_ids_def)
  have ids: "n_ID m \<in> set (node_ids db)" using m by (auto simp: node_ids_def)
  from merge_correct [OF sdb ne ids] obtain d where
    d: "mergeNodeInto now (n_ID p) (n_ID m) db = (d, Ok ())" "merged now (n_ID p) (n_ID m) db d" by blast
  have "n_ID m \<in> set (node_ids d)" using merged_ids [OF d(2)] ids ne by simp
  then obtain n where n: "n \<in> set (db_nodes d)" "n_ID n = n_ID m" by (auto simp: node_ids_def)
  have "distinct (node_ids d)" using d(2) schema_facts(1) [of d] by (simp add: merged_def)
  from get_node_spec [OF this n] have g: "getNodeByID (n_ID m) d = Ok n" .
  have "pg_UpsertConfirmedNode now a pk DiscoverySourceP2P db = (d, Ok n)"
    using assms(2-6) ne d(1) g
    by (simp add: pg_UpsertConfirmedNode_def in_tx_def bindE_def get_node_op_def DiscoverySourceP2P_def)
  with n(2) d(2) show ?thesis by blast
qed

lemma record_unknown:
  assumes "hci_NodeID i \<notin> set (node_ids db)" "valid_probe (hci_ProbeSource i)" "hci_ReportBatchID i = None"
    "pg_RecordHealthCheck now i db = (db', r)"
  shows "(r = Fail ErrPrimaryKey \<or> r = Fail ErrIntegrity) \<and> same_tables db db'"
proof -
  have "\<not> constraints_ok (sql_insert_health now i db)"
    using assms(1) by (simp add: constraints_ok_def health_ok_def sql_insert_health_def draw_def health_row_def node_ids_def)
  then show ?thesis using assms(4) unfolding record_unbatched [OF assms(2,3)]
    by (auto simp: exec_def Let_def split: if_splits)
qed

text \<open>
  A probe of a node that the previous probe merged away is lost.  \<^verbatim>\<open>PollOnce\<close> probes a
  placeholder over gRPC and then over P2P; when the gRPC answer carries the key of a known
  node, the placeholder is merged into it and its identifier deleted, and when the P2P
  probe then fails, the failed check is recorded for the deleted identifier: the insertion
  violates the foreign key, \<^verbatim>\<open>PollOnce\<close> returns an error and no P2P check is added to any
  node.
\<close>

theorem poll_stale_id:
  assumes "store_ok db" "n_Address p \<noteq> []" "node_by_address (n_Address p) db = Some p" "n_PublicKey p = []"
    "GetInfo grpc (n_Address p) = Ok info" "ni_PublicKey info \<noteq> []" "node_by_pubkey (ni_PublicKey info) db = Some m"
    "GetInfo p2p (n_Address p) = Fail e" "e \<noteq> ErrGRPCAddressUnknown"
    "PollOnce (Some grpc) (Some p2p) None pg_Store now p db = (db', errs)"
  shows "errs \<noteq> [] \<and> set errs \<subseteq> {ErrPrimaryKey, ErrIntegrity} \<and>
    filter (\<lambda>h. hc_ProbeSource h = ProbeSourceP2P) (db_node_health db') =
    map (repoint_health_row (n_ID p) (n_ID m)) (filter (\<lambda>h. hc_ProbeSource h = ProbeSourceP2P) (db_node_health db))"
proof -
  obtain d n where d: "pg_UpsertConfirmedNode now (n_Address p) (ni_PublicKey info) DiscoverySourceP2P db = (d, Ok n)"
      "n_ID n = n_ID m" "merged now (n_ID p) (n_ID m) db d"
    using confirm_merges [OF assms(1,2,6,3,4,7)] by blast
  define i where "i = probe_input (n_ID n) ProbeSourceGRPC info"
  define j where "j = zeroHealthCheckInput\<lparr>hci_NodeID := n_ID p, hci_Reachable := False, hci_ProbeSource := ProbeSourceP2P\<rparr>"
  obtain d1 r1 where g: "pg_RecordHealthCheck now i d = (d1, r1)" by force
  obtain d2 r2 where h: "pg_RecordHealthCheck now j d1 = (d2, r2)" by force
  have out: "db' = d2" "errs = (case err_of r1 of None \<Rightarrow> [] | Some e \<Rightarrow> [e]) @ (case err_of r2 of None \<Rightarrow> [] | Some e \<Rightarrow> [e])"
    using assms(10) probe_success [OF assms(5,6) d(1), of ProbeSourceGRPC] probe_failure [OF assms(8,9), of now ProbeSourceP2P d1]
      g h by (auto simp: PollOnce_def add_probe_def i_def j_def split: option.splits)
  have valid: "valid_probe (hci_ProbeSource i)" "hci_ReportBatchID i = None" "valid_probe (hci_ProbeSource j)" "hci_ReportBatchID j = None"
    by (simp_all add: i_def j_def probe_input_def zeroHealthCheckInput_def valid_probe_def)
  have "n_ID n \<in> set (node_ids d)" using merged_ids [OF d(3)] d(2) node_by_pubkey_Some [OF assms(7)] assms(4,6)
      node_by_address_Some [OF assms(1,2,3)] distinct_key_unique [of n_ID "db_nodes db" p m] schema_facts(1) [of db] assms(1)
    by (auto simp: node_ids_def store_ok_def)
  then have "constraints_ok (sql_insert_health now i d)"
    using d(3) valid by (intro insert_health_ok) (simp_all add: merged_def i_def probe_input_def)
  from exec_cases [OF g [unfolded record_unbatched [OF valid(1,2)]] this]
  consider "r1 = Ok ()" "d1 = sql_insert_health now i d" | "r1 = Fail ErrPrimaryKey" "same_tables d d1" by blast
  then have d1: "set (node_ids d1) = set (node_ids d)" "err_of r1 \<in> {None, Some ErrPrimaryKey}"
      "filter (\<lambda>h. hc_ProbeSource h = ProbeSourceP2P) (db_node_health d1) = filter (\<lambda>h. hc_ProbeSource h = ProbeSourceP2P) (db_node_health d)"
    by (cases; simp add: sql_insert_health_def draw_def node_ids_def err_of_def health_row_def i_def probe_input_def
        same_tables_fields [of d d1] ProbeSourceP2P_def ProbeSourceGRPC_def)+
  have "hci_NodeID j \<notin> set (node_ids d1)" using d1(1) merged_ids [OF d(3)] by (simp add: j_def)
  from record_unknown [OF this valid(3,4) h]
  have "err_of r2 \<in> {Some ErrPrimaryKey, Some ErrIntegrity}" "db_node_health d2 = db_node_health d1"
    using same_tables_fields(3) [of d1 d2] by (auto simp: err_of_def)
  moreover have "filter (\<lambda>h. hc_ProbeSource h = ProbeSourceP2P) (db_node_health d) =
      map (repoint_health_row (n_ID p) (n_ID m)) (filter (\<lambda>h. hc_ProbeSource h = ProbeSourceP2P) (db_node_health db))"
    using d(3) by (simp add: merged_def filter_map comp_def repoint_health_row_def if_distrib cong: if_cong)
  ultimately show ?thesis using out d1 by auto
qed

section \<open>Witnesses\<close>

theorem poll_polite_witness:
  "\<exists>c' ts ps. schedule pg_Store 5 (db_nodes example_db) (example_collector example_db) = (c', ts) \<and>
     ts = concat (map (start (example_collector example_db)) ps) \<and> n_Address ` set ps = {''p:1'', ''c:1'', ''x:1''}"
proof -
  obtain c' ts where s: "schedule pg_Store 5 (db_nodes example_db) (example_collector example_db) = (c', ts)" by force
  from poll_polite [OF s] obtain ps where
    "ts = concat (map (start (example_collector example_db)) ps)"
    "n_Address ` set ps = {a \<in> n_Address ` set (db_nodes example_db). due a 5 (example_collector example_db)}" by blast
  moreover have "{a \<in> n_Address ` set (db_nodes example_db). due a 5 (example_collector example_db)} = {''p:1'', ''c:1'', ''x:1''}"
    by (auto simp: due_def example_collector_def example_db_defs)
  ultimately show ?thesis using s by (intro exI [of _ c'] exI [of _ ts] exI [of _ ps]) simp
qed

text \<open>A node that answers with the key of node 2.\<close>

definition example_info :: NodeInfo where
  "example_info = zeroNodeInfo\<lparr>ni_Reachable := True, ni_PublicKey := [7]\<rparr>"

definition answering_client :: NodeClient where
  "answering_client = \<lparr>GetPeers = (\<lambda>_. Fail ErrNotConnected), GetInfo = (\<lambda>_. Ok example_info), ShardCount = None\<rparr>"

lemma answering [simp]: "GetInfo answering_client a = Ok example_info" "ni_PublicKey example_info = [7]"
    "GetInfo stubClient a = Fail ErrNotConnected"
  by (simp_all add: answering_client_def example_info_def stubClient_def)

theorem probe_recorded_witness:
  "\<exists>db' err. pollTransportOnce answering_client pg_Store 5 (example_node 1 ''p:1'' []) ProbeSourceP2P example_db = (db', err) \<and>
     ((\<exists>m\<in>set (db_nodes db'). n_PublicKey m = [7] \<and> (n_ID m, ''p:1'') \<in> address_keys db') \<or> err = Some ErrPrimaryKey \<or>
      snd (pg_UpsertConfirmedNode 5 ''p:1'' [7] DiscoverySourceP2P example_db) = Fail ErrPrimaryKey)"
proof -
  obtain db' err where p: "pollTransportOnce answering_client pg_Store 5 (example_node 1 ''p:1'' []) ProbeSourceP2P example_db = (db', err)"
    by force
  have "n_Address (example_node 1 ''p:1'' []) = ''p:1''" by (simp add: example_node_def)
  with probe_recorded [OF example_store_ok _ _ _ _ p] show ?thesis
    by (intro exI [of _ db'] exI [of _ err]) (auto simp: p valid_probe_def)
qed

theorem poll_pass_safe_witness:
  "\<exists>c'. poll pg_Store rev 5 unconfirmedFilter (example_collector example_db) = (c', None) \<and> store_ok (co_Storage c')"
proof -
  obtain c' err where p: "poll pg_Store rev 5 unconfirmedFilter (example_collector example_db) = (c', err)" by force
  have "store_ok (co_Storage (example_collector example_db))" using example_store_ok by (simp add: example_collector_def)
  from poll_pass_safe [OF this p] p show ?thesis by blast
qed

theorem poll_stale_id_witness:
  "\<exists>db' errs. PollOnce (Some answering_client) (Some stubClient) None pg_Store 5 (example_node 1 ''p:1'' []) example_db = (db', errs) \<and>
     errs \<noteq> [] \<and> filter (\<lambda>h. hc_ProbeSource h = ProbeSourceP2P) (db_node_health db') = []"
proof -
  obtain db' errs where p: "PollOnce (Some answering_client) (Some stubClient) None pg_Store 5 (example_node 1 ''p:1'' []) example_db = (db', errs)"
    by force
  have "node_by_address ''p:1'' example_db = Some (example_node 1 ''p:1'' [])" "node_by_pubkey [7] example_db = Some (example_node 2 ''c:1'' [7])"
    "db_node_health example_db = []" "n_Address (example_node 1 ''p:1'' []) = ''p:1''" "n_PublicKey (example_node 1 ''p:1'' []) = []"
    by (simp_all add: node_by_address_def node_by_pubkey_def example_db_defs)
  with poll_stale_id [OF example_store_ok _ _ _ _ _ _ _ _ p] p show ?thesis by auto
qed

end
