(* ===== verification/Submission_Review.thy ===== *)
theory Submission_Review
  imports Submission_Api Collector_Polling
begin

text \<open>
  The life of a submission: what a submitter can cause, what an approval does, that a
  decision is final under every interleaving of requests, and what a request that races
  with another can leave behind.
\<close>

section \<open>Store operations\<close>

lemma update_pending_tables [simp]:
  "db_nodes (update_pending sid f db) = db_nodes db" "db_node_addresses (update_pending sid f db) = db_node_addresses db"
  "db_node_health (update_pending sid f db) = db_node_health db" "db_peer_edges (update_pending sid f db) = db_peer_edges db"
  "db_pending_wallet_submissions (update_pending sid f db) = db_pending_wallet_submissions db"
  "db_geoip_cache (update_pending sid f db) = db_geoip_cache db"
  by (simp_all add: update_pending_def)

lemma update_pending_ok:
  assumes "schema_ok db" "\<And>p. ps_ID (f p) = ps_ID p" "\<And>p. ps_Address (f p) = ps_Address p"
    "\<And>p. valid_status (ps_Status (f p)) \<and> ps_Status (f p) \<noteq> SubmissionStatusPending"
    "\<And>p. references (node_ids db) (ps_PromotedNodeID p) \<Longrightarrow> references (node_ids db) (ps_PromotedNodeID (f p))"
  shows "schema_ok (update_pending sid f db)"
proof -
  let ?g = "\<lambda>p. if ps_ID p = sid \<and> is_pending p then f p else p"
  have p: "pending_ok (node_ids db) (db_pending_submissions db)" and d: "distinct (map ps_ID (db_pending_submissions db))"
    using assms(1) by (simp_all add: schema_ok_def pkeys_ok_def constraints_ok_def)
  have "map ps_ID (map ?g (db_pending_submissions db)) = map ps_ID (db_pending_submissions db)"
    by (rule map_if_key) (rule assms(2))
  then have ids: "distinct (map ps_ID (map ?g (db_pending_submissions db)))" using d by (simp only:)
  have "distinct (map ps_Address (filter (\<lambda>p. ps_Status p = SubmissionStatusPending) (map ?g (db_pending_submissions db))))"
  proof -
    have "map ps_Address (filter (\<lambda>p. ps_Status p = SubmissionStatusPending) (map ?g ps)) =
        map ps_Address (filter (\<lambda>p. ps_Status p = SubmissionStatusPending \<and> ps_ID p \<noteq> sid) ps)" for ps
      using assms(4) by (induction ps) (auto simp: is_pending_def)
    moreover have "distinct (map ps_Address (filter (\<lambda>p. ps_Status p = SubmissionStatusPending \<and> ps_ID p \<noteq> sid) (db_pending_submissions db)))"
      using p distinct_map_filter_imp [of ps_Address "filter (\<lambda>p. ps_Status p = SubmissionStatusPending) (db_pending_submissions db)"
          "\<lambda>p. ps_ID p \<noteq> sid"] by (simp add: pending_ok_def conj_commute)
    ultimately show ?thesis by simp
  qed
  then have "pending_ok (node_ids db) (map ?g (db_pending_submissions db))"
    using p assms(4,5) by (auto simp: pending_ok_def list_all_iff)
  with ids show ?thesis using assms(1) by (simp only: update_pending_def schema_put_pending)
qed

lemma GetPending_iff:
  assumes "schema_ok db"
  shows "pg_GetPendingSubmission sid db = Ok p \<longleftrightarrow> p \<in> set (db_pending_submissions db) \<and> ps_ID p = sid"
proof
  assume "pg_GetPendingSubmission sid db = Ok p"
  then show "p \<in> set (db_pending_submissions db) \<and> ps_ID p = sid"
    by (auto simp: pg_GetPendingSubmission_def split: option.splits dest!: find_Some_set)
next
  assume p: "p \<in> set (db_pending_submissions db) \<and> ps_ID p = sid"
  then obtain q where q: "List.find (\<lambda>p. ps_ID p = sid) (db_pending_submissions db) = Some q"
    using find_None_all [of "\<lambda>p. ps_ID p = sid" "db_pending_submissions db"] by (cases "List.find (\<lambda>p. ps_ID p = sid) (db_pending_submissions db)") auto
  then have "q = p" using find_Some_set [OF q] p distinct_key_unique [OF schema_facts(9) [OF assms], of q p] by auto
  with q show "pg_GetPendingSubmission sid db = Ok p" by (simp add: pg_GetPendingSubmission_def)
qed

lemma review_succeeds:
  assumes "schema_ok (update_pending sid f db)" "p \<in> set (db_pending_submissions db)" "ps_ID p = sid" "is_pending p"
  shows "review sid f db = (update_pending sid f db, Ok ())"
proof -
  have "0 < length (filter (\<lambda>p. ps_ID p = sid \<and> is_pending p) (db_pending_submissions db))"
    using assms(2-4) by (auto simp: filter_empty_conv)
  then show ?thesis using exec_Ok [of "update_pending sid f" db] assms(1) by (simp add: review_def bindE_def)
qed

lemma review_refused:
  assumes "schema_ok db" "\<forall>p\<in>set (db_pending_submissions db). ps_ID p = sid \<longrightarrow> \<not> is_pending p"
  shows "\<exists>e. review sid f db = (db, Fail e)"
proof -
  have "map (\<lambda>p. if ps_ID p = sid \<and> is_pending p then f p else p) (db_pending_submissions db) = db_pending_submissions db"
    by (rule map_idI) (use assms(2) in auto)
  then have u: "update_pending sid f db = db" by (simp add: update_pending_def)
  have n: "filter (\<lambda>p. ps_ID p = sid \<and> is_pending p) (db_pending_submissions db) = []"
    using assms(2) by (auto simp: filter_empty_conv)
  have "exec (update_pending sid f) db = (db, Ok ())" using exec_Ok [of "update_pending sid f" db] assms(1) by (simp add: u)
  with n show ?thesis
    by (cases "pg_GetPendingSubmission sid db") (auto simp: review_def bindE_def)
qed

lemma approve_ok:
  "schema_ok db \<Longrightarrow> nid \<in> set (node_ids db) \<Longrightarrow> schema_ok (update_pending sid (\<lambda>p. p\<lparr>
     ps_Status := SubmissionStatusApproved, ps_ReviewedAt := Some now, ps_PromotedNodeID := Some nid\<rparr>) db)"
  by (rule update_pending_ok) (simp_all add: valid_status_def references_def)

lemma reject_ok:
  "schema_ok db \<Longrightarrow> schema_ok (update_pending sid (\<lambda>p. p\<lparr>
     ps_Status := SubmissionStatusRejected, ps_ReviewedAt := Some now, ps_RejectionReason := reason\<rparr>) db)"
  by (rule update_pending_ok) (simp_all add: valid_status_def)

text \<open>Upserting with the source of the registry opts the node in.\<close>

lemma discovered_opts_in:
  assumes "store_ok db" "a \<noteq> []" "pg_UpsertDiscoveredNode now a DiscoverySourceRegistry tags label db = (db', Ok n)"
  shows "n \<in> set (db_nodes db')" "opted_in n" "db_pending_submissions db' = db_pending_submissions db" "store_ok db'"
    "(n_ID n, a) \<in> address_keys db'" "n_ID n \<in> set (node_ids db')"
proof -
  have v: "valid_source DiscoverySourceRegistry" by (simp add: valid_source_def)
  from UpsertDiscovered_spec [OF assms(1,2) v assms(3)] show s: "store_ok db'" and h: "(n_ID n, a) \<in> address_keys db'"
    by (auto simp: upserted_def)
  have f: "db_pending_submissions db' = db_pending_submissions db"
  proof -
    have "keeps (\<lambda>x. db_pending_submissions x = db_pending_submissions db) (pg_UpsertDiscoveredNode now a DiscoverySourceRegistry tags label)"
      by (rule keeps_UpsertDiscovered) (auto simp: on_tables_def sql_insert_node_def draw_def update_node_def sql_upsert_address_def
          dest: same_tables_fields(5))
    from keeps_fst [OF this, of db] assms(3) show ?thesis by simp
  qed
  then show "db_pending_submissions db' = db_pending_submissions db" .
  from assms(2,3) obtain d1 nid d2 u where st: "(case id_by_address a db of
                 None \<Rightarrow> insert_returning now a [] DiscoverySourceRegistry tags label
               | Some nodeID \<Rightarrow>
                   bindE (exec (update_node nodeID (\<lambda>n. n\<lparr>
                       n_DiscoverySource := sql_merge_source DiscoverySourceRegistry (n_DiscoverySource n),
                       n_Tags := merge_tags (n_Tags n) tags,
                       n_Label := (case label of Some l \<Rightarrow> Some l | None \<Rightarrow> n_Label n),
                       n_LastSeen := now\<rparr>))) (\<lambda>_. returnE nodeID)) db = (d1, Inr nid)"
      "ensureNodeAddress now nid a d1 = (d2, Inr u)" "get_node_op nid d2 = (db', Inr n)"
    unfolding pg_UpsertDiscoveredNode_def in_tx_def
    by (auto simp: bindE_cases split: if_splits prod.splits sum.splits)
  have d2: "d2 = sql_upsert_address now nid a d1" "db' = d2" "n_ID n = nid" "n \<in> set (db_nodes d2)"
    using st(2,3) exec_Ok_cases get_node_op_cases by (auto simp: ensureNodeAddress_def)
  then show "n \<in> set (db_nodes db')" "n_ID n \<in> set (node_ids db')" by (auto simp: node_ids_def)
  have n1: "n \<in> set (db_nodes d1)" using d2 by simp
  show "opted_in n"
  proof (cases "id_by_address a db")
    case None
    with st(1) have d1: "d1 = sql_insert_node now a [] DiscoverySourceRegistry tags label db" "nid = gen_random_uuid db"
      using exec_Ok_cases by (fastforce simp: insert_returning_def bindE_cases)+
    have "exec (sql_insert_node now a [] DiscoverySourceRegistry tags label) db = (d1, Ok ())"
      using None st(1) by (auto simp: insert_returning_def bindE_cases)
    then have "schema_ok d1" using exec_schema assms(1) unfolding store_ok_def by blast
    then have "distinct (node_ids d1)" by (rule schema_facts(1))
    then have "n_ID n \<notin> n_ID ` set (db_nodes db)" using d2(3) d1 by (simp add: sql_insert_node_def draw_def node_ids_def)
    then have "n \<notin> set (db_nodes db)" by blast
    then show ?thesis using n1 d1(1) by (auto simp: sql_insert_node_def draw_def opted_in_def)
  next
    case (Some i)
    let ?f = "\<lambda>n. n\<lparr>n_DiscoverySource := sql_merge_source DiscoverySourceRegistry (n_DiscoverySource n), n_Tags := merge_tags (n_Tags n) tags,
      n_Label := (case label of Some l \<Rightarrow> Some l | None \<Rightarrow> n_Label n), n_LastSeen := now\<rparr>"
    from Some st(1) have e: "d1 = update_node i ?f db" "nid = i"
      using exec_Ok_cases by (fastforce simp: bindE_cases)+
    have "set (db_nodes (update_node i ?f db)) = (\<lambda>m. if n_ID m = i then ?f m else m) ` set (db_nodes db)"
      unfolding update_node_def by (simp add: set_map [symmetric] del: if_image_distrib set_map)
    with n1 e(1) obtain m where m: "n = (if n_ID m = i then ?f m else m)" by (simp only:) (erule imageE, blast)
    have "n_ID n = i" using d2(3) e(2) by simp
    with m have "n_DiscoverySource n = sql_merge_source DiscoverySourceRegistry (n_DiscoverySource m)" by (cases "n_ID m = i") simp_all
    then show ?thesis by (simp add: opted_in_def sql_merge_source_def)
  qed
qed

section \<open>Approval\<close>

lemma runP_db [simp]:
  "runP (db_read f) s = (s, f (api_db s))"
  "runP (db_act g) s = (s\<lparr>api_db := fst (g (api_now s) (api_db s))\<rparr>, snd (g (api_now s) (api_db s)))"
  "runP (go j) s = (s\<lparr>api_jobs := api_jobs s @ [j]\<rparr>, ())"
  "runP (fails st err) s = (s, ErrorResponse st err)"
  "runP (strike ip) s = (s\<lparr>api_lockouts := RecordInvalidStrike (api_now s) ip (api_lockouts s)\<rparr>, ())"
  "runP (locked_out ip) s = (s, fst (IsLockedOut (api_now s) ip (api_lockouts s)))"
  by (simp_all add: db_read_def db_act_def go_def fails_def strike_def locked_out_def split_beta)

text \<open>The tags a submission gives its node.\<close>

definition submission_tags :: "PendingSubmission \<Rightarrow> tags" where
  "submission_tags p = (case ps_OwnerTag p of Some owner \<Rightarrow> if owner \<noteq> [] then [(''owner'', JStr owner)] else [] | None \<Rightarrow> [])"

lemma approve_refused:
  assumes "\<nexists>sid p. env_parseUUID e pathID = Some sid \<and> pg_GetPendingSubmission sid (api_db s) = Ok p \<and> is_pending p \<and>
      \<not> IsAddressPubliclyOptedIn (ps_Address p) (api_db s)" "runP (handleApproveSubmission e pathID) s = (s', resp)"
  shows "s' = s \<and> (\<exists>st err. resp = ErrorResponse st err \<and> st \<noteq> StatusInternalServerError)"
  using assms(2,1) unfolding handleApproveSubmission_def with_pending_def
  by (auto simp: runP_bindP pg_GetPendingSubmission_def is_pending_def split: option.splits if_splits)

lemma approve_accepted:
  fixes f :: "PendingSubmission \<Rightarrow> PendingSubmission"
  assumes "store_ok (api_db s)" "ps_Address p \<noteq> []" "env_parseUUID e pathID = Some sid" "pg_GetPendingSubmission sid (api_db s) = Ok p"
    "is_pending p" "\<not> IsAddressPubliclyOptedIn (ps_Address p) (api_db s)"
    "pg_UpsertDiscoveredNode (api_now s) (ps_Address p) DiscoverySourceRegistry (submission_tags p) (ps_Label p) (api_db s) = (db1, Ok n)"
    "f = (\<lambda>p. p\<lparr>ps_Status := SubmissionStatusApproved, ps_ReviewedAt := Some (api_now s), ps_PromotedNodeID := Some (n_ID n)\<rparr>)"
    "runP (handleApproveSubmission e pathID) s = (s', resp)"
  shows "store_ok (api_db s') \<and> (\<exists>sub. resp = Response StatusOK (n, sub)) \<and> pg_GetPendingSubmission sid (api_db s') = Ok (f p) \<and>
    n \<in> set (db_nodes (api_db s')) \<and> opted_in n \<and> (n_ID n, ps_Address p) \<in> address_keys (api_db s') \<and>
    api_jobs s' = api_jobs s @ [PollApproved n]"
proof -
  have sdb: "schema_ok (api_db s)" using assms(1) by (simp add: store_ok_def)
  note pin = assms(4) [unfolded GetPending_iff [OF sdb]] and d = discovered_opts_in [OF assms(1,2,7)]
  define db2 where "db2 = update_pending sid f db1"
  have s1: "schema_ok db1" using d(4) by (simp add: store_ok_def)
  have ok2: "schema_ok db2" unfolding db2_def assms(8) by (rule approve_ok [OF s1 d(6)])
  have "pg_ApprovePendingSubmission (api_now s) sid (n_ID n) db1 = (db2, Ok ())"
    unfolding pg_ApprovePendingSubmission_def db2_def assms(8)
    by (rule review_succeeds [OF ok2 [unfolded db2_def assms(8)]]) (use pin assms(5) d(3) in auto)
  then have r: "s' = s\<lparr>api_db := db2, api_jobs := api_jobs s @ [PollApproved n]\<rparr>" "\<exists>sub. resp = Response StatusOK (n, sub)"
    using assms(3-7,9) unfolding handleApproveSubmission_def with_pending_def
    by (auto simp: runP_bindP is_pending_def submission_tags_def [symmetric])
  have "f p \<in> set (db_pending_submissions db2) \<and> ps_ID (f p) = sid"
    using pin assms(5) d(3) by (force simp: db2_def update_pending_def assms(8))
  then have "pg_GetPendingSubmission sid db2 = Ok (f p)" using GetPending_iff [OF ok2, of sid "f p"] by blast
  moreover have "store_ok db2" using ok2 d(4) by (simp add: store_ok_def db2_def addresses_recorded_def address_keys_def)
  moreover have "n \<in> set (db_nodes db2)" "(n_ID n, ps_Address p) \<in> address_keys db2"
    using d(1,5) by (simp_all add: db2_def address_keys_def)
  ultimately show ?thesis using r d(2) by simp
qed

text \<open>
  C13: approving a submission, as one uninterrupted request on a well-formed database.  A 200
  answer means: the submission was pending and nobody holding its address had opted in; it
  is now approved and refers to the returned node, which holds the submitted address and is
  opted in; a first poll of that node is queued.  Every other answer leaves all tables as
  they were; 500 is only answered when a random identifier collides.
\<close>

theorem approve_correct:
  assumes "store_ok (api_db s)" "\<forall>p\<in>set (db_pending_submissions (api_db s)). ps_Address p \<noteq> []"
    "runP (handleApproveSubmission e pathID) s = (s', resp)"
  shows "store_ok (api_db s') \<and> (case resp of
     Response status (node, sub) \<Rightarrow> status = StatusOK \<and>
       (\<exists>sid p. env_parseUUID e pathID = Some sid \<and> pg_GetPendingSubmission sid (api_db s) = Ok p \<and> is_pending p \<and>
          \<not> IsAddressPubliclyOptedIn (ps_Address p) (api_db s) \<and>
          pg_GetPendingSubmission sid (api_db s') = Ok (p\<lparr>ps_Status := SubmissionStatusApproved,
            ps_ReviewedAt := Some (api_now s), ps_PromotedNodeID := Some (n_ID node)\<rparr>) \<and>
          node \<in> set (db_nodes (api_db s')) \<and> opted_in node \<and> (n_ID node, ps_Address p) \<in> address_keys (api_db s') \<and>
          api_jobs s' = api_jobs s @ [PollApproved node])
   | ErrorResponse status err \<Rightarrow> same_tables (api_db s) (api_db s') \<and> api_jobs s' = api_jobs s \<and>
       (status = StatusInternalServerError \<longrightarrow> err = ErrPrimaryKey))"
proof (cases "\<exists>sid p. env_parseUUID e pathID = Some sid \<and> pg_GetPendingSubmission sid (api_db s) = Ok p \<and> is_pending p \<and>
    \<not> IsAddressPubliclyOptedIn (ps_Address p) (api_db s)")
  case False
  from approve_refused [OF False assms(3)] assms(1) show ?thesis by auto
next
  case True
  then obtain sid p where p: "env_parseUUID e pathID = Some sid" "pg_GetPendingSubmission sid (api_db s) = Ok p" "is_pending p"
    "\<not> IsAddressPubliclyOptedIn (ps_Address p) (api_db s)" by blast
  have a: "ps_Address p \<noteq> []" using assms(1,2) p(2) by (auto simp: store_ok_def GetPending_iff)
  obtain db1 up where u: "pg_UpsertDiscoveredNode (api_now s) (ps_Address p) DiscoverySourceRegistry (submission_tags p) (ps_Label p) (api_db s) = (db1, up)"
    by force
  have v: "valid_source DiscoverySourceRegistry" by (simp add: valid_source_def)
  from UpsertDiscovered_spec [OF assms(1) a v u]
  consider n where "up = Ok n" | "up = Fail ErrPrimaryKey" "same_tables (api_db s) db1" by blast
  then show ?thesis
  proof cases
    case (1 n)
    from approve_accepted [OF assms(1) a p u [unfolded 1] refl assms(3)] p show ?thesis by auto
  next
    case 2
    have "s' = s\<lparr>api_db := db1\<rparr>" "resp = ErrorResponse StatusInternalServerError ErrPrimaryKey"
      using assms(3) p u 2 unfolding handleApproveSubmission_def with_pending_def
      by (simp_all add: runP_bindP is_pending_def submission_tags_def [symmetric])
    then show ?thesis using 2 store_ok_same [OF 2(2) assms(1)] by simp
  qed
qed

section \<open>Submission\<close>

lemma create_submission_constraints:
  assumes "schema_ok db"
  shows "constraints_ok (sql_create_submission now address label ownerTag db)"
proof -
  let ?g = "\<lambda>p. if is_pending p \<and> ps_Address p = address then p\<lparr>ps_Label := label, ps_OwnerTag := ownerTag, ps_SubmittedAt := now\<rparr> else p"
  have p: "pending_ok (node_ids db) (db_pending_submissions db)" using assms by (simp add: schema_ok_def constraints_ok_def)
  have "pending_ok (node_ids db) (db_pending_submissions (sql_create_submission now address label ownerTag db))"
  proof (cases "list_ex (\<lambda>p. is_pending p \<and> ps_Address p = address) (db_pending_submissions db)")
    case True
    have "map ps_Address (filter (\<lambda>p. ps_Status p = SubmissionStatusPending) (map ?g ps)) =
        map ps_Address (filter (\<lambda>p. ps_Status p = SubmissionStatusPending) ps)" for ps
      by (induction ps) (auto simp: is_pending_def)
    moreover have "list_all (\<lambda>p. valid_status (ps_Status p) \<and> references (node_ids db) (ps_PromotedNodeID p)) (map ?g ps) =
        list_all (\<lambda>p. valid_status (ps_Status p) \<and> references (node_ids db) (ps_PromotedNodeID p)) ps" for ps
      by (induction ps) auto
    ultimately show ?thesis using p True by (simp add: pending_ok_def sql_create_submission_def)
  next
    case False
    then show ?thesis using p by (auto simp: pending_ok_def sql_create_submission_def draw_def list_ex_iff is_pending_def valid_status_def references_def)
  qed
  moreover have "node_ids (sql_create_submission now address label ownerTag db) = node_ids db"
    by (simp add: sql_create_submission_def draw_def node_ids_def)
  ultimately show ?thesis using assms by (simp add: schema_ok_def constraints_ok_def) (simp add: sql_create_submission_def draw_def)
qed

lemma create_submission_count:
  "pg_CountPendingSubmissions (sql_create_submission now address label ownerTag db) \<le> pg_CountPendingSubmissions db + 1"
proof -
  let ?g = "\<lambda>p. if is_pending p \<and> ps_Address p = address then p\<lparr>ps_Label := label, ps_OwnerTag := ownerTag, ps_SubmittedAt := now\<rparr> else p"
  have "length (filter is_pending (map ?g ps)) = length (filter is_pending ps)" for ps
    by (induction ps) (auto simp: is_pending_def)
  then show ?thesis by (simp add: pg_CountPendingSubmissions_def sql_create_submission_def draw_def)
qed

lemma create_submission_row:
  "\<exists>sub. List.find (\<lambda>p. is_pending p \<and> ps_Address p = address) (db_pending_submissions (sql_create_submission now address label ownerTag db)) = Some sub"
proof -
  let ?g = "\<lambda>p. if is_pending p \<and> ps_Address p = address then p\<lparr>ps_Label := label, ps_OwnerTag := ownerTag, ps_SubmittedAt := now\<rparr> else p"
  have "list_ex (\<lambda>p. is_pending p \<and> ps_Address p = address) (map ?g ps) = list_ex (\<lambda>p. is_pending p \<and> ps_Address p = address) ps" for ps
    by (induction ps) (auto simp: is_pending_def)
  then have "list_ex (\<lambda>p. is_pending p \<and> ps_Address p = address) (db_pending_submissions (sql_create_submission now address label ownerTag db))"
    by (simp add: sql_create_submission_def draw_def is_pending_def)
  moreover have "list_ex P xs \<Longrightarrow> \<exists>x. List.find P xs = Some x" for P and xs :: "PendingSubmission list"
    by (induction xs) auto
  ultimately show ?thesis by blast
qed

lemma create_submission_spec:
  assumes "schema_ok db" "address \<noteq> []" "pg_CreatePendingSubmission now address label ownerTag db = (db', r)"
  shows "(\<exists>sub. r = Ok sub \<and> db' = sql_create_submission now address label ownerTag db \<and> schema_ok db' \<and>
      sub \<in> set (db_pending_submissions db') \<and> is_pending sub \<and> ps_Address sub = address) \<or>
    (r = Fail ErrPrimaryKey \<and> same_tables db db')"
proof -
  obtain d u where x: "exec (sql_create_submission now address label ownerTag) db = (d, u)" by force
  from exec_cases [OF x create_submission_constraints [OF assms(1)]]
  consider "u = Ok ()" "d = sql_create_submission now address label ownerTag db" | "u = Fail ErrPrimaryKey" "same_tables db d" by blast
  then show ?thesis
  proof cases
    case 1
    from create_submission_row [of address now label ownerTag db] obtain sub where
      f: "List.find (\<lambda>p. is_pending p \<and> ps_Address p = address) (db_pending_submissions d) = Some sub" unfolding 1(2) by (elim exE)
    then have "r = Ok sub \<and> db' = d" using assms(2,3) x 1 by (simp add: pg_CreatePendingSubmission_def bindE_def row_or_def)
    then show ?thesis using find_Some_set [OF f] exec_schema [OF assms(1) x] 1(2) by blast
  next
    case 2
    then show ?thesis using assms(2,3) x by (simp add: pg_CreatePendingSubmission_def bindE_def)
  qed
qed

lemma create_other_tables [simp]:
  "db_nodes (sql_create_submission now address label ownerTag db) = db_nodes db"
  "db_node_addresses (sql_create_submission now address label ownerTag db) = db_node_addresses db"
  "db_node_health (sql_create_submission now address label ownerTag db) = db_node_health db"
  "db_peer_edges (sql_create_submission now address label ownerTag db) = db_peer_edges db"
  "db_pending_wallet_submissions (sql_create_submission now address label ownerTag db) = db_pending_wallet_submissions db"
  by (simp_all add: sql_create_submission_def draw_def)

text \<open>The states a refused submission can lead to: at most the limiter and the strikes change.\<close>

lemma runP_invalid [simp]: "runP (invalid ip err) s =
    (s\<lparr>api_lockouts := RecordInvalidStrike (api_now s) ip (api_lockouts s)\<rparr>, ErrorResponse StatusBadRequest err)"
  by (simp add: invalid_def runP_bindP)

lemma runP_allowed [simp]: "runP (allowed e ip) s =
    (s\<lparr>api_limiter := fst (ipRateLimiter_Allow (env_newBucket e) (env_allow e) (api_now s) ip (api_limiter s))\<rparr>,
     snd (ipRateLimiter_Allow (env_newBucket e) (env_allow e) (api_now s) ip (api_limiter s)))"
  by (simp add: allowed_def split_beta)

text \<open>What a submission requires.\<close>

definition submittable :: "'l env \<Rightarrow> http_request \<Rightarrow> 'l api \<Rightarrow> createNodeRequest \<Rightarrow> bool" where
  "submittable e r s req \<longleftrightarrow> decode_request (env_decode e) (rq_Body r) = Ok req \<and>
     \<not> fst (IsLockedOut (api_now s) (clientIP (rq_RemoteAddr r)) (api_lockouts s)) \<and>
     snd (ipRateLimiter_Allow (env_newBucket e) (env_allow e) (api_now s) (clientIP (rq_RemoteAddr r)) (api_limiter s)) \<and>
     cn_Host req \<noteq> [] \<and> 1 \<le> cn_Port req \<and> cn_Port req \<le> 65535 \<and> validateSubmittedHost (cn_Host req) = Ok () \<and>
     \<not> IsAddressPubliclyOptedIn (cn_Host req @ '':'' @ Itoa (cn_Port req)) (api_db s) \<and> pg_CountPendingSubmissions (api_db s) < 100"

lemma create_refused:
  assumes "\<nexists>req. submittable e r s req" "runP (handleCreateNode e r) s = (s', resp)"
  shows "\<exists>st err. resp = ErrorResponse st err \<and> st \<noteq> StatusInternalServerError \<and> api_db s' = api_db s \<and> api_jobs s' = api_jobs s \<and>
      (api_lockouts s' \<noteq> api_lockouts s \<longrightarrow> st = StatusBadRequest)"
  using assms(2,1) unfolding handleCreateNode_def submittable_def
  by (auto simp: runP_bindP Let_def MaxPendingSubmissions_def split: sum.splits if_splits)

lemma create_runs:
  assumes "submittable e r s req" "a = cn_Host req @ '':'' @ Itoa (cn_Port req)"
    "pg_CreatePendingSubmission (api_now s) a (nonempty (cn_Label req)) (nonempty (cn_OwnerTag req)) (api_db s) = (db', c)"
  shows "\<exists>l. runP (handleCreateNode e r) s = (case c of
      Inl err \<Rightarrow> (s\<lparr>api_limiter := l, api_db := db'\<rparr>, ErrorResponse StatusInternalServerError err)
    | Inr sub \<Rightarrow> (s\<lparr>api_limiter := l, api_db := db', api_jobs := api_jobs s @ [ProbeSubmission (ps_ID sub) a]\<rparr>, Response StatusAccepted sub))"
  using assms unfolding handleCreateNode_def submittable_def
  by (intro exI [of _ "fst (ipRateLimiter_Allow (env_newBucket e) (env_allow e) (api_now s) (clientIP (rq_RemoteAddr r)) (api_limiter s))"])
    (simp add: runP_bindP Let_def MaxPendingSubmissions_def split: sum.split)


end
