(* ===== verification/Pg_Topology.thy ===== *)
theory Pg_Topology
  imports Pg_Observations
begin

text \<open>
  \<^verbatim>\<open>internal/storage/storage.go\<close>, the queries behind the public views: the topology and the
  degree rankings over the peer observations, the height of the network, the seed
  candidates, the cache of geographic lookups and the uptime of wallet endpoints.
\<close>

section \<open>The view of peer edges\<close>

text \<open>
  The view \<^verbatim>\<open>peer_edges\<close> (migration 0004): one row per ordered pair, with the identifier of
  its first observation and the times of the first and the last.
\<close>

definition pair_of :: "PeerEdgeObservation \<Rightarrow> uuid \<times> uuid" where
  "pair_of o1 = (po_FromNodeID o1, po_ToNodeID o1)"

definition peer_edges :: "DB \<Rightarrow> PeerEdge list" where
  "peer_edges db = map (\<lambda>k.
     let os = sort_key po_ObservedAt (filter (\<lambda>o1. pair_of o1 = k) (db_peer_edges db))
     in \<lparr>pe_ID = po_ID (hd os), pe_FromNodeID = fst k, pe_ToNodeID = snd k,
         pe_FirstSeen = po_ObservedAt (hd os), pe_LastSeen = po_ObservedAt (last os)\<rparr>)
     (remdups (map pair_of (db_peer_edges db)))"

section \<open>Degrees\<close>

definition undirected :: "PeerEdgeObservation list \<Rightarrow> (uuid \<times> uuid) list" where
  "undirected os = map pair_of os @ map (\<lambda>o1. (po_ToNodeID o1, po_FromNodeID o1)) os"

text \<open>\<^verbatim>\<open>count(DISTINCT other_node_id) ... GROUP BY node_id\<close>, over the peers that satisfy a condition.\<close>

definition count_peers :: "(uuid \<Rightarrow> bool) \<Rightarrow> (uuid \<times> uuid) list \<Rightarrow> uuid \<Rightarrow> nat" where
  "count_peers P rel n = length (remdups (map snd (filter (\<lambda>(a, b). a = n \<and> P b) rel)))"

definition topNodeIDsByDegree :: "nat \<Rightarrow> DB \<Rightarrow> uuid list" where
  "topNodeIDsByDegree maxNodes db =
     take maxNodes (map n_ID (sort_key (\<lambda>n. - int (count_peers (\<lambda>_. True) (undirected (db_peer_edges db)) (n_ID n)))
       (sort_by_address (db_nodes db))))"

record TopologyFilter =
  tf_MaxNodes :: int
  tf_MaxEdges :: int

definition ListTopology :: "TopologyFilter \<Rightarrow> DB \<Rightarrow> (Node list \<times> PeerEdge list) result" where
  "ListTopology f db =
     (if tf_MaxNodes f \<le> 0 then Ok (sort_by_address (db_nodes db), sort_key pe_FirstSeen (peer_edges db))
      else let ids = topNodeIDsByDegree (nat (tf_MaxNodes f)) db in
           if ids = [] then Ok ([], [])
           else let nodes = sort_by_address (filter (\<lambda>n. n_ID n \<in> set ids) (db_nodes db));
                    edges = sort_key pe_FirstSeen (filter (\<lambda>e. pe_FromNodeID e \<in> set ids \<and> pe_ToNodeID e \<in> set ids) (peer_edges db))
                in Ok (nodes, if tf_MaxEdges f > 0 then take (nat (tf_MaxEdges f)) edges else edges))"

text \<open>The classification of a peer's addresses in SQL.\<close>

definition ilike_onion :: "string \<Rightarrow> bool" where
  "ilike_onion a = list_ex (\<lambda>s. has_prefix s ''.onion'') (suffixes (map lower_char a))"

definition sql_digits :: "nat \<Rightarrow> string \<Rightarrow> bool" where
  "sql_digits most s \<longleftrightarrow> s \<noteq> [] \<and> length s \<le> most \<and> list_all is_digit s"

definition sql_ipv4 :: "string \<Rightarrow> bool" where
  "sql_ipv4 a =
     (case split_byte (CHR '':'') a of
        [h, p] \<Rightarrow> sql_digits (length p) p \<and>
          (case split_byte (CHR ''.'') h of [a1, a2, a3, a4] \<Rightarrow> list_all (sql_digits 3) [a1, a2, a3, a4] | _ \<Rightarrow> False)
      | _ \<Rightarrow> False)"

definition sql_ipv6 :: "string \<Rightarrow> bool" where
  "sql_ipv6 a =
     (let h = takeWhile (\<lambda>c. is_hex c \<or> c = CHR '':'') (drop 1 a); rest = drop (1 + length h) a
      in take 1 a = ''['' \<and> h \<noteq> [] \<and> has_prefix rest '']:'' \<and> sql_digits (length rest) (drop 2 rest))"

definition has_onion_address :: "DB \<Rightarrow> uuid \<Rightarrow> bool" where
  "has_onion_address db n = list_ex (\<lambda>a. na_NodeID a = n \<and> ilike_onion (na_Address a)) (db_node_addresses db)"

definition has_clearnet_address :: "DB \<Rightarrow> uuid \<Rightarrow> bool" where
  "has_clearnet_address db n = list_ex (\<lambda>a. na_NodeID a = n \<and> \<not> ilike_onion (na_Address a) \<and>
     (sql_ipv4 (na_Address a) \<or> sql_ipv6 (na_Address a))) (db_node_addresses db)"

definition is_confirmed_id :: "DB \<Rightarrow> uuid \<Rightarrow> bool" where
  "is_confirmed_id db n = list_ex (\<lambda>m. n_ID m = n \<and> n_PublicKey m \<noteq> []) (db_nodes db)"

text \<open>Ties of the ranking are broken by scan order.\<close>

definition TopPeeredNodes :: "time \<Rightarrow> int \<Rightarrow> DB \<Rightarrow> NodeDegree list result" where
  "TopPeeredNodes since limit db =
     (let limit = (if limit \<le> 0 then 20 else limit);
          os = filter (\<lambda>o1. po_ObservedAt o1 \<ge> since) (db_peer_edges db);
          both = undirected os; outs = map pair_of os; ins = map (\<lambda>(a, b). (b, a)) outs;
          live = is_confirmed_id db;
          rows = concat (map (\<lambda>i. map (\<lambda>n.
            \<lparr>nd_NodeID = n_ID n, nd_Address = n_Address n, nd_Degree = count_peers (\<lambda>_. True) both i,
             nd_InDegree = count_peers (\<lambda>_. True) ins i, nd_OutDegree = count_peers (\<lambda>_. True) outs i,
             nd_OnionPeerCount = count_peers (has_onion_address db) both i,
             nd_ClearnetPeerCount = count_peers (has_clearnet_address db) both i,
             nd_LiveDegree = count_peers live both i, nd_LiveInDegree = count_peers live ins i,
             nd_LiveOutDegree = count_peers live outs i,
             nd_LiveOnionPeerCount = count_peers (\<lambda>p. has_onion_address db p \<and> live p) both i,
             nd_LiveClearnetPeerCount = count_peers (\<lambda>p. has_clearnet_address db p \<and> live p) both i\<rparr>)
            (filter (\<lambda>n. n_ID n = i) (db_nodes db))) (remdups (map fst both)))
      in Ok (take (nat limit) (sort_key (\<lambda>d. - int (nd_Degree d)) rows)))"

definition ListNodeEdges :: "uuid \<Rightarrow> int \<Rightarrow> DB \<Rightarrow> PeerEdge list result" where
  "ListNodeEdges nid limit db =
     (let limit = (if limit \<le> 0 then 50 else limit)
      in Ok (take (nat limit) (sort_key (\<lambda>e. - pe_LastSeen e)
           (filter (\<lambda>e. pe_FromNodeID e = nid \<or> pe_ToNodeID e = nid) (peer_edges db)))))"

section \<open>Heights, seeds and uptime\<close>

text \<open>
  The latest check of every node within a day, and the height most of them report: none, or
  the height with its count.  Equal counts are broken by scan order.
\<close>

definition latest_heights :: "time \<Rightarrow> DB \<Rightarrow> int list" where
  "latest_heights now db =
     (let recent = filter (\<lambda>h. hc_Timestamp h > now - 24 * Hour) (db_node_health db)
      in List.map_filter (\<lambda>i. hc_Height (hd (sort_key (\<lambda>h. - hc_Timestamp h) (filter (\<lambda>h. hc_NodeID h = i) recent))))
           (remdups (map hc_NodeID recent)))"

definition NetworkHeight :: "time \<Rightarrow> DB \<Rightarrow> (int option \<times> nat) result" where
  "NetworkHeight now db =
     (let hs = latest_heights now db
      in case sort_key (\<lambda>h. - int (count_list hs h)) (remdups hs) of
           [] \<Rightarrow> Ok (None, 0)
         | h # _ \<Rightarrow> Ok (Some h, count_list hs h))"

definition ListSeedCandidates :: "time \<Rightarrow> duration \<Rightarrow> DB \<Rightarrow> SeedCandidate list result" where
  "ListSeedCandidates now since db =
     (let addrs = (\<lambda>n. map na_Address (sort_key na_FirstSeen (filter (\<lambda>a. na_NodeID a = n_ID n) (db_node_addresses db))));
          rows = filter (\<lambda>n. (n_DiscoverySource n = DiscoverySourceRegistry \<or> n_DiscoverySource n = DiscoverySourceBoth) \<and>
                   n_PublicKey n \<noteq> [] \<and> addrs n \<noteq> [] \<and>
                   list_ex (\<lambda>h. hc_NodeID h = n_ID n \<and> hc_Reachable h \<and> hc_Timestamp h \<ge> now - since) (db_node_health db)) (db_nodes db)
      in Ok (map (\<lambda>n. \<lparr>sc_NodeID = n_ID n, sc_PublicKey = n_PublicKey n, sc_Label = n_Label n, sc_Tags = n_Tags n,
           sc_Addresses = addrs n\<rparr>) (sort_key n_ID rows)))"

text \<open>Of the uptime, the numerator and the denominator; the code divides them as floats.\<close>

definition WalletHTTPUptime :: "time \<Rightarrow> uuid \<Rightarrow> duration \<Rightarrow> DB \<Rightarrow> ((nat \<times> nat) option \<times> nat) result" where
  "WalletHTTPUptime now nid since db =
     (let checks = filter (\<lambda>h. hc_NodeID h = nid \<and> hc_ProbeSource h = ProbeSourceWalletHTTP \<and> hc_Timestamp h \<ge> now - since) (db_node_health db);
          total = length checks; reachableCount = length (filter hc_Reachable checks)
      in if total = 0 then Ok (None, 0) else Ok (Some (reachableCount, total), total))"

section \<open>The cache of geographic lookups\<close>

definition GetGeoIPCache :: "string list \<Rightarrow> DB \<Rightarrow> (string \<times> GeoIPEntry) list result" where
  "GetGeoIPCache ips db = Ok (map (\<lambda>e. (ge_IP e, e)) (filter (\<lambda>e. ge_IP e \<in> set ips) (db_geoip_cache db)))"

definition sql_upsert_geoip :: "GeoIPEntry \<Rightarrow> DB \<Rightarrow> DB" where
  "sql_upsert_geoip e db = db\<lparr>db_geoip_cache :=
     (if list_ex (\<lambda>x. ge_IP x = ge_IP e) (db_geoip_cache db)
      then map (\<lambda>x. if ge_IP x = ge_IP e then e else x) (db_geoip_cache db) else db_geoip_cache db @ [e])\<rparr>"

fun UpsertGeoIPCache :: "GeoIPEntry list \<Rightarrow> (DB, unit) op" where
  "UpsertGeoIPCache [] = returnE ()"
| "UpsertGeoIPCache (e # es) =
     (if ge_IP e = [] then throwE (Err ''geoip cache entry ip is required'')
      else bindE (exec (sql_upsert_geoip e)) (\<lambda>_. UpsertGeoIPCache es))"

end
