(* ===== verification/Submission_Final.thy ===== *)
theory Submission_Final
  imports Submission_Review Pg_Topology
begin

text \<open>
  Requests, the goroutines they launch and the collector run at the same time.  Under every
  interleaving of their actions no submission disappears and a decision stands; what a
  review that races with another one can leave behind nevertheless.
\<close>

section \<open>What happens to a submission\<close>

definition row_kept :: "PendingSubmission \<Rightarrow> PendingSubmission \<Rightarrow> bool" where
  "row_kept p q \<longleftrightarrow> ps_ID q = ps_ID p \<and> ps_Address q = ps_Address p \<and>
     (\<not> is_pending p \<longrightarrow> ps_Status q = ps_Status p \<and> ps_ReviewedAt q = ps_ReviewedAt p \<and> ps_RejectionReason q = ps_RejectionReason p \<and>
        ps_Label q = ps_Label p \<and> ps_OwnerTag q = ps_OwnerTag p)"

definition wallet_row_kept :: "PendingWalletSubmission \<Rightarrow> PendingWalletSubmission \<Rightarrow> bool" where
  "wallet_row_kept p q \<longleftrightarrow> pw_ID q = pw_ID p \<and> pw_Host q = pw_Host p \<and>
     (\<not> is_pending_wallet p \<longrightarrow> pw_Status q = pw_Status p \<and> pw_ReviewedAt q = pw_ReviewedAt p \<and>
        pw_RejectionReason q = pw_RejectionReason p \<and> pw_WalletHTTPPort q = pw_WalletHTTPPort p)"

definition rows_kept :: "DB \<Rightarrow> DB \<Rightarrow> bool" where
  "rows_kept db db' \<longleftrightarrow>
     (\<forall>sid p. pg_GetPendingSubmission sid db = Ok p \<longrightarrow> (\<exists>q. pg_GetPendingSubmission sid db' = Ok q \<and> row_kept p q)) \<and>
     (\<forall>sid p. pg_GetPendingWalletSubmission sid db = Ok p \<longrightarrow> (\<exists>q. pg_GetPendingWalletSubmission sid db' = Ok q \<and> wallet_row_kept p q))"

lemma row_kept_refl [simp]: "row_kept p p" "wallet_row_kept w w"
  by (simp_all add: row_kept_def wallet_row_kept_def)

lemma row_kept_trans: "row_kept p q \<Longrightarrow> row_kept q r \<Longrightarrow> row_kept p r"
  by (auto simp: row_kept_def is_pending_def)

lemma wallet_row_kept_trans: "wallet_row_kept p q \<Longrightarrow> wallet_row_kept q r \<Longrightarrow> wallet_row_kept p r"
  by (auto simp: wallet_row_kept_def is_pending_wallet_def)

lemma rows_kept_refl: "rows_kept db db"
  unfolding rows_kept_def using row_kept_refl by blast

lemma rows_kept_trans: "rows_kept a b \<Longrightarrow> rows_kept b c \<Longrightarrow> rows_kept a c"
  unfolding rows_kept_def by (meson row_kept_trans wallet_row_kept_trans)

lemma rows_kept_same:
  assumes "rows_kept d db" "db_pending_submissions db' = db_pending_submissions db"
    "db_pending_wallet_submissions db' = db_pending_wallet_submissions db"
  shows "rows_kept d db'"
  using assms by (simp add: rows_kept_def pg_GetPendingSubmission_def pg_GetPendingWalletSubmission_def)

lemma on_tables_rows: "on_tables (rows_kept d)"
  unfolding on_tables_def using same_tables_fields(5,6) rows_kept_same by metis

text \<open>Rows are rewritten in place or appended.\<close>

lemma find_map_append:
  assumes "\<And>x. k (g x) = k x" "List.find (\<lambda>x. k x = i) xs = Some x"
  shows "List.find (\<lambda>x. k x = i) (map g xs @ ys) = Some (g x)"
  using assms(2) by (induction xs) (auto simp: assms(1) split: if_splits)

lemma rows_kept_put:
  assumes "rows_kept d db" "\<And>p. row_kept p (g p)" "\<And>w. wallet_row_kept w (h w)"
    "db_pending_submissions db' = map g (db_pending_submissions db) @ ps"
    "db_pending_wallet_submissions db' = map h (db_pending_wallet_submissions db) @ ws"
  shows "rows_kept d db'"
proof -
  have "ps_ID (g p) = ps_ID p" "pw_ID (h w) = pw_ID w" for p w
    using assms(2) [of p] assms(3) [of w] by (simp_all add: row_kept_def wallet_row_kept_def)
  then have "pg_GetPendingSubmission sid db' = Ok (g p)" if "pg_GetPendingSubmission sid db = Ok p" for sid p
    using that find_map_append [of ps_ID g] by (auto simp: pg_GetPendingSubmission_def assms(4) split: option.splits)
  moreover have "pg_GetPendingWalletSubmission sid db' = Ok (h p)" if "pg_GetPendingWalletSubmission sid db = Ok p" for sid p
    using that find_map_append [of pw_ID h] \<open>\<And>w p. pw_ID (h w) = pw_ID w\<close>
    by (auto simp: pg_GetPendingWalletSubmission_def assms(5) split: option.splits)
  ultimately have "rows_kept db db'" unfolding rows_kept_def using assms(2,3) by blast
  then show ?thesis using assms(1) rows_kept_trans by blast
qed

section \<open>Every action keeps the rows\<close>

lemma rows_discovered: "keeps (rows_kept d) (pg_UpsertDiscoveredNode now a src tags label)"
  by (rule keeps_UpsertDiscovered [OF on_tables_rows])
    (erule rows_kept_same; simp add: sql_insert_node_def draw_def update_node_def sql_upsert_address_def)+

lemma rows_merge_statement:
  assumes "f \<in> {dedupe_addresses p c, repoint_addresses p c, dedupe_edges_from p c, repoint_edges_from p c,
      dedupe_edges_to p c, repoint_edges_to p c, repoint_health p c, repoint_pending p c, repoint_wallet p c, delete_node p}"
    "rows_kept d db"
  shows "rows_kept d (f db)"
proof -
  let ?g = "\<lambda>s :: PendingSubmission. if ps_PromotedNodeID s = Some p then s\<lparr>ps_PromotedNodeID := Some c\<rparr> else s"
  let ?h = "\<lambda>s :: PendingWalletSubmission. if pw_PromotedNodeID s = Some p then s\<lparr>pw_PromotedNodeID := Some c\<rparr> else s"
  have "rows_kept d (repoint_pending p c db)"
    by (rule rows_kept_put [OF assms(2), of ?g "\<lambda>w. w"]) (simp_all add: repoint_pending_def row_kept_def)
  moreover have "rows_kept d (repoint_wallet p c db)"
    by (rule rows_kept_put [OF assms(2), of "\<lambda>w. w" ?h]) (simp_all add: repoint_wallet_def wallet_row_kept_def)
  moreover have "db_pending_submissions (f db) = db_pending_submissions db \<and>
      db_pending_wallet_submissions (f db) = db_pending_wallet_submissions db"
    if "f \<noteq> repoint_pending p c" "f \<noteq> repoint_wallet p c"
    using assms(1) that by (elim insertE emptyE) (simp_all add: repoint_defs delete_node_def)
  ultimately show ?thesis using rows_kept_same [OF assms(2)] by blast
qed

lemma rows_confirmed: "keeps (rows_kept d) (pg_UpsertConfirmedNode now a pk src)"
  by (rule keeps_UpsertConfirmed [OF on_tables_rows])
    ((erule rows_merge_statement | erule rows_kept_same); simp add: sql_insert_node_def draw_def update_node_def sql_upsert_address_def)+

lemma rows_health: "keeps (rows_kept d) (pg_RecordHealthCheck now i)"
  by (rule keeps_pg_health [OF on_tables_rows]) (erule rows_kept_same; simp)

lemma rows_edge: "keeps (rows_kept d) (pg_RecordPeerEdgeObservation now x y m)"
  by (rule keeps_pg_edge [OF on_tables_rows]) (erule rows_kept_same; simp)

lemma rows_node: "keeps (rows_kept d) (exec (update_node nid f))"
  by (rule keeps_exec [OF on_tables_rows]) (erule rows_kept_same; simp add: update_node_def)

lemma rows_port: "keeps (rows_kept d) (pg_SetNodeWalletHTTPPort nid port)"
  unfolding pg_SetNodeWalletHTTPPort_def by (rule rows_node)

lemma rows_port_by_address: "keeps (rows_kept d) (pg_SetNodeWalletHTTPPortByAddress address port)"
  unfolding pg_SetNodeWalletHTTPPortByAddress_def
  by (intro keeps_rules) (auto intro!: keeps_rules rows_node split: list.split)

lemma rows_create: "keeps (rows_kept d) (pg_CreatePendingSubmission now address label ownerTag)"
proof -
  let ?g = "\<lambda>p. if is_pending p \<and> ps_Address p = address then p\<lparr>ps_Label := label, ps_OwnerTag := ownerTag, ps_SubmittedAt := now\<rparr> else p"
  have "rows_kept d (sql_create_submission now address label ownerTag db)" if "rows_kept d db" for db
  proof (cases "list_ex (\<lambda>p. is_pending p \<and> ps_Address p = address) (db_pending_submissions db)")
    case True
    then show ?thesis
      by (intro rows_kept_put [OF that, of ?g "\<lambda>w. w"]) (simp_all add: sql_create_submission_def row_kept_def)
  next
    case False
    then show ?thesis
      by (intro rows_kept_put [OF that, of "\<lambda>p. p" "\<lambda>w. w"]) (auto simp: sql_create_submission_def draw_def)
  qed
  then show ?thesis unfolding pg_CreatePendingSubmission_def row_or_def
    by (intro keeps_rules keeps_exec [OF on_tables_rows])
qed

lemma rows_create_wallet: "keeps (rows_kept d) (pg_CreatePendingWalletSubmission now host port)"
proof -
  let ?h = "\<lambda>p. if is_pending_wallet p \<and> pw_Host p = host then p\<lparr>pw_WalletHTTPPort := port, pw_SubmittedAt := now\<rparr> else p"
  have "rows_kept d (sql_create_wallet_submission now host port db)" if "rows_kept d db" for db
  proof (cases "list_ex (\<lambda>p. is_pending_wallet p \<and> pw_Host p = host) (db_pending_wallet_submissions db)")
    case True
    then show ?thesis
      by (intro rows_kept_put [OF that, of "\<lambda>p. p" ?h]) (simp_all add: sql_create_wallet_submission_def wallet_row_kept_def)
  next
    case False
    then show ?thesis
      by (intro rows_kept_put [OF that, of "\<lambda>p. p" "\<lambda>w. w"]) (auto simp: sql_create_wallet_submission_def draw_def)
  qed
  then show ?thesis unfolding pg_CreatePendingWalletSubmission_def row_or_def
    by (intro keeps_rules keeps_exec [OF on_tables_rows])
qed

lemma rows_review:
  assumes "\<And>p. ps_ID (f p) = ps_ID p" "\<And>p. ps_Address (f p) = ps_Address p"
  shows "keeps (rows_kept d) (review sid f)"
proof -
  let ?g = "\<lambda>p. if ps_ID p = sid \<and> is_pending p then f p else p"
  have "rows_kept d (update_pending sid f db)" if "rows_kept d db" for db
    by (rule rows_kept_put [OF that, of ?g "\<lambda>w. w"]) (auto simp: update_pending_def row_kept_def assms)
  moreover have "keeps (rows_kept d) (\<lambda>db. (db, pg_GetPendingSubmission sid db))"
    by (auto simp: triple_def split: sum.split)
  ultimately show ?thesis unfolding review_def by (intro keeps_rules keeps_exec [OF on_tables_rows])
qed

lemma rows_review_wallet:
  assumes "\<And>p. pw_ID (f p) = pw_ID p" "\<And>p. pw_Host (f p) = pw_Host p"
  shows "keeps (rows_kept d) (review_wallet sid f)"
proof -
  let ?h = "\<lambda>p. if pw_ID p = sid \<and> is_pending_wallet p then f p else p"
  have "rows_kept d (update_pending_wallet sid f db)" if "rows_kept d db" for db
    by (rule rows_kept_put [OF that, of "\<lambda>p. p" ?h]) (auto simp: update_pending_wallet_def wallet_row_kept_def assms)
  moreover have "keeps (rows_kept d) (\<lambda>db. (db, pg_GetPendingWalletSubmission sid db))"
    by (auto simp: triple_def split: sum.split)
  ultimately show ?thesis unfolding review_wallet_def by (intro keeps_rules keeps_exec [OF on_tables_rows])
qed

lemma rows_decisions:
  "keeps (rows_kept d) (pg_ApprovePendingSubmission now sid nid)" "keeps (rows_kept d) (pg_RejectPendingSubmission now sid reason)"
  "keeps (rows_kept d) (pg_ApprovePendingWalletSubmission now sid nid outcome)" "keeps (rows_kept d) (pg_RejectPendingWalletSubmission now sid reason)"
  unfolding pg_ApprovePendingSubmission_def pg_RejectPendingSubmission_def pg_ApprovePendingWalletSubmission_def
    pg_RejectPendingWalletSubmission_def
  by (intro rows_review rows_review_wallet; simp)+

lemma rows_probe: "keeps (rows_kept d) (pg_RecordSubmissionProbeResult now sid ok)"
  unfolding pg_RecordSubmissionProbeResult_def
proof (rule keeps_exec [OF on_tables_rows])
  let ?g = "\<lambda>p. if ps_ID p = sid then p\<lparr>ps_ProbeAttemptedAt := Some now, ps_ProbeReachable := Some ok\<rparr> else p"
  show "rows_kept d (db\<lparr>db_pending_submissions := map ?g (db_pending_submissions db)\<rparr>)" if "rows_kept d db" for db
    by (rule rows_kept_put [OF that, of ?g "\<lambda>w. w"]) (simp_all add: row_kept_def)
qed

lemma rows_wallet_probe: "keeps (rows_kept d) (pg_RecordWalletSubmissionProbeResult now sid ok)"
  unfolding pg_RecordWalletSubmissionProbeResult_def
proof (rule keeps_exec [OF on_tables_rows])
  let ?h = "\<lambda>p. if pw_ID p = sid then p\<lparr>pw_ProbeAttemptedAt := Some now, pw_ProbeReachable := Some ok\<rparr> else p"
  show "rows_kept d (db\<lparr>db_pending_wallet_submissions := map ?h (db_pending_wallet_submissions db)\<rparr>)" if "rows_kept d db" for db
    by (rule rows_kept_put [OF that, of "\<lambda>p. p" ?h]) (simp_all add: wallet_row_kept_def)
qed

lemmas rows_operations = rows_discovered rows_confirmed rows_health rows_edge rows_port rows_port_by_address rows_create
  rows_create_wallet rows_decisions rows_probe rows_wallet_probe

section \<open>The running system\<close>

text \<open>The requests of the review queues and the goroutines they launch.\<close>

definition void :: "('s, 'a) prog \<Rightarrow> ('s, unit) prog" where
  "void p = bindP p (\<lambda>_. Done ())"

inductive serves :: "'l env \<Rightarrow> 'l api \<Rightarrow> ('l api, unit) prog \<Rightarrow> bool" for e s where
  Create: "serves e s (void (handleCreateNode e r))"
| List: "serves e s (void (handleListSubmissions status))"
| Approve: "serves e s (void (handleApproveSubmission e pathID))"
| Reject: "serves e s (void (handleRejectSubmission e pathID r))"
| CreateWallet: "serves e s (void (handleCreateWalletNodeSubmission e r))"
| ListWallet: "serves e s (void (handleListWalletSubmissions status))"
| ApproveWallet: "serves e s (void (handleApproveWalletSubmission e pathID))"
| RejectWallet: "serves e s (void (handleRejectWalletSubmission e pathID r))"
| PollNow: "serves e s (void (handlePollNow e r))"
| Job: "j \<in> set (api_jobs s) \<Longrightarrow> serves e s (run_job e j)"

text \<open>
  What else changes the state: time, the writes of the collector and of reports (with the
  discovery source, tags and label their call sites pass), the configured wallet ports, the
  retention of peer observations, the cache of locations, and the cleanup of the limiter and
  the tracker.
\<close>

inductive background :: "'l api \<Rightarrow> 'l api \<Rightarrow> bool" where
  Tick: "api_now s \<le> t \<Longrightarrow> background s (s\<lparr>api_now := t\<rparr>)"
| Discovered: "background s (s\<lparr>api_db := fst (pg_UpsertDiscoveredNode (api_now s) a DiscoverySourceP2P [] None (api_db s))\<rparr>)"
| Tagged: "background s (s\<lparr>api_db := fst (pg_UpsertDiscoveredNode (api_now s) a DiscoverySourceP2P
    [(''role'', JStr collectorRoleTagValue)] None (api_db s))\<rparr>)"
| Confirmed: "background s (s\<lparr>api_db := fst (pg_UpsertConfirmedNode (api_now s) a pk DiscoverySourceP2P (api_db s))\<rparr>)"
| Health: "background s (s\<lparr>api_db := fst (pg_RecordHealthCheck (api_now s) i (api_db s))\<rparr>)"
| Edge: "background s (s\<lparr>api_db := fst (pg_RecordPeerEdgeObservation (api_now s) x y m (api_db s))\<rparr>)"
| Port: "background s (s\<lparr>api_db := fst (pg_SetNodeWalletHTTPPortByAddress a p (api_db s))\<rparr>)"
| Prune: "background s (s\<lparr>api_db := sql_prune_batch t n (api_db s)\<rparr>)"
| Geo: "background s (s\<lparr>api_db := fst (exec (sql_upsert_geoip x) (api_db s))\<rparr>)"
| Cleanup: "background s (s\<lparr>api_limiter := l, api_lockouts := tr\<rparr>)"

lemma PollOnce_keeps:
  assumes "\<And>a pk. keeps I (UpsertConfirmedNode store now a pk DiscoverySourceP2P)" "\<And>i. keeps I (RecordHealthCheck store now i)" "I s"
  shows "I (fst (PollOnce g p w store now node s))"
proof -
  have add: "I (fst (add_probe probe se))" if "I (fst se)" "\<And>q t. probe = Some q \<Longrightarrow> I t \<Longrightarrow> I (fst (q t))" for probe se
  proof (cases probe)
    case (Some q)
    have "fst (add_probe (Some q) se) = fst (q (fst se))" by (simp add: add_probe_def split: prod.splits option.splits)
    then show ?thesis using that Some by simp
  qed (use that in \<open>simp add: add_probe_def\<close>)
  show ?thesis unfolding PollOnce_def
    by (intro add) (auto simp: assms(3) transport_keeps [OF assms(1,2)] wallet_transport_keeps [OF assms(2)])
qed

lemmas handler_defs = handleCreateNode_def invalid_def handleListSubmissions_def handleApproveSubmission_def
  handleRejectSubmission_def with_pending_def handleCreateWalletNodeSubmission_def handleListWalletSubmissions_def
  handleApproveWalletSubmission_def handleRejectWalletSubmission_def with_pending_wallet_def handlePollNow_def
  probeSubmission_def probeWalletSubmission_def Let_def

text \<open>
  A relation between states of the database that every operation the system calls keeps, with
  the arguments it calls it with, holds between any two states of an interleaved run.
\<close>

locale db_guarantee =
  fixes K :: "DB \<Rightarrow> DB \<Rightarrow> bool"
  assumes K_refl: "K db db" and K_trans: "K d db \<Longrightarrow> K db db' \<Longrightarrow> K d db'"
    and K_registered: "keeps (K d) (pg_UpsertDiscoveredNode now a DiscoverySourceRegistry tags label)"
    and K_discovered: "keeps (K d) (pg_UpsertDiscoveredNode now a DiscoverySourceP2P [] None)"
    and K_tagged: "keeps (K d) (pg_UpsertDiscoveredNode now a DiscoverySourceP2P [(''role'', JStr collectorRoleTagValue)] None)"
    and K_confirmed: "keeps (K d) (pg_UpsertConfirmedNode now a pk DiscoverySourceP2P)"
    and K_health: "keeps (K d) (pg_RecordHealthCheck now i)"
    and K_edge: "keeps (K d) (pg_RecordPeerEdgeObservation now x y m)"
    and K_prune: "K db (sql_prune_batch t n db)"
    and K_port: "keeps (K d) (pg_SetNodeWalletHTTPPort nid port)"
    and K_port_by_address: "keeps (K d) (pg_SetNodeWalletHTTPPortByAddress address p)"
    and K_create: "keeps (K d) (pg_CreatePendingSubmission now address label ownerTag)"
    and K_create_wallet: "keeps (K d) (pg_CreatePendingWalletSubmission now host p)"
    and K_approve: "keeps (K d) (pg_ApprovePendingSubmission now sid nid)"
    and K_reject: "keeps (K d) (pg_RejectPendingSubmission now sid reason)"
    and K_approve_wallet: "keeps (K d) (pg_ApprovePendingWalletSubmission now sid nid outcome)"
    and K_reject_wallet: "keeps (K d) (pg_RejectPendingWalletSubmission now sid reason)"
    and K_probe: "keeps (K d) (pg_RecordSubmissionProbeResult now sid ok)"
    and K_wallet_probe: "keeps (K d) (pg_RecordWalletSubmissionProbeResult now sid ok)"
    and K_geo: "keeps (K d) (exec (sql_upsert_geoip entry))"
begin

definition stands :: "'l api \<Rightarrow> 'l api \<Rightarrow> bool" where
  "stands s s' \<longleftrightarrow> K (api_db s) (api_db s')"

lemma stands_reflp: "reflp stands"
  by (simp add: reflp_def stands_def K_refl)

lemma stands_transp: "transp stands"
  unfolding transp_def stands_def using K_trans by blast

lemma stands_act: "(\<And>d now. keeps (K d) (g now)) \<Longrightarrow> guarantees stands (db_act g)"
  unfolding db_act_def by (rule guarantees_act) (simp add: stands_def split_beta keeps_fst K_refl)

lemma stands_actions:
  "guarantees stands (db_read f)" "guarantees stands (go j)" "guarantees stands (strike ip)" "guarantees stands (locked_out ip)"
  "guarantees stands (allowed e ip)" "guarantees stands (fails st err)" "guarantees stands (observe h)"
  unfolding db_read_def go_def strike_def locked_out_def allowed_def fails_def
  by (intro guarantees_observe stands_reflp guarantees_act guarantees_Done; simp add: stands_def K_refl split_beta)+

lemma stands_poll: "guarantees stands (db_act (\<lambda>now. PollOnce g p w pg_Store now node))"
  unfolding db_act_def by (rule guarantees_act)
    (simp add: stands_def split_beta PollOnce_keeps K_confirmed K_health K_refl)

lemmas stands_rules = guarantees_rules stands_actions stands_poll stands_act K_registered K_discovered K_port K_create
  K_create_wallet K_approve K_reject K_approve_wallet K_reject_wallet K_probe K_wallet_probe

lemma serves_stands: "serves e s p \<Longrightarrow> guarantees stands p"
proof (induction rule: serves.induct)
  case (Job j)
  show ?case by (cases j) (simp_all only: run_job_def job.case probeSubmission_def probeWalletSubmission_def Let_def, (intro stands_rules)+)
qed (unfold void_def handler_defs, (intro stands_rules)+)

lemma background_stands: "background s s' \<Longrightarrow> stands s s'"
  by (induction rule: background.induct)
    (simp_all add: stands_def K_refl K_prune keeps_fst [OF K_discovered] keeps_fst [OF K_tagged] keeps_fst [OF K_confirmed]
      keeps_fst [OF K_health] keeps_fst [OF K_edge] keeps_fst [OF K_port_by_address] keeps_fst [OF K_geo])

lemma interleaved: "(pool_step (serves e) background)\<^sup>*\<^sup>* (s, []) (s', ps) \<Longrightarrow> K (api_db s) (api_db s')"
  using pool_guarantee [OF _ stands_reflp stands_transp background_stands serves_stands] by (fastforce simp: stands_def)

end

lemma rows_prune: "rows_kept db (sql_prune_batch t n db)"
  by (rule rows_kept_same [OF rows_kept_refl]) (simp_all add: sql_prune_batch_def Let_def)

lemma rows_geo: "keeps (rows_kept d) (exec (sql_upsert_geoip x))"
  by (rule keeps_exec [OF on_tables_rows], erule rows_kept_same) (simp_all add: sql_upsert_geoip_def)

interpretation submissions: db_guarantee rows_kept
  by unfold_locales (rule rows_kept_refl, erule rows_kept_trans, assumption, (rule rows_operations rows_prune rows_geo)+)

text \<open>
  C10: a decision is final.  Requests of submitters and operators, the goroutines they
  launch, forced polls, the collector's writes and the cleanups act in any order, each
  request between any two actions of others.  A submission that can be looked up stays
  there under its identifier and address; once it is approved or rejected its status, the
  time of the review, the reason and what was submitted never change.  The same holds of
  wallet submissions.
\<close>

theorem review_final:
  assumes "(pool_step (serves e) background)\<^sup>*\<^sup>* (s, []) (s', ps)"
  shows "(\<forall>sid p. pg_GetPendingSubmission sid (api_db s) = Ok p \<longrightarrow> (\<exists>q. pg_GetPendingSubmission sid (api_db s') = Ok q \<and>
      ps_ID q = ps_ID p \<and> ps_Address q = ps_Address p \<and> (ps_Status p \<noteq> SubmissionStatusPending \<longrightarrow> ps_Status q = ps_Status p \<and>
        ps_ReviewedAt q = ps_ReviewedAt p \<and> ps_RejectionReason q = ps_RejectionReason p \<and> ps_Label q = ps_Label p \<and> ps_OwnerTag q = ps_OwnerTag p))) \<and>
    (\<forall>sid w. pg_GetPendingWalletSubmission sid (api_db s) = Ok w \<longrightarrow> (\<exists>q. pg_GetPendingWalletSubmission sid (api_db s') = Ok q \<and>
      pw_ID q = pw_ID w \<and> pw_Host q = pw_Host w \<and> (pw_Status w \<noteq> SubmissionStatusPending \<longrightarrow> pw_Status q = pw_Status w \<and>
        pw_ReviewedAt q = pw_ReviewedAt w \<and> pw_RejectionReason q = pw_RejectionReason w \<and> pw_WalletHTTPPort q = pw_WalletHTTPPort w)))"
proof -
  from submissions.interleaved [OF assms] show ?thesis unfolding rows_kept_def row_kept_def wallet_row_kept_def is_pending_def is_pending_wallet_def .
qed

section \<open>A race\<close>

lemma db_read_bind: "bindP (db_read f) k = Atomic (\<lambda>s. (s, k (f (api_db s))))"
  by (simp add: db_read_def bindP_observe)

lemma update_pending_decided:
  assumes "\<And>p. \<not> is_pending (f p)"
  shows "\<forall>q\<in>set (db_pending_submissions (update_pending sid f db)). ps_ID q = sid \<longrightarrow> \<not> is_pending q"
proof -
  have "\<forall>p\<in>set ps. ps_ID (if ps_ID p = sid \<and> is_pending p then f p else p) = sid \<longrightarrow>
      \<not> is_pending (if ps_ID p = sid \<and> is_pending p then f p else p)" for ps
    using assms by simp
  moreover have "db_pending_submissions (update_pending sid f db) =
      map (\<lambda>p. if ps_ID p = sid \<and> is_pending p then f p else p) (db_pending_submissions db)"
    by (simp add: update_pending_def)
  ultimately show ?thesis by (simp only: set_map ball_simps)
qed

lemma reject_runs:
  assumes "schema_ok (api_db s)" "env_parseUUID e pathID = Some sid" "pg_GetPendingSubmission sid (api_db s) = Ok p" "is_pending p"
    "env_decodeReason e (rq_Body r) = Ok reason"
  shows "fst (runP (handleRejectSubmission e pathID r) s) = s\<lparr>api_db := update_pending sid (\<lambda>p. p\<lparr>
     ps_Status := SubmissionStatusRejected, ps_ReviewedAt := Some (api_now s), ps_RejectionReason := nonempty reason\<rparr>) (api_db s)\<rparr>"
proof -
  have "pg_RejectPendingSubmission (api_now s) sid (nonempty reason) (api_db s) = (update_pending sid (\<lambda>p. p\<lparr>
     ps_Status := SubmissionStatusRejected, ps_ReviewedAt := Some (api_now s), ps_RejectionReason := nonempty reason\<rparr>) (api_db s), Ok ())"
    unfolding pg_RejectPendingSubmission_def
    using assms(3) [unfolded GetPending_iff [OF assms(1)]] assms(4) by (intro review_succeeds [OF reject_ok [OF assms(1)]]) auto
  then show ?thesis using assms(2-5) by (simp add: handleRejectSubmission_def with_pending_def runP_bindP is_pending_def)
qed

text \<open>What is left of an approval after its two checks.\<close>

definition approve_rest :: "uuid \<Rightarrow> PendingSubmission \<Rightarrow> ('l api, (Node \<times> PendingSubmission) response) prog" where
  "approve_rest sid submission =
     (let tags = (case ps_OwnerTag submission of
                     Some owner \<Rightarrow> if owner \<noteq> [] then [(''owner'', JStr owner)] else []
                   | None \<Rightarrow> []) in
       bindP (db_act (\<lambda>now. pg_UpsertDiscoveredNode now (ps_Address submission) DiscoverySourceRegistry tags (ps_Label submission))) (\<lambda>up.
       case up of
         Inl err \<Rightarrow> fails StatusInternalServerError err
       | Inr node \<Rightarrow>
           bindP (db_act (\<lambda>now. pg_ApprovePendingSubmission now sid (n_ID node))) (\<lambda>res. case res of
             Inl err \<Rightarrow> fails StatusInternalServerError err
           | Inr _ \<Rightarrow>
               bindP (go (PollApproved node)) (\<lambda>_.
               Done (Response StatusOK (node, submission\<lparr>ps_Status := SubmissionStatusApproved, ps_PromotedNodeID := Some (n_ID node)\<rparr>))))))"

lemma approve_rest_refused:
  assumes "store_ok (api_db s)" "ps_Address p \<noteq> []" "\<forall>q\<in>set (db_pending_submissions (api_db s)). ps_ID q = sid \<longrightarrow> \<not> is_pending q"
  shows "\<exists>db'. fst (runP (approve_rest sid p) s) = s\<lparr>api_db := db'\<rparr> \<and> db_pending_submissions db' = db_pending_submissions (api_db s) \<and>
    ((\<exists>n\<in>set (db_nodes db'). opted_in n \<and> (n_ID n, ps_Address p) \<in> address_keys db') \<or>
     snd (runP (approve_rest sid p) s) = ErrorResponse StatusInternalServerError ErrPrimaryKey)"
proof -
  define tags where "tags = (case ps_OwnerTag p of Some owner \<Rightarrow> if owner \<noteq> [] then [(''owner'', JStr owner)] else [] | None \<Rightarrow> [])"
  obtain db1 up where u: "pg_UpsertDiscoveredNode (api_now s) (ps_Address p) DiscoverySourceRegistry tags (ps_Label p) (api_db s) = (db1, up)"
    by force
  have v: "valid_source DiscoverySourceRegistry" by (simp add: valid_source_def)
  from UpsertDiscovered_spec [OF assms(1,2) v u]
  consider n where "up = Ok n" | "up = Fail ErrPrimaryKey" "same_tables (api_db s) db1" by blast
  then show ?thesis
  proof cases
    case (1 n)
    note d = discovered_opts_in [OF assms(1,2) u [unfolded 1]]
    have "schema_ok db1" using d(4) by (simp add: store_ok_def)
    from review_refused [OF this, of sid] obtain err where "pg_ApprovePendingSubmission (api_now s) sid (n_ID n) db1 = (db1, Fail err)"
      using assms(3) d(3) unfolding pg_ApprovePendingSubmission_def by fastforce
    then have "fst (runP (approve_rest sid p) s) = s\<lparr>api_db := db1\<rparr>"
      using u 1 by (simp add: approve_rest_def runP_bindP tags_def [symmetric])
    then show ?thesis using d(1-3,5) by blast
  next
    case 2
    then have "runP (approve_rest sid p) s = (s\<lparr>api_db := db1\<rparr>, ErrorResponse StatusInternalServerError ErrPrimaryKey)"
      using u by (simp add: approve_rest_def runP_bindP tags_def [symmetric])
    then show ?thesis using same_tables_fields(5) [OF 2(2)] by (intro exI [of _ db1]) simp
  qed
qed

lemma approve_split: "handleApproveSubmission e pathID = with_pending e pathID (\<lambda>sid p.
    bindP (db_read (IsAddressPubliclyOptedIn (ps_Address p))) (\<lambda>optedIn.
    if optedIn then fails StatusConflict (Err ''this address has since become publicly registered'') else approve_rest sid p))"
  by (simp only: handleApproveSubmission_def approve_rest_def)

lemma approve_checks:
  assumes "env_parseUUID e pathID = Some sid" "pg_GetPendingSubmission sid (api_db s) = Ok p" "is_pending p"
    "\<not> IsAddressPubliclyOptedIn (ps_Address p) (api_db s)"
  shows "(pool_step spawn env)\<^sup>*\<^sup>* (s, [void (handleApproveSubmission e pathID), q]) (s, [void (approve_rest sid p), q])"
proof -
  define k where "k = (\<lambda>optedIn :: bool. if optedIn then fails StatusConflict (Err ''this address has since become publicly registered'') else approve_rest sid p :: ('a api, (Node \<times> PendingSubmission) response) prog)"
  obtain f where f: "handleApproveSubmission e pathID = Atomic f" "f s = (s, bindP (db_read (IsAddressPubliclyOptedIn (ps_Address p))) k)"
    using assms(1-3) by (simp add: approve_split with_pending_def db_read_bind is_pending_def k_def)
  have "pool_step spawn env (s, [void (Atomic f), q]) (s, [void (bindP (db_read (IsAddressPubliclyOptedIn (ps_Address p))) k), q])"
    using pool_step.Run [of 0 "[void (Atomic f), q]" _ s s _ spawn env] f(2) by (simp add: void_def)
  moreover have "pool_step spawn env (s, [void (bindP (db_read (IsAddressPubliclyOptedIn (ps_Address p))) k), q]) (s, [void (k False), q])"
    using pool_step.Run [of 0 "[void (bindP (db_read (IsAddressPubliclyOptedIn (ps_Address p))) k), q]" _ s s _ spawn env] assms(4)
    by (simp add: void_def db_read_bind)
  ultimately show ?thesis unfolding f(1) k_def by (auto intro: rtranclp.rtrancl_into_rtrancl)
qed

text \<open>
  C40: an operator's rejection does not undo a concurrent approval.  The approval checks the
  status, then upserts the node as registered, then marks the submission approved only if
  it is still pending.  When a rejection completes between the check and the upsert, the
  submission ends rejected and yet, unless a random identifier collides, a node holding its
  address is opted in to publication.
\<close>

theorem approve_race:
  assumes "store_ok (api_db s)" "env_parseUUID e pathID = Some sid" "pg_GetPendingSubmission sid (api_db s) = Ok p" "is_pending p"
    "\<not> IsAddressPubliclyOptedIn (ps_Address p) (api_db s)" "ps_Address p \<noteq> []" "env_decodeReason e (rq_Body r) = Ok reason"
  shows "\<exists>s'. (pool_step (serves e) background)\<^sup>*\<^sup>*
      (s, [void (handleApproveSubmission e pathID), void (handleRejectSubmission e pathID r)]) (s', [Done (), Done ()]) \<and>
    (\<exists>q. pg_GetPendingSubmission sid (api_db s') = Ok q \<and> ps_Status q = SubmissionStatusRejected) \<and>
    ((\<exists>n\<in>set (db_nodes (api_db s')). opted_in n \<and> (n_ID n, ps_Address p) \<in> address_keys (api_db s')) \<or>
     snd (runP (approve_rest sid p) (fst (runP (handleRejectSubmission e pathID r) s))) =
       ErrorResponse StatusInternalServerError ErrPrimaryKey)"
proof -
  let ?f = "\<lambda>p. p\<lparr>ps_Status := SubmissionStatusRejected, ps_ReviewedAt := Some (api_now s), ps_RejectionReason := nonempty reason\<rparr>"
  let ?S = "pool_step (serves e) background"
  define s1 where "s1 = s\<lparr>api_db := update_pending sid ?f (api_db s)\<rparr>"
  have sdb: "schema_ok (api_db s)" using assms(1) by (simp add: store_ok_def)
  have r1: "fst (runP (void (handleRejectSubmission e pathID r)) s) = s1"
    using reject_runs [OF sdb assms(2-4,7)] by (simp add: void_def runP_bindP split_beta s1_def)
  have r2: "fst (runP (handleRejectSubmission e pathID r) s) = s1" using reject_runs [OF sdb assms(2-4,7)] by (simp add: s1_def)
  have "?S\<^sup>*\<^sup>* (s, [void (handleApproveSubmission e pathID), void (handleRejectSubmission e pathID r)])
      (s, [void (approve_rest sid p), void (handleRejectSubmission e pathID r)])"
    by (rule approve_checks [OF assms(2-5)])
  also have "?S\<^sup>*\<^sup>* \<dots> (s1, [void (approve_rest sid p), Done ()])"
    using pool_run [of 1 "[void (approve_rest sid p), Done ()]" "serves e" background s "void (handleRejectSubmission e pathID r)"] r1 by simp
  also have "?S\<^sup>*\<^sup>* \<dots> (fst (runP (approve_rest sid p) s1), [Done (), Done ()])"
    using pool_run [of 0 "[Done (), Done ()]" "serves e" background s1 "void (approve_rest sid p)"]
    by (simp add: void_def runP_bindP split_beta)
  finally have steps: "?S\<^sup>*\<^sup>* (s, [void (handleApproveSubmission e pathID), void (handleRejectSubmission e pathID r)])
      (fst (runP (approve_rest sid p) s1), [Done (), Done ()])" .
  have "store_ok (api_db s1)"
    using reject_ok [OF sdb] assms(1) by (simp add: s1_def store_ok_def addresses_recorded_def address_keys_def)
  moreover have "\<forall>q\<in>set (db_pending_submissions (api_db s1)). ps_ID q = sid \<longrightarrow> \<not> is_pending q"
    unfolding s1_def by (simp, rule update_pending_decided) (simp add: is_pending_def)
  ultimately have "\<exists>db'. fst (runP (approve_rest sid p) s1) = s1\<lparr>api_db := db'\<rparr> \<and> db_pending_submissions db' = db_pending_submissions (api_db s1) \<and>
    ((\<exists>n\<in>set (db_nodes db'). opted_in n \<and> (n_ID n, ps_Address p) \<in> address_keys db') \<or>
     snd (runP (approve_rest sid p) s1) = ErrorResponse StatusInternalServerError ErrPrimaryKey)"
    by (rule approve_rest_refused [OF _ assms(6)])
  then obtain db' where db': "fst (runP (approve_rest sid p) s1) = s1\<lparr>api_db := db'\<rparr>"
      "db_pending_submissions db' = db_pending_submissions (api_db s1)"
      "(\<exists>n\<in>set (db_nodes db'). opted_in n \<and> (n_ID n, ps_Address p) \<in> address_keys db') \<or>
       snd (runP (approve_rest sid p) s1) = ErrorResponse StatusInternalServerError ErrPrimaryKey"
    by (elim exE conjE) (rule that)
  have pin: "p \<in> set (db_pending_submissions (api_db s))" "ps_ID p = sid" using assms(3) [unfolded GetPending_iff [OF sdb]] by simp_all
  then have "List.find (\<lambda>p. ps_ID p = sid) (db_pending_submissions (api_db s1)) = Some (?f p)"
    using find_map_append [of ps_ID "\<lambda>p. if ps_ID p = sid \<and> is_pending p then ?f p else p" sid "db_pending_submissions (api_db s)" p "[]"]
      assms(3,4) by (simp add: s1_def update_pending_def pg_GetPendingSubmission_def split: option.splits)
  then have "pg_GetPendingSubmission sid db' = Ok (?f p)" using db'(2) by (simp add: pg_GetPendingSubmission_def)
  then have "\<exists>q. pg_GetPendingSubmission sid db' = Ok q \<and> ps_Status q = SubmissionStatusRejected" by simp
  then show ?thesis using steps db'(3) unfolding r2 db'(1)
    by (intro exI [of _ "s1\<lparr>api_db := db'\<rparr>"] conjI) simp_all
qed

end
