(* ===== verification/Wallet_Review.thy ===== *)
theory Wallet_Review
  imports Submission_Final
begin

text \<open>
  The approval of a wallet endpoint, and what becomes of a submitted IPv6 host.  The examples
  at the end run the review queues on a small database.
\<close>

section \<open>Approving a wallet endpoint\<close>

lemma set_port_ok:
  assumes "schema_ok db" "valid_port port"
  shows "schema_ok (update_node nid (\<lambda>n. n\<lparr>n_WalletHTTPPort := Some port\<rparr>) db)"
  unfolding update_node_def
proof (rule schema_put_nodes [OF assms(1)])
  let ?f = "\<lambda>n :: Node. if n_ID n = nid then n\<lparr>n_WalletHTTPPort := Some port\<rparr> else n"
  show "map n_ID (map ?f (db_nodes db)) = node_ids db" by (simp add: node_ids_def)
  have "map n_PublicKey (filter (\<lambda>n. n_PublicKey n \<noteq> []) (map ?f ns)) = map n_PublicKey (filter (\<lambda>n. n_PublicKey n \<noteq> []) ns)" for ns
    by (induction ns) auto
  moreover have "list_all (\<lambda>n. valid_source (n_DiscoverySource n) \<and> (case n_WalletHTTPPort n of None \<Rightarrow> True | Some p \<Rightarrow> valid_port p)) (map ?f ns)"
    if "list_all (\<lambda>n. valid_source (n_DiscoverySource n) \<and> (case n_WalletHTTPPort n of None \<Rightarrow> True | Some p \<Rightarrow> valid_port p)) ns" for ns
    using that assms(2) by (induction ns) auto
  ultimately show "nodes_ok (map ?f (db_nodes db))" using schema_facts(2) [OF assms(1)] by (simp only: nodes_ok_def)
qed

lemma update_pending_wallet_ok:
  assumes "schema_ok db" "\<And>p. pw_ID (f p) = pw_ID p" "\<And>p. pw_WalletHTTPPort (f p) = pw_WalletHTTPPort p"
    "\<And>p. valid_status (pw_Status (f p)) \<and> pw_Status (f p) \<noteq> SubmissionStatusPending" "\<And>p. references (node_ids db) (pw_PromotedNodeID (f p))"
  shows "schema_ok (update_pending_wallet sid f db)"
proof -
  let ?g = "\<lambda>p. if pw_ID p = sid \<and> is_pending_wallet p then f p else p"
  let ?P = "\<lambda>p. pw_Status p = SubmissionStatusPending"
  note w = schema_facts(12) [OF assms(1)]
  have "map pw_ID (map ?g (db_pending_wallet_submissions db)) = map pw_ID (db_pending_wallet_submissions db)"
    by (rule map_if_key) (rule assms(2))
  then have ids: "distinct (map pw_ID (map ?g (db_pending_wallet_submissions db)))" using schema_facts(11) [OF assms(1)] by (simp only:)
  have "map pw_Host (filter ?P (map ?g ps)) = map pw_Host (filter (\<lambda>p. pw_ID p \<noteq> sid) (filter ?P ps))" for ps
    using assms(4) by (induction ps) (auto simp: is_pending_wallet_def)
  then have "distinct (map pw_Host (filter ?P (map ?g (db_pending_wallet_submissions db))))"
    using w by (simp only: wallet_ok_def distinct_map_filter_imp)
  moreover have "list_all (\<lambda>p. valid_status (pw_Status p) \<and> valid_port (pw_WalletHTTPPort p) \<and> references (node_ids db) (pw_PromotedNodeID p)) (map ?g ps)"
    if "list_all (\<lambda>p. valid_status (pw_Status p) \<and> valid_port (pw_WalletHTTPPort p) \<and> references (node_ids db) (pw_PromotedNodeID p)) ps" for ps
    using that assms(3-5) by (induction ps) auto
  ultimately have "wallet_ok (node_ids db) (map ?g (db_pending_wallet_submissions db))" using w unfolding wallet_ok_def by blast
  with ids show ?thesis using assms(1) by (simp only: update_pending_wallet_def schema_put_wallet)
qed

lemma GetWallet_Ok: "pg_GetPendingWalletSubmission sid db = Ok p \<Longrightarrow> p \<in> set (db_pending_wallet_submissions db) \<and> pw_ID p = sid"
  by (auto simp: pg_GetPendingWalletSubmission_def split: option.splits dest!: find_Some_set)

lemma review_wallet_succeeds:
  assumes "schema_ok (update_pending_wallet sid f db)" "pg_GetPendingWalletSubmission sid db = Ok p" "is_pending_wallet p" "\<And>p. pw_ID (f p) = pw_ID p"
  shows "review_wallet sid f db = (update_pending_wallet sid f db, Ok ())"
    "pg_GetPendingWalletSubmission sid (update_pending_wallet sid f db) = Ok (f p)"
proof -
  note p = GetWallet_Ok [OF assms(2)]
  have "0 < length (filter (\<lambda>p. pw_ID p = sid \<and> is_pending_wallet p) (db_pending_wallet_submissions db))"
    using p assms(3) by (auto simp: filter_empty_conv)
  then show "review_wallet sid f db = (update_pending_wallet sid f db, Ok ())"
    using exec_Ok [of "update_pending_wallet sid f" db] assms(1) by (simp add: review_wallet_def bindE_def)
  show "pg_GetPendingWalletSubmission sid (update_pending_wallet sid f db) = Ok (f p)"
    using find_map_append [of pw_ID "\<lambda>p. if pw_ID p = sid \<and> is_pending_wallet p then f p else p" sid "db_pending_wallet_submissions db" p "[]"]
      assms(2-4) p by (simp add: update_pending_wallet_def pg_GetPendingWalletSubmission_def split: option.splits)
qed

lemma FindNodeByHost_node: "FindNodeByHost host db = Ok (Some n) \<Longrightarrow> n \<in> set (db_nodes db)"
  by (auto simp: FindNodeByHost_def Let_def split: if_splits list.splits dest!: find_Some_set)

lemma FindNodeByHost_total: "host \<noteq> [] \<Longrightarrow> \<exists>n. FindNodeByHost host db = Ok n"
  by (auto simp: FindNodeByHost_def Let_def split: list.splits)

lemma update_node_member:
  "n \<in> set (db_nodes db) \<Longrightarrow> f n \<in> set (db_nodes (update_node (n_ID n) f db))"
  unfolding update_node_def by force

text \<open>What an approval of a wallet submission requires: a pending row of a known node, and a probe that succeeds now.\<close>

definition wallet_approvable :: "'l env \<Rightarrow> string \<Rightarrow> DB \<Rightarrow> uuid \<Rightarrow> PendingWalletSubmission \<Rightarrow> Node \<Rightarrow> NodeInfo \<Rightarrow> bool" where
  "wallet_approvable e pathID db sid p n info \<longleftrightarrow> env_parseUUID e pathID = Some sid \<and> pg_GetPendingWalletSubmission sid db = Ok p \<and>
     is_pending_wallet p \<and> FindNodeByHost (pw_Host p) db = Ok (Some n) \<and>
     (\<exists>client. env_walletHTTPClient e = Some client \<and>
        GetInfo client (JoinHostPort (pw_Host p) (Itoa (pw_WalletHTTPPort p))) = Ok info) \<and> ni_Reachable info"

lemma wallet_refused:
  assumes "\<forall>p\<in>set (db_pending_wallet_submissions (api_db s)). pw_Host p \<noteq> []"
    "\<nexists>sid p n info. wallet_approvable e pathID (api_db s) sid p n info"
    "runP (handleApproveWalletSubmission e pathID) s = (s', resp)"
  shows "s' = s \<and> (\<exists>st err. resp = ErrorResponse st err \<and>
      (st = StatusInternalServerError \<longrightarrow> err = Err ''wallet-http probe client is not configured''))"
proof (cases "env_parseUUID e pathID")
  case None
  then show ?thesis using assms(3) by (auto simp: handleApproveWalletSubmission_def with_pending_wallet_def)
next
  case (Some sid)
  show ?thesis
  proof (cases "pg_GetPendingWalletSubmission sid (api_db s)")
    case (Inl err)
    then have "err = ErrNotFound" by (auto simp: pg_GetPendingWalletSubmission_def split: option.splits)
    then show ?thesis using assms(3) Some Inl by (auto simp: handleApproveWalletSubmission_def with_pending_wallet_def runP_bindP)
  next
    case (Inr p)
    have "pw_Host p \<noteq> []" using assms(1) GetWallet_Ok [OF Inr] by blast
    from FindNodeByHost_total [OF this, of "api_db s"] obtain n where "FindNodeByHost (pw_Host p) (api_db s) = Ok n" by blast
    then show ?thesis using assms(2,3) Some Inr
      by (auto simp: wallet_approvable_def handleApproveWalletSubmission_def with_pending_wallet_def runP_bindP is_pending_wallet_def
          split: if_splits option.splits sum.splits)
  qed
qed

lemma wallet_approved:
  fixes f :: "PendingWalletSubmission \<Rightarrow> PendingWalletSubmission"
  assumes "schema_ok (api_db s)" "wallet_approvable e pathID (api_db s) sid p n info"
    "runP (handleApproveWalletSubmission e pathID) s = (s', resp)"
    "f = (\<lambda>p. p\<lparr>pw_Status := SubmissionStatusApproved, pw_ReviewedAt := Some (api_now s), pw_PromotedNodeID := Some (n_ID n),
       pw_ProbeSucceeded := Some True, pw_ProbeCheckedAt := Some (api_now s), pw_ProbeIsSynced := Some (ni_IsSynced info = Some True),
       pw_ProbeHeight := ni_Height info\<rparr>)"
  shows "\<exists>db2 sub. s' = s\<lparr>api_db := db2\<rparr> \<and> resp = Response StatusOK (n\<lparr>n_WalletHTTPPort := Some (pw_WalletHTTPPort p)\<rparr>, sub) \<and>
    schema_ok db2 \<and> n\<lparr>n_WalletHTTPPort := Some (pw_WalletHTTPPort p)\<rparr> \<in> set (db_nodes db2) \<and>
    pg_GetPendingWalletSubmission sid db2 = Ok (f p)"
proof -
  from assms(2) obtain client where t: "env_parseUUID e pathID = Some sid" "pg_GetPendingWalletSubmission sid (api_db s) = Ok p"
    "is_pending_wallet p" "FindNodeByHost (pw_Host p) (api_db s) = Ok (Some n)" "env_walletHTTPClient e = Some client"
    "GetInfo client (JoinHostPort (pw_Host p) (Itoa (pw_WalletHTTPPort p))) = Ok info" "ni_Reachable info"
    unfolding wallet_approvable_def by blast
  note n = FindNodeByHost_node [OF t(4)] and pin = GetWallet_Ok [OF t(2)]
  define g where "g = (\<lambda>n :: Node. n\<lparr>n_WalletHTTPPort := Some (pw_WalletHTTPPort p)\<rparr>)"
  define db1 where "db1 = update_node (n_ID n) g (api_db s)"
  define db2 where "db2 = update_pending_wallet sid f db1"
  have "valid_port (pw_WalletHTTPPort p)" using schema_facts(12) [OF assms(1)] pin by (auto simp: wallet_ok_def list_all_iff)
  then have ok1: "schema_ok db1" unfolding db1_def g_def by (rule set_port_ok [OF assms(1)])
  have "n_ID n \<in> set (node_ids db1)" using n by (simp add: db1_def g_def node_ids_def update_node_def)
  then have ok2: "schema_ok db2" unfolding db2_def
    by (intro update_pending_wallet_ok [OF ok1]) (simp_all add: assms(4) valid_status_def references_def)
  have g1: "pg_GetPendingWalletSubmission sid db1 = Ok p" using t(2) by (simp add: db1_def update_node_def pg_GetPendingWalletSubmission_def)
  note rv = review_wallet_succeeds [of sid f db1 p, OF ok2 [unfolded db2_def] g1 t(3)]
  have sp: "pg_SetNodeWalletHTTPPort (n_ID n) (Some (pw_WalletHTTPPort p)) (api_db s) = (db1, Ok ())"
    unfolding pg_SetNodeWalletHTTPPort_def db1_def g_def [symmetric] by (rule exec_Ok) (rule ok1 [unfolded db1_def])
  have "(case ni_IsSynced info of Some b \<Rightarrow> b | None \<Rightarrow> False) = (ni_IsSynced info = Some True)" by (cases "ni_IsSynced info") auto
  then have ap: "pg_ApprovePendingWalletSubmission (api_now s) sid (n_ID n)
      \<lparr>wo_IsSynced = (case ni_IsSynced info of Some b \<Rightarrow> b | None \<Rightarrow> False), wo_Height = ni_Height info\<rparr> db1 = (db2, Ok ())"
    using rv(1) by (simp add: pg_ApprovePendingWalletSubmission_def db2_def assms(4))
  have "s' = s\<lparr>api_db := db2\<rparr>" "\<exists>sub. resp = Response StatusOK (g n, sub)"
    using assms(3) t sp ap by (auto simp: g_def handleApproveWalletSubmission_def with_pending_wallet_def runP_bindP is_pending_wallet_def Let_def)
  moreover have "g n \<in> set (db_nodes db2)" using update_node_member [OF n, of g] by (simp add: db2_def db1_def update_pending_wallet_def)
  moreover have "pg_GetPendingWalletSubmission sid db2 = Ok (f p)" unfolding db2_def by (rule rv(2)) (simp add: assms(4))
  ultimately show ?thesis using ok2 unfolding g_def by blast
qed


section \<open>Submitted IPv6 hosts\<close>

text \<open>
  A submitted IPv6 host passes validation, but the address stored for it is the host, a
  colon and the port without brackets, which \<^verbatim>\<open>net.SplitHostPort\<close> rejects: the entry cannot be
  printed as a multiaddr, and its wallet endpoint is never probed.
\<close>

theorem ipv6_submission_unusable:
  assumes "CHR '':'' \<in> set host" "take 1 host \<noteq> ''[''" "1 \<le> port" "address = host @ '':'' @ Itoa port"
  shows "SplitHostPort address = Fail tooManyColons \<and> addressToMultiaddr address = Fail (Err ''api: address is not a valid host:port'') \<and>
    (n_Address n = address \<longrightarrow> walletHTTPTarget n = None)"
proof -
  have "CHR '':'' \<notin> set (Itoa port)"
    using Itoa_nat_digits [of "nat port"] assms(3) by (auto simp: Itoa_def list_all_iff is_digit_def)
  then have "last_index_byte (host @ '':'' @ Itoa port) (CHR '':'') = Some (length host)"
    using last_index_byte_append [of "CHR '':''" "Itoa port" host] by simp
  moreover have "take 1 (host @ '':'' @ Itoa port) = take 1 host" using assms(1) by (cases host) simp_all
  ultimately have "SplitHostPort address = Fail tooManyColons"
    using assms(1,2) by (simp add: SplitHostPort_def assms(4) contains_byte_def)
  then show ?thesis by (simp add: addressToMultiaddr_def walletHTTPTarget_def split: option.splits)
qed

section \<open>Examples\<close>

text \<open>A pending submission, and a pending wallet endpoint of node 3, both with identifier 51.\<close>

definition example_submission :: PendingSubmission where
  "example_submission = \<lparr>ps_ID = 51, ps_Address = ''s:1'', ps_Label = None, ps_OwnerTag = Some ''me'',
     ps_Status = SubmissionStatusPending, ps_SubmittedAt = 1, ps_ReviewedAt = None, ps_RejectionReason = None,
     ps_PromotedNodeID = None, ps_ProbeAttemptedAt = None, ps_ProbeReachable = None\<rparr>"

definition example_wallet :: PendingWalletSubmission where
  "example_wallet = \<lparr>pw_ID = 51, pw_Host = ''x'', pw_WalletHTTPPort = 9000, pw_Status = SubmissionStatusPending,
     pw_SubmittedAt = 1, pw_ReviewedAt = None, pw_RejectionReason = None, pw_PromotedNodeID = None,
     pw_ProbeAttemptedAt = None, pw_ProbeReachable = None, pw_ProbeSucceeded = None, pw_ProbeCheckedAt = None,
     pw_ProbeIsSynced = None, pw_ProbeHeight = None\<rparr>"

definition example_queue :: DB where
  "example_queue = example_db\<lparr>db_pending_submissions := [example_submission], db_pending_wallet_submissions := [example_wallet]\<rparr>"

definition example_api :: "unit api" where
  "example_api = \<lparr>api_db = example_queue, api_now = 5, api_limiter = newIPRateLimiter,
     api_lockouts = newInvalidSubmissionTracker, api_jobs = []\<rparr>"

text \<open>Clients that answer, a bucket that never runs dry, and one well-formed body.\<close>

definition example_env :: "unit env" where
  "example_env = \<lparr>env_grpcClient = None, env_p2pClient = Some answering_client, env_walletHTTPClient = Some answering_client,
     env_newBucket = (\<lambda>_ _. ()), env_allow = (\<lambda>_ b. (b, True)),
     env_decode = (\<lambda>_. Ok \<lparr>raw_Host = ''8.8.8.8'', raw_Port = Some (JNum 18189), raw_Label = [], raw_OwnerTag = []\<rparr>),
     env_decodeWallet = (\<lambda>_. Ok \<lparr>raw_Host = ''x'', raw_Port = Some (JNum 9000), raw_Label = [], raw_OwnerTag = []\<rparr>),
     env_decodeReason = (\<lambda>_. Ok ''spam''), env_parseUUID = (\<lambda>_. Some 51)\<rparr>"

definition example_request :: http_request where
  "example_request = \<lparr>rq_Header = (\<lambda>_. []), rq_BasicAuth = None, rq_RemoteAddr = ''1.2.3.4:5'', rq_Body = Ok []\<rparr>"

lemma example_queue_ok: "schema_ok example_queue" "store_ok example_queue"
proof -
  have "distinct (map ps_ID [example_submission])" "pending_ok (node_ids example_db) [example_submission]"
    by (simp_all add: example_submission_def pending_ok_def valid_status_def references_def)
  note a = schema_put_pending [OF example_db_ok this]
  have "distinct (map pw_ID [example_wallet])" "wallet_ok (node_ids (example_db\<lparr>db_pending_submissions := [example_submission]\<rparr>)) [example_wallet]"
    by (simp_all add: example_wallet_def wallet_ok_def valid_status_def valid_port_def references_def)
  from schema_put_wallet [OF a this] show s: "schema_ok example_queue" by (simp add: example_queue_def)
  show "store_ok example_queue" using s example_store_ok by (simp add: store_ok_def addresses_recorded_def address_keys_def example_queue_def)
qed

lemma example_api_simps [simp]:
  "api_db example_api = example_queue" "api_now example_api = 5" "api_jobs example_api = []" "env_parseUUID example_env x = Some 51"
  "env_decodeReason example_env b = Ok ''spam''" "env_walletHTTPClient example_env = Some answering_client"
  "pg_GetPendingSubmission 51 example_queue = Ok example_submission" "pg_GetPendingWalletSubmission 51 example_queue = Ok example_wallet"
  "is_pending example_submission" "is_pending_wallet example_wallet" "ps_Address example_submission = ''s:1''"
  by (simp_all add: example_api_def example_env_def pg_GetPendingSubmission_def pg_GetPendingWalletSubmission_def example_queue_def
      example_submission_def example_wallet_def is_pending_def is_pending_wallet_def)

lemma example_not_opted_in [simp]: "\<not> IsAddressPubliclyOptedIn ''s:1'' example_queue"
  by (simp add: IsAddressPubliclyOptedIn_def example_queue_def example_db_defs)

theorem approve_correct_witness:
  "\<exists>s' resp. runP (handleApproveSubmission example_env ''51'') example_api = (s', resp) \<and> store_ok (api_db s')"
proof -
  obtain s' resp where r: "runP (handleApproveSubmission example_env ''51'') example_api = (s', resp)" by force
  have "\<forall>p\<in>set (db_pending_submissions example_queue). ps_Address p \<noteq> []" by (simp add: example_queue_def)
  with approve_correct [of example_api example_env "''51''"] r example_queue_ok show ?thesis by auto
qed


theorem review_final_witness:
  "\<exists>s' ps q. (pool_step (serves example_env) background)\<^sup>*\<^sup>* (example_api, []) (s', ps) \<and>
     ps \<noteq> [] \<and> api_db s' \<noteq> example_queue \<and> pg_GetPendingSubmission 51 (api_db s') = Ok q \<and> ps_Address q = ''s:1''"
proof -
  let ?S = "pool_step (serves example_env) background"
  let ?p = "void (handleRejectSubmission example_env ''51'' example_request) :: (unit api, unit) prog"
  define s' where "s' = fst (runP ?p example_api)"
  have "?S (example_api, []) (example_api, [] @ [?p])" by (rule Join, rule Reject)
  moreover have "?S\<^sup>*\<^sup>* (example_api, [] @ [?p]) (s', [Done ()])"
    using pool_run [of 0 "[Done ()]" "serves example_env" background example_api ?p] by (simp add: s'_def)
  ultimately have steps: "?S\<^sup>*\<^sup>* (example_api, []) (s', [Done ()])" by (rule converse_rtranclp_into_rtranclp)
  have "s' = example_api\<lparr>api_db := update_pending 51 (\<lambda>p. p\<lparr>
     ps_Status := SubmissionStatusRejected, ps_ReviewedAt := Some 5, ps_RejectionReason := nonempty ''spam''\<rparr>) example_queue\<rparr>"
    using reject_runs [of example_api example_env "''51''" 51 example_submission example_request "''spam''"] example_queue_ok
    by (simp add: s'_def void_def runP_bindP split_beta)
  then have "api_db s' \<noteq> example_queue"
    by (auto simp: update_pending_def example_queue_def example_submission_def is_pending_def example_db_defs SubmissionStatusRejected_def SubmissionStatusPending_def)
  moreover from review_final [OF steps] obtain q where "pg_GetPendingSubmission 51 (api_db s') = Ok q" "ps_Address q = ''s:1''"
    by force
  ultimately show ?thesis using steps by (intro exI [of _ s'] exI [of _ "[Done ()]"] exI [of _ q]) simp
qed


theorem approve_race_witness:
  "\<exists>s' q. (pool_step (serves example_env) background)\<^sup>*\<^sup>*
      (example_api, [void (handleApproveSubmission example_env ''51''), void (handleRejectSubmission example_env ''51'' example_request)])
      (s', [Done (), Done ()]) \<and> pg_GetPendingSubmission 51 (api_db s') = Ok q \<and> ps_Status q = SubmissionStatusRejected"
  using approve_race [of example_api example_env "''51''" 51 example_submission example_request "''spam''"] example_queue_ok by auto

end
