(* ===== verification/Public_Api.thy ===== *)
theory Public_Api
  imports Pg_Topology Privacy Auth
begin

text \<open>
  The unauthenticated read routes: \<^verbatim>\<open>internal/api/api.go\<close> (nodes, topology, seeds),
  \<^verbatim>\<open>stats.go\<close>, \<^verbatim>\<open>mapnodes.go\<close>, \<^verbatim>\<open>mapextended.go\<close> and \<^verbatim>\<open>directory.go\<close>.  A handler is a function
  of the database at the time of the request, the query parameters and the clock; the ones
  with an in-process cache also take and return the cache.  \<^verbatim>\<open>uuid.Parse\<close>, \<^verbatim>\<open>time.ParseDuration\<close>
  and \<^verbatim>\<open>strconv.Quote\<close> (whose table of printable runes is not modelled) are arguments, JSON
  encoding is the identity.
\<close>

type_synonym query = "string \<Rightarrow> string"

section \<open>Query parameters\<close>

definition defaultNodeListLimit :: int where "defaultNodeListLimit = 100"
definition maxNodeListLimit :: int where "maxNodeListLimit = 500"

definition page_limit :: "query \<Rightarrow> int" where
  "page_limit q =
     (let v = q ''limit'';
          limit = (if v \<noteq> [] then (case Atoi v of None \<Rightarrow> defaultNodeListLimit | Some n \<Rightarrow> if n \<le> 0 then defaultNodeListLimit else n)
                   else defaultNodeListLimit)
      in if limit > maxNodeListLimit then maxNodeListLimit else limit)"

definition page_offset :: "query \<Rightarrow> int option" where
  "page_offset q =
     (let v = q ''offset''
      in if v \<noteq> [] then (case Atoi v of None \<Rightarrow> None | Some n \<Rightarrow> if n < 0 then None else Some n) else Some 0)"

text \<open>A parameter that must be a positive number when present.\<close>

definition positive_param :: "query \<Rightarrow> string \<Rightarrow> int \<Rightarrow> int option" where
  "positive_param q name dflt =
     (let v = q name
      in if v \<noteq> [] then (case Atoi v of None \<Rightarrow> None | Some n \<Rightarrow> if n \<le> 0 then None else Some n) else Some dflt)"

definition ParseBool :: "string \<Rightarrow> bool option" where
  "ParseBool s =
     (if s \<in> {''1'', ''t'', ''T'', ''TRUE'', ''true'', ''True''} then Some True
      else if s \<in> {''0'', ''f'', ''F'', ''FALSE'', ''false'', ''False''} then Some False else None)"

definition bad :: "string \<Rightarrow> 'b response" where
  "bad msg = ErrorResponse StatusBadRequest (Err msg)"

text \<open>A store call whose error is answered with 500.\<close>

definition or_500 :: "'a result \<Rightarrow> ('a \<Rightarrow> 'b response) \<Rightarrow> 'b response" where
  "or_500 r k = (case r of Inl err \<Rightarrow> ErrorResponse StatusInternalServerError err | Inr x \<Rightarrow> k x)"

text \<open>\<^verbatim>\<open>addrsByNode[id]\<close>.\<close>

definition addrs_of :: "(uuid \<times> NodeAddress list) list \<Rightarrow> uuid \<Rightarrow> NodeAddress list" where
  "addrs_of m i = coalesce (lookup m i) []"

section \<open>Nodes\<close>

record listNodesResponse =
  ln_Nodes :: "PublicNode list"
  ln_Total :: nat
  ln_Limit :: int
  ln_Offset :: int
  ln_HasMore :: bool

definition handleListNodes :: "query \<Rightarrow> DB \<Rightarrow> listNodesResponse response" where
  "handleListNodes q db =
     (let limit = page_limit q in
      case page_offset q of
        None \<Rightarrow> bad ''invalid offset''
      | Some offset \<Rightarrow>
          let filter = emptyFilter\<lparr>nf_DiscoverySource := q ''discovery_source'', nf_Owner := q ''owner'', nf_Limit := limit, nf_Offset := offset\<rparr> in
          or_500 (pg_ListNodes filter db) (\<lambda>nodes.
          or_500 (pg_CountNodes filter db) (\<lambda>count.
          or_500 (pg_ListNodeAddressesForNodes (map n_ID nodes) db) (\<lambda>addrsByNode.
          Response StatusOK \<lparr>ln_Nodes = map (\<lambda>n. ScrubNode n (addrs_of addrsByNode (n_ID n))) nodes, ln_Total = count,
            ln_Limit = limit, ln_Offset = offset, ln_HasMore = (offset + int (length nodes) < int count)\<rparr>))))"

definition handleGetNode :: "(string \<Rightarrow> uuid option) \<Rightarrow> string \<Rightarrow> DB \<Rightarrow> PublicNode response" where
  "handleGetNode parseUUID pathID db =
     (case parseUUID pathID of
        None \<Rightarrow> bad ''invalid node id''
      | Some nid \<Rightarrow>
          (case pg_GetNode nid db of
             Inl err \<Rightarrow> if err = ErrNotFound then ErrorResponse StatusNotFound (Err ''node not found'')
                        else ErrorResponse StatusInternalServerError err
           | Inr node \<Rightarrow> or_500 (pg_ListNodeAddresses (n_ID node) db) (\<lambda>addrs. Response StatusOK (ScrubNode node addrs))))"

definition handleGetNodeHistory :: "(string \<Rightarrow> uuid option) \<Rightarrow> string \<Rightarrow> query \<Rightarrow> DB \<Rightarrow> HealthCheck list response" where
  "handleGetNodeHistory parseUUID pathID q db =
     (case parseUUID pathID of
        None \<Rightarrow> bad ''invalid node id''
      | Some nid \<Rightarrow>
          (case positive_param q ''limit'' 20 of
             None \<Rightarrow> bad ''invalid limit''
           | Some limit \<Rightarrow> or_500 (pg_GetNodeHistory nid limit db) (Response StatusOK)))"

record topologyResponse =
  tr_Nodes :: "PublicNode list"
  tr_Edges :: "PeerEdge list"

text \<open>
  The neighbours are collected in a map, whose iteration order is arbitrary: \<open>order\<close> is a
  permutation.  A neighbour that has disappeared is skipped, any other error ends the
  request.
\<close>

definition neighbour_ids :: "uuid \<Rightarrow> PeerEdge list \<Rightarrow> uuid list" where
  "neighbour_ids nid edges = remdups (concat (map (\<lambda>e.
     (if pe_FromNodeID e \<noteq> nid then [pe_FromNodeID e] else []) @ (if pe_ToNodeID e \<noteq> nid then [pe_ToNodeID e] else [])) edges))"

fun confirmed_neighbours :: "(uuid \<times> NodeAddress list) list \<Rightarrow> DB \<Rightarrow> uuid list \<Rightarrow> (uuid list \<times> PublicNode list) result" where
  "confirmed_neighbours addrsByNode db [] = Ok ([], [])"
| "confirmed_neighbours addrsByNode db (nid # nids) =
     (case pg_GetNode nid db of
        Inl err \<Rightarrow> if err = ErrNotFound then confirmed_neighbours addrsByNode db nids else Fail err
      | Inr n \<Rightarrow>
          if n_PublicKey n = [] then confirmed_neighbours addrsByNode db nids
          else (case confirmed_neighbours addrsByNode db nids of
                  Inl err \<Rightarrow> Fail err
                | Inr (ids, ns) \<Rightarrow> Ok (nid # ids, ScrubNode n (addrs_of addrsByNode nid) # ns)))"

definition handleGetNodeEdges ::
  "(uuid list \<Rightarrow> uuid list) \<Rightarrow> (string \<Rightarrow> uuid option) \<Rightarrow> string \<Rightarrow> query \<Rightarrow> DB \<Rightarrow> topologyResponse response" where
  "handleGetNodeEdges order parseUUID pathID q db =
     (case parseUUID pathID of
        None \<Rightarrow> bad ''invalid node id''
      | Some nid \<Rightarrow>
          (case positive_param q ''limit'' 50 of
             None \<Rightarrow> bad ''invalid limit''
           | Some limit \<Rightarrow>
               or_500 (ListNodeEdges nid limit db) (\<lambda>edges.
               let neighbours = order (neighbour_ids nid edges) in
               or_500 (pg_ListNodeAddressesForNodes neighbours db) (\<lambda>addrsByNode.
               or_500 (confirmed_neighbours addrsByNode db neighbours) (\<lambda>(confirmed, nodes).
               let edges = filter (\<lambda>e. (if pe_FromNodeID e = nid then pe_ToNodeID e else pe_FromNodeID e) \<in> set confirmed) edges
               in Response StatusOK \<lparr>tr_Nodes = nodes, tr_Edges = edges\<rparr>)))))"

section \<open>Topology\<close>

definition defaultTopologyMaxNodes :: int where "defaultTopologyMaxNodes = 300"
definition defaultTopologyMaxEdges :: int where "defaultTopologyMaxEdges = 2500"

definition handleTopology :: "query \<Rightarrow> DB \<Rightarrow> topologyResponse response" where
  "handleTopology q db =
     (case (if q ''all'' \<noteq> [] then ParseBool (q ''all'') else Some False) of
        None \<Rightarrow> bad ''invalid all''
      | Some all \<Rightarrow>
          let maxNodes = (if all then 0 else defaultTopologyMaxNodes); maxEdges = (if all then 0 else defaultTopologyMaxEdges) in
          (case positive_param q ''limit'' maxNodes of
             None \<Rightarrow> bad ''invalid limit''
           | Some maxNodes \<Rightarrow>
               (case positive_param q ''max_edges'' maxEdges of
                  None \<Rightarrow> bad ''invalid max_edges''
                | Some maxEdges \<Rightarrow>
                    or_500 (ListTopology \<lparr>tf_MaxNodes = maxNodes, tf_MaxEdges = maxEdges\<rparr> db) (\<lambda>(nodes, edges).
                    let nodes = filterOutCollectorNodes nodes; kept = map n_ID nodes;
                        edges = filter (\<lambda>e. pe_FromNodeID e \<in> set kept \<and> pe_ToNodeID e \<in> set kept) edges in
                    or_500 (pg_ListNodeAddressesForNodes (map n_ID nodes) db) (\<lambda>addrsByNode.
                    Response StatusOK \<lparr>tr_Nodes = map (\<lambda>n. ScrubNode n (addrs_of addrsByNode (n_ID n))) nodes, tr_Edges = edges\<rparr>)))))"

fun scrub_degrees :: "DB \<Rightarrow> NodeDegree list \<Rightarrow> PublicNodeDegree list result" where
  "scrub_degrees db [] = Ok []"
| "scrub_degrees db (d # ds) =
     (case pg_GetNode (nd_NodeID d) db of
        Inl err \<Rightarrow> Fail err
      | Inr n \<Rightarrow>
          if IsCollectorRole (n_Tags n) then scrub_degrees db ds
          else (case ScrubNodeDegree pg_Store db d of
                  Inl err \<Rightarrow> Fail err
                | Inr pd \<Rightarrow> (case scrub_degrees db ds of Inl err \<Rightarrow> Fail err | Inr pds \<Rightarrow> Ok (pd # pds))))"

definition handleTopPeeredNodes :: "(string \<Rightarrow> duration option) \<Rightarrow> query \<Rightarrow> time \<Rightarrow> DB \<Rightarrow> PublicNodeDegree list response" where
  "handleTopPeeredNodes parseDuration q now db =
     (case (if q ''since'' \<noteq> [] then parseDuration (q ''since'') else Some Hour) of
        None \<Rightarrow> bad ''invalid since''
      | Some since \<Rightarrow>
          (case positive_param q ''limit'' 20 of
             None \<Rightarrow> bad ''invalid limit''
           | Some limit \<Rightarrow>
               or_500 (TopPeeredNodes (now - since) limit db) (\<lambda>degrees.
               or_500 (scrub_degrees db degrees) (Response StatusOK))))"

section \<open>Seeds\<close>

definition DefaultSeedHealthWindow :: duration where "DefaultSeedHealthWindow = 3 * Hour"

record PublicSeedCandidate =
  psc_NodeID :: uuid
  psc_PublicKey :: string
  psc_Label :: "string option"
  psc_Addresses :: "string list"

record listSeedCandidatesResponse =
  lsc_Candidates :: "PublicSeedCandidate list"
  lsc_Since :: duration

definition parseSeedSinceParam :: "(string \<Rightarrow> duration option) \<Rightarrow> query \<Rightarrow> duration option" where
  "parseSeedSinceParam parseDuration q =
     (if q ''since'' \<noteq> [] then parseDuration (q ''since'') else Some DefaultSeedHealthWindow)"

definition handleListSeedCandidates ::
  "(string \<Rightarrow> duration option) \<Rightarrow> query \<Rightarrow> time \<Rightarrow> DB \<Rightarrow> listSeedCandidatesResponse response" where
  "handleListSeedCandidates parseDuration q now db =
     (case parseSeedSinceParam parseDuration q of
        None \<Rightarrow> bad ''invalid since''
      | Some since \<Rightarrow>
          or_500 (ListSeedCandidates now since db) (\<lambda>candidates.
          Response StatusOK \<lparr>lsc_Candidates = map (\<lambda>c. \<lparr>psc_NodeID = sc_NodeID c, psc_PublicKey = hex_EncodeToString (sc_PublicKey c),
               psc_Label = sc_Label c, psc_Addresses = sc_Addresses c\<rparr>) (filterOutCollectorSeedCandidates candidates),
             lsc_Since = since\<rparr>))"

definition newline :: string where "newline = [CHR 0x0A]"

definition renderPeerSeedsTOML :: "(string \<Rightarrow> string) \<Rightarrow> SeedCandidate list \<Rightarrow> string \<Rightarrow> string" where
  "renderPeerSeedsTOML quote candidates network =
     (let header = (if network \<noteq> [] then ''['' @ network @ ''.p2p.seeds]'' else ''[p2p.seeds]'')
      in header @ newline @ ''peer_seeds = ['' @ newline @
         concat (map (\<lambda>c. concat (map (\<lambda>addr. case addressToMultiaddr addr of
             Inl _ \<Rightarrow> []
           | Inr ma \<Rightarrow> ''    '' @ quote (hex_EncodeToString (sc_PublicKey c) @ ''::'' @ ma) @ '','' @ newline) (sc_Addresses c))) candidates) @
         '']'' @ newline)"

definition handleConfigPeerSeeds ::
  "(string \<Rightarrow> duration option) \<Rightarrow> (string \<Rightarrow> string) \<Rightarrow> query \<Rightarrow> time \<Rightarrow> DB \<Rightarrow> string response" where
  "handleConfigPeerSeeds parseDuration quote q now db =
     (case parseSeedSinceParam parseDuration q of
        None \<Rightarrow> bad ''invalid since''
      | Some since \<Rightarrow>
          or_500 (ListSeedCandidates now since db) (\<lambda>candidates.
          Response StatusOK (renderPeerSeedsTOML quote (filterOutCollectorSeedCandidates candidates) (q ''network''))))"

end
