(* ===== verification/Public_Maps.thy ===== *)
theory Public_Maps
  imports Public_Api
begin

text \<open>
  \<^verbatim>\<open>internal/api/mapnodes.go\<close>, \<^verbatim>\<open>mapextended.go\<close>, \<^verbatim>\<open>directory.go\<close> and \<^verbatim>\<open>stats.go\<close>: the geographic
  views, the directory and the statistics, with their response caches.
\<close>

section \<open>The map\<close>

record MapNode =
  mn_NodeID :: uuid
  mn_Label :: string
  mn_Latitude :: float64
  mn_Longitude :: float64
  mn_City :: string
  mn_Country :: string
  mn_HasOnion :: bool

fun first_ipv4 :: "string list \<Rightarrow> string option" where
  "first_ipv4 [] = None"
| "first_ipv4 (a # as) = (case IPv4Host a of Some ip \<Rightarrow> Some ip | None \<Rightarrow> first_ipv4 as)"

definition firstIPv4Address :: "Node \<Rightarrow> NodeAddress list \<Rightarrow> string option" where
  "firstIPv4Address n addrs = first_ipv4 (addressStrings n addrs)"

definition isMapEligible :: "Node \<Rightarrow> NodeAddress list \<Rightarrow> bool" where
  "isMapEligible n addrs \<longleftrightarrow> HasOwnerTag n \<and> firstIPv4Address n addrs \<noteq> None"

text \<open>The entry of the cache a node's address has, unless the lookup failed.\<close>

definition located :: "(string \<times> GeoIPEntry) list \<Rightarrow> string \<Rightarrow> GeoIPEntry option" where
  "located cache ip = (case lookup cache ip of
     Some entry \<Rightarrow> if ge_LookupFailed entry then None else Some entry
   | None \<Rightarrow> None)"

definition map_node :: "(uuid \<times> NodeAddress list) list \<Rightarrow> Node \<Rightarrow> GeoIPEntry \<Rightarrow> MapNode" where
  "map_node addrsByNode n entry =
     \<lparr>mn_NodeID = n_ID n, mn_Label = coalesce (n_Label n) [], mn_Latitude = ge_Latitude entry,
      mn_Longitude = ge_Longitude entry, mn_City = ge_City entry, mn_Country = ge_Country entry,
      mn_HasOnion = pn_HasOnion (ScrubNode n (addrs_of addrsByNode (n_ID n)))\<rparr>"

text \<open>The nodes that satisfy a condition and have an IPv4 address, with that address.\<close>

definition with_ipv4 :: "(uuid \<times> NodeAddress list) list \<Rightarrow> Node list \<Rightarrow> (Node \<times> string) list" where
  "with_ipv4 addrsByNode = List.map_filter (\<lambda>n. map_option (Pair n) (firstIPv4Address n (addrs_of addrsByNode (n_ID n))))"

definition handleNodesMap :: "DB \<Rightarrow> MapNode list response" where
  "handleNodesMap db =
     or_500 (pg_ListNodes emptyFilter db) (\<lambda>nodes.
     or_500 (pg_ListNodeAddressesForNodes (map n_ID nodes) db) (\<lambda>addrsByNode.
     let candidates = with_ipv4 addrsByNode (filter (\<lambda>n. isMapEligible n (addrs_of addrsByNode (n_ID n))) nodes) in
     or_500 (GetGeoIPCache (remdups (map snd candidates)) db) (\<lambda>cache.
     Response StatusOK (List.map_filter (\<lambda>(n, ip). map_option (map_node addrsByNode n) (located cache ip)) candidates))))"

section \<open>The extended map\<close>

record AnonymousCluster =
  ac_City :: string
  ac_Country :: string
  ac_Latitude :: float64
  ac_Longitude :: float64
  ac_ApproxNodeCount :: nat
  ac_LastObservedAt :: time

record ExtendedMapResponse =
  em_Attributed :: "MapNode list"
  em_Anonymous :: "AnonymousCluster list"

definition cityKey :: "GeoIPEntry \<Rightarrow> string \<times> string" where
  "cityKey entry = (ge_City entry, ge_Country entry)"

text \<open>
  A cluster of nodes in one city.  The members are sorted by the text of their identifier,
  which has the order of the identifier itself; the first one gives the coordinates.
\<close>

definition cluster :: "string \<times> string \<Rightarrow> (Node \<times> GeoIPEntry) list \<Rightarrow> AnonymousCluster" where
  "cluster key members =
     (let members = sort_key (\<lambda>(n, _). n_ID n) members; representative = snd (hd members);
          lastObserved = foldl (\<lambda>t (n, _). if n_LastSeen n > t then n_LastSeen n else t) (n_LastSeen (fst (hd members))) (tl members)
      in \<lparr>ac_City = fst key, ac_Country = snd key, ac_Latitude = ge_Latitude representative,
          ac_Longitude = ge_Longitude representative, ac_ApproxNodeCount = length members, ac_LastObservedAt = lastObserved\<rparr>)"

definition cluster_less :: "AnonymousCluster \<Rightarrow> AnonymousCluster \<Rightarrow> bool" where
  "cluster_less a b = (if ac_City a \<noteq> ac_City b then string_less (ac_City a) (ac_City b) else string_less (ac_Country a) (ac_Country b))"

fun insert_cluster :: "AnonymousCluster \<Rightarrow> AnonymousCluster list \<Rightarrow> AnonymousCluster list" where
  "insert_cluster c [] = [c]"
| "insert_cluster c (d # ds) = (if cluster_less d c then d # insert_cluster c ds else c # d # ds)"

definition buildExtendedMapResponse :: "DB \<Rightarrow> ExtendedMapResponse result" where
  "buildExtendedMapResponse db =
     (case pg_ListNodes emptyFilter db of
        Inl err \<Rightarrow> Fail err
      | Inr nodes \<Rightarrow>
     (case pg_ListNodeAddressesForNodes (map n_ID nodes) db of
        Inl err \<Rightarrow> Fail err
      | Inr addrsByNode \<Rightarrow>
          let nodes = filter (\<lambda>n. \<not> IsCollectorRole (n_Tags n)) nodes;
              attributedCandidates = with_ipv4 addrsByNode (filter (\<lambda>n. isMapEligible n (addrs_of addrsByNode (n_ID n))) nodes);
              anonymousCandidates = with_ipv4 addrsByNode (filter (\<lambda>n. \<not> HasOwnerTag n) nodes) in
     (case GetGeoIPCache (remdups (map snd attributedCandidates @ map snd anonymousCandidates)) db of
        Inl err \<Rightarrow> Fail err
      | Inr geoCache \<Rightarrow>
          let attributed = List.map_filter (\<lambda>(n, ip). map_option (\<lambda>e. (map_node addrsByNode n e, cityKey e)) (located geoCache ip)) attributedCandidates;
              excludedCities = map snd attributed;
              members = List.map_filter (\<lambda>(n, ip). map_option (Pair n) (located geoCache ip)) anonymousCandidates;
              keys = filter (\<lambda>k. k \<notin> set excludedCities) (remdups (map (\<lambda>(_, e). cityKey e) members));
              anonymous = map (\<lambda>k. cluster k (filter (\<lambda>(_, e). cityKey e = k) members)) keys
          in Ok \<lparr>em_Attributed = map fst attributed, em_Anonymous = foldr insert_cluster anonymous []\<rparr>)))"

section \<open>The directory\<close>

definition directoryClassAttributed :: string where "directoryClassAttributed = ''attributed''"
definition directoryClassAnonymous :: string where "directoryClassAnonymous = ''anonymous''"

record GeoPrecise =
  gp_Latitude :: float64
  gp_Longitude :: float64
  gp_City :: string
  gp_Country :: string

record GeoCoarse =
  gc_City :: string
  gc_Country :: string

record DirectoryNode =
  dn_NodeID :: uuid
  dn_Label :: string
  dn_Class :: string
  dn_Owner :: string
  dn_HasOnion :: bool
  dn_Confirmed :: bool
  dn_GeoPrecise :: "GeoPrecise option"
  dn_GeoCoarse :: "GeoCoarse option"

record directoryResponse =
  dr_Nodes :: "DirectoryNode list"
  dr_Total :: nat
  dr_Limit :: int
  dr_Offset :: int
  dr_HasMore :: bool

definition classifyDirectoryNode :: "Node \<Rightarrow> string \<times> string" where
  "classifyDirectoryNode n =
     (if HasOwnerTag n
      then (directoryClassAttributed, (case lookup (n_Tags n) ''owner'' of Some (JStr owner) \<Rightarrow> owner | _ \<Rightarrow> []))
      else (directoryClassAnonymous, []))"

definition directory_node :: "(uuid \<times> NodeAddress list) list \<Rightarrow> (string \<times> GeoIPEntry) list \<Rightarrow> Node \<Rightarrow> DirectoryNode" where
  "directory_node addrsByNode geoCache n =
     (let (class, owner) = classifyDirectoryNode n; addrs = addrs_of addrsByNode (n_ID n); pn = ScrubNode n addrs;
          entry = (case firstIPv4Address n addrs of None \<Rightarrow> None | Some ip \<Rightarrow> located geoCache ip)
      in \<lparr>dn_NodeID = n_ID n, dn_Label = coalesce (n_Label n) [], dn_Class = class,
          dn_Owner = (if class = directoryClassAttributed then owner else []),
          dn_HasOnion = pn_HasOnion pn, dn_Confirmed = (pn_PublicKey pn \<noteq> []),
          dn_GeoPrecise = (if class = directoryClassAttributed
             then map_option (\<lambda>e. \<lparr>gp_Latitude = ge_Latitude e, gp_Longitude = ge_Longitude e, gp_City = ge_City e, gp_Country = ge_Country e\<rparr>) entry
             else None),
          dn_GeoCoarse = (if class = directoryClassAnonymous
             then map_option (\<lambda>e. \<lparr>gc_City = ge_City e, gc_Country = ge_Country e\<rparr>) entry else None)\<rparr>)"

text \<open>\<^verbatim>\<open>candidates[start:end]\<close> panics when \<^verbatim>\<open>start\<close> exceeds \<^verbatim>\<open>end\<close>, which the clamping excludes for offsets from 0.\<close>

definition directory_page :: "int \<Rightarrow> int \<Rightarrow> 'a list \<Rightarrow> 'a list" where
  "directory_page limit offset candidates =
     (let start = min offset (int (length candidates));
          end1 = (if limit > 0 \<and> start + limit < int (length candidates) then start + limit else int (length candidates))
      in take (nat (end1 - start)) (drop (nat start) candidates))"

definition buildDirectoryResponse :: "string \<Rightarrow> string \<Rightarrow> int \<Rightarrow> int \<Rightarrow> DB \<Rightarrow> directoryResponse result" where
  "buildDirectoryResponse owner class limit offset db =
     (case pg_ListNodes emptyFilter db of
        Inl err \<Rightarrow> Fail err
      | Inr nodes \<Rightarrow>
     (case pg_ListNodeAddressesForNodes (map n_ID nodes) db of
        Inl err \<Rightarrow> Fail err
      | Inr addrsByNode \<Rightarrow>
          let candidates = filter (\<lambda>n. (owner = [] \<or> snd (classifyDirectoryNode n) = owner) \<and>
                (class = [] \<or> fst (classifyDirectoryNode n) = class)) nodes;
              ips = remdups (List.map_filter (\<lambda>n. firstIPv4Address n (addrs_of addrsByNode (n_ID n))) candidates) in
     (case GetGeoIPCache ips db of
        Inl err \<Rightarrow> Fail err
      | Inr geoCache \<Rightarrow>
          let out = map (directory_node addrsByNode geoCache) (directory_page limit offset candidates) in
          Ok \<lparr>dr_Nodes = out, dr_Total = length candidates, dr_Limit = limit, dr_Offset = offset,
              dr_HasMore = (offset + int (length out) < int (length candidates))\<rparr>)))"

section \<open>Statistics\<close>

record NodeCounts =
  nc_Total :: nat
  nc_P2P :: nat
  nc_Registry :: nat
  nc_Both :: nat
  nc_Confirmed :: nat
  nc_Unconfirmed :: nat
  nc_OnionCapable :: nat
  nc_ClearnetCapable :: nat
  nc_ClearnetOnly :: nat
  nc_Confirmed24h :: nat

definition zeroNodeCounts :: NodeCounts where
  "zeroNodeCounts = \<lparr>nc_Total = 0, nc_P2P = 0, nc_Registry = 0, nc_Both = 0, nc_Confirmed = 0, nc_Unconfirmed = 0,
     nc_OnionCapable = 0, nc_ClearnetCapable = 0, nc_ClearnetOnly = 0, nc_Confirmed24h = 0\<rparr>"

definition count_node :: "(uuid \<times> NodeAddress list) list \<Rightarrow> NodeCounts \<Rightarrow> Node \<Rightarrow> NodeCounts" where
  "count_node addrsByNode counts n =
     (let counts = counts\<lparr>nc_Total := nc_Total counts + 1\<rparr>;
          counts = (if n_DiscoverySource n = DiscoverySourceP2P then counts\<lparr>nc_P2P := nc_P2P counts + 1\<rparr>
                    else if n_DiscoverySource n = DiscoverySourceRegistry then counts\<lparr>nc_Registry := nc_Registry counts + 1\<rparr>
                    else if n_DiscoverySource n = DiscoverySourceBoth then counts\<lparr>nc_Both := nc_Both counts + 1\<rparr> else counts);
          pn = ScrubNode n (addrs_of addrsByNode (n_ID n));
          counts = (if pn_PublicKey pn \<noteq> [] then counts\<lparr>nc_Confirmed := nc_Confirmed counts + 1\<rparr>
                    else counts\<lparr>nc_Unconfirmed := nc_Unconfirmed counts + 1\<rparr>);
          counts = (if pn_HasOnion pn then counts\<lparr>nc_OnionCapable := nc_OnionCapable counts + 1\<rparr> else counts);
          counts = (if pn_HasIPv4 pn \<or> pn_HasIPv6 pn then counts\<lparr>nc_ClearnetCapable := nc_ClearnetCapable counts + 1\<rparr> else counts)
      in if (pn_HasIPv4 pn \<or> pn_HasIPv6 pn) \<and> \<not> pn_HasOnion pn then counts\<lparr>nc_ClearnetOnly := nc_ClearnetOnly counts + 1\<rparr> else counts)"

definition ComputeNodeCounts :: "Node list \<Rightarrow> (uuid \<times> NodeAddress list) list \<Rightarrow> NodeCounts" where
  "ComputeNodeCounts nodes addrsByNode = foldl (count_node addrsByNode) zeroNodeCounts nodes"

definition FetchConfirmed24h :: "time \<Rightarrow> DB \<Rightarrow> nat result" where
  "FetchConfirmed24h now db = pg_CountNodes (emptyFilter\<lparr>nf_Confirmed := Some True, nf_ReachableSince := Some (now - 24 * Hour)\<rparr>) db"

definition FetchNodeCounts :: "time \<Rightarrow> DB \<Rightarrow> NodeCounts result" where
  "FetchNodeCounts now db =
     (case pg_ListNodes emptyFilter db of
        Inl err \<Rightarrow> Fail err
      | Inr nodes \<Rightarrow>
     (case pg_ListNodeAddressesForNodes (map n_ID nodes) db of
        Inl err \<Rightarrow> Fail err
      | Inr addrsByNode \<Rightarrow>
     (case FetchConfirmed24h now db of
        Inl err \<Rightarrow> Fail err
      | Inr confirmed24h \<Rightarrow> Ok ((ComputeNodeCounts nodes addrsByNode)\<lparr>nc_Confirmed24h := confirmed24h\<rparr>))))"

record statsResponse =
  st_Counts :: NodeCounts
  st_NetworkHeight :: "int option"
  st_NetworkHeightNodeCount :: nat

definition stats_response :: "time \<Rightarrow> DB \<Rightarrow> statsResponse result" where
  "stats_response now db =
     (case FetchNodeCounts now db of
        Inl err \<Rightarrow> Fail err
      | Inr counts \<Rightarrow>
     (case NetworkHeight now db of
        Inl err \<Rightarrow> Fail err
      | Inr (height, heightNodeCount) \<Rightarrow>
          Ok \<lparr>st_Counts = counts, st_NetworkHeight = height, st_NetworkHeightNodeCount = heightNodeCount\<rparr>))"

section \<open>Caches\<close>

text \<open>
  Responses are cached for a while.  \<^verbatim>\<open>statsCache\<close> and \<^verbatim>\<open>extendedMapCache\<close> hold one response, which
  is the case of a single key; \<^verbatim>\<open>directoryCache\<close> holds one per normalized combination of the
  parameters.  An entry is the response with the time it was computed at.
\<close>

record ('k, 'r) cache =
  cache_ttl :: duration
  cache_entries :: "('k \<times> 'r \<times> time) list"

definition cache_get :: "time \<Rightarrow> 'k \<Rightarrow> ('k, 'r) cache \<Rightarrow> 'r option" where
  "cache_get now key c =
     (case lookup (cache_entries c) key of
        None \<Rightarrow> None
      | Some (resp, computedAt) \<Rightarrow> if now - computedAt \<ge> cache_ttl c then None else Some resp)"

definition cache_set :: "time \<Rightarrow> 'k \<Rightarrow> 'r \<Rightarrow> ('k, 'r) cache \<Rightarrow> ('k, 'r) cache" where
  "cache_set now key resp c = c\<lparr>cache_entries := AList.update key (resp, now) (cache_entries c)\<rparr>"

text \<open>What the three handlers with a cache share.\<close>

definition serve_cached :: "time \<Rightarrow> 'k \<Rightarrow> 'r result \<Rightarrow> ('k, 'r) cache \<Rightarrow> ('k, 'r) cache \<times> 'r response" where
  "serve_cached now key build c =
     (case cache_get now key c of
        Some resp \<Rightarrow> (c, Response StatusOK resp)
      | None \<Rightarrow>
          (case build of
             Inl err \<Rightarrow> (c, ErrorResponse StatusInternalServerError err)
           | Inr resp \<Rightarrow> (cache_set now key resp c, Response StatusOK resp)))"

definition handleStats :: "time \<Rightarrow> DB \<Rightarrow> (unit, statsResponse) cache \<Rightarrow> (unit, statsResponse) cache \<times> statsResponse response" where
  "handleStats now db = serve_cached now () (stats_response now db)"

definition handleNodesMapExtended ::
  "time \<Rightarrow> DB \<Rightarrow> (unit, ExtendedMapResponse) cache \<Rightarrow> (unit, ExtendedMapResponse) cache \<times> ExtendedMapResponse response" where
  "handleNodesMapExtended now db = serve_cached now () (buildExtendedMapResponse db)"

definition directoryCacheKey :: "string \<Rightarrow> string \<Rightarrow> int \<Rightarrow> int \<Rightarrow> string" where
  "directoryCacheKey owner class limit offset =
     ''owner='' @ owner @ ''&class='' @ class @ ''&limit='' @ Itoa limit @ ''&offset='' @ Itoa offset"

definition handleDirectory ::
  "query \<Rightarrow> time \<Rightarrow> DB \<Rightarrow> (string, directoryResponse) cache \<Rightarrow> (string, directoryResponse) cache \<times> directoryResponse response" where
  "handleDirectory q now db c =
     (let owner = q ''owner''; class = q ''class'' in
      if class \<noteq> [] \<and> class \<noteq> directoryClassAttributed \<and> class \<noteq> directoryClassAnonymous then (c, bad ''invalid class'')
      else let limit = page_limit q in
           case page_offset q of
             None \<Rightarrow> (c, bad ''invalid offset'')
           | Some offset \<Rightarrow> serve_cached now (directoryCacheKey owner class limit offset) (buildDirectoryResponse owner class limit offset db) c)"

end
