(* ===== verification/Publication.thy ===== *)
theory Publication
  imports Wallet_Review Public_Maps
begin

text \<open>
  What the service publishes.  The owner tag, which puts a node on the map, is only ever set
  together with the opt-in, whatever the requests and the collectors do; and no read route
  hands out an address of a node that did not opt in.
\<close>

section \<open>The owner tag implies the opt-in\<close>

definition consented :: "DB \<Rightarrow> bool" where
  "consented db \<longleftrightarrow> (\<forall>n\<in>set (db_nodes db). HasOwnerTag n \<longrightarrow> opted_in n)"

lemma consented_nodes: "db_nodes db' = db_nodes db \<Longrightarrow> consented db' = consented db"
  by (simp add: consented_def)

lemma on_tables_consented: "on_tables consented"
  by (rule on_tables_nodes) (simp add: consented_def)

lemma consented_subset: "consented db \<Longrightarrow> set (db_nodes db') \<subseteq> set (db_nodes db) \<Longrightarrow> consented db'"
  by (auto simp: consented_def)

lemma consented_update:
  assumes "consented db" "\<And>n. (HasOwnerTag n \<longrightarrow> opted_in n) \<Longrightarrow> HasOwnerTag (f n) \<longrightarrow> opted_in (f n)"
  shows "consented (update_node nid f db)"
proof -
  have "\<forall>n\<in>set ns. HasOwnerTag n \<longrightarrow> opted_in n \<Longrightarrow> \<forall>n\<in>set (map (\<lambda>n. if n_ID n = nid then f n else n) ns). HasOwnerTag n \<longrightarrow> opted_in n" for ns
    using assms(2) by (induction ns) auto
  from this [of "db_nodes db"] show ?thesis using assms(1) by (simp only: consented_def update_node_def) simp
qed

lemma opted_in_merge: "opted_in n \<Longrightarrow> opted_in (m\<lparr>n_DiscoverySource := sql_merge_source DiscoverySourceP2P (n_DiscoverySource n)\<rparr>)"
  by (auto simp: opted_in_def sql_merge_source_def)

lemma HasOwnerTag_cong: "lookup (n_Tags m) ''owner'' = lookup (n_Tags n) ''owner'' \<Longrightarrow> HasOwnerTag m = HasOwnerTag n"
  by (simp add: HasOwnerTag_def)

text \<open>An upsert as discovered with tags that do not mention the owner, and one as registered.\<close>

lemma consented_discovered:
  assumes "lookup tags ''owner'' = None" "\<And>old. lookup (merge_tags old tags) ''owner'' = lookup old ''owner''"
  shows "keeps consented (pg_UpsertDiscoveredNode now a DiscoverySourceP2P tags label)"
proof (rule keeps_UpsertDiscovered [OF on_tables_consented])
  show "consented (sql_insert_node now a [] DiscoverySourceP2P tags label db)" if "consented db" for db
    using that assms(1) by (simp add: consented_def sql_insert_node_def draw_def HasOwnerTag_def)
  show "consented (update_node nid (\<lambda>n. n\<lparr>n_DiscoverySource := sql_merge_source DiscoverySourceP2P (n_DiscoverySource n),
      n_Tags := merge_tags (n_Tags n) tags, n_Label := (case label of Some l \<Rightarrow> Some l | None \<Rightarrow> n_Label n), n_LastSeen := now\<rparr>) db)"
    if "consented db" for nid db
    by (rule consented_update [OF that]) (auto simp: HasOwnerTag_def assms(2) opted_in_def sql_merge_source_def)
qed (simp add: consented_def)

lemma consented_registered: "keeps consented (pg_UpsertDiscoveredNode now a DiscoverySourceRegistry tags label)"
proof (rule keeps_UpsertDiscovered [OF on_tables_consented])
  show "consented (sql_insert_node now a [] DiscoverySourceRegistry tags label db)" if "consented db" for db
    using that by (simp add: consented_def sql_insert_node_def draw_def opted_in_def)
  show "consented (update_node nid (\<lambda>n. n\<lparr>n_DiscoverySource := sql_merge_source DiscoverySourceRegistry (n_DiscoverySource n),
      n_Tags := merge_tags (n_Tags n) tags, n_Label := (case label of Some l \<Rightarrow> Some l | None \<Rightarrow> n_Label n), n_LastSeen := now\<rparr>) db)"
    if "consented db" for nid db
    by (rule consented_update [OF that]) (auto simp: opted_in_def sql_merge_source_def)
qed (simp add: consented_def)

lemma consented_confirmed: "keeps consented (pg_UpsertConfirmedNode now a pk DiscoverySourceP2P)"
proof (rule keeps_UpsertConfirmed [OF on_tables_consented])
  show "consented (sql_insert_node now a pk DiscoverySourceP2P [] None db)" if "consented db" for db
    using that by (simp add: consented_def sql_insert_node_def draw_def HasOwnerTag_def)
  show "consented (update_node nid f db)"
    if "\<And>n. n_Tags (f n) = n_Tags n" "\<And>n. n_DiscoverySource (f n) \<in> {n_DiscoverySource n, sql_merge_source DiscoverySourceP2P (n_DiscoverySource n)}"
      "consented db" for nid f db
  proof (rule consented_update [OF that(3)])
    fix n assume "HasOwnerTag n \<longrightarrow> opted_in n"
    then show "HasOwnerTag (f n) \<longrightarrow> opted_in (f n)"
      using that(1) [of n] that(2) [of n] by (auto simp: HasOwnerTag_def opted_in_def sql_merge_source_def)
  qed
  show "consented (f db)" if "f \<in> {dedupe_addresses p c, repoint_addresses p c, dedupe_edges_from p c, repoint_edges_from p c,
        dedupe_edges_to p c, repoint_edges_to p c, repoint_health p c, repoint_pending p c, repoint_wallet p c, delete_node p}"
      "consented db" for p c f db
    using consented_subset [OF that(2) merge_statement_nodes [OF that(1)]] .
qed (simp add: consented_def)

text \<open>Operations that leave the nodes alone, or change no tag and no source.\<close>

lemma consented_exec:
  assumes "\<And>db. db_nodes (f db) = db_nodes db"
  shows "keeps consented (exec f)"
  by (rule keeps_exec [OF on_tables_consented]) (simp add: consented_nodes [OF assms])

lemma consented_port: "keeps consented (exec (update_node nid (\<lambda>n. n\<lparr>n_WalletHTTPPort := port\<rparr>)))"
  by (rule keeps_exec [OF on_tables_consented], erule consented_update) (simp add: HasOwnerTag_def opted_in_def)

lemma keeps_implies: "keeps P m \<Longrightarrow> keeps (\<lambda>x. b \<longrightarrow> P x) m"
  by (cases b) (simp_all add: triple_def split: prod.splits sum.splits)

lemma keeps_read: "keeps P (\<lambda>db. (db, g db))"
  by (auto simp: triple_def split: sum.split)

lemma consented_operations:
  "keeps consented (pg_SetNodeWalletHTTPPort nid port)" "keeps consented (pg_SetNodeWalletHTTPPortByAddress address p)"
  "keeps consented (pg_CreatePendingSubmission now address label ownerTag)" "keeps consented (pg_CreatePendingWalletSubmission now host p)"
  "keeps consented (pg_ApprovePendingSubmission now sid nid)" "keeps consented (pg_RejectPendingSubmission now sid reason)"
  "keeps consented (pg_ApprovePendingWalletSubmission now sid nid outcome)" "keeps consented (pg_RejectPendingWalletSubmission now sid reason)"
  "keeps consented (pg_RecordSubmissionProbeResult now sid ok)" "keeps consented (pg_RecordWalletSubmissionProbeResult now sid ok)"
  unfolding pg_SetNodeWalletHTTPPort_def pg_SetNodeWalletHTTPPortByAddress_def pg_CreatePendingSubmission_def
    pg_CreatePendingWalletSubmission_def row_or_def pg_ApprovePendingSubmission_def pg_RejectPendingSubmission_def
    pg_ApprovePendingWalletSubmission_def pg_RejectPendingWalletSubmission_def review_def review_wallet_def
    pg_RecordSubmissionProbeResult_def pg_RecordWalletSubmissionProbeResult_def
  by (intro keeps_rules keeps_read consented_port consented_exec;
      (auto intro!: keeps_rules consented_port split: list.split)?;
      simp add: sql_create_submission_def sql_create_wallet_submission_def draw_def update_pending_def update_pending_wallet_def)+

lemma merge_role_tag: "lookup (merge_tags old [(''role'', v)]) ''owner'' = lookup old ''owner''"
  by (simp add: merge_tags_def lookup_update)

interpretation consent: db_guarantee "\<lambda>d db. consented d \<longrightarrow> consented db"
proof (unfold_locales, goal_cases)
  case (4 d now a)
  show ?case by (rule keeps_implies, rule consented_discovered) (simp_all add: merge_tags_def)
next
  case (5 d now a)
  show ?case by (rule keeps_implies, rule consented_discovered) (simp_all add: merge_role_tag)
next
  case (7 d now i)
  show ?case by (rule keeps_implies, rule keeps_pg_health [OF on_tables_consented]) (simp add: consented_def)
next
  case (8 d now x y m)
  show ?case by (rule keeps_implies, rule keeps_pg_edge [OF on_tables_consented]) (simp add: consented_def)
next
  case (9 db t n)
  show ?case by (simp add: consented_def sql_prune_batch_def Let_def)
next
  case (20 d x)
  show ?case by (rule keeps_implies, rule consented_exec) (simp add: sql_upsert_geoip_def)
qed (blast | rule keeps_implies consented_registered consented_confirmed consented_operations)+

section \<open>Addresses of several nodes\<close>

text \<open>The rows of a batch, grouped by a key.\<close>

lemma grouped_rows:
  "coalesce (lookup (foldl (\<lambda>m a. AList.update (key a) (coalesce (lookup m (key a)) [] @ [a]) m) m rows) i) [] =
   coalesce (lookup m i) [] @ filter (\<lambda>a. key a = i) rows"
  by (induction rows arbitrary: m) (auto simp: lookup_update coalesce_def split: option.splits)

lemma cleared_rows: "coalesce (lookup (foldl (\<lambda>m i. AList.update i [] m) m ids) i) [] = (if i \<in> set ids then [] else coalesce (lookup m i) [])"
  by (induction ids arbitrary: m) (auto simp: lookup_update coalesce_def)

lemma filter_concat_groups:
  assumes "distinct is" "\<And>j a. a \<in> set (g j) \<Longrightarrow> key a = j"
  shows "filter (\<lambda>a. key a = i) (concat (map g is)) = (if i \<in> set is then g i else [])"
  using assms(1)
proof (induction "is")
  case (Cons j js)
  have "filter (\<lambda>a. key a = i) (g j) = (if j = i then g j else [])"
    using assms(2) by (auto simp: filter_id_conv filter_empty_conv)
  with Cons show ?case by auto
qed simp

text \<open>The batched lookup agrees with the single one.\<close>

lemma addrs_of_batch:
  assumes "pg_ListNodeAddressesForNodes ids db = Ok m" "i \<in> set ids"
  shows "pg_ListNodeAddresses i db = Ok (addrs_of m i)"
proof -
  let ?g = "\<lambda>i. sort_key na_FirstSeen (filter (\<lambda>a. na_NodeID a = i) (db_node_addresses db))"
  let ?is = "remdups (map na_NodeID (filter (\<lambda>a. na_NodeID a \<in> set ids) (db_node_addresses db)))"
  have m: "m = foldl (\<lambda>m a. AList.update (na_NodeID a) (coalesce (lookup m (na_NodeID a)) [] @ [a]) m)
      (foldl (\<lambda>m i. AList.update i [] m) [] ids) (concat (map ?g ?is))"
    using assms by (auto simp: pg_ListNodeAddressesForNodes_def Let_def split: if_splits)
  have "addrs_of m i = filter (\<lambda>a. na_NodeID a = i) (concat (map ?g ?is))"
    unfolding addrs_of_def m grouped_rows cleared_rows using assms(2) by simp
  also have "\<dots> = (if i \<in> set ?is then ?g i else [])" by (rule filter_concat_groups) auto
  also have "\<dots> = ?g i"
  proof (cases "i \<in> set ?is")
    case False
    then have "filter (\<lambda>a. na_NodeID a = i) (db_node_addresses db) = []" using assms(2) by (auto simp: filter_empty_conv)
    with False show ?thesis by simp
  qed simp
  finally show ?thesis by (simp add: pg_ListNodeAddresses_def)
qed

lemma batch_total: "\<exists>m. pg_ListNodeAddressesForNodes ids db = Ok m"
  by (simp add: pg_ListNodeAddressesForNodes_def Let_def)

lemma set_sort_by_address [simp]: "set (sort_by_address ns) = set ns"
  by (rule mset_eq_setD) simp

lemma in_take_drop: "x \<in> set (take a (drop b xs)) \<Longrightarrow> x \<in> set xs"
  by (meson in_set_takeD in_set_dropD)

lemma ListNodes_subset:
  assumes "pg_ListNodes f db = Ok ns" "n \<in> set ns"
  shows "n \<in> set (db_nodes db)"
proof -
  have "n \<in> set (sort_by_address (pg_matching f db))"
    using assms by (auto simp: pg_ListNodes_def Let_def split: if_splits dest: in_take_drop in_set_takeD in_set_dropD)
  then show ?thesis by (simp add: pg_matching_def)
qed

lemma ListNodes_total: "\<exists>ns. pg_ListNodes f db = Ok ns"
  by (simp add: pg_ListNodes_def Let_def)

lemma ListNodes_all: "pg_ListNodes emptyFilter db = Ok ns \<Longrightarrow> ns = sort_by_address (pg_matching emptyFilter db)"
  by (simp add: pg_ListNodes_def emptyFilter_def)

section \<open>The map\<close>

text \<open>An address at which the public view of a node already shows the node.\<close>

definition published_ip :: "DB \<Rightarrow> uuid \<Rightarrow> string \<Rightarrow> bool" where
  "published_ip db i ip \<longleftrightarrow> (\<exists>n\<in>set (db_nodes db). \<exists>addrs. n_ID n = i \<and> pg_ListNodeAddresses i db = Ok addrs \<and>
     (\<exists>a\<in>set (pn_Addresses (ScrubNode n addrs)). IPv4Host a = Some ip))"

lemma first_ipv4_Some: "first_ipv4 as = Some ip \<Longrightarrow> \<exists>a\<in>set as. IPv4Host a = Some ip"
  by (induction "as") (auto split: option.splits)

lemma owner_published:
  assumes "consented db" "n \<in> set (db_nodes db)" "HasOwnerTag n" "firstIPv4Address n addrs = Some ip"
    "pg_ListNodeAddresses (n_ID n) db = Ok addrs"
  shows "published_ip db (n_ID n) ip"
proof -
  have "opted_in n" using assms(1-3) by (simp add: consented_def)
  then have "pn_Addresses (ScrubNode n addrs) = addressStrings n addrs" by (simp add: ScrubNode_eq)
  then show ?thesis using first_ipv4_Some [of "addressStrings n addrs" ip] assms(2,4,5)
    unfolding published_ip_def firstIPv4Address_def by metis
qed

lemma located_entry:
  assumes "GetGeoIPCache ips db = Ok cache" "located cache ip = Some entry"
  shows "entry \<in> set (db_geoip_cache db)" "ge_IP entry = ip" "\<not> ge_LookupFailed entry"
  using assms by (auto simp: located_def GetGeoIPCache_def split: option.splits if_splits dest!: map_of_SomeD)

text \<open>A marker of the map: where a node is, and by which entry of the cache.\<close>

definition justified :: "DB \<Rightarrow> MapNode \<Rightarrow> bool" where
  "justified db m \<longleftrightarrow> (\<exists>entry\<in>set (db_geoip_cache db). published_ip db (mn_NodeID m) (ge_IP entry) \<and> \<not> ge_LookupFailed entry \<and>
     mn_Latitude m = ge_Latitude entry \<and> mn_Longitude m = ge_Longitude entry \<and> mn_City m = ge_City entry \<and> mn_Country m = ge_Country entry)"

lemma map_node_justified:
  assumes "consented db" "pg_ListNodes emptyFilter db = Ok nodes" "pg_ListNodeAddressesForNodes (map n_ID nodes) db = Ok addrsByNode"
    "(n, ip) \<in> set (with_ipv4 addrsByNode (filter P nodes))" "HasOwnerTag n"
    "GetGeoIPCache ips db = Ok cache" "located cache ip = Some entry"
  shows "justified db (map_node addrsByNode n entry)"
proof -
  have n: "n \<in> set nodes" "firstIPv4Address n (addrs_of addrsByNode (n_ID n)) = Some ip"
    using assms(4) by (auto simp: with_ipv4_def map_filter_def)
  have "pg_ListNodeAddresses (n_ID n) db = Ok (addrs_of addrsByNode (n_ID n))"
    by (rule addrs_of_batch [OF assms(3)]) (simp add: n)
  from owner_published [OF assms(1) ListNodes_subset [OF assms(2) n(1)] assms(5) n(2) this]
  have "published_ip db (n_ID n) (ge_IP entry)" using located_entry [OF assms(6,7)] by simp
  then show ?thesis using located_entry [OF assms(6,7)] unfolding justified_def map_node_def by auto
qed

lemma map_justified:
  assumes "consented db" "handleNodesMap db = Response st out"
  shows "\<forall>m\<in>set out. justified db m"
proof -
  obtain nodes where l: "pg_ListNodes emptyFilter db = Ok nodes" using ListNodes_total by blast
  obtain am where b: "pg_ListNodeAddressesForNodes (map n_ID nodes) db = Ok am" using batch_total by blast
  let ?cs = "with_ipv4 am (filter (\<lambda>n. isMapEligible n (addrs_of am (n_ID n))) nodes)"
  obtain cache where g: "GetGeoIPCache (remdups (map snd ?cs)) db = Ok cache" by (simp add: GetGeoIPCache_def)
  have out: "out = List.map_filter (\<lambda>(n, ip). map_option (map_node am n) (located cache ip)) ?cs"
    using assms(2) l b g by (simp add: handleNodesMap_def or_500_def)
  show ?thesis
  proof
    fix m assume "m \<in> set out"
    then obtain n ip entry where m: "(n, ip) \<in> set ?cs" "located cache ip = Some entry" "m = map_node am n entry"
      unfolding out by (auto simp: map_filter_def split: prod.splits)
    have "HasOwnerTag n" using m(1) by (auto simp: with_ipv4_def map_filter_def isMapEligible_def)
    from map_node_justified [OF assms(1) l b m(1) this g m(2)] m(3) show "justified db m" by simp
  qed
qed

lemma extended_justified:
  assumes "consented db" "buildExtendedMapResponse db = Ok r"
  shows "\<forall>m\<in>set (em_Attributed r). justified db m"
proof -
  obtain nodes where l: "pg_ListNodes emptyFilter db = Ok nodes" using ListNodes_total by blast
  obtain am where b: "pg_ListNodeAddressesForNodes (map n_ID nodes) db = Ok am" using batch_total by blast
  define P where "P = (\<lambda>n. \<not> IsCollectorRole (n_Tags n) \<and> isMapEligible n (addrs_of am (n_ID n)))"
  let ?cs = "with_ipv4 am (filter P nodes)"
  let ?as = "with_ipv4 am (filter (\<lambda>n. \<not> HasOwnerTag n) (filter (\<lambda>n. \<not> IsCollectorRole (n_Tags n)) nodes))"
  obtain cache where g: "GetGeoIPCache (remdups (map snd ?cs @ map snd ?as)) db = Ok cache" by (simp add: GetGeoIPCache_def)
  have "em_Attributed r = map fst (List.map_filter (\<lambda>(n, ip). map_option (\<lambda>e. (map_node am n e, cityKey e)) (located cache ip)) ?cs)"
    using assms(2) l b g by (auto simp: buildExtendedMapResponse_def P_def Let_def)
  then have out: "set (em_Attributed r) = {m. \<exists>n ip entry. (n, ip) \<in> set ?cs \<and> located cache ip = Some entry \<and> m = map_node am n entry}"
    by (fastforce simp: map_filter_def image_iff split: prod.splits)
  show ?thesis
  proof
    fix m assume "m \<in> set (em_Attributed r)"
    then obtain n ip entry where m: "(n, ip) \<in> set ?cs" "located cache ip = Some entry" "m = map_node am n entry" unfolding out by blast
    have "HasOwnerTag n" using m(1) by (auto simp: with_ipv4_def map_filter_def isMapEligible_def P_def)
    from map_node_justified [OF assms(1) l b m(1) this g m(2)] m(3) show "justified db m" by simp
  qed
qed

lemma directory_justified:
  assumes "consented db" "buildDirectoryResponse owner class limit offset db = Ok r" "d \<in> set (dr_Nodes r)" "dn_GeoPrecise d = Some gp"
  shows "\<exists>entry\<in>set (db_geoip_cache db). published_ip db (dn_NodeID d) (ge_IP entry) \<and>
    gp_Latitude gp = ge_Latitude entry \<and> gp_Longitude gp = ge_Longitude entry"
proof -
  obtain nodes where l: "pg_ListNodes emptyFilter db = Ok nodes" using ListNodes_total by blast
  obtain am where b: "pg_ListNodeAddressesForNodes (map n_ID nodes) db = Ok am" using batch_total by blast
  define cs where "cs = filter (\<lambda>n. (owner = [] \<or> snd (classifyDirectoryNode n) = owner) \<and> (class = [] \<or> fst (classifyDirectoryNode n) = class)) nodes"
  obtain cache where g: "GetGeoIPCache (remdups (List.map_filter (\<lambda>n. firstIPv4Address n (addrs_of am (n_ID n))) cs)) db = Ok cache"
    by (simp add: GetGeoIPCache_def)
  have "dr_Nodes r = map (directory_node am cache) (directory_page limit offset cs)"
    using assms(2) l b g by (auto simp: buildDirectoryResponse_def cs_def Let_def)
  then obtain n where n: "n \<in> set (directory_page limit offset cs)" "d = directory_node am cache n" using assms(3) by auto
  then have ns: "n \<in> set nodes" by (auto simp: directory_page_def Let_def cs_def dest: in_take_drop)
  obtain ip entry where i: "HasOwnerTag n" "firstIPv4Address n (addrs_of am (n_ID n)) = Some ip" "located cache ip = Some entry"
      "gp_Latitude gp = ge_Latitude entry" "gp_Longitude gp = ge_Longitude entry"
    using assms(4) n(2) by (auto simp: directory_node_def classifyDirectoryNode_def Let_def directoryClassAttributed_def
        directoryClassAnonymous_def split: if_splits option.splits)
  have "pg_ListNodeAddresses (n_ID n) db = Ok (addrs_of am (n_ID n))"
    by (rule addrs_of_batch [OF b]) (simp add: ns)
  from owner_published [OF assms(1) ListNodes_subset [OF l ns] i(1,2) this] show ?thesis
    using located_entry [OF g i(3)] i(4,5) n(2) by (auto simp: directory_node_def Let_def split_beta)
qed

text \<open>
  C15: the map shows no more than the node list.  Start from a database in which every node
  with an owner tag is opted in (a new one, for instance) and let requests, goroutines,
  collectors, reports and operators interleave in any way.  Then every marker of the map,
  every attributed marker of the extended map and every precise position in the directory
  is the position of an IPv4 address that the public list of nodes already shows for that
  very node.
\<close>

theorem map_consented:
  assumes "consented (api_db s)" "(pool_step (serves e) background)\<^sup>*\<^sup>* (s, []) (s', ps)"
  shows "(\<forall>st out. handleNodesMap (api_db s') = Response st out \<longrightarrow> (\<forall>m\<in>set out. justified (api_db s') m)) \<and>
    (\<forall>r. buildExtendedMapResponse (api_db s') = Ok r \<longrightarrow> (\<forall>m\<in>set (em_Attributed r). justified (api_db s') m)) \<and>
    (\<forall>owner class limit offset r. buildDirectoryResponse owner class limit offset (api_db s') = Ok r \<longrightarrow>
       (\<forall>d\<in>set (dr_Nodes r). \<forall>gp. dn_GeoPrecise d = Some gp \<longrightarrow>
          (\<exists>entry\<in>set (db_geoip_cache (api_db s')). published_ip (api_db s') (dn_NodeID d) (ge_IP entry) \<and>
             gp_Latitude gp = ge_Latitude entry \<and> gp_Longitude gp = ge_Longitude entry)))"
proof -
  have c: "consented (api_db s')" using consent.interleaved [OF assms(2)] assms(1) by blast
  show ?thesis using map_justified [OF c] extended_justified [OF c] directory_justified [OF c] by blast
qed

end
