(* ===== verification/Public_Views.thy ===== *)
theory Public_Views
  imports Publication
begin

text \<open>
  Properties of the read routes on one database: whose addresses they hand out, that the
  graphs they return are closed and how the topology is cut to size.
\<close>

section \<open>Addresses\<close>

text \<open>Addresses handed out for a node: its own ones, and only if it is opted in.\<close>

definition handed_out :: "DB \<Rightarrow> uuid \<Rightarrow> string list \<Rightarrow> bool" where
  "handed_out db i as \<longleftrightarrow> as = [] \<or> (\<exists>n\<in>set (db_nodes db). n_ID n = i \<and> opted_in n \<and>
     set as \<subseteq> insert (n_Address n) {a. (i, a) \<in> address_keys db})"

lemma own_address: "a \<in> set (db_node_addresses db) \<Longrightarrow> na_NodeID a = i \<Longrightarrow> (i, na_Address a) \<in> address_keys db"
  by (auto simp: address_keys_def intro: rev_image_eqI)

lemma scrub_handed_out:
  assumes "n \<in> set (db_nodes db)" "pg_ListNodeAddresses (n_ID n) db = Ok addrs"
  shows "handed_out db (pn_ID (ScrubNode n addrs)) (pn_Addresses (ScrubNode n addrs))"
proof (cases "opted_in n")
  case True
  have "set (addressStrings n addrs) \<subseteq> insert (n_Address n) {a. (n_ID n, a) \<in> address_keys db}"
    using assms(2) by (auto simp: addressStrings_def pg_ListNodeAddresses_def intro: own_address)
  then show ?thesis using assms(1) True unfolding handed_out_def ScrubNode_eq by auto
qed (simp add: handed_out_def ScrubNode_eq)

lemma scrub_batch_handed_out:
  assumes "n \<in> set ns" "set ns \<subseteq> set (db_nodes db)" "pg_ListNodeAddressesForNodes (map n_ID ns) db = Ok am"
  shows "handed_out db (pn_ID (ScrubNode n (addrs_of am (n_ID n)))) (pn_Addresses (ScrubNode n (addrs_of am (n_ID n))))"
  using assms by (intro scrub_handed_out addrs_of_batch [OF assms(3)]) auto

lemma GetNode_Ok: "pg_GetNode i db = Ok n \<Longrightarrow> n \<in> set (db_nodes db) \<and> n_ID n = i"
  by (auto simp: pg_GetNode_def getNodeByID_def split: option.splits dest!: find_Some_set)

lemma neighbours_handed_out:
  assumes "pg_ListNodeAddressesForNodes ids db = Ok am"
  shows "set nids \<subseteq> set ids \<Longrightarrow> confirmed_neighbours am db nids = Ok (cs, ns) \<Longrightarrow> \<forall>pn\<in>set ns. handed_out db (pn_ID pn) (pn_Addresses pn)"
proof (induction nids arbitrary: cs ns)
  case (Cons nid nids)
  show ?case
  proof (cases "pg_GetNode nid db")
    case (Inl err)
    then show ?thesis using Cons by (auto split: if_splits)
  next
    case (Inr n)
    note n = GetNode_Ok [OF Inr]
    have "handed_out db (pn_ID (ScrubNode n (addrs_of am nid))) (pn_Addresses (ScrubNode n (addrs_of am nid)))"
      using scrub_handed_out [of n db "addrs_of am nid"] addrs_of_batch [OF assms, of nid] n Cons.prems(1) by simp
    then show ?thesis using Cons Inr by (auto split: if_splits sum.splits prod.splits)
  qed
qed simp

lemma degrees_handed_out: "scrub_degrees db ds = Ok pds \<Longrightarrow> \<forall>pd\<in>set pds. handed_out db (pd_NodeID pd) (pd_Addresses pd)"
proof (induction ds arbitrary: pds)
  case (Cons d ds)
  have "handed_out db (pd_NodeID pd) (pd_Addresses pd)" if pd: "ScrubNodeDegree pg_Store db d = Ok pd" for pd
  proof -
    obtain n addrs where n: "pg_GetNode (nd_NodeID d) db = Ok n" "pg_ListNodeAddresses (nd_NodeID d) db = Ok addrs"
        "pd_Addresses pd = (if opted_in n then addressStrings n addrs else [])" "pd_NodeID pd = nd_NodeID d"
      using ScrubNodeDegree_gate [OF pd] by (auto simp: pg_Store_def)
    then show ?thesis using scrub_handed_out [of n db addrs] GetNode_Ok [OF n(1)] by (simp add: ScrubNode_eq)
  qed
  then show ?case using Cons by (auto split: if_splits sum.splits)
qed simp

lemma topology_nodes: "ListTopology f db = Ok (ns, es) \<Longrightarrow> set ns \<subseteq> set (db_nodes db)"
  by (auto simp: ListTopology_def Let_def split: if_splits)

text \<open>The answer of the topology route, in terms of the query of the store.\<close>

lemma topology_response:
  assumes "handleTopology q db = Response st r"
  obtains mn me ns es am where "ListTopology \<lparr>tf_MaxNodes = mn, tf_MaxEdges = me\<rparr> db = Ok (ns, es)"
    "pg_ListNodeAddressesForNodes (map n_ID (filterOutCollectorNodes ns)) db = Ok am"
    "tr_Nodes r = map (\<lambda>n. ScrubNode n (addrs_of am (n_ID n))) (filterOutCollectorNodes ns)"
    "tr_Edges r = filter (\<lambda>e. pe_FromNodeID e \<in> n_ID ` set (filterOutCollectorNodes ns) \<and> pe_ToNodeID e \<in> n_ID ` set (filterOutCollectorNodes ns)) es"
    "positive_param q ''limit'' (if ParseBool (q ''all'') = Some True then 0 else 300) = Some mn"
    "positive_param q ''max_edges'' (if ParseBool (q ''all'') = Some True then 0 else 2500) = Some me"
proof -
  have e: "ParseBool [] = None" by (simp add: ParseBool_def)
  define mx where "mx = (\<lambda>d :: int. if ParseBool (q ''all'') = Some True then 0 else d)"
  have "\<exists>all. (if q ''all'' \<noteq> [] then ParseBool (q ''all'') else Some False) = Some all \<and> mx = (\<lambda>d. if all then 0 else d)"
  proof (cases "q ''all'' = []")
    case False
    then have "ParseBool (q ''all'') \<noteq> None" using assms by (cases "ParseBool (q ''all'')") (simp_all add: handleTopology_def bad_def)
    then obtain all where "ParseBool (q ''all'') = Some all" by blast
    with False show ?thesis by (intro exI [of _ all]) (simp add: mx_def)
  next
    case True
    then show ?thesis by (intro exI [of _ False]) (simp add: mx_def e)
  qed
  then obtain all where al: "(if q ''all'' \<noteq> [] then ParseBool (q ''all'') else Some False) = Some all" and mxa: "mx = (\<lambda>d. if all then 0 else d)"
    by blast
  have h: "handleTopology q db = (case positive_param q ''limit'' (mx 300) of None \<Rightarrow> bad ''invalid limit''
      | Some maxNodes \<Rightarrow> (case positive_param q ''max_edges'' (mx 2500) of None \<Rightarrow> bad ''invalid max_edges''
      | Some maxEdges \<Rightarrow> or_500 (ListTopology \<lparr>tf_MaxNodes = maxNodes, tf_MaxEdges = maxEdges\<rparr> db) (\<lambda>(nodes, edges).
          or_500 (pg_ListNodeAddressesForNodes (map n_ID (filterOutCollectorNodes nodes)) db) (\<lambda>addrsByNode.
          Response StatusOK \<lparr>tr_Nodes = map (\<lambda>n. ScrubNode n (addrs_of addrsByNode (n_ID n))) (filterOutCollectorNodes nodes),
            tr_Edges = filter (\<lambda>e. pe_FromNodeID e \<in> n_ID ` set (filterOutCollectorNodes nodes) \<and>
              pe_ToNodeID e \<in> n_ID ` set (filterOutCollectorNodes nodes)) edges\<rparr>))))"
    unfolding mxa handleTopology_def al by (simp only: option.case Let_def set_map defaultTopologyMaxNodes_def defaultTopologyMaxEdges_def)
  obtain mn me where m: "positive_param q ''limit'' (mx 300) = Some mn" "positive_param q ''max_edges'' (mx 2500) = Some me"
    using assms h by (auto simp: bad_def split: option.splits)
  obtain ns es where t: "ListTopology \<lparr>tf_MaxNodes = mn, tf_MaxEdges = me\<rparr> db = Ok (ns, es)"
    using assms h m by (auto simp: or_500_def split: sum.splits)
  obtain am where "pg_ListNodeAddressesForNodes (map n_ID (filterOutCollectorNodes ns)) db = Ok am" using batch_total by blast
  with assms h m t show thesis by (intro that [of mn me ns es am]) (auto simp: or_500_def mx_def)
qed

lemma seeds_handed_out:
  assumes "ListSeedCandidates now since db = Ok cs" "c \<in> set cs"
  shows "handed_out db (sc_NodeID c) (sc_Addresses c)"
proof -
  obtain n where n: "n \<in> set (db_nodes db)" "opted_in n" "sc_NodeID c = n_ID n"
      "sc_Addresses c = map na_Address (sort_key na_FirstSeen (filter (\<lambda>a. na_NodeID a = n_ID n) (db_node_addresses db)))"
    using assms by (auto simp: ListSeedCandidates_def Let_def opted_in_def)
  have "set (sc_Addresses c) \<subseteq> insert (n_Address n) {a. (n_ID n, a) \<in> address_keys db}" by (auto simp: n(4) intro: own_address)
  then show ?thesis using n(1-3) unfolding handed_out_def by metis
qed


section \<open>Topology\<close>

text \<open>The number of distinct peers of a node, in either direction.\<close>

definition degree_of :: "DB \<Rightarrow> uuid \<Rightarrow> nat" where
  "degree_of db i = count_peers (\<lambda>_. True) (undirected (db_peer_edges db)) i"

lemma take_sorted_split:
  assumes "sorted (map k xs)" "x \<in> set (take m xs)" "y \<in> set xs" "y \<notin> set (take m xs)"
  shows "k x \<le> k y"
proof -
  have "xs = take m xs @ drop m xs" by simp
  then have "y \<in> set (drop m xs)" using assms(3,4) by (metis UnE set_append)
  moreover have "sorted (map k (take m xs) @ map k (drop m xs))" using assms(1) by (simp add: map_append [symmetric])
  ultimately show ?thesis using assms(2) by (auto simp: sorted_append)
qed

lemma top_ids:
  assumes "schema_ok db" "n \<in> set (db_nodes db)" "m \<in> set (db_nodes db)"
    "n_ID n \<in> set (topNodeIDsByDegree k db)" "n_ID m \<notin> set (topNodeIDsByDegree k db)"
  shows "degree_of db (n_ID m) \<le> degree_of db (n_ID n)"
proof -
  let ?d = "\<lambda>n. - int (degree_of db (n_ID n))"
  let ?xs = "sort_key ?d (sort_by_address (db_nodes db))"
  have t: "topNodeIDsByDegree k db = map n_ID (take k ?xs)" by (simp add: topNodeIDsByDegree_def degree_of_def take_map)
  obtain n' where n': "n' \<in> set (take k ?xs)" "n_ID n' = n_ID n" using assms(4) t by auto
  have "n' = n"
    using distinct_key_unique [of n_ID "db_nodes db" n' n] schema_facts(1) [OF assms(1)] n' assms(2) in_set_takeD [OF n'(1)]
    by (simp add: node_ids_def)
  moreover have "m \<notin> set (take k ?xs)" using assms(5) t by auto
  ultimately have "?d n \<le> ?d m" using n'(1) assms(3) by (intro take_sorted_split [of ?d ?xs]) simp_all
  then show ?thesis by simp
qed

lemma topology_capped:
  assumes "schema_ok db" "ListTopology \<lparr>tf_MaxNodes = mn, tf_MaxEdges = me\<rparr> db = Ok (ns, es)" "0 < mn"
  shows "length ns \<le> nat mn" "0 < me \<Longrightarrow> length es \<le> nat me"
    "\<And>n m. n \<in> set ns \<Longrightarrow> m \<in> set (db_nodes db) \<Longrightarrow> m \<notin> set ns \<Longrightarrow> degree_of db (n_ID m) \<le> degree_of db (n_ID n)"
proof -
  let ?ids = "topNodeIDsByDegree (nat mn) db"
  have ns: "mset ns = mset (filter (\<lambda>n. n_ID n \<in> set ?ids) (db_nodes db))"
    using assms(2,3) by (auto simp: ListTopology_def Let_def split: if_splits)
  have "distinct (map n_ID (filter (\<lambda>n. n_ID n \<in> set ?ids) (db_nodes db)))"
    using schema_facts(1) [OF assms(1)] by (simp add: node_ids_def distinct_map_filter_imp)
  then have "length (filter (\<lambda>n. n_ID n \<in> set ?ids) (db_nodes db)) = card (set (map n_ID (filter (\<lambda>n. n_ID n \<in> set ?ids) (db_nodes db))))"
    using distinct_card [of "map n_ID (filter (\<lambda>n. n_ID n \<in> set ?ids) (db_nodes db))"] by (simp only: length_map)
  also have "\<dots> \<le> card (set ?ids)" by (rule card_mono) auto
  also have "\<dots> \<le> nat mn" using card_length [of ?ids] by (simp add: topNodeIDsByDegree_def)
  finally show "length ns \<le> nat mn" using mset_eq_length [OF ns] by simp
  show "length es \<le> nat me" if "0 < me" using assms(2,3) that by (auto simp: ListTopology_def Let_def split: if_splits)
  show "degree_of db (n_ID m) \<le> degree_of db (n_ID n)" if "n \<in> set ns" "m \<in> set (db_nodes db)" "m \<notin> set ns" for n m
    using that mset_eq_setD [OF ns] top_ids [OF assms(1), of n m "nat mn"] by auto
qed

lemma peer_edges_observed: "e \<in> set (peer_edges db) \<Longrightarrow> (pe_FromNodeID e, pe_ToNodeID e) \<in> pair_of ` set (db_peer_edges db)"
  by (auto simp: peer_edges_def Let_def)

lemma topology_edges: "ListTopology f db = Ok (ns, es) \<Longrightarrow> set es \<subseteq> set (peer_edges db)"
  by (auto simp: ListTopology_def Let_def split: if_splits dest: in_set_takeD)


end
