(* ===== verification/Public_Geo.thy ===== *)
theory Public_Geo
  imports Public_Views
begin

text \<open>
  The extended map and the directory against a specification that looks every node up by
  itself; and the caches: an answer served from a cache is the answer to that very request
  at a moment that is not too long ago.
\<close>

section \<open>Where a node is\<close>

definition node_entry :: "DB \<Rightarrow> Node \<Rightarrow> GeoIPEntry option" where
  "node_entry db n =
     (case pg_ListNodeAddresses (n_ID n) db of
        Inl _ \<Rightarrow> None
      | Inr addrs \<Rightarrow> Option.bind (firstIPv4Address n addrs) (located (map (\<lambda>e. (ge_IP e, e)) (db_geoip_cache db))))"

lemma located_restrict:
  assumes "GetGeoIPCache ips db = Ok cache" "ip \<in> set ips"
  shows "located cache ip = located (map (\<lambda>e. (ge_IP e, e)) (db_geoip_cache db)) ip"
proof -
  have "map_of (map (\<lambda>e. (ge_IP e, e)) (filter (\<lambda>e. ge_IP e \<in> set ips) es)) ip = map_of (map (\<lambda>e. (ge_IP e, e)) es) ip" for es
    using assms(2) by (induction es) auto
  from this [of "db_geoip_cache db"] show ?thesis using assms(1) by (auto simp: located_def GetGeoIPCache_def)
qed

text \<open>The two passes of the handlers, over candidates with an address, amount to \<open>node_entry\<close>.\<close>

lemma two_passes:
  assumes "pg_ListNodeAddressesForNodes (map n_ID nodes) db = Ok am" "set ns \<subseteq> set nodes"
    "GetGeoIPCache ips db = Ok cache" "snd ` set (with_ipv4 am ns) \<subseteq> set ips"
  shows "List.map_filter (\<lambda>(n, ip). map_option (f n) (located cache ip)) (with_ipv4 am ns) =
    List.map_filter (\<lambda>n. map_option (f n) (node_entry db n)) ns"
  using assms(2,4)
proof (induction ns)
  case (Cons n ns)
  have a: "pg_ListNodeAddresses (n_ID n) db = Ok (addrs_of am (n_ID n))"
    by (rule addrs_of_batch [OF assms(1)]) (use Cons.prems(1) in simp)
  have IH: "List.map_filter (\<lambda>(n, ip). map_option (f n) (located cache ip)) (with_ipv4 am ns) =
      List.map_filter (\<lambda>n. map_option (f n) (node_entry db n)) ns"
    using Cons by (auto simp: with_ipv4_def map_filter_simps split: option.splits)
  show ?case
  proof (cases "firstIPv4Address n (addrs_of am (n_ID n))")
    case None
    then have "node_entry db n = None" using a by (simp add: node_entry_def)
    with None IH show ?thesis by (simp add: with_ipv4_def map_filter_simps)
  next
    case (Some ip)
    then have "ip \<in> set ips" using Cons.prems(2) by (simp add: with_ipv4_def map_filter_simps)
    from located_restrict [OF assms(3) this] have "node_entry db n = located cache ip" using a Some by (simp add: node_entry_def)
    with Some IH show ?thesis by (simp add: with_ipv4_def map_filter_simps split: option.splits)
  qed
qed (simp add: with_ipv4_def map_filter_simps)

lemma eligible_with_ipv4:
  "with_ipv4 am (filter (\<lambda>n. isMapEligible n (addrs_of am (n_ID n))) ns) = with_ipv4 am (filter HasOwnerTag ns)"
  by (induction ns) (auto simp: with_ipv4_def map_filter_simps isMapEligible_def split: option.splits)

lemma with_ipv4_append: "with_ipv4 am (xs @ ys) = with_ipv4 am xs @ with_ipv4 am ys"
  by (simp add: with_ipv4_def map_filter_def)

lemma list_all_nodes: "pg_ListNodes emptyFilter db = Ok (sort_by_address (db_nodes db))"
proof -
  have "selected db emptyFilter n" for n by (simp add: selected_def nodeFilterClauses_def emptyFilter_def)
  then have "pg_matching emptyFilter db = db_nodes db" by (simp add: pg_matching_def)
  then show ?thesis by (simp add: pg_ListNodes_def emptyFilter_def)
qed

section \<open>Clusters\<close>

lemma insert_cluster_mset: "mset (insert_cluster c cs) = add_mset c (mset cs)"
  by (induction cs) auto

lemma sort_clusters_mset: "mset (foldr insert_cluster cs []) = mset cs"
  by (induction cs) (simp_all add: insert_cluster_mset)

text \<open>The nodes the anonymous half counts, with their cities.\<close>

definition anonymous_in :: "DB \<Rightarrow> string \<times> string \<Rightarrow> Node list" where
  "anonymous_in db k = filter (\<lambda>n. \<not> IsCollectorRole (n_Tags n) \<and> \<not> HasOwnerTag n \<and> map_option cityKey (node_entry db n) = Some k) (db_nodes db)"

lemma extended_response:
  assumes "buildExtendedMapResponse db = Ok r"
  defines "nodes \<equiv> filter (\<lambda>n. \<not> IsCollectorRole (n_Tags n)) (sort_by_address (db_nodes db))"
  defines "members \<equiv> List.map_filter (\<lambda>n. map_option (Pair n) (node_entry db n)) (filter (\<lambda>n. \<not> HasOwnerTag n) nodes)"
  shows "\<exists>am. em_Attributed r = List.map_filter (\<lambda>n. map_option (map_node am n) (node_entry db n)) (filter HasOwnerTag nodes) \<and>
    em_Anonymous r = foldr insert_cluster (map (\<lambda>k. cluster k (filter (\<lambda>(_, e). cityKey e = k) members))
      (filter (\<lambda>k. k \<notin> (\<lambda>m. (mn_City m, mn_Country m)) ` set (em_Attributed r)) (remdups (map (\<lambda>(_, e). cityKey e) members)))) []"
proof -
  let ?all = "sort_by_address (db_nodes db)"
  obtain am where b: "pg_ListNodeAddressesForNodes (map n_ID ?all) db = Ok am" using batch_total by blast
  let ?at = "with_ipv4 am (filter HasOwnerTag nodes)" and ?an = "with_ipv4 am (filter (\<lambda>n. \<not> HasOwnerTag n) nodes)"
  let ?ips = "remdups (map snd ?at @ map snd ?an)"
  obtain cache where g: "GetGeoIPCache ?ips db = Ok cache" by (simp add: GetGeoIPCache_def)
  define at where "at = List.map_filter (\<lambda>n. map_option (\<lambda>e. (map_node am n e, cityKey e)) (node_entry db n)) (filter HasOwnerTag nodes)"
  have sub: "set (filter P nodes) \<subseteq> set ?all" for P by (auto simp: nodes_def)
  have at: "List.map_filter (\<lambda>(n, ip). map_option (\<lambda>e. (map_node am n e, cityKey e)) (located cache ip)) ?at = at"
    unfolding at_def by (rule two_passes [OF b sub g]) auto
  have an: "List.map_filter (\<lambda>(n, ip). map_option (Pair n) (located cache ip)) ?an = members"
    unfolding members_def by (rule two_passes [OF b sub g]) auto
  have r: "r = \<lparr>em_Attributed = map fst at, em_Anonymous = foldr insert_cluster (map (\<lambda>k. cluster k (filter (\<lambda>(_, e). cityKey e = k) members))
      (filter (\<lambda>k. k \<notin> set (map snd at)) (remdups (map (\<lambda>(_, e). cityKey e) members)))) []\<rparr>"
    using assms(1) unfolding buildExtendedMapResponse_def list_all_nodes sum.case b Let_def nodes_def [symmetric] eligible_with_ipv4 g at an
    by simp
  have fst_at: "map fst at = List.map_filter (\<lambda>n. map_option (map_node am n) (node_entry db n)) (filter HasOwnerTag nodes)"
    unfolding at_def by (simp add: map_filter_def) (simp add: option.map_sel cong: map_cong)
  moreover have "set (map snd at) = (\<lambda>m. (mn_City m, mn_Country m)) ` set (map fst at)"
  proof -
    have "\<forall>x\<in>set at. snd x = (mn_City (fst x), mn_Country (fst x))" by (auto simp: at_def map_filter_def map_node_def cityKey_def)
    then show ?thesis by force
  qed
  ultimately show ?thesis using r by (intro exI [of _ am]) simp
qed

text \<open>The members of one city are the anonymous nodes located there, in some order.\<close>

lemma members_of_city:
  assumes "ms = filter (\<lambda>(_, e). cityKey e = k) (List.map_filter (\<lambda>n. map_option (Pair n) (node_entry db n))
      (filter (\<lambda>n. \<not> HasOwnerTag n) (filter (\<lambda>n. \<not> IsCollectorRole (n_Tags n)) (sort_by_address (db_nodes db)))))"
  shows "length ms = length (anonymous_in db k)" "fst ` set ms = set (anonymous_in db k)" "\<forall>(n, e)\<in>set ms. node_entry db n = Some e"
proof -
  let ?P = "\<lambda>n. \<not> IsCollectorRole (n_Tags n) \<and> \<not> HasOwnerTag n \<and> map_option cityKey (node_entry db n) = Some k"
  have "map fst (filter (\<lambda>(_, e). cityKey e = k) (List.map_filter (\<lambda>n. map_option (Pair n) (node_entry db n))
      (filter (\<lambda>n. \<not> HasOwnerTag n) (filter (\<lambda>n. \<not> IsCollectorRole (n_Tags n)) ns)))) = filter ?P ns" for ns
    by (induction ns) (auto simp: map_filter_simps split: option.splits)
  then have f: "map fst ms = filter ?P (sort_by_address (db_nodes db))" by (simp add: assms)
  have "mset (filter ?P (sort_by_address (db_nodes db))) = mset (filter ?P (db_nodes db))" by simp
  then have "length (filter ?P (sort_by_address (db_nodes db))) = length (filter ?P (db_nodes db))" by (rule mset_eq_length)
  moreover have "length ms = length (map fst ms)" by simp
  ultimately show "length ms = length (anonymous_in db k)" unfolding f anonymous_in_def by (simp only:)
  have "set (map fst ms) = set (filter ?P (sort_by_address (db_nodes db)))" by (simp only: f)
  then show "fst ` set ms = set (anonymous_in db k)" by (simp add: anonymous_in_def)
  show "\<forall>(n, e)\<in>set ms. node_entry db n = Some e" by (auto simp: assms map_filter_def)
qed

lemma foldl_latest:
  fixes t :: time
  shows "foldl (\<lambda>t (n, _). if n_LastSeen n > t then n_LastSeen n else t) t ms = Max (insert t ((\<lambda>x. n_LastSeen (fst x)) ` set ms))"
proof (induction ms arbitrary: t)
  case (Cons x ms)
  have "Max (insert (max t (n_LastSeen (fst x))) ((\<lambda>x. n_LastSeen (fst x)) ` set ms)) =
      Max (insert t ((\<lambda>x. n_LastSeen (fst x)) ` set (x # ms)))"
    by (cases "set ms = {}") (simp_all add: Max_insert max.assoc max.left_commute)
  then show ?case using Cons [of "max t (n_LastSeen (fst x))"] by (cases x) (auto simp: max_def split: if_splits)
qed simp

lemma cluster_facts:
  assumes "ms \<noteq> []"
  shows "ac_City (cluster k ms) = fst k" "ac_Country (cluster k ms) = snd k" "ac_ApproxNodeCount (cluster k ms) = length ms"
    "ac_LastObservedAt (cluster k ms) = Max ((\<lambda>x. n_LastSeen (fst x)) ` set ms)"
    "\<exists>x\<in>set ms. ac_Latitude (cluster k ms) = ge_Latitude (snd x) \<and> ac_Longitude (cluster k ms) = ge_Longitude (snd x)"
proof -
  let ?s = "sort_key (\<lambda>(n, _). n_ID n) ms"
  have ne: "?s \<noteq> []" using assms by (metis set_empty set_sort)
  then obtain x xs where s: "?s = x # xs" by (cases ?s) auto
  then have "set (x # xs) = set ms" by (metis set_sort)
  then have st: "insert (n_LastSeen (fst x)) ((\<lambda>x. n_LastSeen (fst x)) ` set xs) = (\<lambda>x. n_LastSeen (fst x)) ` set ms" and xin: "x \<in> set ms" by auto
  have "length (x # xs) = length ms" using s by (metis length_sort)
  then show "ac_City (cluster k ms) = fst k" "ac_Country (cluster k ms) = snd k" "ac_ApproxNodeCount (cluster k ms) = length ms"
    "\<exists>x\<in>set ms. ac_Latitude (cluster k ms) = ge_Latitude (snd x) \<and> ac_Longitude (cluster k ms) = ge_Longitude (snd x)"
    using xin unfolding cluster_def s Let_def by auto
  show "ac_LastObservedAt (cluster k ms) = Max ((\<lambda>x. n_LastSeen (fst x)) ` set ms)"
    unfolding cluster_def s Let_def by (simp add: foldl_latest st)
qed

lemma city_cluster:
  assumes "ms \<noteq> []" "length ms = length (anonymous_in db k)" "fst ` set ms = set (anonymous_in db k)"
    "\<forall>(n, e)\<in>set ms. node_entry db n = Some e"
  shows "ac_ApproxNodeCount (cluster k ms) = length (anonymous_in db k) \<and> anonymous_in db k \<noteq> [] \<and>
    ac_LastObservedAt (cluster k ms) = Max (n_LastSeen ` set (anonymous_in db k)) \<and>
    (\<exists>n\<in>set (anonymous_in db k). \<exists>e. node_entry db n = Some e \<and> ac_Latitude (cluster k ms) = ge_Latitude e \<and>
       ac_Longitude (cluster k ms) = ge_Longitude e)"
proof -
  have "(\<lambda>x. n_LastSeen (fst x)) ` set ms = n_LastSeen ` fst ` set ms" by (simp only: image_image)
  moreover obtain x where x: "x \<in> set ms" "ac_Latitude (cluster k ms) = ge_Latitude (snd x)" "ac_Longitude (cluster k ms) = ge_Longitude (snd x)"
    using cluster_facts(5) [OF assms(1), of k] by blast
  have "fst x \<in> set (anonymous_in db k)" "node_entry db (fst x) = Some (snd x)"
    using x(1) assms(3,4) by (force, force)
  ultimately show ?thesis using cluster_facts(3,4) [OF assms(1), of k] assms(1-3) x(2,3) by auto
qed

text \<open>
  C18: the anonymous half of the extended map.  There is one cluster per city, and none in a
  city that has an attributed marker; its count is the number of located nodes of that city
  that carry neither an owner tag nor the collector role, its time the latest they were
  seen, its coordinates those of one of them.  Every such node is counted: its city has a
  cluster or an attributed marker.
\<close>

theorem clusters_correct:
  assumes "buildExtendedMapResponse db = Ok r"
  shows "distinct (map (\<lambda>c. (ac_City c, ac_Country c)) (em_Anonymous r)) \<and>
    (\<forall>c\<in>set (em_Anonymous r). \<exists>k. k = (ac_City c, ac_Country c) \<and> k \<notin> (\<lambda>m. (mn_City m, mn_Country m)) ` set (em_Attributed r) \<and>
       ac_ApproxNodeCount c = length (anonymous_in db k) \<and> anonymous_in db k \<noteq> [] \<and>
       ac_LastObservedAt c = Max (n_LastSeen ` set (anonymous_in db k)) \<and>
       (\<exists>n\<in>set (anonymous_in db k). \<exists>e. node_entry db n = Some e \<and> ac_Latitude c = ge_Latitude e \<and> ac_Longitude c = ge_Longitude e)) \<and>
    (\<forall>k. anonymous_in db k \<noteq> [] \<longrightarrow> k \<in> (\<lambda>m. (mn_City m, mn_Country m)) ` set (em_Attributed r) \<union>
       (\<lambda>c. (ac_City c, ac_Country c)) ` set (em_Anonymous r))"
proof -
  define members where "members = List.map_filter (\<lambda>n. map_option (Pair n) (node_entry db n))
    (filter (\<lambda>n. \<not> HasOwnerTag n) (filter (\<lambda>n. \<not> IsCollectorRole (n_Tags n)) (sort_by_address (db_nodes db))))"
  let ?ms = "\<lambda>k. filter (\<lambda>(_, e). cityKey e = k) members"
  let ?A = "(\<lambda>m. (mn_City m, mn_Country m)) ` set (em_Attributed r)"
  define keys where "keys = filter (\<lambda>k. k \<notin> ?A) (remdups (map (\<lambda>(_, e). cityKey e) members))"
  have an: "mset (em_Anonymous r) = mset (map (\<lambda>k. cluster k (?ms k)) keys)"
  proof -
    from extended_response [OF assms, folded members_def keys_def]
    have "em_Anonymous r = foldr insert_cluster (map (\<lambda>k. cluster k (?ms k)) keys) []"
      unfolding keys_def by (elim exE conjE)
    then show ?thesis by (simp only: sort_clusters_mset)
  qed
  note mc = members_of_city [OF refl, of k db for k, folded members_def]
  have ne: "?ms k \<noteq> [] \<longleftrightarrow> k \<in> (\<lambda>(_, e). cityKey e) ` set members" for k by (force simp: filter_empty_conv)
  have kd: "distinct keys" "set keys = {k. ?ms k \<noteq> []} - ?A" unfolding keys_def ne by auto
  have ck: "(ac_City (cluster k (?ms k)), ac_Country (cluster k (?ms k))) = k" if "k \<in> set keys" for k
    using cluster_facts(1,2) [of "?ms k" k] that kd(2) by auto
  have sa: "set (em_Anonymous r) = (\<lambda>k. cluster k (?ms k)) ` set keys" using mset_eq_setD [OF an] by simp
  have keq: "map (\<lambda>c. (ac_City c, ac_Country c)) (map (\<lambda>k. cluster k (?ms k)) keys) = keys"
    unfolding map_map comp_def by (rule map_idI) (rule ck)
  have "mset (map (\<lambda>c. (ac_City c, ac_Country c)) (em_Anonymous r)) =
      mset (map (\<lambda>c. (ac_City c, ac_Country c)) (map (\<lambda>k. cluster k (?ms k)) keys))"
    using arg_cong [OF an, of "image_mset (\<lambda>c. (ac_City c, ac_Country c))"] by (simp only: mset_map)
  then have "mset (map (\<lambda>c. (ac_City c, ac_Country c)) (em_Anonymous r)) = mset keys" unfolding keq .
  then have "distinct (map (\<lambda>c. (ac_City c, ac_Country c)) (em_Anonymous r))" using kd(1) mset_eq_imp_distinct_iff by blast
  moreover have "\<exists>k'. k' = (ac_City c, ac_Country c) \<and> k' \<notin> ?A \<and>
       ac_ApproxNodeCount c = length (anonymous_in db k') \<and> anonymous_in db k' \<noteq> [] \<and>
       ac_LastObservedAt c = Max (n_LastSeen ` set (anonymous_in db k')) \<and>
       (\<exists>n\<in>set (anonymous_in db k'). \<exists>e. node_entry db n = Some e \<and> ac_Latitude c = ge_Latitude e \<and> ac_Longitude c = ge_Longitude e)"
    if "c \<in> set (em_Anonymous r)" for c
  proof -
    obtain k where k: "k \<in> set keys" "c = cluster k (?ms k)" using \<open>c \<in> set (em_Anonymous r)\<close> sa by auto
    have n: "?ms k \<noteq> []" "k \<notin> ?A" using k(1) kd(2) by auto
    from city_cluster [OF n(1) mc] k(2) ck [OF k(1)] n(2) show ?thesis by (intro exI [of _ k]) simp
  qed
  moreover have "k \<in> ?A \<union> (\<lambda>c. (ac_City c, ac_Country c)) ` set (em_Anonymous r)" if "anonymous_in db k \<noteq> []" for k
  proof (cases "k \<in> ?A")
    case False
    have "?ms k \<noteq> []" using mc(1) [of k] \<open>anonymous_in db k \<noteq> []\<close> by auto
    then have "k \<in> set keys" using False kd(2) by blast
    then have "(ac_City (cluster k (?ms k)), ac_Country (cluster k (?ms k))) \<in> (\<lambda>c. (ac_City c, ac_Country c)) ` set (em_Anonymous r)"
      unfolding sa by blast
    then show ?thesis using ck [OF \<open>k \<in> set keys\<close>] by simp
  qed blast
  ultimately show ?thesis by blast
qed

section \<open>The directory's cache\<close>

lemma split_last:
  fixes c :: char
  assumes "xs @ c # ys = xs' @ c # ys'" "c \<notin> set ys" "c \<notin> set ys'"
  shows "xs = xs'" "ys = ys'"
proof -
  have "last_index_byte (xs @ c # ys) c = Some (length xs)" "last_index_byte (xs' @ c # ys') c = Some (length xs')"
    using assms(2,3) by (simp_all add: last_index_byte_append)
  then have "length xs = length xs'" using assms(1) by simp
  with assms(1) show "xs = xs'" "ys = ys'" by simp_all
qed

lemma Itoa_nonneg_inj: "0 \<le> i \<Longrightarrow> 0 \<le> j \<Longrightarrow> Itoa i = Itoa j \<Longrightarrow> i = j"
  by (simp add: Itoa_def) (metis nat_0_le option.inject parse_digits_Itoa)

lemma Itoa_no_amp: "0 \<le> i \<Longrightarrow> CHR ''&'' \<notin> set (Itoa i)"
  using Itoa_nat_digits [of "nat i"] by (auto simp: Itoa_def list_all_iff is_digit_def)

definition valid_class :: "string \<Rightarrow> bool" where
  "valid_class c \<longleftrightarrow> c = [] \<or> c = directoryClassAttributed \<or> c = directoryClassAnonymous"

text \<open>Whatever the owner contains, the key determines the request.\<close>

lemma directoryCacheKey_inj:
  assumes "directoryCacheKey o1 c1 l1 f1 = directoryCacheKey o2 c2 l2 f2" "valid_class c1" "valid_class c2"
    "0 \<le> l1" "0 \<le> f1" "0 \<le> l2" "0 \<le> f2"
  shows "o1 = o2 \<and> c1 = c2 \<and> l1 = l2 \<and> f1 = f2"
proof -
  have k: "directoryCacheKey x c l f = (((''owner='' @ x) @ CHR ''&'' # (''class='' @ c)) @ CHR ''&'' # (''limit='' @ Itoa l)) @ CHR ''&'' # (''offset='' @ Itoa f)"
    for x c l f by (simp add: directoryCacheKey_def)
  have c: "CHR ''&'' \<notin> set c" if "valid_class c" for c
    using that by (auto simp: valid_class_def directoryClassAttributed_def directoryClassAnonymous_def)
  note e1 = split_last [OF assms(1) [unfolded k]]
  have o: "''offset='' @ Itoa f1 = ''offset='' @ Itoa f2"
    "((''owner='' @ o1) @ CHR ''&'' # (''class='' @ c1)) @ CHR ''&'' # (''limit='' @ Itoa l1) =
     ((''owner='' @ o2) @ CHR ''&'' # (''class='' @ c2)) @ CHR ''&'' # (''limit='' @ Itoa l2)"
    using e1 Itoa_no_amp [OF assms(5)] Itoa_no_amp [OF assms(7)] by simp_all
  have l: "''limit='' @ Itoa l1 = ''limit='' @ Itoa l2" "(''owner='' @ o1) @ CHR ''&'' # (''class='' @ c1) = (''owner='' @ o2) @ CHR ''&'' # (''class='' @ c2)"
    using split_last [OF o(2)] Itoa_no_amp [OF assms(4)] Itoa_no_amp [OF assms(6)] by simp_all
  have "''class='' @ c1 = ''class='' @ c2" "''owner='' @ o1 = ''owner='' @ o2"
    using split_last [OF l(2)] c [OF assms(2)] c [OF assms(3)] by simp_all
  then show ?thesis using o(1) l(1) assms(4-7) Itoa_nonneg_inj by simp
qed

text \<open>The answer a request has on a database, and the entry it leaves in the cache.\<close>

definition directory_answer :: "query \<Rightarrow> DB \<Rightarrow> directoryResponse \<Rightarrow> bool" where
  "directory_answer q db r \<longleftrightarrow> valid_class (q ''class'') \<and>
     (\<exists>offset. page_offset q = Some offset \<and> buildDirectoryResponse (q ''owner'') (q ''class'') (page_limit q) offset db = Ok r)"

definition key_of :: "query \<Rightarrow> string" where
  "key_of q = directoryCacheKey (q ''owner'') (q ''class'') (page_limit q) (case page_offset q of Some f \<Rightarrow> f | None \<Rightarrow> 0)"

lemma page_limit_bounds: "1 \<le> page_limit q \<and> page_limit q \<le> 500"
  by (auto simp: page_limit_def Let_def defaultNodeListLimit_def maxNodeListLimit_def split: option.splits)

lemma page_offset_nonneg: "page_offset q = Some f \<Longrightarrow> 0 \<le> f"
  by (auto simp: page_offset_def Let_def split: option.splits if_splits)

lemma same_key_same_answer:
  assumes "key_of q' = key_of q" "directory_answer q' db r" "valid_class (q ''class'')" "page_offset q \<noteq> None"
  shows "directory_answer q db r"
proof -
  obtain f f' where f: "page_offset q = Some f" "page_offset q' = Some f'" using assms(2,4) by (auto simp: directory_answer_def)
  have "q' ''owner'' = q ''owner'' \<and> q' ''class'' = q ''class'' \<and> page_limit q' = page_limit q \<and> f' = f"
    using directoryCacheKey_inj [OF assms(1) [unfolded key_of_def f option.case]] assms(2,3)
      page_limit_bounds [of q] page_limit_bounds [of q'] page_offset_nonneg [OF f(1)] page_offset_nonneg [OF f(2)]
    by (simp add: directory_answer_def)
  then show ?thesis using assms(2) f by (simp add: directory_answer_def)
qed

definition cache_sound :: "(query \<times> time \<times> DB) set \<Rightarrow> (string, directoryResponse) cache \<Rightarrow> bool" where
  "cache_sound past c \<longleftrightarrow> (\<forall>key r t. lookup (cache_entries c) key = Some (r, t) \<longrightarrow>
     (\<exists>q db. (q, t, db) \<in> past \<and> key = key_of q \<and> directory_answer q db r))"

lemma cache_sound_insert: "cache_sound past c \<Longrightarrow> cache_sound (insert x past) c"
  unfolding cache_sound_def by blast

lemma directory_step:
  assumes "cache_sound past c" "handleDirectory q now db c = (c', resp)"
  shows "cache_sound (insert (q, now, db) past) c' \<and> cache_ttl c' = cache_ttl c \<and>
    (\<forall>st r. resp = Response st r \<longrightarrow> directory_answer q db r \<or>
       (\<exists>q' t db'. (q', t, db') \<in> past \<and> now - t < cache_ttl c \<and> directory_answer q db' r))"
proof (cases "valid_class (q ''class'') \<and> page_offset q \<noteq> None")
  case False
  then have "c' = c \<and> (\<forall>st r. resp \<noteq> Response st r)"
    using assms(2) by (auto simp: handleDirectory_def valid_class_def bad_def Let_def split: if_splits)
  then show ?thesis using cache_sound_insert [OF assms(1)] by simp
next
  case True
  then obtain f where f: "valid_class (q ''class'')" "page_offset q = Some f" by blast
  have h: "serve_cached now (key_of q) (buildDirectoryResponse (q ''owner'') (q ''class'') (page_limit q) f db) c = (c', resp)"
    using assms(2) f by (auto simp: handleDirectory_def key_of_def valid_class_def Let_def)
  show ?thesis
  proof (cases "cache_get now (key_of q) c")
    case (Some r)
    then obtain t where t: "lookup (cache_entries c) (key_of q) = Some (r, t)" "now - t < cache_ttl c"
      by (auto simp: cache_get_def split: option.splits if_splits)
    from assms(1) t(1) obtain q' db' where q': "(q', t, db') \<in> past" "key_of q = key_of q'" "directory_answer q' db' r"
      unfolding cache_sound_def by blast
    have "directory_answer q db' r" by (rule same_key_same_answer [of q' q]) (simp_all add: q'(2,3) f)
    moreover have "c' = c" "resp = Response StatusOK r" using h Some by (simp_all add: serve_cached_def)
    ultimately show ?thesis using cache_sound_insert [OF assms(1)] q'(1) t(2) by auto
  next
    case None
    show ?thesis
    proof (cases "buildDirectoryResponse (q ''owner'') (q ''class'') (page_limit q) f db")
      case (Inl err)
      then have "c' = c" "\<forall>st r. resp \<noteq> Response st r" using h None by (auto simp: serve_cached_def)
      then show ?thesis using cache_sound_insert [OF assms(1)] by simp
    next
      case (Inr r)
      then have a: "directory_answer q db r" using f by (simp add: directory_answer_def)
      have "c' = cache_set now (key_of q) r c" "resp = Response StatusOK r" using h None Inr by (simp_all add: serve_cached_def)
      moreover have "cache_sound (insert (q, now, db) past) (cache_set now (key_of q) r c)"
        unfolding cache_sound_def
      proof (intro allI impI)
        fix key r' t assume l: "lookup (cache_entries (cache_set now (key_of q) r c)) key = Some (r', t)"
        show "\<exists>q' db'. (q', t, db') \<in> insert (q, now, db) past \<and> key = key_of q' \<and> directory_answer q' db' r'"
        proof (cases "key = key_of q")
          case True
          then have "r' = r" "t = now" using l by (simp_all add: cache_set_def)
          with True a show ?thesis by blast
        next
          case False
          then have "lookup (cache_entries c) key = Some (r', t)" using l by (simp add: cache_set_def)
          with assms(1) show ?thesis unfolding cache_sound_def by blast
        qed
      qed
      ultimately show ?thesis using a by (simp add: cache_set_def)
    qed
  qed
qed

text \<open>A sequence of requests, each with its time and the database it finds.\<close>

fun serve_directory :: "(query \<times> time \<times> DB) list \<Rightarrow> (string, directoryResponse) cache \<Rightarrow> directoryResponse response list" where
  "serve_directory [] c = []"
| "serve_directory ((q, now, db) # rs) c = (case handleDirectory q now db c of (c', resp) \<Rightarrow> resp # serve_directory rs c')"

lemma serve_directory_sound:
  "cache_sound past c \<Longrightarrow> i < length rs \<Longrightarrow> rs ! i = (q, now, db) \<Longrightarrow> serve_directory rs c ! i = Response st r \<Longrightarrow>
   directory_answer q db r \<or> (\<exists>q' t db'. (q', t, db') \<in> past \<union> set (take i rs) \<and> now - t < cache_ttl c \<and> directory_answer q db' r)"
proof (induction rs arbitrary: past c i)
  case (Cons x rs)
  obtain q1 now1 db1 c' resp where x: "x = (q1, now1, db1)" "handleDirectory q1 now1 db1 c = (c', resp)" by (metis surj_pair)
  note s = directory_step [OF Cons.prems(1) x(2)]
  show ?case
  proof (cases i)
    case 0
    then show ?thesis using Cons.prems x s by auto
  next
    case (Suc j)
    have "serve_directory rs c' ! j = Response st r" "rs ! j = (q, now, db)" "j < length rs"
      using Cons.prems(2-4) x Suc by simp_all
    from Cons.IH [OF conjunct1 [OF s] this(3,2,1)] s show ?thesis using Suc x(1) by auto
  qed
qed simp

text \<open>
  C19: what the directory serves from its cache.  Whatever requests came before, in whatever
  order and with whatever owner strings, a 200 answer to a request is the answer to that very
  request on the database of this moment, or on the one an earlier request found less than
  the time to live ago.
\<close>

theorem directory_cached:
  assumes "i < length rs" "rs ! i = (q, now, db)" "serve_directory rs \<lparr>cache_ttl = ttl, cache_entries = []\<rparr> ! i = Response st r"
  shows "\<exists>t db'. (\<exists>q'. (q', t, db') \<in> set (take (Suc i) rs)) \<and> ((t, db') = (now, db) \<or> now - t < ttl) \<and>
    (\<exists>offset. page_offset q = Some offset \<and> buildDirectoryResponse (q ''owner'') (q ''class'') (page_limit q) offset db' = Ok r)"
proof -
  have "cache_sound {} \<lparr>cache_ttl = ttl, cache_entries = []\<rparr>" by (simp add: cache_sound_def)
  from serve_directory_sound [OF this assms]
  have "directory_answer q db r \<or> (\<exists>q' t db'. (q', t, db') \<in> set (take i rs) \<and> now - t < ttl \<and> directory_answer q db' r)" by simp
  moreover have "(q, now, db) \<in> set (take (Suc i) rs)" using assms(1,2) by (simp add: take_Suc_conv_app_nth)
  moreover have "set (take i rs) \<subseteq> set (take (Suc i) rs)" by (simp add: set_take_subset_set_take)
  ultimately show ?thesis unfolding directory_answer_def by blast
qed

section \<open>Examples\<close>

text \<open>One registered node with an owner tag, a located address and an edge to an anonymous node.\<close>

definition example_map :: DB where
  "example_map = \<lparr>db_nodes = [\<lparr>n_ID = 1, n_Address = ''8.8.8.8:18189'', n_PublicKey = [7], n_DiscoverySource = DiscoverySourceRegistry,
       n_Tags = [(''owner'', JStr ''me'')], n_Label = None, n_FirstSeen = 1, n_LastSeen = 2, n_WalletHTTPPort = None\<rparr>,
     \<lparr>n_ID = 2, n_Address = ''9.9.9.9:18189'', n_PublicKey = [], n_DiscoverySource = DiscoverySourceP2P,
       n_Tags = [], n_Label = None, n_FirstSeen = 1, n_LastSeen = 3, n_WalletHTTPPort = None\<rparr>],
     db_node_addresses = [example_address 11 1 ''8.8.8.8:18189'', example_address 12 2 ''9.9.9.9:18189''],
     db_node_health = [], db_peer_edges = [\<lparr>po_ID = 21, po_FromNodeID = 1, po_ToNodeID = 2, po_ObservedAt = 1,
     po_ReportedByCollector = None, po_ReportBatchID = None\<rparr>],
     db_pending_submissions = [], db_pending_wallet_submissions = [],
     db_geoip_cache = [\<lparr>ge_IP = ''8.8.8.8'', ge_Latitude = 1, ge_Longitude = 2, ge_City = ''A'', ge_Country = ''X'', ge_LookedUpAt = 1, ge_LookupFailed = False\<rparr>,
       \<lparr>ge_IP = ''9.9.9.9'', ge_Latitude = 3, ge_Longitude = 4, ge_City = ''B'', ge_Country = ''Y'', ge_LookedUpAt = 1, ge_LookupFailed = False\<rparr>],
     db_random = (\<lambda>k. of_nat (k + 100)), db_draws = 0\<rparr>"

lemma example_map_ok: "schema_ok example_map"
  by (simp add: example_map_def example_address_def schema_defs nodes_ok_def addresses_ok_def health_ok_def edges_ok_def
      pending_ok_def wallet_ok_def valid_source_def)

lemma example_map_consented: "consented example_map"
  by (simp add: consented_def example_map_def HasOwnerTag_def opted_in_def)

lemma example_ipv4: "IPv4Host ''8.8.8.8:18189'' = Some ''8.8.8.8''" "IPv4Host ''9.9.9.9:18189'' = Some ''9.9.9.9''"
  by code_simp+

lemma example_query: "page_limit (\<lambda>_. []) = 100" "page_offset (\<lambda>_. []) = Some 0"
  by (simp_all add: page_limit_def page_offset_def defaultNodeListLimit_def maxNodeListLimit_def)

theorem map_consented_witness:
  "\<exists>st m. handleNodesMap example_map = Response st [m] \<and> justified example_map m"
proof -
  have "\<exists>st m. handleNodesMap example_map = Response st [m]"
    unfolding handleNodesMap_def list_all_nodes or_500_def sum.case
    by (simp add: example_map_def sort_by_address_def pg_ListNodeAddressesForNodes_def Let_def with_ipv4_def map_filter_simps
        isMapEligible_def HasOwnerTag_def firstIPv4Address_def addrs_of_def coalesce_def addressStrings_def example_address_def example_ipv4
        GetGeoIPCache_def located_def)
  then obtain st m where m: "handleNodesMap example_map = Response st [m]" by blast
  have "consented (api_db (example_api\<lparr>api_db := example_map\<rparr>))" using example_map_consented by simp
  then have "\<forall>m\<in>set [m]. justified example_map m"
    using map_consented [of "example_api\<lparr>api_db := example_map\<rparr>" example_env "example_api\<lparr>api_db := example_map\<rparr>" "[]"] m by auto
  then show ?thesis using m by auto
qed



theorem clusters_correct_witness:
  "\<exists>r. buildExtendedMapResponse example_map = Ok r \<and> distinct (map (\<lambda>c. (ac_City c, ac_Country c)) (em_Anonymous r))"
proof -
  obtain am where b: "pg_ListNodeAddressesForNodes (map n_ID (sort_by_address (db_nodes example_map))) example_map = Ok am"
    using batch_total by blast
  obtain r where r: "buildExtendedMapResponse example_map = Ok r"
    unfolding buildExtendedMapResponse_def list_all_nodes sum.case b by (simp add: GetGeoIPCache_def Let_def)
  from clusters_correct [OF r] r show ?thesis by blast
qed

theorem directory_cached_witness:
  "\<exists>st r. serve_directory [(\<lambda>_. [], 5, example_map)] \<lparr>cache_ttl = 8, cache_entries = []\<rparr> ! 0 = Response st r \<and>
     buildDirectoryResponse [] [] 100 0 example_map = Ok r"
proof -
  obtain am where b: "pg_ListNodeAddressesForNodes (map n_ID (sort_by_address (db_nodes example_map))) example_map = Ok am"
    using batch_total by blast
  obtain r where r: "buildDirectoryResponse [] [] 100 0 example_map = Ok r"
    unfolding buildDirectoryResponse_def list_all_nodes sum.case b by (simp add: GetGeoIPCache_def Let_def)
  have o: "serve_directory [(\<lambda>_. [], 5, example_map)] \<lparr>cache_ttl = 8, cache_entries = []\<rparr> ! 0 = Response StatusOK r"
    using r by (simp add: handleDirectory_def example_query serve_cached_def cache_get_def)
  then show ?thesis using directory_cached [OF _ _ o] by (auto simp: example_query)
qed

end
