(* ===== verification/Geo_Refresh.thy ===== *)
theory Geo_Refresh
  imports Public_Geo
begin

text \<open>
  \<^verbatim>\<open>internal/geoip/geoip.go\<close>, the client of the lookup service, and
  \<^verbatim>\<open>internal/collector/geoip_refresh.go\<close>, the pass that keeps the cache behind the maps
  fresh: whose addresses leave the process, and what the cache holds after a pass.
\<close>

section \<open>The client\<close>

definition MaxBatchSize :: nat where "MaxBatchSize = 100"
definition requestFields :: string where "requestFields = ''status,message,lat,lon,city,country,query''"

record batchRequestItem =
  bq_Query :: string
  bq_Fields :: string

record batchResponseItem =
  br_Query :: string
  br_Status :: string
  br_Message :: string
  br_Lat :: float64
  br_Lon :: float64
  br_City :: string
  br_Country :: string

record Result =
  gr_Latitude :: float64
  gr_Longitude :: float64
  gr_City :: string
  gr_Country :: string
  gr_Failed :: bool

text \<open>
  The service and the rate limiter: what the \<open>k\<close>-th wait returns, and what the \<open>k\<close>-th
  request returns, an error or a status with the decoded body or the decoder's error.
\<close>

record geoip_Client =
  gc_Wait :: "nat \<Rightarrow> error option"
  gc_Do :: "nat \<Rightarrow> batchRequestItem list \<Rightarrow> (int \<times> batchResponseItem list result) result"

definition result_of :: "batchResponseItem \<Rightarrow> Result" where
  "result_of item = \<lparr>gr_Latitude = br_Lat item, gr_Longitude = br_Lon item, gr_City = br_City item,
     gr_Country = br_Country item, gr_Failed = (br_Status item \<noteq> ''success'')\<rparr>"

definition lookupBatch ::
  "(batchRequestItem list \<Rightarrow> (int \<times> batchResponseItem list result) result) \<Rightarrow> string list \<Rightarrow> (string \<times> Result) list result" where
  "lookupBatch do_request ips =
     (case do_request (map (\<lambda>ip. \<lparr>bq_Query = ip, bq_Fields = requestFields\<rparr>) ips) of
        Inl err \<Rightarrow> Fail err
      | Inr (status, body) \<Rightarrow>
          if status \<noteq> StatusOK then Fail (Err ''geoip: batch request: unexpected status'')
          else (case body of
                  Inl err \<Rightarrow> Fail err
                | Inr items \<Rightarrow> Ok (foldl (\<lambda>out item. AList.update (br_Query item) (result_of item) out) [] items)))"

text \<open>
  The loop of \<^verbatim>\<open>Lookup\<close> over batches.  Besides the results and the first error it returns the
  batches that were sent.
\<close>

function lookup_loop ::
  "geoip_Client \<Rightarrow> nat \<Rightarrow> string list \<Rightarrow> (string \<times> Result) list \<Rightarrow> error option \<Rightarrow> string list list \<Rightarrow>
   string list list \<times> (string \<times> Result) list \<times> error option" where
  "lookup_loop c k ips out firstErr sent =
     (if ips = [] then (sent, out, firstErr)
      else let batch = take MaxBatchSize ips; rest = drop MaxBatchSize ips in
        case gc_Wait c k of
          Some err \<Rightarrow> lookup_loop c (k + 1) rest out (if firstErr = None then Some err else firstErr) sent
        | None \<Rightarrow>
            (case lookupBatch (gc_Do c k) batch of
               Inl err \<Rightarrow> lookup_loop c (k + 1) rest out (if firstErr = None then Some err else firstErr) (sent @ [batch])
             | Inr results \<Rightarrow>
                 lookup_loop c (k + 1) rest (foldl (\<lambda>out (ip, res). AList.update ip res out) out results) firstErr (sent @ [batch])))"
  by pat_completeness auto
termination
  by (relation "measure (\<lambda>(c, k, ips, out, firstErr, sent). length ips)") (auto simp: MaxBatchSize_def)

declare lookup_loop.simps [simp del]

definition Lookup :: "geoip_Client \<Rightarrow> string list \<Rightarrow> string list list \<times> (string \<times> Result) list \<times> error option" where
  "Lookup c ips = lookup_loop c 0 ips [] None []"

section \<open>The pass\<close>

definition GeoIPSuccessTTL :: duration where "GeoIPSuccessTTL = 30 * 24 * Hour"
definition GeoIPFailedTTL :: duration where "GeoIPFailedTTL = 24 * Hour"

definition staleGeoIPs :: "string list \<Rightarrow> (string \<times> GeoIPEntry) list \<Rightarrow> time \<Rightarrow> string list" where
  "staleGeoIPs ips cached now = filter (\<lambda>ip.
     case lookup cached ip of
       None \<Rightarrow> True
     | Some entry \<Rightarrow> now - ge_LookedUpAt entry \<ge> (if ge_LookupFailed entry then GeoIPFailedTTL else GeoIPSuccessTTL)) ips"

fun add_if_ipv4 :: "string list \<Rightarrow> string list \<Rightarrow> string list" where
  "add_if_ipv4 ips [] = ips"
| "add_if_ipv4 ips (raw # raws) =
     add_if_ipv4 (case IPv4Host raw of None \<Rightarrow> ips | Some ip \<Rightarrow> if ip \<in> set ips then ips else ips @ [ip]) raws"

definition ipv4AddressesForNodes :: "Node list \<Rightarrow> DB \<Rightarrow> string list result" where
  "ipv4AddressesForNodes nodes db =
     (if nodes = [] then Ok []
      else case pg_ListNodeAddressesForNodes (map n_ID nodes) db of
             Inl err \<Rightarrow> Fail err
           | Inr addrsByNode \<Rightarrow>
               Ok (foldl (\<lambda>ips n.
                 let addrs = addrs_of addrsByNode (n_ID n) in
                 if addrs = [] then (if n_Address n \<noteq> [] then add_if_ipv4 ips [n_Address n] else ips)
                 else add_if_ipv4 ips (map na_Address addrs)) [] nodes))"

definition ownerIPv4Addresses :: "DB \<Rightarrow> string list result" where
  "ownerIPv4Addresses db =
     (case pg_ListNodes emptyFilter db of
        Inl err \<Rightarrow> Fail err
      | Inr nodes \<Rightarrow> ipv4AddressesForNodes (filter HasOwnerTag nodes) db)"

definition anonymousReachableIPv4Addresses :: "time \<Rightarrow> DB \<Rightarrow> string list result" where
  "anonymousReachableIPv4Addresses now db =
     (let cutoff = now - 24 * Hour in
      case pg_ListNodes (emptyFilter\<lparr>nf_ReachableSince := Some cutoff\<rparr>) db of
        Inl err \<Rightarrow> Fail err
      | Inr nodes \<Rightarrow> ipv4AddressesForNodes (filter (\<lambda>n. \<not> HasOwnerTag n \<and> \<not> isCollectorRoleTag (n_Tags n)) nodes) db)"

definition entry_of :: "(string \<times> Result) list \<Rightarrow> time \<Rightarrow> string \<Rightarrow> GeoIPEntry" where
  "entry_of results now ip =
     (case lookup results ip of
        None \<Rightarrow> \<lparr>ge_IP = ip, ge_Latitude = 0, ge_Longitude = 0, ge_City = [], ge_Country = [],
                ge_LookedUpAt = now, ge_LookupFailed = True\<rparr>
      | Some res \<Rightarrow> \<lparr>ge_IP = ip, ge_Latitude = gr_Latitude res, ge_Longitude = gr_Longitude res, ge_City = gr_City res,
                ge_Country = gr_Country res, ge_LookedUpAt = now, ge_LookupFailed = gr_Failed res\<rparr>)"

text \<open>
  \<^verbatim>\<open>RefreshGeoIP\<close> with the three readings of the clock it makes: for the cutoff, for the
  staleness and for the entries it writes.  It returns the batches that were sent.
\<close>

definition RefreshGeoIP :: "geoip_Client option \<Rightarrow> time \<Rightarrow> time \<Rightarrow> time \<Rightarrow> DB \<Rightarrow> DB \<times> string list list \<times> unit result" where
  "RefreshGeoIP client t0 t1 t2 db =
     (case client of
        None \<Rightarrow> (db, [], Ok ())
      | Some c \<Rightarrow>
     (case ownerIPv4Addresses db of
        Inl err \<Rightarrow> (db, [], Fail err)
      | Inr ownerIPs \<Rightarrow>
     (case anonymousReachableIPv4Addresses t0 db of
        Inl err \<Rightarrow> (db, [], Fail err)
      | Inr anonIPs \<Rightarrow>
          let ips = add_unseen (add_unseen [] ownerIPs) anonIPs in
          if ips = [] then (db, [], Ok ())
          else
     (case GetGeoIPCache ips db of
        Inl err \<Rightarrow> (db, [], Fail err)
      | Inr cached \<Rightarrow>
          let stale = staleGeoIPs ips cached t1 in
          if stale = [] then (db, [], Ok ())
          else (case Lookup c stale of (sent, results, err) \<Rightarrow>
                  let (db', r) = UpsertGeoIPCache (map (entry_of results t2) stale) db in (db', sent, r))))))"

section \<open>Candidates\<close>

definition node_ip :: "DB \<Rightarrow> Node \<Rightarrow> string \<Rightarrow> bool" where
  "node_ip db n ip \<longleftrightarrow> (\<exists>addrs. pg_ListNodeAddresses (n_ID n) db = Ok addrs \<and> (\<exists>a\<in>set (addressStrings n addrs). IPv4Host a = Some ip))"

text \<open>Whose addresses may be looked up: of owned nodes, and of reachable nodes that are no collectors.\<close>

definition lookup_allowed :: "DB \<Rightarrow> time \<Rightarrow> Node \<Rightarrow> bool" where
  "lookup_allowed db now n \<longleftrightarrow> HasOwnerTag n \<or> \<not> IsCollectorRole (n_Tags n) \<and>
     (\<exists>h\<in>set (db_node_health db). hc_NodeID h = n_ID n \<and> hc_Reachable h \<and> now - 24 * Hour \<le> hc_Timestamp h)"

definition geo_candidate :: "DB \<Rightarrow> time \<Rightarrow> string \<Rightarrow> bool" where
  "geo_candidate db now ip \<longleftrightarrow> (\<exists>n\<in>set (db_nodes db). node_ip db n ip \<and> lookup_allowed db now n)"

lemma set_add_if_ipv4: "set (add_if_ipv4 ips raws) = set ips \<union> {ip. \<exists>a\<in>set raws. IPv4Host a = Some ip}"
  by (induction ips raws rule: add_if_ipv4.induct) (auto split: option.splits)

lemma distinct_add_if_ipv4: "distinct ips \<Longrightarrow> distinct (add_if_ipv4 ips raws)"
  by (induction ips raws rule: add_if_ipv4.induct) (auto split: option.splits)

lemma set_add_unseen: "set (add_unseen xs ys) = set xs \<union> set ys"
  by (induction xs ys rule: add_unseen.induct) auto

lemma distinct_add_unseen: "distinct xs \<Longrightarrow> distinct (add_unseen xs ys)"
  by (induction xs ys rule: add_unseen.induct) auto

lemma ipv4AddressesForNodes_spec:
  "\<exists>ips. ipv4AddressesForNodes nodes db = Ok ips \<and> set ips = {ip. \<exists>n\<in>set nodes. node_ip db n ip}"
proof (cases "nodes = []")
  case False
  obtain am where b: "pg_ListNodeAddressesForNodes (map n_ID nodes) db = Ok am" using batch_total by blast
  let ?f = "\<lambda>ips (n :: Node). let addrs = addrs_of am (n_ID n) in
    if addrs = [] then (if n_Address n \<noteq> [] then add_if_ipv4 ips [n_Address n] else ips) else add_if_ipv4 ips (map na_Address addrs)"
  have f: "?f ips n = add_if_ipv4 ips (addressStrings n (addrs_of am (n_ID n)))" for ips n
    by (simp add: addressStrings_def Let_def)
  have s: "set (foldl ?f acc ns) = set acc \<union> {ip. \<exists>n\<in>set ns. node_ip db n ip}" if n: "set ns \<subseteq> set nodes" for acc ns
    using n
  proof (induction ns arbitrary: acc)
    case (Cons n ns)
    have "pg_ListNodeAddresses (n_ID n) db = Ok (addrs_of am (n_ID n))"
      by (rule addrs_of_batch [OF b]) (use Cons.prems in simp)
    then have "set (?f acc n) = set acc \<union> {ip. node_ip db n ip}" unfolding f by (simp add: set_add_if_ipv4 node_ip_def)
    then show ?case using Cons.IH [of "?f acc n"] Cons.prems by (simp del: Let_def) blast
  qed simp
  show ?thesis using s [of nodes "[]"] b False by (simp add: ipv4AddressesForNodes_def)
qed (simp add: ipv4AddressesForNodes_def)

lemma reachable_since:
  "selected db (emptyFilter\<lparr>nf_ReachableSince := Some t\<rparr>) n \<longleftrightarrow>
   (\<exists>h\<in>set (db_node_health db). hc_NodeID h = n_ID n \<and> hc_Reachable h \<and> t \<le> hc_Timestamp h)"
  by (simp add: selected_def nodeFilterClauses_def emptyFilter_def sql_and_def list_ex_iff)

lemma candidates:
  "\<exists>ips. ownerIPv4Addresses db = Ok ips \<and> (\<exists>ips'. anonymousReachableIPv4Addresses now db = Ok ips' \<and>
     set ips \<union> set ips' = {ip. geo_candidate db now ip})"
proof -
  obtain ips where 1: "ipv4AddressesForNodes (filter HasOwnerTag (sort_by_address (db_nodes db))) db = Ok ips"
    "set ips = {ip. \<exists>n. n \<in> set (db_nodes db) \<and> HasOwnerTag n \<and> node_ip db n ip}"
    using ipv4AddressesForNodes_spec [of "filter HasOwnerTag (sort_by_address (db_nodes db))" db] by auto
  let ?f = "emptyFilter\<lparr>nf_ReachableSince := Some (now - 24 * Hour)\<rparr>"
  have l: "pg_ListNodes ?f db = Ok (sort_by_address (pg_matching ?f db))" by (simp add: pg_ListNodes_def emptyFilter_def)
  let ?ns = "filter (\<lambda>n. \<not> HasOwnerTag n \<and> \<not> isCollectorRoleTag (n_Tags n)) (sort_by_address (pg_matching ?f db))"
  have ns: "set ?ns = {n \<in> set (db_nodes db). \<not> HasOwnerTag n \<and> \<not> IsCollectorRole (n_Tags n) \<and> selected db ?f n}"
    by (auto simp: pg_matching_def isCollectorRoleTag_eq)
  obtain ips' where 2: "ipv4AddressesForNodes ?ns db = Ok ips'" "set ips' = {ip. \<exists>n\<in>set ?ns. node_ip db n ip}"
    using ipv4AddressesForNodes_spec by blast
  have "set ips \<union> set ips' = {ip. geo_candidate db now ip}"
    unfolding 1(2) 2(2) ns reachable_since geo_candidate_def lookup_allowed_def by blast
  moreover have "anonymousReachableIPv4Addresses now db = Ok ips'" "ownerIPv4Addresses db = Ok ips"
    using 1(1) 2(1) l by (simp_all add: anonymousReachableIPv4Addresses_def ownerIPv4Addresses_def list_all_nodes Let_def)
  ultimately show ?thesis by blast
qed

section \<open>Batches\<close>

definition batches_of :: "string list \<Rightarrow> string list list \<Rightarrow> bool" where
  "batches_of ips bs \<longleftrightarrow> set (concat bs) \<subseteq> set ips \<and> (distinct ips \<longrightarrow> distinct (concat bs)) \<and>
     (\<forall>b\<in>set bs. b \<noteq> [] \<and> length b \<le> MaxBatchSize)"

lemma batches_skip: "batches_of (drop k ips) bs \<Longrightarrow> batches_of ips bs"
  by (auto simp: batches_of_def dest: in_set_dropD)

lemma batches_send: "ips \<noteq> [] \<Longrightarrow> batches_of (drop MaxBatchSize ips) bs \<Longrightarrow> batches_of ips (take MaxBatchSize ips # bs)"
  using set_take_disj_set_drop_if_distinct [of ips MaxBatchSize MaxBatchSize]
  by (auto simp: batches_of_def MaxBatchSize_def dest: in_set_dropD in_set_takeD)

lemma lookup_loop_batches:
  "lookup_loop c k ips out fe sent = (sent', out', e) \<Longrightarrow> \<exists>bs. sent' = sent @ bs \<and> batches_of ips bs"
proof (induction c k ips out fe sent arbitrary: sent' rule: lookup_loop.induct)
  case (1 c k ips out fe sent)
  show ?case
  proof (cases "ips = []")
    case True
    then show ?thesis using "1.prems" by (simp add: lookup_loop.simps batches_of_def)
  next
    case False
    note u = "1.prems" [unfolded lookup_loop.simps [of c k ips] Let_def]
    show ?thesis
    proof (cases "gc_Wait c k")
      case (Some err)
      with "1.IH"(3) [OF False refl refl Some] u False show ?thesis by (auto dest: batches_skip)
    next
      case None
      show ?thesis
      proof (cases "lookupBatch (gc_Do c k) (take MaxBatchSize ips)")
        case (Inl err)
        with "1.IH"(1) [OF False refl refl None Inl] u False None show ?thesis by (fastforce dest: batches_send)
      next
        case (Inr rs)
        with "1.IH"(2) [OF False refl refl None Inr] u False None show ?thesis by (fastforce dest: batches_send)
      qed
    qed
  qed
qed

section \<open>The cache\<close>

definition geo_lookup :: "DB \<Rightarrow> string \<Rightarrow> GeoIPEntry option" where
  "geo_lookup db = map_of (map (\<lambda>e. (ge_IP e, e)) (db_geoip_cache db))"

definition geo_fresh :: "time \<Rightarrow> GeoIPEntry option \<Rightarrow> bool" where
  "geo_fresh now entry \<longleftrightarrow> (case entry of None \<Rightarrow> False
     | Some e \<Rightarrow> now - ge_LookedUpAt e < (if ge_LookupFailed e then GeoIPFailedTTL else GeoIPSuccessTTL))"

lemma staleGeoIPs_set:
  "set (staleGeoIPs ips cached now) = {ip \<in> set ips. \<not> geo_fresh now (lookup cached ip)}"
  by (auto simp: staleGeoIPs_def geo_fresh_def not_less split: option.splits)

lemma cached_lookup: "GetGeoIPCache ips db = Ok cached \<Longrightarrow> ip \<in> set ips \<Longrightarrow> lookup cached ip = geo_lookup db ip"
proof -
  assume "GetGeoIPCache ips db = Ok cached" "ip \<in> set ips"
  moreover have "map_of (map (\<lambda>e. (ge_IP e, e)) (filter (\<lambda>e. ge_IP e \<in> set ips) es)) ip = map_of (map (\<lambda>e. (ge_IP e, e)) es) ip"
    if "ip \<in> set ips" for es using that by (induction es) auto
  ultimately show ?thesis by (auto simp: GetGeoIPCache_def geo_lookup_def)
qed

lemma geo_lookup_upsert: "geo_lookup (sql_upsert_geoip e db) = (geo_lookup db)(ge_IP e \<mapsto> e)"
proof -
  have "list_ex (\<lambda>x. ge_IP x = ge_IP e) es \<Longrightarrow>
      map_of (map (\<lambda>e. (ge_IP e, e)) (map (\<lambda>x. if ge_IP x = ge_IP e then e else x) es)) = (map_of (map (\<lambda>e. (ge_IP e, e)) es))(ge_IP e \<mapsto> e)" for es
  proof (induction es)
    case (Cons x es)
    show ?case
    proof (cases "list_ex (\<lambda>x. ge_IP x = ge_IP e) es")
      case True
      then show ?thesis using Cons.IH by (auto simp: fun_upd_twist)
    next
      case False
      then have "map (\<lambda>x. if ge_IP x = ge_IP e then e else x) es = es" by (auto simp: list_ex_iff intro: map_idI)
      then show ?thesis using Cons.prems False by auto
    qed
  qed simp
  from this [of "db_geoip_cache db"]
  have "list_ex (\<lambda>x. ge_IP x = ge_IP e) (db_geoip_cache db) \<Longrightarrow> ?thesis" by (simp add: geo_lookup_def sql_upsert_geoip_def del: map_map)
  moreover have "map_of (map (\<lambda>e. (ge_IP e, e)) (db_geoip_cache db)) (ge_IP e) = None" if "\<not> list_ex (\<lambda>x. ge_IP x = ge_IP e) (db_geoip_cache db)"
    using that by (auto simp: map_of_eq_None_iff list_ex_iff)
  then have "\<not> list_ex (\<lambda>x. ge_IP x = ge_IP e) (db_geoip_cache db) \<Longrightarrow> ?thesis"
    by (auto simp: geo_lookup_def sql_upsert_geoip_def map_add_def fun_eq_iff split: option.splits)
  ultimately show ?thesis by blast
qed

lemma upsert_geoip_schema: "schema_ok db \<Longrightarrow> schema_ok (sql_upsert_geoip e db)"
proof -
  assume s: "schema_ok db"
  have "map ge_IP (map (\<lambda>x. if ge_IP x = ge_IP e then e else x) es) = map ge_IP es" for es by simp
  then have "distinct (map ge_IP (db_geoip_cache (sql_upsert_geoip e db)))"
    using s by (auto simp: schema_ok_def pkeys_ok_def sql_upsert_geoip_def list_ex_iff simp del: map_map)
  then show ?thesis using s by (simp add: schema_ok_def pkeys_ok_def constraints_ok_def node_ids_def sql_upsert_geoip_def)
qed

lemma UpsertGeoIPCache_spec:
  assumes "schema_ok db" "[] \<notin> set ips" "\<And>ip. ge_IP (f ip) = ip"
  shows "\<exists>db'. UpsertGeoIPCache (map f ips) db = (db', Ok ()) \<and> schema_ok db' \<and> db' = db\<lparr>db_geoip_cache := db_geoip_cache db'\<rparr> \<and>
    geo_lookup db' = (\<lambda>ip. if ip \<in> set ips then Some (f ip) else geo_lookup db ip)"
  using assms(1,2)
proof (induction ips arbitrary: db)
  case (Cons ip ips)
  let ?d = "sql_upsert_geoip (f ip) db"
  have ok: "schema_ok ?d" by (rule upsert_geoip_schema [OF Cons.prems(1)])
  obtain db' where d: "UpsertGeoIPCache (map f ips) ?d = (db', Ok ())" "schema_ok db'" "db' = ?d\<lparr>db_geoip_cache := db_geoip_cache db'\<rparr>"
    "geo_lookup db' = (\<lambda>ip. if ip \<in> set ips then Some (f ip) else geo_lookup ?d ip)" using Cons.IH [OF ok] Cons.prems(2) by auto
  have "exec (sql_upsert_geoip (f ip)) db = (?d, Ok ())" using ok by (simp add: exec_def schema_ok_def)
  then have "UpsertGeoIPCache (map f (ip # ips)) db = (db', Ok ())" using d(1) Cons.prems(2) by (auto simp: assms(3) bindE_def)
  moreover have "db' = db\<lparr>db_geoip_cache := db_geoip_cache db'\<rparr>" using d(3) by (simp add: sql_upsert_geoip_def)
  moreover have "geo_lookup db' = (\<lambda>x. if x \<in> set (ip # ips) then Some (f x) else geo_lookup db x)"
    by (rule ext) (simp add: d(4) geo_lookup_upsert assms(3))
  ultimately show ?case using d(2) by blast
qed simp

section \<open>What a pass does\<close>

lemma IPv4Host_nonempty: "IPv4Host a = Some ip \<Longrightarrow> ip \<noteq> []"
proof -
  assume "IPv4Host a = Some ip"
  then obtain q where "length q = 4" "ip = ipv4_string q"
    by (auto simp: IPv4Host_def ip_String_def To4_def split: sum.splits option.splits if_splits)
  then show ?thesis using ipv4_string_chars(2) [of q] by auto
qed

text \<open>A pass, by its candidates and what of them is stale.\<close>

lemma refresh_cases:
  assumes "RefreshGeoIP (Some c) t0 t1 t2 db = (db', sent, r)"
  obtains stale results err where "set stale = {ip. geo_candidate db t0 ip \<and> \<not> geo_fresh t1 (geo_lookup db ip)}" "distinct stale"
    "stale = [] \<Longrightarrow> sent = [] \<and> db' = db \<and> r = Ok ()"
    "stale \<noteq> [] \<Longrightarrow> Lookup c stale = (sent, results, err) \<and> UpsertGeoIPCache (map (entry_of results t2) stale) db = (db', r)"
proof -
  obtain is1 is2 where i: "ownerIPv4Addresses db = Ok is1" "anonymousReachableIPv4Addresses t0 db = Ok is2"
    "set is1 \<union> set is2 = {ip. geo_candidate db t0 ip}" using candidates by blast
  define ips where "ips = add_unseen (add_unseen [] is1) is2"
  obtain cached where c: "GetGeoIPCache ips db = Ok cached" by (simp add: GetGeoIPCache_def)
  define stale where "stale = staleGeoIPs ips cached t1"
  obtain s results err where l: "Lookup c stale = (s, results, err)" by (cases "Lookup c stale") auto
  have ips: "set ips = {ip. geo_candidate db t0 ip}" "distinct ips"
    using i(3) by (auto simp: ips_def set_add_unseen intro!: distinct_add_unseen)
  have st: "set stale = {ip. geo_candidate db t0 ip \<and> \<not> geo_fresh t1 (geo_lookup db ip)}" "distinct stale"
    using ips cached_lookup [OF c] by (auto simp: stale_def staleGeoIPs_set) (simp add: staleGeoIPs_def)
  have "ips = [] \<Longrightarrow> stale = []" by (simp add: stale_def staleGeoIPs_def)
  then have *: "RefreshGeoIP (Some c) t0 t1 t2 db = (if stale = [] then (db, [], Ok ())
      else let (db', r) = UpsertGeoIPCache (map (entry_of results t2) stale) db in (db', s, r))"
    using i c l by (auto simp: RefreshGeoIP_def ips_def [symmetric] stale_def [symmetric] Let_def)
  show ?thesis
    by (rule that [OF st, of results err]) (use * assms l in \<open>auto split: prod.splits\<close>)
qed

text \<open>
  C22: whose addresses leave the process.  A pass sends an IP address to the lookup service only
  if it is an address of a node with an owner tag, or of a node that is no collector and was
  reached within the last day; never one whose cached entry is still fresh, no address twice, and
  at most a hundred per request.
\<close>

theorem geo_refresh_private:
  assumes "RefreshGeoIP client t0 t1 t2 db = (db', sent, r)"
  shows "distinct (concat sent) \<and> (\<forall>b\<in>set sent. b \<noteq> [] \<and> length b \<le> 100) \<and>
    (\<forall>ip\<in>set (concat sent). \<not> geo_fresh t1 (geo_lookup db ip) \<and>
       (\<exists>n\<in>set (db_nodes db). node_ip db n ip \<and> (HasOwnerTag n \<or> \<not> IsCollectorRole (n_Tags n) \<and>
          (\<exists>h\<in>set (db_node_health db). hc_NodeID h = n_ID n \<and> hc_Reachable h \<and> t0 - 24 * Hour \<le> hc_Timestamp h))))"
proof (cases client)
  case None
  then show ?thesis using assms by (simp add: RefreshGeoIP_def)
next
  case (Some c)
  from refresh_cases [OF assms [unfolded Some]] obtain stale results err where
    s: "set stale = {ip. geo_candidate db t0 ip \<and> \<not> geo_fresh t1 (geo_lookup db ip)}" "distinct stale"
    "stale = [] \<Longrightarrow> sent = []" "stale \<noteq> [] \<Longrightarrow> Lookup c stale = (sent, results, err)" by metis
  have "batches_of stale sent"
  proof (cases "stale = []")
    case True
    then show ?thesis using s(3) by (simp add: batches_of_def)
  next
    case False
    then show ?thesis using lookup_loop_batches [OF s(4) [OF False, unfolded Lookup_def]] by simp
  qed
  then have b: "set (concat sent) \<subseteq> set stale" "distinct (concat sent)" "\<forall>b\<in>set sent. b \<noteq> [] \<and> length b \<le> 100"
    using s(2) by (auto simp: batches_of_def MaxBatchSize_def)
  have "\<forall>ip\<in>set (concat sent). \<not> geo_fresh t1 (geo_lookup db ip) \<and> geo_candidate db t0 ip" using b(1) s(1) by blast
  then show ?thesis using b(2,3) unfolding geo_candidate_def lookup_allowed_def by blast
qed

lemma map_of_owned:
  "\<exists>out am. handleNodesMap db = Response StatusOK out \<and>
     out = List.map_filter (\<lambda>n. map_option (map_node am n) (node_entry db n)) (filter HasOwnerTag (sort_by_address (db_nodes db)))"
proof -
  let ?ns = "sort_by_address (db_nodes db)"
  obtain am where b: "pg_ListNodeAddressesForNodes (map n_ID ?ns) db = Ok am" using batch_total by blast
  let ?cs = "with_ipv4 am (filter HasOwnerTag ?ns)"
  obtain cache where g: "GetGeoIPCache (remdups (map snd ?cs)) db = Ok cache" by (simp add: GetGeoIPCache_def)
  have "handleNodesMap db = Response StatusOK (List.map_filter (\<lambda>(n, ip). map_option (map_node am n) (located cache ip)) ?cs)"
    using b g by (simp add: handleNodesMap_def list_all_nodes or_500_def eligible_with_ipv4)
  also have "List.map_filter (\<lambda>(n, ip). map_option (map_node am n) (located cache ip)) ?cs =
      List.map_filter (\<lambda>n. map_option (map_node am n) (node_entry db n)) (filter HasOwnerTag ?ns)"
    by (rule two_passes [OF b _ g]) auto
  finally show ?thesis by blast
qed

lemma first_is_node_ip: "pg_ListNodeAddresses (n_ID n) db = Ok addrs \<Longrightarrow> firstIPv4Address n addrs = Some ip \<Longrightarrow> node_ip db n ip"
  using first_ipv4_Some [of "addressStrings n addrs" ip] by (auto simp: node_ip_def firstIPv4Address_def)

lemma node_entry_lookup:
  "pg_ListNodeAddresses (n_ID n) db = Ok addrs \<Longrightarrow> firstIPv4Address n addrs = Some ip \<Longrightarrow> geo_lookup db ip = Some e \<Longrightarrow>
   \<not> ge_LookupFailed e \<Longrightarrow> node_entry db n = Some e"
  by (simp add: node_entry_def located_def geo_lookup_def)

text \<open>
  C23: what a pass achieves.  It changes nothing but the cache, and does not fail.  Every
  candidate address whose entry was missing or stale gets an entry of this pass, whatever the
  service and the limiter did; all other entries stay.  Afterwards the map shows every
  node with an owner tag and an IPv4 address, except those whose lookup failed.
\<close>

theorem geo_refresh_complete:
  assumes "schema_ok db" "RefreshGeoIP (Some c) t0 t1 t2 db = (db', sent, r)"
  shows "r = Ok () \<and> schema_ok db' \<and> db' = db\<lparr>db_geoip_cache := db_geoip_cache db'\<rparr> \<and>
    (\<forall>ip. if geo_candidate db t0 ip \<and> \<not> geo_fresh t1 (geo_lookup db ip)
          then \<exists>e. geo_lookup db' ip = Some e \<and> ge_LookedUpAt e = t2 else geo_lookup db' ip = geo_lookup db ip) \<and>
    (\<exists>out. handleNodesMap db' = Response StatusOK out \<and>
      (\<forall>n\<in>set (db_nodes db). \<forall>addrs ip. HasOwnerTag n \<and> pg_ListNodeAddresses (n_ID n) db = Ok addrs \<and> firstIPv4Address n addrs = Some ip \<longrightarrow>
         (\<exists>e. geo_lookup db' ip = Some e \<and> (ge_LookupFailed e \<or> n_ID n \<in> mn_NodeID ` set out))))"
proof -
  from refresh_cases [OF assms(2)] obtain stale results where
    s: "set stale = {ip. geo_candidate db t0 ip \<and> \<not> geo_fresh t1 (geo_lookup db ip)}"
    "stale = [] \<Longrightarrow> db' = db \<and> r = Ok ()" "stale \<noteq> [] \<Longrightarrow> UpsertGeoIPCache (map (entry_of results t2) stale) db = (db', r)" by metis
  have e: "ge_IP (entry_of results t2 ip) = ip" "ge_LookedUpAt (entry_of results t2 ip) = t2" for ip
    by (simp_all add: entry_of_def split: option.splits)
  have ne: "[] \<notin> set stale" using IPv4Host_nonempty by (auto simp: s(1) geo_candidate_def node_ip_def)
  have u: "r = Ok () \<and> schema_ok db' \<and> db' = db\<lparr>db_geoip_cache := db_geoip_cache db'\<rparr> \<and>
    geo_lookup db' = (\<lambda>ip. if ip \<in> set stale then Some (entry_of results t2 ip) else geo_lookup db ip)"
  proof (cases "stale = []")
    case True
    then show ?thesis using s(2) assms(1) by simp
  next
    case False
    then show ?thesis using UpsertGeoIPCache_spec [OF assms(1) ne e(1)] s(3) by auto
  qed
  obtain out am where o: "handleNodesMap db' = Response StatusOK out"
    "out = List.map_filter (\<lambda>n. map_option (map_node am n) (node_entry db' n)) (filter HasOwnerTag (sort_by_address (db_nodes db')))"
    using map_of_owned by blast
  have same: "db_nodes db' = db_nodes db" "pg_ListNodeAddresses i db' = pg_ListNodeAddresses i db" for i
    using arg_cong [OF u [THEN conjunct2, THEN conjunct2, THEN conjunct1], of db_nodes]
      arg_cong [OF u [THEN conjunct2, THEN conjunct2, THEN conjunct1], of db_node_addresses]
    by (simp_all add: pg_ListNodeAddresses_def)
  have shown: "\<exists>e. geo_lookup db' ip = Some e \<and> (ge_LookupFailed e \<or> n_ID n \<in> mn_NodeID ` set out)"
    if n: "n \<in> set (db_nodes db)" "HasOwnerTag n" "pg_ListNodeAddresses (n_ID n) db = Ok addrs" "firstIPv4Address n addrs = Some ip" for n addrs ip
  proof -
    have "geo_candidate db t0 ip" using n first_is_node_ip [OF n(3,4)] by (auto simp: geo_candidate_def lookup_allowed_def)
    then have "geo_lookup db' ip \<noteq> None" using u by (auto simp: s(1) geo_fresh_def split: option.splits)
    then obtain e where e: "geo_lookup db' ip = Some e" by blast
    have "n_ID n \<in> mn_NodeID ` set out" if "\<not> ge_LookupFailed e"
    proof -
      have "node_entry db' n = Some e" by (rule node_entry_lookup [OF _ n(4) e that]) (simp add: same n(3))
      then have "map_node am n e \<in> set out" using n(1,2) by (auto simp: o(2) map_filter_def same image_iff intro!: bexI [of _ n])
      moreover have "mn_NodeID (map_node am n e) = n_ID n" by (simp add: map_node_def)
      ultimately show ?thesis by (metis imageI)
    qed
    with e show ?thesis by blast
  qed
  have "\<forall>ip. if geo_candidate db t0 ip \<and> \<not> geo_fresh t1 (geo_lookup db ip)
      then \<exists>e. geo_lookup db' ip = Some e \<and> ge_LookedUpAt e = t2 else geo_lookup db' ip = geo_lookup db ip"
    using u e(2) by (simp add: s(1))
  with u o(1) shown show ?thesis by blast
qed

section \<open>Examples\<close>

text \<open>A month later the entry of the registered node is stale; the service answers for it.\<close>

definition example_geoip :: geoip_Client where
  "example_geoip = \<lparr>gc_Wait = (\<lambda>_. None),
     gc_Do = (\<lambda>_ items. Ok (StatusOK, Ok (map (\<lambda>i. \<lparr>br_Query = bq_Query i, br_Status = ''success'', br_Message = [], br_Lat = 5, br_Lon = 6,
       br_City = ''A'', br_Country = ''X''\<rparr>) items)))\<rparr>"

lemma example_refresh: "fst (snd (RefreshGeoIP (Some example_geoip) 5 (31 * 24 * Hour) (31 * 24 * Hour) example_map)) = [[''8.8.8.8'']]"
  by code_simp

theorem geo_refresh_private_witness:
  "\<exists>db' r. RefreshGeoIP (Some example_geoip) 5 (31 * 24 * Hour) (31 * 24 * Hour) example_map = (db', [[''8.8.8.8'']], r) \<and>
     (\<exists>n\<in>set (db_nodes example_map). node_ip example_map n ''8.8.8.8'')"
proof -
  obtain db' r where "RefreshGeoIP (Some example_geoip) 5 (31 * 24 * Hour) (31 * 24 * Hour) example_map = (db', [[''8.8.8.8'']], r)"
    using example_refresh by (metis prod.collapse)
  then show ?thesis using geo_refresh_private [of "Some example_geoip" 5 "31 * 24 * Hour" "31 * 24 * Hour" example_map db' "[[''8.8.8.8'']]" r]
    by (simp only: concat.simps append_Nil2 list.set(1,2) ball_simps insert_iff) blast
qed

theorem geo_refresh_complete_witness:
  "\<exists>db' sent r. RefreshGeoIP (Some example_geoip) 5 (31 * 24 * Hour) (31 * 24 * Hour) example_map = (db', sent, r) \<and>
     r = Ok () \<and> schema_ok db'"
proof -
  obtain db' sent r where x: "RefreshGeoIP (Some example_geoip) 5 (31 * 24 * Hour) (31 * 24 * Hour) example_map = (db', sent, r)"
    by (metis prod.collapse)
  from geo_refresh_complete [OF example_map_ok x] x show ?thesis by blast
qed

end
