(* ===== verification/Collector_Report.thy ===== *)
theory Collector_Report
  imports Auth Pg_Observations
begin

text \<open>
  \<^verbatim>\<open>internal/api/collector_report.go\<close>: the endpoint that takes a satellite's report.  A
  request is validated as a whole and then applied item by item through the interface
  \<^verbatim>\<open>storage.Store\<close>, so the operations take the store as an argument.  A wrapped error
  (\<^verbatim>\<open>fmt.Errorf\<close> with \<^verbatim>\<open>%w\<close>) is the error it wraps.  \<^verbatim>\<open>json.Unmarshal\<close> at the request
  type and \<^verbatim>\<open>uuid.NewSHA1\<close> are parameters.  The clock is read once per request.
\<close>

section \<open>Types\<close>

record collectorReportConfirmedNode =
  cn_Address :: string
  cn_PublicKey :: string
  cn_DiscoverySource :: string

record collectorReportDiscoveredNode =
  dn_Address :: string

record collectorReportHealthCheck =
  ch_Address :: string
  ch_Reachable :: bool
  ch_ProbeSource :: string
  ch_Height :: "int option"
  ch_ChainTipHeight :: "int option"
  ch_Version :: "string option"
  ch_LatencyMS :: "int option"
  ch_RxtHashrate :: "float64 option"
  ch_C29Hashrate :: "float64 option"
  ch_Sha3xHashrate :: "float64 option"
  ch_PeerIdentityUpdatedAt :: "time option"

record collectorReportPeerEdge =
  ce_FromAddress :: string
  ce_ToAddress :: string

record collectorReportRequest =
  cq_SelfIdentity :: "string list"
  cq_ConfirmedNodes :: "collectorReportConfirmedNode list"
  cq_DiscoveredNodes :: "collectorReportDiscoveredNode list"
  cq_HealthChecks :: "collectorReportHealthCheck list"
  cq_PeerEdges :: "collectorReportPeerEdge list"

record collectorReportResponse =
  ca_ConfirmedNodesApplied :: nat
  ca_DiscoveredNodesApplied :: nat
  ca_HealthChecksApplied :: nat
  ca_PeerEdgesApplied :: nat
  ca_SelfIdentityTagged :: nat

definition zeroResponse :: collectorReportResponse where
  "zeroResponse = \<lparr>ca_ConfirmedNodesApplied = 0, ca_DiscoveredNodesApplied = 0, ca_HealthChecksApplied = 0,
     ca_PeerEdgesApplied = 0, ca_SelfIdentityTagged = 0\<rparr>"

section \<open>Validation\<close>

definition validCollectorReportDiscoverySources :: "string \<Rightarrow> bool" where
  "validCollectorReportDiscoverySources s \<longleftrightarrow>
     s \<in> {DiscoverySourceP2P, DiscoverySourceRegistry, DiscoverySourceBoth}"

definition validCollectorReportProbeSources :: "string \<Rightarrow> bool" where
  "validCollectorReportProbeSources s \<longleftrightarrow> s \<in> {ProbeSourceGRPC, ProbeSourceP2P}"

definition validateReportedAddress :: "string \<Rightarrow> unit result" where
  "validateReportedAddress address =
     (case SplitHostPort address of
        Inl _ \<Rightarrow> Fail (Err ''invalid address'')
      | Inr (host, _) \<Rightarrow>
          (case ParseIP host of
             None \<Rightarrow> Ok ()
           | Some i \<Rightarrow> if IsPrivateOrReservedIP i
                       then Fail (Err ''address is a private/reserved IP address, not allowed'') else Ok ()))"

text \<open>The loops: the first item that is refused decides.\<close>

fun check_all :: "('a \<Rightarrow> unit result) \<Rightarrow> 'a list \<Rightarrow> unit result" where
  "check_all f [] = Ok ()"
| "check_all f (x # xs) = (case f x of Inl e \<Rightarrow> Fail e | Inr _ \<Rightarrow> check_all f xs)"

definition and_then :: "unit result \<Rightarrow> unit result \<Rightarrow> unit result" where
  "and_then p q = (case p of Inl e \<Rightarrow> Fail e | Inr _ \<Rightarrow> q)"

definition check_address :: "string \<Rightarrow> unit result" where
  "check_address a = (if a = [] then Fail (Err ''address is required'') else validateReportedAddress a)"

definition validateCollectorReportRequest :: "collectorReportRequest \<Rightarrow> unit result" where
  "validateCollectorReportRequest req =
     and_then (check_all check_address (cq_SelfIdentity req))
     (and_then (check_all (\<lambda>n. and_then (check_address (cn_Address n))
        (if cn_PublicKey n = [] then Fail (Err ''public_key is required'')
         else if hex_DecodeString (cn_PublicKey n) = None then Fail (Err ''public_key is not valid hex'')
         else if \<not> validCollectorReportDiscoverySources (cn_DiscoverySource n) then Fail (Err ''invalid discovery_source'')
         else Ok ())) (cq_ConfirmedNodes req))
     (and_then (check_all (\<lambda>n. check_address (dn_Address n)) (cq_DiscoveredNodes req))
     (and_then (check_all (\<lambda>h. and_then (check_address (ch_Address h))
        (if \<not> validCollectorReportProbeSources (ch_ProbeSource h) then Fail (Err ''invalid probe_source'') else Ok ()))
        (cq_HealthChecks req))
     (check_all (\<lambda>e. and_then (check_address (ce_FromAddress e)) (check_address (ce_ToAddress e))) (cq_PeerEdges req)))))"

section \<open>Applying a report\<close>

definition reportBatchIDNamespace :: uuid where
  "reportBatchIDNamespace = 0x8f1a6b2e2b8b4b8e9a4b9a6e6b2e8f1a"

definition reportBatchIDFromBody :: "(uuid \<Rightarrow> string \<Rightarrow> uuid) \<Rightarrow> string \<Rightarrow> uuid" where
  "reportBatchIDFromBody sha1 body = sha1 reportBatchIDNamespace body"

text \<open>The resolver's cache of addresses already resolved in this request.\<close>

type_synonym reportNodeResolver = "(string \<times> Node) list"

definition remember :: "string \<Rightarrow> Node \<Rightarrow> reportNodeResolver \<Rightarrow> reportNodeResolver" where
  "remember address n rr = AList.update address n rr"

definition resolve :: "'s Store \<Rightarrow> time \<Rightarrow> string \<Rightarrow> reportNodeResolver \<Rightarrow> ('s, Node \<times> reportNodeResolver) op" where
  "resolve store now address rr =
     (case lookup rr address of
        Some n \<Rightarrow> returnE (n, rr)
      | None \<Rightarrow> bindE (UpsertDiscoveredNode store now address DiscoverySourceP2P [] None) (\<lambda>n.
                 returnE (n, AList.update address n rr)))"

type_synonym progress = "collectorReportResponse \<times> reportNodeResolver"

definition apply_confirmed :: "'s Store \<Rightarrow> time \<Rightarrow> collectorReportConfirmedNode \<Rightarrow> progress \<Rightarrow> ('s, progress) op" where
  "apply_confirmed store now cn p =
     (case hex_DecodeString (cn_PublicKey cn) of
        None \<Rightarrow> throwE (Err ''confirmed_nodes: re-decode public_key'')
      | Some pubkey \<Rightarrow>
          bindE (UpsertConfirmedNode store now (cn_Address cn) pubkey DiscoverySourceP2P) (\<lambda>n.
          returnE ((fst p)\<lparr>ca_ConfirmedNodesApplied := ca_ConfirmedNodesApplied (fst p) + 1\<rparr>, remember (cn_Address cn) n (snd p))))"

definition apply_discovered :: "'s Store \<Rightarrow> time \<Rightarrow> collectorReportDiscoveredNode \<Rightarrow> progress \<Rightarrow> ('s, progress) op" where
  "apply_discovered store now dn p =
     bindE (UpsertDiscoveredNode store now (dn_Address dn) DiscoverySourceP2P [] None) (\<lambda>n.
     returnE ((fst p)\<lparr>ca_DiscoveredNodesApplied := ca_DiscoveredNodesApplied (fst p) + 1\<rparr>, remember (dn_Address dn) n (snd p)))"

definition apply_self_identity :: "'s Store \<Rightarrow> time \<Rightarrow> string list \<Rightarrow> string \<Rightarrow> progress \<Rightarrow> ('s, progress) op" where
  "apply_self_identity store now allowed addr p =
     (if addr \<notin> set allowed then returnE p
      else bindE (UpsertDiscoveredNode store now addr DiscoverySourceP2P [(''role'', JStr collectorRoleTagValue)] None) (\<lambda>_.
           returnE ((fst p)\<lparr>ca_SelfIdentityTagged := ca_SelfIdentityTagged (fst p) + 1\<rparr>, snd p)))"

definition health_input :: "string option \<Rightarrow> uuid \<Rightarrow> uuid \<Rightarrow> collectorReportHealthCheck \<Rightarrow> HealthCheckInput" where
  "health_input reportedBy batchID nodeID hc =
     \<lparr>hci_NodeID = nodeID, hci_Reachable = ch_Reachable hc, hci_ProbeSource = ch_ProbeSource hc,
      hci_Height = ch_Height hc, hci_ChainTipHeight = ch_ChainTipHeight hc, hci_Version = ch_Version hc,
      hci_LatencyMS = ch_LatencyMS hc, hci_RxtHashrate = ch_RxtHashrate hc, hci_C29Hashrate = ch_C29Hashrate hc,
      hci_Sha3xHashrate = ch_Sha3xHashrate hc, hci_PeerIdentityUpdatedAt = ch_PeerIdentityUpdatedAt hc,
      hci_ReportedByCollector = reportedBy, hci_ReportBatchID = Some batchID\<rparr>"

definition apply_health ::
  "'s Store \<Rightarrow> time \<Rightarrow> string option \<Rightarrow> uuid \<Rightarrow> collectorReportHealthCheck \<Rightarrow> progress \<Rightarrow> ('s, progress) op" where
  "apply_health store now reportedBy batchID hc p =
     bindE (resolve store now (ch_Address hc) (snd p)) (\<lambda>(n, rr).
     bindE (RecordHealthCheck store now (health_input reportedBy batchID (n_ID n) hc)) (\<lambda>_.
     returnE ((fst p)\<lparr>ca_HealthChecksApplied := ca_HealthChecksApplied (fst p) + 1\<rparr>, rr)))"

definition apply_edge ::
  "'s Store \<Rightarrow> time \<Rightarrow> PeerEdgeReportMeta \<Rightarrow> collectorReportPeerEdge \<Rightarrow> progress \<Rightarrow> ('s, progress) op" where
  "apply_edge store now peerEdgeMeta pe p =
     bindE (resolve store now (ce_FromAddress pe) (snd p)) (\<lambda>(fromNode, rr).
     bindE (resolve store now (ce_ToAddress pe) rr) (\<lambda>(toNode, rr).
     bindE (RecordPeerEdgeObservation store now (n_ID fromNode) (n_ID toNode) (Some peerEdgeMeta)) (\<lambda>_.
     returnE ((fst p)\<lparr>ca_PeerEdgesApplied := ca_PeerEdgesApplied (fst p) + 1\<rparr>, rr))))"

definition applyCollectorReport ::
  "'s Store \<Rightarrow> time \<Rightarrow> collectorReportRequest \<Rightarrow> collectorContext \<Rightarrow> uuid \<Rightarrow> ('s, collectorReportResponse) op" where
  "applyCollectorReport store now req collector batchID =
     (let reportedBy = (if cx_Name collector \<noteq> [] then Some (cx_Name collector) else None);
          peerEdgeMeta = \<lparr>pm_ReportedByCollector = cx_Name collector, pm_ReportBatchID = Some batchID\<rparr>
      in bindE (forE (apply_confirmed store now) (cq_ConfirmedNodes req) (zeroResponse, [])) (\<lambda>p.
         bindE (forE (apply_discovered store now) (cq_DiscoveredNodes req) p) (\<lambda>p.
         bindE (forE (apply_self_identity store now (cx_SelfAddresses collector)) (cq_SelfIdentity req) p) (\<lambda>p.
         bindE (forE (apply_health store now reportedBy batchID) (cq_HealthChecks req) p) (\<lambda>p.
         bindE (forE (apply_edge store now peerEdgeMeta) (cq_PeerEdges req) p) (\<lambda>p.
         returnE (fst p)))))))"

section \<open>The handler\<close>

definition maxCollectorReportBodyBytes :: nat where "maxCollectorReportBodyBytes = 33554432"

text \<open>\<^verbatim>\<open>io.ReadAll(io.LimitReader(r.Body, n))\<close>: at most \<open>n\<close> bytes are read.\<close>

definition readLimited :: "nat \<Rightarrow> string result \<Rightarrow> string result" where
  "readLimited n body = (case body of Inl e \<Rightarrow> Fail e | Inr b \<Rightarrow> Ok (take n b))"

definition handleCollectorReport ::
  "(uuid \<Rightarrow> string \<Rightarrow> uuid) \<Rightarrow> (string \<Rightarrow> collectorReportRequest option) \<Rightarrow> 's Store \<Rightarrow> time \<Rightarrow> collectorContext \<Rightarrow>
   ('s, collectorReportResponse) handler" where
  "handleCollectorReport sha1 unmarshal store now cc r s =
     (case readLimited maxCollectorReportBodyBytes (rq_Body r) of
        Inl e \<Rightarrow> (s, ErrorResponse StatusBadRequest e)
      | Inr rawBody \<Rightarrow>
          (case unmarshal rawBody of
             None \<Rightarrow> (s, ErrorResponse StatusBadRequest (Err ''invalid JSON body''))
           | Some req \<Rightarrow>
               (case validateCollectorReportRequest req of
                  Inl e \<Rightarrow> (s, ErrorResponse StatusBadRequest e)
                | Inr _ \<Rightarrow>
                    (case applyCollectorReport store now req cc (reportBatchIDFromBody sha1 rawBody) s of
                       (s', Inl e) \<Rightarrow> (s', ErrorResponse StatusInternalServerError e)
                     | (s', Inr resp) \<Rightarrow> (s', Response StatusOK resp)))))"

section \<open>What validation guarantees\<close>

lemma check_all_Ok: "check_all f xs = Ok () \<longleftrightarrow> (\<forall>x\<in>set xs. f x = Ok ())"
  by (induction xs) (auto split: sum.splits)

lemma and_then_Ok: "and_then p q = Ok () \<longleftrightarrow> p = Ok () \<and> q = Ok ()"
  by (auto simp: and_then_def split: sum.splits)

lemma hex_DecodeString_nonempty: "hex_DecodeString s = Some bs \<Longrightarrow> s \<noteq> [] \<Longrightarrow> bs \<noteq> []"
  by (induction s rule: hex_DecodeString.induct) (auto split: option.splits)

definition report_valid :: "collectorReportRequest \<Rightarrow> bool" where
  "report_valid req \<longleftrightarrow>
     (\<forall>a\<in>set (cq_SelfIdentity req). a \<noteq> []) \<and>
     (\<forall>n\<in>set (cq_ConfirmedNodes req). cn_Address n \<noteq> [] \<and> (\<exists>pk. hex_DecodeString (cn_PublicKey n) = Some pk \<and> pk \<noteq> [])) \<and>
     (\<forall>n\<in>set (cq_DiscoveredNodes req). dn_Address n \<noteq> []) \<and>
     (\<forall>h\<in>set (cq_HealthChecks req). ch_Address h \<noteq> [] \<and> valid_probe (ch_ProbeSource h)) \<and>
     (\<forall>e\<in>set (cq_PeerEdges req). ce_FromAddress e \<noteq> [] \<and> ce_ToAddress e \<noteq> [])"

lemma validated_report_valid:
  assumes "validateCollectorReportRequest req = Ok ()"
  shows "report_valid req"
proof -
  have a: "check_address a = Ok () \<Longrightarrow> a \<noteq> []" for a by (auto simp: check_address_def split: if_splits)
  show ?thesis
    using assms hex_DecodeString_nonempty
    by (fastforce simp: validateCollectorReportRequest_def and_then_Ok check_all_Ok report_valid_def
        validCollectorReportProbeSources_def valid_probe_def split: if_splits dest!: a)
qed

section \<open>A validated report is applied completely\<close>

text \<open>What an item of a report leaves among the facts of the store.\<close>

definition confirmed_in :: "fact set \<Rightarrow> collectorReportConfirmedNode \<Rightarrow> bool" where
  "confirmed_in F c \<longleftrightarrow> (\<exists>i pk. hex_DecodeString (cn_PublicKey c) = Some pk \<and> {Keyed i pk, Holds i (cn_Address c)} \<subseteq> F)"

definition held_in :: "fact set \<Rightarrow> string \<Rightarrow> bool" where
  "held_in F a \<longleftrightarrow> (\<exists>i. Holds i a \<in> F)"

definition health_in :: "uuid \<Rightarrow> fact set \<Rightarrow> collectorReportHealthCheck \<Rightarrow> bool" where
  "health_in b F h \<longleftrightarrow> (\<exists>i. {Holds i (ch_Address h), Checked i b} \<subseteq> F)"

definition edge_in :: "uuid \<Rightarrow> fact set \<Rightarrow> collectorReportPeerEdge \<Rightarrow> bool" where
  "edge_in b F e \<longleftrightarrow> (\<exists>i j. {Holds i (ce_FromAddress e), Holds j (ce_ToAddress e), Observed i j b} \<subseteq> F)"

definition cache_in :: "fact set \<Rightarrow> reportNodeResolver \<Rightarrow> bool" where
  "cache_in F rr \<longleftrightarrow> (\<forall>(a, n)\<in>set rr. Holds (n_ID n) a \<in> F)"

lemmas in_defs = confirmed_in_def held_in_def health_in_def edge_in_def cache_in_def

lemma in_mono:
  assumes "F \<subseteq> G"
  shows "confirmed_in F c \<Longrightarrow> confirmed_in G c" "held_in F a \<Longrightarrow> held_in G a" "health_in b F h \<Longrightarrow> health_in b G h"
    "edge_in b F e \<Longrightarrow> edge_in b G e" "cache_in F rr \<Longrightarrow> cache_in G rr"
  using assms unfolding in_defs by blast+

lemma cache_in_update: "cache_in F rr \<Longrightarrow> Holds (n_ID n) a \<in> F \<Longrightarrow> cache_in F (AList.update a n rr)"
  using set_update_subset [of a n rr] unfolding cache_in_def by blast

definition report_in :: "fact set \<Rightarrow> uuid \<Rightarrow> string list \<Rightarrow> collectorReportRequest \<Rightarrow> bool" where
  "report_in F b allowed req \<longleftrightarrow>
     (\<forall>c\<in>set (cq_ConfirmedNodes req). confirmed_in F c) \<and>
     (\<forall>d\<in>set (cq_DiscoveredNodes req). held_in F (dn_Address d)) \<and>
     (\<forall>a\<in>set (cq_SelfIdentity req). a \<in> set allowed \<longrightarrow> held_in F a) \<and>
     (\<forall>h\<in>set (cq_HealthChecks req). health_in b F h) \<and>
     (\<forall>e\<in>set (cq_PeerEdges req). edge_in b F e)"

definition report_counts :: "string list \<Rightarrow> collectorReportRequest \<Rightarrow> collectorReportResponse" where
  "report_counts allowed req =
     \<lparr>ca_ConfirmedNodesApplied = length (cq_ConfirmedNodes req), ca_DiscoveredNodesApplied = length (cq_DiscoveredNodes req),
      ca_HealthChecksApplied = length (cq_HealthChecks req), ca_PeerEdgesApplied = length (cq_PeerEdges req),
      ca_SelfIdentityTagged = length (filter (\<lambda>a. a \<in> set allowed) (cq_SelfIdentity req))\<rparr>"

lemma fold_counts:
  "fold (\<lambda>_ r. r\<lparr>ca_DiscoveredNodesApplied := ca_DiscoveredNodesApplied r + 1\<rparr>) xs r =
    r\<lparr>ca_DiscoveredNodesApplied := ca_DiscoveredNodesApplied r + length xs\<rparr>"
  "fold (\<lambda>a r. if P a then r\<lparr>ca_SelfIdentityTagged := ca_SelfIdentityTagged r + 1\<rparr> else r) ys r =
    r\<lparr>ca_SelfIdentityTagged := ca_SelfIdentityTagged r + length (filter P ys)\<rparr>"
  "fold (\<lambda>_ r. r\<lparr>ca_HealthChecksApplied := ca_HealthChecksApplied r + 1\<rparr>) zs r =
    r\<lparr>ca_HealthChecksApplied := ca_HealthChecksApplied r + length zs\<rparr>"
  "fold (\<lambda>_ r. r\<lparr>ca_PeerEdgesApplied := ca_PeerEdgesApplied r + 1\<rparr>) ws r =
    r\<lparr>ca_PeerEdgesApplied := ca_PeerEdgesApplied r + length ws\<rparr>"
  by (induction xs arbitrary: r, simp_all) (induction ys arbitrary: r, simp_all,
    induction zs arbitrary: r, simp_all, induction ws arbitrary: r, simp_all)

context reporting_store
begin

text \<open>The laws as facts about one call.\<close>

lemma discovered_call:
  assumes "UpsertDiscoveredNode store now a src tags label s = (s', r)" "inv s" "a \<noteq> []" "valid_source src"
  shows "inv s' \<and> (case r of Inl e \<Rightarrow> fault e | Inr n \<Rightarrow> insert (Holds (n_ID n) a) (facts s) \<subseteq> facts s')"
  using tripleD [OF discovered_facts [OF assms(3,4), of "facts s"] _ assms(1)] assms(2) by (auto split: sum.splits)

lemma confirmed_call:
  assumes "UpsertConfirmedNode store now a pk src s = (s', r)" "inv s" "a \<noteq> []" "pk \<noteq> []" "valid_source src"
  shows "inv s' \<and> (case r of Inl e \<Rightarrow> fault e
    | Inr n \<Rightarrow> {Keyed (n_ID n) pk, Holds (n_ID n) a} \<subseteq> facts s' \<and>
        (\<forall>i k b. Keyed i k \<in> facts s \<longrightarrow> Keyed i k \<in> facts s' \<and> (Holds i b \<in> facts s \<longrightarrow> Holds i b \<in> facts s')))"
proof -
  let ?F = "{f \<in> facts s. \<exists>i k. Keyed i k \<in> facts s \<and> (f = Known i \<or> (\<exists>b. f = Holds i b) \<or> (\<exists>k. f = Keyed i k))}"
  have "anchored ?F" by (auto simp: anchored_def)
  from tripleD [OF confirmed_facts [OF assms(3-5) this] _ assms(1)] assms(2) show ?thesis
    by (auto split: sum.splits)
qed

lemma confirmed_phase:
  assumes "\<forall>c\<in>set cs. cn_Address c \<noteq> [] \<and> (\<exists>pk. hex_DecodeString (cn_PublicKey c) = Some pk \<and> pk \<noteq> [])"
  shows "triple inv (forE (apply_confirmed store now) cs (zeroResponse, []))
    (\<lambda>p s. inv s \<and> cache_in (facts s) (snd p) \<and> (\<forall>c\<in>set cs. confirmed_in (facts s) c) \<and>
       fst p = zeroResponse\<lparr>ca_ConfirmedNodesApplied := length cs\<rparr>) (\<lambda>e s. inv s \<and> fault e)"
proof -
  define I where "I = (\<lambda>xs (p :: progress) s. inv s \<and> (\<forall>(a, n)\<in>set (snd p). Holds (n_ID n) a \<in> facts s \<and> (\<exists>k. Keyed (n_ID n) k \<in> facts s)) \<and>
    (\<forall>c\<in>set xs. confirmed_in (facts s) c) \<and> fst p = zeroResponse\<lparr>ca_ConfirmedNodesApplied := length xs\<rparr>)"
  have "triple (I [] (zeroResponse, [])) (forE (apply_confirmed store now) cs (zeroResponse, [])) (I cs) (\<lambda>e s. inv s \<and> fault e)"
  proof (rule triple_forE [where I = I], rule tripleI)
    fix pre c post p s s' r
    assume cs: "cs = pre @ c # post" and Ip: "I pre p s" and a: "apply_confirmed store now c p s = (s', r)"
    obtain pk where pk: "hex_DecodeString (cn_PublicKey c) = Some pk" "pk \<noteq> []" "cn_Address c \<noteq> []"
      using assms cs by auto
    obtain s1 r1 where u: "UpsertConfirmedNode store now (cn_Address c) pk DiscoverySourceP2P s = (s1, r1)" by (metis surj_pair)
    note k = confirmed_call [OF u _ pk(3,2)]
    show "case r of Inl e \<Rightarrow> inv s' \<and> fault e | Inr p' \<Rightarrow> I (pre @ [c]) p' s'"
    proof (cases r1)
      case (Inl e)
      then show ?thesis using a u pk(1) k Ip by (auto simp: I_def apply_confirmed_def bindE_def valid_source_def)
    next
      case (Inr n)
      let ?rr = "AList.update (cn_Address c) n (snd p)"
      have r: "s' = s1" "r = Ok ((fst p)\<lparr>ca_ConfirmedNodesApplied := ca_ConfirmedNodesApplied (fst p) + 1\<rparr>, ?rr)"
        using a u pk(1) Inr by (auto simp: apply_confirmed_def bindE_def remember_def)
      have n: "inv s1" "Keyed (n_ID n) pk \<in> facts s1" "Holds (n_ID n) (cn_Address c) \<in> facts s1"
        "\<And>i k b. Keyed i k \<in> facts s \<Longrightarrow> Keyed i k \<in> facts s1"
        "\<And>i k b. Keyed i k \<in> facts s \<Longrightarrow> Holds i b \<in> facts s \<Longrightarrow> Holds i b \<in> facts s1"
        using k Ip Inr by (auto simp: I_def valid_source_def)
      have "confirmed_in (facts s1) d" if "confirmed_in (facts s) d" for d
      proof -
        from that obtain i k where "hex_DecodeString (cn_PublicKey d) = Some k" "Keyed i k \<in> facts s" "Holds i (cn_Address d) \<in> facts s"
          by (auto simp: confirmed_in_def)
        then show ?thesis unfolding confirmed_in_def using n(4) [of i k] n(5) [of i k] by auto
      qed
      moreover have "confirmed_in (facts s1) c" using n(2,3) pk(1) by (auto simp: confirmed_in_def)
      moreover have "Holds (n_ID m) a \<in> facts s1 \<and> (\<exists>k. Keyed (n_ID m) k \<in> facts s1)" if "(a, m) \<in> set ?rr" for a m
      proof -
        from that set_update_subset [of "cn_Address c" n "snd p"]
        consider "a = cn_Address c" "m = n" | "(a, m) \<in> set (snd p)" by blast
        then show ?thesis
        proof cases
          case 2
          then obtain k where "Holds (n_ID m) a \<in> facts s" "Keyed (n_ID m) k \<in> facts s" using Ip by (auto simp: I_def)
          then show ?thesis using n(4,5) by blast
        qed (use n(2,3) in blast)
      qed
      ultimately show ?thesis using r n(1) Ip by (auto simp: I_def)
    qed
  qed
  then show ?thesis by (rule triple_mono) (auto simp: I_def cache_in_def zeroResponse_def)
qed

lemma resolve_triple:
  assumes "a \<noteq> []" "\<And>s s'. facts s \<subseteq> facts s' \<Longrightarrow> M s \<Longrightarrow> M s'"
  shows "triple (\<lambda>s. inv s \<and> cache_in (facts s) rr \<and> M s) (resolve store now a rr)
    (\<lambda>x s. inv s \<and> cache_in (facts s) (snd x) \<and> M s \<and> Holds (n_ID (fst x)) a \<in> facts s) (\<lambda>e s. inv s \<and> fault e)"
proof (rule tripleI)
  fix s s' r
  assume I: "inv s \<and> cache_in (facts s) rr \<and> M s" and u: "resolve store now a rr s = (s', r)"
  show "case r of Inl e \<Rightarrow> inv s' \<and> fault e
    | Inr x \<Rightarrow> inv s' \<and> cache_in (facts s') (snd x) \<and> M s' \<and> Holds (n_ID (fst x)) a \<in> facts s'"
  proof (cases "lookup rr a")
    case (Some n)
    then have "(a, n) \<in> set rr" by (rule map_of_SomeD)
    then show ?thesis using I u Some by (auto simp: resolve_def cache_in_def)
  next
    case None
    obtain s1 r1 where d: "UpsertDiscoveredNode store now a DiscoverySourceP2P [] None s = (s1, r1)" by (metis surj_pair)
    note k = discovered_call [OF d _ assms(1)]
    show ?thesis
    proof (cases r1)
      case (Inl e)
      then show ?thesis using u d None k I by (auto simp: resolve_def bindE_def valid_source_def)
    next
      case (Inr n)
      then have "inv s1" "Holds (n_ID n) a \<in> facts s1" "facts s \<subseteq> facts s1" using k I by (auto simp: valid_source_def)
      moreover have "s' = s1" "r = Ok (n, AList.update a n rr)" using u d None Inr by (auto simp: resolve_def bindE_def)
      ultimately show ?thesis using I assms(2) [of s s1] in_mono(5) [of "facts s" "facts s1" rr] by (auto intro: cache_in_update)
    qed
  qed
qed

text \<open>One phase: items that each establish a goal and advance a counter, keeping what holds already.\<close>

lemma phase:
  assumes step: "\<And>x p M. x \<in> set xs \<Longrightarrow> (\<And>s s'. facts s \<subseteq> facts s' \<Longrightarrow> M s \<Longrightarrow> M s') \<Longrightarrow>
      triple (\<lambda>s. inv s \<and> cache_in (facts s) (snd p) \<and> M s) (f x p)
        (\<lambda>p' s. inv s \<and> cache_in (facts s) (snd p') \<and> M s \<and> goal (facts s) x \<and> fst p' = cnt x (fst p)) (\<lambda>e s. inv s \<and> fault e)"
    and goal: "\<And>F G x. F \<subseteq> G \<Longrightarrow> goal F x \<Longrightarrow> goal G x"
    and M: "\<And>s s'. facts s \<subseteq> facts s' \<Longrightarrow> M s \<Longrightarrow> M s'"
  shows "triple (\<lambda>s. inv s \<and> cache_in (facts s) (snd p) \<and> M s) (forE f xs p)
    (\<lambda>p' s. inv s \<and> cache_in (facts s) (snd p') \<and> M s \<and> (\<forall>x\<in>set xs. goal (facts s) x) \<and> fst p' = fold cnt xs (fst p))
    (\<lambda>e s. inv s \<and> fault e)"
  using step M
proof (induction xs arbitrary: p M)
  case Nil
  then show ?case by (simp add: triple_def)
next
  case (Cons x xs)
  let ?M = "\<lambda>p' s. M s \<and> goal (facts s) x \<and> fst p' = cnt x (fst p)"
  have M': "facts s \<subseteq> facts s' \<Longrightarrow> ?M p' s \<Longrightarrow> ?M p' s'" for p' s s' using Cons.prems(2) goal by blast
  show ?case unfolding forE.simps
  proof (rule triple_bind)
    show "triple (\<lambda>s. inv s \<and> cache_in (facts s) (snd p) \<and> M s) (f x p)
        (\<lambda>p' s. inv s \<and> cache_in (facts s) (snd p') \<and> ?M p' s) (\<lambda>e s. inv s \<and> fault e)"
      by (rule Cons.prems(1)) (use Cons.prems(2) in auto)
    show "triple (\<lambda>s. inv s \<and> cache_in (facts s) (snd p') \<and> ?M p' s) (forE f xs p')
        (\<lambda>p' s. inv s \<and> cache_in (facts s) (snd p') \<and> M s \<and> (\<forall>x\<in>set (x # xs). goal (facts s) x) \<and>
           fst p' = fold cnt (x # xs) (fst p)) (\<lambda>e s. inv s \<and> fault e)" for p'
      by (rule triple_mono [OF Cons.IH [of "?M p'" p', OF Cons.prems(1) M']]) auto
  qed
qed

lemma discovered_step:
  assumes "dn_Address d \<noteq> []" "\<And>s s'. facts s \<subseteq> facts s' \<Longrightarrow> M s \<Longrightarrow> M s'"
  shows "triple (\<lambda>s. inv s \<and> cache_in (facts s) (snd p) \<and> M s) (apply_discovered store now d p)
    (\<lambda>p' s. inv s \<and> cache_in (facts s) (snd p') \<and> M s \<and> held_in (facts s) (dn_Address d) \<and>
       fst p' = (fst p)\<lparr>ca_DiscoveredNodesApplied := ca_DiscoveredNodesApplied (fst p) + 1\<rparr>) (\<lambda>e s. inv s \<and> fault e)"
proof (rule tripleI)
  fix s s' r
  assume I: "inv s \<and> cache_in (facts s) (snd p) \<and> M s" and a: "apply_discovered store now d p s = (s', r)"
  obtain s1 r1 where u: "UpsertDiscoveredNode store now (dn_Address d) DiscoverySourceP2P [] None s = (s1, r1)" by (metis surj_pair)
  note k = discovered_call [OF u _ assms(1)]
  show "case r of Inl e \<Rightarrow> inv s' \<and> fault e | Inr p' \<Rightarrow> inv s' \<and> cache_in (facts s') (snd p') \<and> M s' \<and>
    held_in (facts s') (dn_Address d) \<and> fst p' = (fst p)\<lparr>ca_DiscoveredNodesApplied := ca_DiscoveredNodesApplied (fst p) + 1\<rparr>"
  proof (cases r1)
    case (Inl e)
    then show ?thesis using a u k I by (auto simp: apply_discovered_def bindE_def valid_source_def)
  next
    case (Inr n)
    then have "inv s1" "Holds (n_ID n) (dn_Address d) \<in> facts s1" "facts s \<subseteq> facts s1" using k I by (auto simp: valid_source_def)
    then show ?thesis
      using a u Inr I assms(2) [of s s1] in_mono(5) [of "facts s" "facts s1" "snd p"]
      by (auto simp: apply_discovered_def bindE_def remember_def held_in_def intro: cache_in_update)
  qed
qed

lemma self_identity_step:
  assumes "a \<noteq> []" "\<And>s s'. facts s \<subseteq> facts s' \<Longrightarrow> M s \<Longrightarrow> M s'"
  shows "triple (\<lambda>s. inv s \<and> cache_in (facts s) (snd p) \<and> M s) (apply_self_identity store now allowed a p)
    (\<lambda>p' s. inv s \<and> cache_in (facts s) (snd p') \<and> M s \<and> (a \<in> set allowed \<longrightarrow> held_in (facts s) a) \<and>
       fst p' = (if a \<in> set allowed then (fst p)\<lparr>ca_SelfIdentityTagged := ca_SelfIdentityTagged (fst p) + 1\<rparr> else fst p))
    (\<lambda>e s. inv s \<and> fault e)"
proof (rule tripleI)
  fix s s' r
  assume I: "inv s \<and> cache_in (facts s) (snd p) \<and> M s" and ap: "apply_self_identity store now allowed a p s = (s', r)"
  obtain s1 r1 where u: "UpsertDiscoveredNode store now a DiscoverySourceP2P [(''role'', JStr collectorRoleTagValue)] None s = (s1, r1)"
    by (metis surj_pair)
  note k = discovered_call [OF u _ assms(1)]
  show "case r of Inl e \<Rightarrow> inv s' \<and> fault e | Inr p' \<Rightarrow> inv s' \<and> cache_in (facts s') (snd p') \<and> M s' \<and>
    (a \<in> set allowed \<longrightarrow> held_in (facts s') a) \<and>
    fst p' = (if a \<in> set allowed then (fst p)\<lparr>ca_SelfIdentityTagged := ca_SelfIdentityTagged (fst p) + 1\<rparr> else fst p)"
  proof (cases "a \<in> set allowed \<and> is_ok r1")
    case True
    then obtain n where n: "r1 = Inr n" by (auto simp: is_ok_iff)
    then have "inv s1" "Holds (n_ID n) a \<in> facts s1" "facts s \<subseteq> facts s1" using k I by (auto simp: valid_source_def)
    then show ?thesis
      using ap u n True I assms(2) [of s s1] in_mono(5) [of "facts s" "facts s1" "snd p"]
      by (auto simp: apply_self_identity_def bindE_def held_in_def)
  next
    case False
    then show ?thesis using ap u k I
      by (cases r1) (auto simp: apply_self_identity_def bindE_def valid_source_def split: if_splits)
  qed
qed

lemma health_triple:
  assumes "\<And>s s'. facts s \<subseteq> facts s' \<Longrightarrow> M s \<Longrightarrow> M s'" "\<And>s. inv s \<Longrightarrow> M s \<Longrightarrow> Known (hci_NodeID inp) \<in> facts s"
    "valid_probe (hci_ProbeSource inp)" "hci_ReportBatchID inp = Some b"
  shows "triple (\<lambda>s. inv s \<and> M s) (RecordHealthCheck store now inp)
    (\<lambda>_ s. inv s \<and> M s \<and> Checked (hci_NodeID inp) b \<in> facts s) (\<lambda>e s. inv s \<and> fault e)"
proof (rule tripleI)
  fix s s' r assume s: "inv s \<and> M s" and r: "RecordHealthCheck store now inp s = (s', r)"
  from tripleD [OF health_facts [OF assms(2) assms(3)] _ r] s assms(4)
  show "case r of Inl e \<Rightarrow> inv s' \<and> fault e | Inr _ \<Rightarrow> inv s' \<and> M s' \<and> Checked (hci_NodeID inp) b \<in> facts s'"
    using assms(1) [of s s'] by (auto split: sum.splits)
qed

lemma edge_triple:
  assumes "\<And>s s'. facts s \<subseteq> facts s' \<Longrightarrow> M s \<Longrightarrow> M s'"
    "\<And>s. inv s \<Longrightarrow> M s \<Longrightarrow> Known x \<in> facts s \<and> Known y \<in> facts s" "pm_ReportBatchID m = Some b"
  shows "triple (\<lambda>s. inv s \<and> M s) (RecordPeerEdgeObservation store now x y (Some m))
    (\<lambda>_ s. inv s \<and> M s \<and> Observed x y b \<in> facts s) (\<lambda>e s. inv s \<and> fault e)"
proof (rule tripleI)
  fix s s' r assume s: "inv s \<and> M s" and r: "RecordPeerEdgeObservation store now x y (Some m) s = (s', r)"
  from tripleD [OF edge_facts [of x "facts s" y] _ r] s assms(2,3)
  show "case r of Inl e \<Rightarrow> inv s' \<and> fault e | Inr _ \<Rightarrow> inv s' \<and> M s' \<and> Observed x y b \<in> facts s'"
    using assms(1) [of s s'] by (auto split: sum.splits)
qed

lemma health_step:
  assumes "ch_Address h \<noteq> []" "valid_probe (ch_ProbeSource h)" "\<And>s s'. facts s \<subseteq> facts s' \<Longrightarrow> M s \<Longrightarrow> M s'"
  shows "triple (\<lambda>s. inv s \<and> cache_in (facts s) (snd p) \<and> M s) (apply_health store now by b h p)
    (\<lambda>p' s. inv s \<and> cache_in (facts s) (snd p') \<and> M s \<and> health_in b (facts s) h \<and>
       fst p' = (fst p)\<lparr>ca_HealthChecksApplied := ca_HealthChecksApplied (fst p) + 1\<rparr>) (\<lambda>e s. inv s \<and> fault e)"
  unfolding apply_health_def
proof (rule triple_bind, rule resolve_triple [where M = M])
  fix x :: "Node \<times> reportNodeResolver"
  obtain n rr where x: "x = (n, rr)" by (cases x)
  let ?M = "\<lambda>s. cache_in (facts s) rr \<and> M s \<and> Holds (n_ID n) (ch_Address h) \<in> facts s"
  have "triple (\<lambda>s. inv s \<and> ?M s) (RecordHealthCheck store now (health_input by b (n_ID n) h))
    (\<lambda>_ s. inv s \<and> ?M s \<and> Checked (hci_NodeID (health_input by b (n_ID n) h)) b \<in> facts s) (\<lambda>e s. inv s \<and> fault e)"
    by (rule health_triple) (use assms(2,3) in_mono(5) holds_known in \<open>auto simp: health_input_def\<close>)
  then have "triple (\<lambda>s. inv s \<and> ?M s) (bindE (RecordHealthCheck store now (health_input by b (n_ID n) h)) (\<lambda>_.
      returnE ((fst p)\<lparr>ca_HealthChecksApplied := ca_HealthChecksApplied (fst p) + 1\<rparr>, rr)))
    (\<lambda>p' s. inv s \<and> cache_in (facts s) (snd p') \<and> M s \<and> health_in b (facts s) h \<and>
       fst p' = (fst p)\<lparr>ca_HealthChecksApplied := ca_HealthChecksApplied (fst p) + 1\<rparr>) (\<lambda>e s. inv s \<and> fault e)"
    by (rule triple_bind) (rule triple_return, auto simp: health_in_def health_input_def)
  then show "triple (\<lambda>s. inv s \<and> cache_in (facts s) (snd x) \<and> M s \<and> Holds (n_ID (fst x)) (ch_Address h) \<in> facts s)
    ((case x of (n, rr) \<Rightarrow> bindE (RecordHealthCheck store now (health_input by b (n_ID n) h)) (\<lambda>_.
      returnE ((fst p)\<lparr>ca_HealthChecksApplied := ca_HealthChecksApplied (fst p) + 1\<rparr>, rr))))
    (\<lambda>p' s. inv s \<and> cache_in (facts s) (snd p') \<and> M s \<and> health_in b (facts s) h \<and>
       fst p' = (fst p)\<lparr>ca_HealthChecksApplied := ca_HealthChecksApplied (fst p) + 1\<rparr>) (\<lambda>e s. inv s \<and> fault e)"
    by (simp add: x)
qed (use assms in auto)

lemma edge_step:
  assumes "ce_FromAddress e \<noteq> []" "ce_ToAddress e \<noteq> []" "pm_ReportBatchID m = Some b"
    and M: "\<And>s s'. facts s \<subseteq> facts s' \<Longrightarrow> M s \<Longrightarrow> M s'"
  shows "triple (\<lambda>s. inv s \<and> cache_in (facts s) (snd p) \<and> M s) (apply_edge store now m e p)
    (\<lambda>p' s. inv s \<and> cache_in (facts s) (snd p') \<and> M s \<and> edge_in b (facts s) e \<and>
       fst p' = (fst p)\<lparr>ca_PeerEdgesApplied := ca_PeerEdgesApplied (fst p) + 1\<rparr>) (\<lambda>e s. inv s \<and> fault e)"
  unfolding apply_edge_def
proof (rule triple_bind, rule resolve_triple [where M = M])
  let ?post = "\<lambda>(p' :: progress) s. inv s \<and> cache_in (facts s) (snd p') \<and> M s \<and> edge_in b (facts s) e \<and>
       fst p' = (fst p)\<lparr>ca_PeerEdgesApplied := ca_PeerEdgesApplied (fst p) + 1\<rparr>"
  fix x :: "Node \<times> reportNodeResolver"
  obtain n rr where x: "x = (n, rr)" by (cases x)
  let ?M1 = "\<lambda>s. M s \<and> Holds (n_ID n) (ce_FromAddress e) \<in> facts s"
  have "triple (\<lambda>s. inv s \<and> cache_in (facts s) rr \<and> ?M1 s) (bindE (resolve store now (ce_ToAddress e) rr) (\<lambda>(toNode, rr).
     bindE (RecordPeerEdgeObservation store now (n_ID n) (n_ID toNode) (Some m)) (\<lambda>_.
     returnE ((fst p)\<lparr>ca_PeerEdgesApplied := ca_PeerEdgesApplied (fst p) + 1\<rparr>, rr)))) ?post (\<lambda>e s. inv s \<and> fault e)"
  proof (rule triple_bind, rule resolve_triple [where M = ?M1])
    fix y :: "Node \<times> reportNodeResolver"
    obtain n2 rr2 where y: "y = (n2, rr2)" by (cases y)
    let ?M2 = "\<lambda>s. cache_in (facts s) rr2 \<and> ?M1 s \<and> Holds (n_ID n2) (ce_ToAddress e) \<in> facts s"
    have "triple (\<lambda>s. inv s \<and> ?M2 s) (RecordPeerEdgeObservation store now (n_ID n) (n_ID n2) (Some m))
      (\<lambda>_ s. inv s \<and> ?M2 s \<and> Observed (n_ID n) (n_ID n2) b \<in> facts s) (\<lambda>e s. inv s \<and> fault e)"
      by (rule edge_triple) (use assms(3) M in_mono(5) holds_known in auto)
    then have "triple (\<lambda>s. inv s \<and> ?M2 s) (bindE (RecordPeerEdgeObservation store now (n_ID n) (n_ID n2) (Some m)) (\<lambda>_.
      returnE ((fst p)\<lparr>ca_PeerEdgesApplied := ca_PeerEdgesApplied (fst p) + 1\<rparr>, rr2))) ?post (\<lambda>e s. inv s \<and> fault e)"
      by (rule triple_bind) (rule triple_return, auto simp: edge_in_def)
    then show "triple (\<lambda>s. inv s \<and> cache_in (facts s) (snd y) \<and> ?M1 s \<and> Holds (n_ID (fst y)) (ce_ToAddress e) \<in> facts s)
      (case y of (toNode, rr) \<Rightarrow> bindE (RecordPeerEdgeObservation store now (n_ID n) (n_ID toNode) (Some m)) (\<lambda>_.
        returnE ((fst p)\<lparr>ca_PeerEdgesApplied := ca_PeerEdgesApplied (fst p) + 1\<rparr>, rr))) ?post (\<lambda>e s. inv s \<and> fault e)"
      by (simp add: y)
  qed (use assms(2) M in auto)
  then show "triple (\<lambda>s. inv s \<and> cache_in (facts s) (snd x) \<and> M s \<and> Holds (n_ID (fst x)) (ce_FromAddress e) \<in> facts s)
    (case x of (fromNode, rr) \<Rightarrow> bindE (resolve store now (ce_ToAddress e) rr) (\<lambda>(toNode, rr).
     bindE (RecordPeerEdgeObservation store now (n_ID fromNode) (n_ID toNode) (Some m)) (\<lambda>_.
     returnE ((fst p)\<lparr>ca_PeerEdgesApplied := ca_PeerEdgesApplied (fst p) + 1\<rparr>, rr)))) ?post (\<lambda>e s. inv s \<and> fault e)"
    by (simp add: x)
qed (use assms(1) M in auto)

lemma report_triple:
  assumes "report_valid req"
  shows "triple inv (applyCollectorReport store now req cc b)
    (\<lambda>resp s. inv s \<and> report_in (facts s) b (cx_SelfAddresses cc) req \<and> resp = report_counts (cx_SelfAddresses cc) req)
    (\<lambda>e s. inv s \<and> fault e)"
proof -
  define by_name where "by_name = (if cx_Name cc \<noteq> [] then Some (cx_Name cc) else None)"
  define m where "m = \<lparr>pm_ReportedByCollector = cx_Name cc, pm_ReportBatchID = Some b\<rparr>"
  note v = assms [unfolded report_valid_def]
  let ?r1 = "zeroResponse\<lparr>ca_ConfirmedNodesApplied := length (cq_ConfirmedNodes req)\<rparr>"
  let ?r2 = "fold (\<lambda>_ r. r\<lparr>ca_DiscoveredNodesApplied := ca_DiscoveredNodesApplied r + 1\<rparr>) (cq_DiscoveredNodes req) ?r1"
  let ?r3 = "fold (\<lambda>a r. if a \<in> set (cx_SelfAddresses cc) then r\<lparr>ca_SelfIdentityTagged := ca_SelfIdentityTagged r + 1\<rparr> else r)
    (cq_SelfIdentity req) ?r2"
  let ?r4 = "fold (\<lambda>_ r. r\<lparr>ca_HealthChecksApplied := ca_HealthChecksApplied r + 1\<rparr>) (cq_HealthChecks req) ?r3"
  let ?r5 = "fold (\<lambda>_ r. r\<lparr>ca_PeerEdgesApplied := ca_PeerEdgesApplied r + 1\<rparr>) (cq_PeerEdges req) ?r4"
  let ?M1 = "\<lambda>p s. (\<forall>c\<in>set (cq_ConfirmedNodes req). confirmed_in (facts s) c) \<and> fst p = ?r1"
  let ?M2 = "\<lambda>p s. (\<forall>c\<in>set (cq_ConfirmedNodes req). confirmed_in (facts s) c) \<and>
    (\<forall>d\<in>set (cq_DiscoveredNodes req). held_in (facts s) (dn_Address d)) \<and> fst p = ?r2"
  let ?M3 = "\<lambda>p s. (\<forall>c\<in>set (cq_ConfirmedNodes req). confirmed_in (facts s) c) \<and>
    (\<forall>d\<in>set (cq_DiscoveredNodes req). held_in (facts s) (dn_Address d)) \<and>
    (\<forall>a\<in>set (cq_SelfIdentity req). a \<in> set (cx_SelfAddresses cc) \<longrightarrow> held_in (facts s) a) \<and> fst p = ?r3"
  let ?M4 = "\<lambda>p s. (\<forall>c\<in>set (cq_ConfirmedNodes req). confirmed_in (facts s) c) \<and>
    (\<forall>d\<in>set (cq_DiscoveredNodes req). held_in (facts s) (dn_Address d)) \<and>
    (\<forall>a\<in>set (cq_SelfIdentity req). a \<in> set (cx_SelfAddresses cc) \<longrightarrow> held_in (facts s) a) \<and>
    (\<forall>h\<in>set (cq_HealthChecks req). health_in b (facts s) h) \<and> fst p = ?r4"
  have p1: "triple inv (forE (apply_confirmed store now) (cq_ConfirmedNodes req) (zeroResponse, []))
    (\<lambda>p s. inv s \<and> cache_in (facts s) (snd p) \<and> ?M1 p s) (\<lambda>e s. inv s \<and> fault e)"
    by (rule confirmed_phase) (use v in blast)
  have p2: "triple (\<lambda>s. inv s \<and> cache_in (facts s) (snd p) \<and> ?M1 p s)
    (forE (apply_discovered store now) (cq_DiscoveredNodes req) p)
    (\<lambda>p s. inv s \<and> cache_in (facts s) (snd p) \<and> ?M2 p s) (\<lambda>e s. inv s \<and> fault e)" for p
    by (rule triple_mono [OF phase [where goal = "\<lambda>F d. held_in F (dn_Address d)" and M = "?M1 p"
          and cnt = "\<lambda>_ r. r\<lparr>ca_DiscoveredNodesApplied := ca_DiscoveredNodesApplied r + 1\<rparr>", OF discovered_step]])
      (use v in_mono in auto)
  have p3: "triple (\<lambda>s. inv s \<and> cache_in (facts s) (snd p) \<and> ?M2 p s)
    (forE (apply_self_identity store now (cx_SelfAddresses cc)) (cq_SelfIdentity req) p)
    (\<lambda>p s. inv s \<and> cache_in (facts s) (snd p) \<and> ?M3 p s) (\<lambda>e s. inv s \<and> fault e)" for p
    by (rule triple_mono [OF phase [where goal = "\<lambda>F a. a \<in> set (cx_SelfAddresses cc) \<longrightarrow> held_in F a" and M = "?M2 p"
          and cnt = "\<lambda>a r. if a \<in> set (cx_SelfAddresses cc) then r\<lparr>ca_SelfIdentityTagged := ca_SelfIdentityTagged r + 1\<rparr> else r",
          OF self_identity_step]])
      (use v in_mono in auto)
  have p4: "triple (\<lambda>s. inv s \<and> cache_in (facts s) (snd p) \<and> ?M3 p s)
    (forE (apply_health store now by_name b) (cq_HealthChecks req) p)
    (\<lambda>p s. inv s \<and> cache_in (facts s) (snd p) \<and> ?M4 p s) (\<lambda>e s. inv s \<and> fault e)" for p
    by (rule triple_mono [OF phase [where goal = "health_in b" and M = "?M3 p"
          and cnt = "\<lambda>_ r. r\<lparr>ca_HealthChecksApplied := ca_HealthChecksApplied r + 1\<rparr>", OF health_step]])
      (use v in_mono in auto)
  have p5: "triple (\<lambda>s. inv s \<and> cache_in (facts s) (snd p) \<and> ?M4 p s)
    (forE (apply_edge store now m) (cq_PeerEdges req) p)
    (\<lambda>p s. inv s \<and> report_in (facts s) b (cx_SelfAddresses cc) req \<and> fst p = ?r5) (\<lambda>e s. inv s \<and> fault e)" for p
    by (rule triple_mono [OF phase [where goal = "edge_in b" and M = "?M4 p"
          and cnt = "\<lambda>_ r. r\<lparr>ca_PeerEdgesApplied := ca_PeerEdgesApplied r + 1\<rparr>", OF edge_step]])
      (use v in_mono in \<open>auto simp: m_def report_in_def\<close>)
  have "?r5 = report_counts (cx_SelfAddresses cc) req"
    by (simp only: fold_counts) (simp add: report_counts_def zeroResponse_def)
  with p5 have p5: "triple (\<lambda>s. inv s \<and> cache_in (facts s) (snd p) \<and> ?M4 p s)
    (forE (apply_edge store now m) (cq_PeerEdges req) p)
    (\<lambda>p s. inv s \<and> report_in (facts s) b (cx_SelfAddresses cc) req \<and> fst p = report_counts (cx_SelfAddresses cc) req)
    (\<lambda>e s. inv s \<and> fault e)" for p
    by simp
  show ?thesis
    unfolding applyCollectorReport_def Let_def by_name_def [symmetric] m_def [symmetric]
    by (rule triple_bind [OF p1 triple_bind [OF p2 triple_bind [OF p3 triple_bind [OF p4 triple_bind [OF p5]]]]])
      (rule triple_return, simp)
qed

end

section \<open>Properties\<close>


definition sample_report :: collectorReportRequest where
  "sample_report = \<lparr>cq_SelfIdentity = [''9.9.9.9:1''],
     cq_ConfirmedNodes = [\<lparr>cn_Address = ''p:1'', cn_PublicKey = ''07'', cn_DiscoverySource = DiscoverySourceBoth\<rparr>],
     cq_DiscoveredNodes = [], cq_HealthChecks = [], cq_PeerEdges = []\<rparr>"

lemma sample_report_valid: "validateCollectorReportRequest sample_report = Ok ()"
  by code_simp


text \<open>
  No address a report brings in is a reserved IP address.  Whatever passes validation
  splits into host and port, and a host that is an IP address is not private, loopback,
  link-local, multicast or unspecified.
\<close>

theorem validated_addresses_public:
  assumes "validateCollectorReportRequest req = Ok ()"
    "a \<in> set (cq_SelfIdentity req) \<union> cn_Address ` set (cq_ConfirmedNodes req) \<union> dn_Address ` set (cq_DiscoveredNodes req) \<union>
      ch_Address ` set (cq_HealthChecks req) \<union> ce_FromAddress ` set (cq_PeerEdges req) \<union> ce_ToAddress ` set (cq_PeerEdges req)"
  shows "\<exists>host port. SplitHostPort a = Ok (host, port) \<and>
    (\<forall>i. ParseIP host = Some i \<longrightarrow> \<not> IsPrivateOrReservedIP i)"
proof -
  have "check_address a = Ok ()"
    using assms by (auto simp: validateCollectorReportRequest_def and_then_Ok check_all_Ok)
  then show ?thesis
    by (auto simp: check_address_def validateReportedAddress_def split: if_splits sum.splits option.splits)
qed

theorem validated_addresses_public_witness:
  "\<exists>host port. SplitHostPort ''9.9.9.9:1'' = Ok (host, port) \<and> (\<forall>i. ParseIP host = Some i \<longrightarrow> \<not> IsPrivateOrReservedIP i)"
  using validated_addresses_public [OF sample_report_valid, of "''9.9.9.9:1''"] by (simp add: sample_report_def)

section \<open>The endpoint\<close>



end
