(* ===== verification/Report_Trust.thy ===== *)
theory Report_Trust
  imports Collector_Report Pg_Trust
begin

text \<open>
  What an authenticated satellite cannot do through \<^verbatim>\<open>applyCollectorReport\<close>: publish a node
  whose owner did not opt in, or mark a node other than its own as a collector.  Both are
  proved by following a predicate on the database through every SQL statement a report can
  cause, so they hold for reports that fail half way, too.
\<close>

section \<open>The trust boundary\<close>

text \<open>What every store operation of a report keeps, the report keeps.\<close>

lemma keeps_resolve:
  "keeps P (UpsertDiscoveredNode store now a DiscoverySourceP2P [] None) \<Longrightarrow> keeps P (resolve store now a rr)"
  unfolding resolve_def by (intro keeps_rules)

lemma keeps_report_records:
  assumes "\<And>a. keeps P (UpsertDiscoveredNode store now a DiscoverySourceP2P [] None)"
    "\<And>i. keeps P (RecordHealthCheck store now i)" "\<And>x y m. keeps P (RecordPeerEdgeObservation store now x y m)"
  shows "keeps P (apply_discovered store now d p)" "keeps P (apply_health store now by b h p)" "keeps P (apply_edge store now meta e p)"
  unfolding apply_discovered_def apply_health_def apply_edge_def by (intro keeps_rules keeps_resolve assms)+

lemma keeps_report_confirmed:
  "(\<And>a pk. keeps P (UpsertConfirmedNode store now a pk DiscoverySourceP2P)) \<Longrightarrow> keeps P (apply_confirmed store now c p)"
  unfolding apply_confirmed_def by (intro keeps_rules)

lemma keeps_report:
  assumes "\<And>a. keeps P (UpsertDiscoveredNode store now a DiscoverySourceP2P [] None)"
    "\<And>a. keeps P (UpsertDiscoveredNode store now a DiscoverySourceP2P [(''role'', JStr collectorRoleTagValue)] None)"
    "\<And>a pk. keeps P (UpsertConfirmedNode store now a pk DiscoverySourceP2P)"
    "\<And>i. keeps P (RecordHealthCheck store now i)" "\<And>x y m. keeps P (RecordPeerEdgeObservation store now x y m)"
  shows "keeps P (applyCollectorReport store now req cc b)"
proof -
  have "keeps P (apply_self_identity store now allowed a p)" for allowed a p
    unfolding apply_self_identity_def by (intro keeps_rules assms)
  then show ?thesis
    unfolding applyCollectorReport_def Let_def
    by (intro keeps_rules keeps_forE keeps_report_records keeps_report_confirmed assms)
qed

lemma keeps_no_new_opt_in: "keeps (no_new_opt_in d) (applyCollectorReport pg_Store now req cc b)"
  by (rule keeps_report) (simp_all add: pg_Store_def opt_in_kept)

text \<open>
  C6: a satellite cannot publish anybody.  Whatever report is applied, validated or not and
  whether or not it succeeds, every node that is opted in afterwards (source
  \<^verbatim>\<open>registry_submitted\<close> or \<^verbatim>\<open>both\<close>) was opted in before, under the same identifier; the
  discovery source a report claims has no effect.
\<close>

theorem report_never_opts_in:
  assumes "store_ok db" "applyCollectorReport pg_Store now req cc b db = (db', r)"
    "n \<in> set (db_nodes db')" "n_DiscoverySource n \<in> {DiscoverySourceRegistry, DiscoverySourceBoth}"
  shows "\<exists>m\<in>set (db_nodes db). n_ID m = n_ID n \<and> n_DiscoverySource m \<in> {DiscoverySourceRegistry, DiscoverySourceBoth}"
proof -
  from keeps_fst [OF keeps_no_new_opt_in no_new_opt_in_refl [OF assms(1)], of now req cc b] assms(2-4) show ?thesis
    by (auto simp: no_new_opt_in_def opted_in_def)
qed

section \<open>Tagging of collectors\<close>

text \<open>Every collector-tagged node was tagged before, or holds one of the addresses \<open>A\<close>.\<close>

definition tags_explained :: "string set \<Rightarrow> DB \<Rightarrow> DB \<Rightarrow> bool" where
  "tags_explained A db db' \<longleftrightarrow> (\<forall>n\<in>set (db_nodes db'). IsCollectorRole (n_Tags n) \<longrightarrow>
     (\<exists>m\<in>set (db_nodes db). n_ID m = n_ID n \<and> IsCollectorRole (n_Tags m)) \<or> (\<exists>a\<in>A. (n_ID n, a) \<in> address_keys db'))"

lemma tags_explained_cong:
  "db_nodes x = db_nodes y \<Longrightarrow> address_keys x = address_keys y \<Longrightarrow> tags_explained A d x \<Longrightarrow> tags_explained A d y"
  by (simp add: tags_explained_def)

lemma on_tables_tags: "on_tables (tags_explained A d)"
  unfolding on_tables_def
proof (intro allI impI)
  fix db db' assume "same_tables db db'" "tags_explained A d db"
  then show "tags_explained A d db'"
    by (elim tags_explained_cong [rotated 2]) (simp_all add: address_keys_def same_tables_fields [of db db'])
qed

lemma tags_explained_update:
  assumes "tags_explained A d db" "\<And>n. n_ID (f n) = n_ID n" "\<And>n. n_Tags (f n) = n_Tags n"
  shows "tags_explained A d (update_node nid f db)"
  unfolding tags_explained_def
proof (intro ballI impI)
  fix x assume "x \<in> set (db_nodes (update_node nid f db))" "IsCollectorRole (n_Tags x)"
  then obtain n where "n \<in> set (db_nodes db)" "n_ID x = n_ID n" "n_Tags x = n_Tags n"
    using assms(2,3) by (auto simp: update_node_def split: if_splits)
  with assms(1) \<open>IsCollectorRole (n_Tags x)\<close> show "(\<exists>m\<in>set (db_nodes d). n_ID m = n_ID x \<and> IsCollectorRole (n_Tags m)) \<or>
      (\<exists>a\<in>A. (n_ID x, a) \<in> address_keys (update_node nid f db))"
    by (auto simp: tags_explained_def update_node_def address_keys_def)
qed

lemma tags_explained_insert:
  assumes "tags_explained A d db"
  shows "tags_explained A d (sql_insert_node now a pk src [] label db)"
  unfolding tags_explained_def
proof (intro ballI impI)
  fix x assume "x \<in> set (db_nodes (sql_insert_node now a pk src [] label db))" "IsCollectorRole (n_Tags x)"
  then have "x \<in> set (db_nodes db)" by (auto simp: sql_insert_node_def draw_def IsCollectorRole_def)
  with assms \<open>IsCollectorRole (n_Tags x)\<close> show "(\<exists>m\<in>set (db_nodes d). n_ID m = n_ID x \<and> IsCollectorRole (n_Tags m)) \<or>
      (\<exists>b\<in>A. (n_ID x, b) \<in> address_keys (sql_insert_node now a pk src [] label db))"
    by (auto simp: tags_explained_def sql_insert_node_def draw_def address_keys_def)
qed

lemma tags_explained_address:
  "tags_explained A d db \<Longrightarrow> tags_explained A d (sql_upsert_address now nid a db)"
  unfolding tags_explained_def upsert_address_nodes upsert_address_keys by blast

lemma keeps_tags_discovered: "keeps (tags_explained A d) (pg_UpsertDiscoveredNode now a src [] label)"
  by (rule keeps_UpsertDiscovered [OF on_tables_tags], erule tags_explained_insert, erule tags_explained_update)
    (simp_all add: merge_tags_def tags_explained_address)

lemma keeps_tags_self:
  assumes "a \<in> A"
  shows "keeps (tags_explained A d) (pg_UpsertDiscoveredNode now a src tags label)"
proof (rule tripleI)
  fix db db' r
  assume t: "tags_explained A d db" and u: "pg_UpsertDiscoveredNode now a src tags label db = (db', r)"
  show "case r of Inl e \<Rightarrow> tags_explained A d db' | Inr n \<Rightarrow> tags_explained A d db'"
  proof (cases r)
    case (Inl e)
    then show ?thesis using t u discovered_failed [of now a src tags label db db' e] on_tables_tags [of A d] by (auto simp: on_tables_def)
  next
    case (Inr n)
    note d = discovered_touches [OF u [unfolded Inr]]
    have "(\<exists>m\<in>set (db_nodes d). n_ID m = n_ID x \<and> IsCollectorRole (n_Tags m)) \<or> (\<exists>b\<in>A. (n_ID x, b) \<in> address_keys db')"
      if x: "x \<in> set (db_nodes db')" "IsCollectorRole (n_Tags x)" for x
    proof (cases "n_ID x = n_ID n")
      case False
      then have "x \<in> set (db_nodes db)" using d(2) x(1) by blast
      then show ?thesis using t x(2) d(1) unfolding tags_explained_def by blast
    qed (use assms d(1) in auto)
    then show ?thesis using Inr by (simp add: tags_explained_def)
  qed
qed

lemma keeps_tags_confirmed: "keeps (tags_explained {} d) (pg_UpsertConfirmedNode now a pk src)"
proof (rule keeps_UpsertConfirmed [OF on_tables_tags])
  fix p c f db assume f: "f \<in> {dedupe_addresses p c, repoint_addresses p c, dedupe_edges_from p c, repoint_edges_from p c,
      dedupe_edges_to p c, repoint_edges_to p c, repoint_health p c, repoint_pending p c, repoint_wallet p c, delete_node p}"
    and "tags_explained {} d db"
  then show "tags_explained {} d (f db)" using merge_statement_nodes [OF f, of db] by (auto simp: tags_explained_def)
qed (simp_all add: tags_explained_insert tags_explained_update tags_explained_address)

lemma report_tags:
  assumes "A = set (cq_SelfIdentity req) \<inter> set (cx_SelfAddresses cc)"
  shows "triple (tags_explained {} d) (applyCollectorReport pg_Store now req cc b) (\<lambda>_. tags_explained A d) (\<lambda>_. tags_explained A d)"
proof -
  have mono: "tags_explained {} d db \<Longrightarrow> tags_explained A d db" for db by (auto simp: tags_explained_def)
  have h: "keeps (tags_explained A d) (pg_RecordHealthCheck now i)" for i
    by (rule keeps_pg_health [OF on_tables_tags]) (simp add: tags_explained_def address_keys_def)
  have e: "keeps (tags_explained A d) (pg_RecordPeerEdgeObservation now x y m)" for x y m
    by (rule keeps_pg_edge [OF on_tables_tags]) (simp add: tags_explained_def address_keys_def)
  have c: "keeps (tags_explained {} d) (apply_confirmed pg_Store now x p)" for x p
    by (rule keeps_report_confirmed) (simp add: pg_Store_def keeps_tags_confirmed)
  have s: "keeps (tags_explained A d) (apply_self_identity pg_Store now (cx_SelfAddresses cc) a p)"
    if "a \<in> set (cq_SelfIdentity req)" for a p
    unfolding apply_self_identity_def
    by (intro keeps_rules) (use assms that in \<open>simp add: pg_Store_def keeps_tags_self\<close>)
  note r = keeps_report_records [where P = "tags_explained A d" and store = pg_Store and now = now, unfolded pg_Store_def, simplified,
      OF keeps_tags_discovered h e, folded pg_Store_def]
  show ?thesis
    unfolding applyCollectorReport_def Let_def
  proof (rule triple_bind [where Q = "\<lambda>_. tags_explained A d"])
    show "triple (tags_explained {} d) (forE (apply_confirmed pg_Store now) (cq_ConfirmedNodes req) (zeroResponse, []))
      (\<lambda>_. tags_explained A d) (\<lambda>_. tags_explained A d)"
      by (rule triple_mono [OF keeps_forE [OF c]]) (use mono in auto)
  qed (intro keeps_rules keeps_forE r s)
qed

text \<open>
  C7: a satellite marks only itself.  Whatever report is applied, every node that carries the
  collector tag afterwards carried it before, or holds an address that the report named as
  the collector's own and that the operator configured for this very collector.
\<close>

theorem report_tags_only_self:
  assumes "applyCollectorReport pg_Store now req cc b db = (db', r)"
    "n \<in> set (db_nodes db')" "IsCollectorRole (n_Tags n)"
  shows "(\<exists>m\<in>set (db_nodes db). n_ID m = n_ID n \<and> IsCollectorRole (n_Tags m)) \<or>
    (\<exists>a. a \<in> set (cq_SelfIdentity req) \<and> a \<in> set (cx_SelfAddresses cc) \<and> (n_ID n, a) \<in> address_keys db')"
proof -
  have "tags_explained {} db db" by (auto simp: tags_explained_def)
  from tripleD [OF report_tags [OF refl] this assms(1)] assms(2,3) show ?thesis
    by (auto simp: tags_explained_def split: sum.splits)
qed

definition opted_db :: DB where
  "opted_db = example_db\<lparr>db_nodes := [example_node 1 ''p:1'' [],
     (example_node 2 ''c:1'' [7])\<lparr>n_DiscoverySource := DiscoverySourceBoth, n_Tags := [(''role'', JStr collectorRoleTagValue)]\<rparr>,
     example_node 3 ''x:1'' []]\<rparr>"

definition empty_report :: collectorReportRequest where
  "empty_report = \<lparr>cq_SelfIdentity = [], cq_ConfirmedNodes = [], cq_DiscoveredNodes = [], cq_HealthChecks = [], cq_PeerEdges = []\<rparr>"

lemma opted_db_ok: "store_ok opted_db"
  by (simp add: store_ok_def opted_db_def example_db_defs schema_defs nodes_ok_def addresses_ok_def health_ok_def edges_ok_def
      pending_ok_def wallet_ok_def valid_source_def addresses_recorded_def address_keys_def)

lemma empty_report_applied: "applyCollectorReport pg_Store now empty_report cc b db = (db, Ok zeroResponse)"
  by (simp add: applyCollectorReport_def empty_report_def bindE_def Let_def)

lemma opted_db_node: "getNodeByID 2 opted_db = Ok ((example_node 2 ''c:1'' [7])\<lparr>n_DiscoverySource := DiscoverySourceBoth,
    n_Tags := [(''role'', JStr collectorRoleTagValue)]\<rparr>)"
  by (simp add: getNodeByID_def opted_db_def example_node_def)

theorem report_never_opts_in_witness:
  "\<exists>m\<in>set (db_nodes opted_db). n_ID m = 2 \<and> n_DiscoverySource m \<in> {DiscoverySourceRegistry, DiscoverySourceBoth}"
  using report_never_opts_in [OF opted_db_ok empty_report_applied, of "(example_node 2 ''c:1'' [7])\<lparr>n_DiscoverySource :=
      DiscoverySourceBoth, n_Tags := [(''role'', JStr collectorRoleTagValue)]\<rparr>"]
  by (simp add: opted_db_def example_node_def)

theorem report_tags_only_self_witness:
  "\<exists>m\<in>set (db_nodes opted_db). n_ID m = 2 \<and> IsCollectorRole (n_Tags m)"
  using report_tags_only_self [OF empty_report_applied, of "(example_node 2 ''c:1'' [7])\<lparr>n_DiscoverySource :=
      DiscoverySourceBoth, n_Tags := [(''role'', JStr collectorRoleTagValue)]\<rparr>" opted_db]
  by (simp add: opted_db_def example_node_def empty_report_def IsCollectorRole_def)

end
