(* ===== verification/Collector_Run.thy ===== *)
theory Collector_Run
  imports Geo_Refresh Report_Trust
begin

text \<open>
  \<^verbatim>\<open>Run\<close> of \<^verbatim>\<open>internal/collector/collector.go\<close> and its eight loops, and the process they run in.
  The loops, the report endpoint and the handlers of the API share the database.  The runs
  \<open>pool_step (serves e) background\<close> of the theory \<open>Submission_Final\<close> describe the collector
  and the reports by single writes; here the real walks, passes and reports are shown to be
  such runs, whatever happens between two of their statements.
\<close>

section \<open>The loops\<close>

definition defaultTickInterval :: duration where "defaultTickInterval = 5 * Minute"
definition defaultNeverContactedTickInterval :: duration where "defaultNeverContactedTickInterval = Minute"
definition defaultGeoIPRefreshTickInterval :: duration where "defaultGeoIPRefreshTickInterval = 10 * Minute"
definition defaultPeerEdgeRetentionTickInterval :: duration where "defaultPeerEdgeRetentionTickInterval = 6 * Hour"

record tick_config =
  TickInterval :: duration
  OwnedPollTickInterval :: duration
  UnconfirmedTickInterval :: duration
  NeverContactedTickInterval :: duration
  OwnedDiscoveryTickInterval :: duration
  GeoIPRefreshTickInterval :: duration
  PeerEdgeRetentionTickInterval :: duration

datatype loop = DiscoverLoop | OwnedConfirmedPollLoop | GenericConfirmedPollLoop | UnconfirmedPollLoop |
  NeverContactedPollLoop | OwnedDiscoverLoop | GeoIPRefreshLoop | PeerEdgeRetentionLoop

text \<open>The goroutines \<^verbatim>\<open>Run\<close> starts, each with the period of its ticker.\<close>

definition Run :: "tick_config \<Rightarrow> (loop \<times> duration) list" where
  "Run c =
     (let tick = (if TickInterval c \<le> 0 then defaultTickInterval else TickInterval c);
          ownedPollTick = (if OwnedPollTickInterval c \<le> 0 then PollIntervalPoolOwned else OwnedPollTickInterval c);
          unconfirmedTick = (if UnconfirmedTickInterval c \<le> 0 then tick else UnconfirmedTickInterval c);
          neverContactedTick = (if NeverContactedTickInterval c \<le> 0 then defaultNeverContactedTickInterval else NeverContactedTickInterval c);
          ownedDiscoveryTick = (if OwnedDiscoveryTickInterval c \<le> 0 then DiscoveryIntervalPoolOwned else OwnedDiscoveryTickInterval c);
          geoIPRefreshTick = (if GeoIPRefreshTickInterval c \<le> 0 then defaultGeoIPRefreshTickInterval else GeoIPRefreshTickInterval c);
          peerEdgeRetentionTick = (if PeerEdgeRetentionTickInterval c \<le> 0 then defaultPeerEdgeRetentionTickInterval
                                   else PeerEdgeRetentionTickInterval c)
      in [(DiscoverLoop, tick), (OwnedConfirmedPollLoop, ownedPollTick), (GenericConfirmedPollLoop, tick),
          (UnconfirmedPollLoop, unconfirmedTick), (NeverContactedPollLoop, neverContactedTick),
          (OwnedDiscoverLoop, ownedDiscoveryTick), (GeoIPRefreshLoop, geoIPRefreshTick),
          (PeerEdgeRetentionLoop, peerEdgeRetentionTick)])"

text \<open>Every period is positive, as \<^verbatim>\<open>time.NewTicker\<close> demands.\<close>

lemma Run_positive: "list_all (\<lambda>(l, tick). 0 < tick) (Run c)"
proof -
  have "0 < (if x \<le> 0 then d else x)" if "0 < d" for x d :: duration using that by simp
  moreover have "0 < defaultTickInterval" "0 < PollIntervalPoolOwned" "0 < defaultNeverContactedTickInterval" "0 < DiscoveryIntervalPoolOwned"
    "0 < defaultGeoIPRefreshTickInterval" "0 < defaultPeerEdgeRetentionTickInterval"
    by (simp_all add: defaultTickInterval_def defaultNeverContactedTickInterval_def defaultGeoIPRefreshTickInterval_def
        defaultPeerEdgeRetentionTickInterval_def interval_defs Hour_def Minute_def Second_def)
  ultimately show ?thesis by (simp add: Run_def Let_def)
qed

text \<open>
  What the world answers during one pass: the time, the answers of the nodes and of the lookup
  service, how many iterations fit before the deadline, and the order in which the workers
  run.  A client that is not configured stays so.
\<close>

record outside =
  ou_now :: time
  ou_GRPC :: NodeClient
  ou_P2P :: NodeClient
  ou_WalletHTTP :: NodeClient
  ou_GeoIP :: geoip_Client
  ou_budget :: nat
  ou_order :: "task list \<Rightarrow> task list"

definition dialling :: "outside \<Rightarrow> 's Collector \<Rightarrow> 's Collector" where
  "dialling w c = c\<lparr>co_GRPCClient := map_option (\<lambda>_. ou_GRPC w) (co_GRPCClient c),
     co_P2PClient := map_option (\<lambda>_. ou_P2P w) (co_P2PClient c),
     co_WalletHTTPClient := map_option (\<lambda>_. ou_WalletHTTP w) (co_WalletHTTPClient c)\<rparr>"

text \<open>
  What the \<^verbatim>\<open>select\<close> of a loop receives: a tick, which starts a pass, or the end of the
  context.  Every loop makes one pass before it waits; the error of a pass is logged.
\<close>

datatype wake = Tick outside | CtxDone

fun select_loop :: "(outside \<Rightarrow> 'c \<Rightarrow> 'c) \<Rightarrow> wake list \<Rightarrow> 'c \<Rightarrow> 'c" where
  "select_loop pass [] c = c"
| "select_loop pass (CtxDone # ws) c = c"
| "select_loop pass (Tick w # ws) c = select_loop pass ws (pass w c)"

definition runDiscoverLoop :: "'s Store \<Rightarrow> outside \<Rightarrow> wake list \<Rightarrow> 's Collector \<Rightarrow> 's Collector" where
  "runDiscoverLoop store w ws c =
     (let pass = (\<lambda>w c. Discover (ou_budget w) store (ou_now w) (dialling w c)) in select_loop pass ws (pass w c))"

definition poll_loop :: "NodeFilter \<Rightarrow> 's Store \<Rightarrow> outside \<Rightarrow> wake list \<Rightarrow> 's Collector \<Rightarrow> 's Collector" where
  "poll_loop f store w ws c =
     (let pass = (\<lambda>w c. fst (poll store (ou_order w) (ou_now w) f (dialling w c))) in select_loop pass ws (pass w c))"

definition runOwnedConfirmedPollLoop :: "'s Store \<Rightarrow> outside \<Rightarrow> wake list \<Rightarrow> 's Collector \<Rightarrow> 's Collector" where
  "runOwnedConfirmedPollLoop = poll_loop ownedConfirmedFilter"

definition runGenericConfirmedPollLoop :: "'s Store \<Rightarrow> outside \<Rightarrow> wake list \<Rightarrow> 's Collector \<Rightarrow> 's Collector" where
  "runGenericConfirmedPollLoop = poll_loop genericConfirmedFilter"

definition runUnconfirmedPollLoop :: "'s Store \<Rightarrow> outside \<Rightarrow> wake list \<Rightarrow> 's Collector \<Rightarrow> 's Collector" where
  "runUnconfirmedPollLoop = poll_loop unconfirmedFilter"

definition runNeverContactedPollLoop :: "'s Store \<Rightarrow> outside \<Rightarrow> wake list \<Rightarrow> 's Collector \<Rightarrow> 's Collector" where
  "runNeverContactedPollLoop = poll_loop neverContactedFilter"

definition runOwnedDiscoverLoop ::
  "'s Store \<Rightarrow> (string \<Rightarrow> int \<Rightarrow> 's \<Rightarrow> 's \<times> bool result) \<Rightarrow> outside \<Rightarrow> wake list \<Rightarrow> 's Collector \<Rightarrow> 's Collector" where
  "runOwnedDiscoverLoop store setPort w ws c =
     (let pass = (\<lambda>w c. fst (DiscoverOwned store setPort (ou_now w) (dialling w c))) in select_loop pass ws (pass w c))"

text \<open>
  The refresh of locations and the retention work on the central database only; \<open>atomically\<close>
  applies a function to the database inside the state.
\<close>

definition runGeoIPRefreshLoop ::
  "((DB \<Rightarrow> DB) \<Rightarrow> 's \<Rightarrow> 's) \<Rightarrow> bool \<Rightarrow> outside \<Rightarrow> wake list \<Rightarrow> 's Collector \<Rightarrow> 's Collector" where
  "runGeoIPRefreshLoop atomically enabled w ws c =
     (let pass = (\<lambda>w c. c\<lparr>co_Storage := atomically (\<lambda>db.
            fst (RefreshGeoIP (if enabled then Some (ou_GeoIP w) else None) (ou_now w) (ou_now w) (ou_now w) db)) (co_Storage c)\<rparr>)
      in select_loop pass ws (pass w c))"

definition with_Storage :: "'t \<Rightarrow> 's Collector \<Rightarrow> 't Collector" where
  "with_Storage t c = \<lparr>co_SeedNodes = co_SeedNodes c, co_Storage = t, co_GRPCClient = co_GRPCClient c, co_P2PClient = co_P2PClient c,
     co_WalletHTTPClient = co_WalletHTTPClient c, co_OwnedWalletHTTPPorts = co_OwnedWalletHTTPPorts c,
     co_WalletHTTPEnabled = co_WalletHTTPEnabled c, co_PeerEdgeRetentionEnabled = co_PeerEdgeRetentionEnabled c,
     co_PeerEdgeObservationRetention = co_PeerEdgeObservationRetention c, co_nextPoll = co_nextPoll c,
     co_nextDiscovery = co_nextDiscovery c\<rparr>"

text \<open>The retention pass returns, so the first branch is never taken (\<open>retention_pass_returns\<close> below).\<close>

definition runPeerEdgeRetentionLoop ::
  "((DB \<Rightarrow> DB) \<Rightarrow> 's \<Rightarrow> 's) \<Rightarrow> outside \<Rightarrow> wake list \<Rightarrow> 's Collector \<Rightarrow> 's Collector" where
  "runPeerEdgeRetentionLoop atomically w ws c =
     (let pass = (\<lambda>w c. c\<lparr>co_Storage := atomically (\<lambda>db.
            case collector_PruneOldPeerEdgeObservations (ou_now w) (with_Storage db c) of
              None \<Rightarrow> db | Some (c', deleted, err) \<Rightarrow> co_Storage c') (co_Storage c)\<rparr>)
      in select_loop pass ws (pass w c))"

section \<open>The shared database\<close>

text \<open>
  The process while one of its parts runs: the state of the API with the requests in flight, and
  what the rest of the process will do, each time this part lets it.
\<close>

type_synonym 'l conf = "'l api \<times> ('l api, unit) prog list"

record 'l world =
  wo_conf :: "'l conf"
  wo_others :: "('l conf \<Rightarrow> 'l conf) list"

definition meanwhile :: "'l world \<Rightarrow> 'l world" where
  "meanwhile w = (case wo_others w of [] \<Rightarrow> w | f # fs \<Rightarrow> w\<lparr>wo_conf := f (wo_conf w), wo_others := fs\<rparr>)"

text \<open>A write at the time of the database; the rest of the process acts before and after it.\<close>

definition shared :: "(time \<Rightarrow> (DB, 'a) op) \<Rightarrow> ('l world, 'a) op" where
  "shared g w =
     (let w = meanwhile w; s = fst (wo_conf w); (db, r) = g (api_now s) (api_db s)
      in (meanwhile (w\<lparr>wo_conf := (s\<lparr>api_db := db\<rparr>, snd (wo_conf w))\<rparr>), r))"

definition shared_db :: "(DB \<Rightarrow> DB) \<Rightarrow> 'l world \<Rightarrow> 'l world" where
  "shared_db f w = fst (shared (\<lambda>_ db. (f db, Ok ())) w)"

text \<open>The store over the shared database; its reads may answer anything, whatever moment they see.\<close>

definition shared_Store :: "'l world Store \<Rightarrow> 'l world Store" where
  "shared_Store reads = reads\<lparr>
     UpsertDiscoveredNode := (\<lambda>_ a src tags label. shared (\<lambda>now. pg_UpsertDiscoveredNode now a src tags label)),
     UpsertConfirmedNode := (\<lambda>_ a pk src. shared (\<lambda>now. pg_UpsertConfirmedNode now a pk src)),
     RecordHealthCheck := (\<lambda>_ i. shared (\<lambda>now. pg_RecordHealthCheck now i)),
     RecordPeerEdgeObservation := (\<lambda>_ x y m. shared (\<lambda>now. pg_RecordPeerEdgeObservation now x y m))\<rparr>"

definition shared_port :: "string \<Rightarrow> int \<Rightarrow> ('l world, bool) op" where
  "shared_port a p = shared (\<lambda>_. pg_SetNodeWalletHTTPPortByAddress a p)"

text \<open>The loop a goroutine of \<open>Run\<close> executes on the shared database.\<close>

definition run_loop :: "loop \<Rightarrow> 'l world Store \<Rightarrow> bool \<Rightarrow> outside \<Rightarrow> wake list \<Rightarrow> 'l world Collector \<Rightarrow> 'l world Collector" where
  "run_loop l reads geoIP w ws c =
     (case l of
        DiscoverLoop \<Rightarrow> runDiscoverLoop (shared_Store reads) w ws c
      | OwnedConfirmedPollLoop \<Rightarrow> runOwnedConfirmedPollLoop (shared_Store reads) w ws c
      | GenericConfirmedPollLoop \<Rightarrow> runGenericConfirmedPollLoop (shared_Store reads) w ws c
      | UnconfirmedPollLoop \<Rightarrow> runUnconfirmedPollLoop (shared_Store reads) w ws c
      | NeverContactedPollLoop \<Rightarrow> runNeverContactedPollLoop (shared_Store reads) w ws c
      | OwnedDiscoverLoop \<Rightarrow> runOwnedDiscoverLoop (shared_Store reads) shared_port w ws c
      | GeoIPRefreshLoop \<Rightarrow> runGeoIPRefreshLoop shared_db geoIP w ws c
      | PeerEdgeRetentionLoop \<Rightarrow> runPeerEdgeRetentionLoop shared_db w ws c)"

section \<open>What the passes keep\<close>

lemma select_loop_keeps: "(\<And>w c. P c \<Longrightarrow> P (pass w c)) \<Longrightarrow> P c \<Longrightarrow> P (select_loop pass ws c)"
  by (induction pass ws c rule: select_loop.induct) simp_all

lemma dialling_Storage [simp]: "co_Storage (dialling w c) = co_Storage c" "co_SeedNodes (dialling w c) = co_SeedNodes c"
  by (simp_all add: dialling_def)

lemma poll_keeps:
  assumes "\<And>a pk. keeps I (UpsertConfirmedNode store now a pk DiscoverySourceP2P)" "\<And>i. keeps I (RecordHealthCheck store now i)"
    "I (co_Storage c)"
  shows "I (co_Storage (fst (poll store order now f c)))"
proof (cases "ListNodes store f (co_Storage c)")
  case (Inr ns)
  obtain c1 ts where s: "schedule store now ns c = (c1, ts)" by force
  have "I (co_Storage c1)" using schedule_storage [OF s] assms(3) by simp
  from run_tasks_keeps [OF assms(1,2) this, of "order ts"] s Inr show ?thesis by (simp add: poll_def)
qed (use assms(3) in \<open>simp add: poll_def\<close>)

lemma sync_ports_keeps:
  "(\<And>a p. keeps I (setPort a p)) \<Longrightarrow> I s \<Longrightarrow> I (syncOwnedWalletHTTPPorts setPort ports s)"
  by (induction setPort ports s rule: syncOwnedWalletHTTPPorts.induct) (simp_all add: keeps_fst)

lemma discoverOwnedWith_keeps:
  assumes "\<And>a. keeps I (UpsertDiscoveredNode store now a DiscoverySourceP2P [] None)"
    "\<And>x y. keeps I (RecordPeerEdgeObservation store now x y None)" "I (co_Storage c)"
  shows "I (co_Storage (fst (discoverOwnedWith store client label now c)))"
proof -
  have walk: "I (co_Storage (fst (walkNodePeers store client label a now c)))" if "I (co_Storage c)" for a c
    using walk_keeps [where A = UNIV, OF assms(1,2) _ _ that] by (metis UNIV_I prod.collapse top_greatest)
  have "I (co_Storage (foldl (\<lambda>c a. fst (walkNodePeers store client label a now c)) c addrs))" if "I (co_Storage c)" for addrs c
    using that by (induction addrs arbitrary: c) (simp_all add: walk)
  then show ?thesis using assms(3) by (simp add: discoverOwnedWith_def split: sum.split)
qed

lemma DiscoverOwned_keeps:
  assumes "\<And>a. keeps I (UpsertDiscoveredNode store now a DiscoverySourceP2P [] None)"
    "\<And>x y. keeps I (RecordPeerEdgeObservation store now x y None)" "\<And>a p. keeps I (setPort a p)" "I (co_Storage c)"
  shows "I (co_Storage (fst (DiscoverOwned store setPort now c)))"
proof -
  note own = discoverOwnedWith_keeps [OF assms(1,2)]
  define c1 where "c1 = c\<lparr>co_Storage := syncOwnedWalletHTTPPorts setPort (co_OwnedWalletHTTPPorts c) (co_Storage c)\<rparr>"
  have c1: "I (co_Storage c1)" using sync_ports_keeps [OF assms(3,4)] by (simp add: c1_def)
  obtain c2 err where d: "(case co_GRPCClient c1 of None \<Rightarrow> (c1, None) | Some client \<Rightarrow> discoverOwnedWith store client ''grpc'' now c1) = (c2, err)"
    by force
  then have c2: "I (co_Storage c2)" using own [OF c1] c1 by (auto split: option.splits) (metis fst_conv)
  then have "I (co_Storage (fst (case co_P2PClient c2 of None \<Rightarrow> (c2, None) | Some client \<Rightarrow> discoverOwnedWith store client ''p2p'' now c2)))"
    using own [OF c2] by (simp split: option.split)
  with c2 show ?thesis unfolding DiscoverOwned_def c1_def [symmetric] Let_def d by simp
qed

section \<open>Refinement\<close>

text \<open>The rest of the process only takes steps of the system, and so did the process so far.\<close>

definition only_system :: "'l env \<Rightarrow> 'l world \<Rightarrow> bool" where
  "only_system e w \<longleftrightarrow> (\<forall>f\<in>set (wo_others w). \<forall>x. (pool_step (serves e) background)\<^sup>*\<^sup>* x (f x))"

definition reached :: "'l env \<Rightarrow> 'l conf \<Rightarrow> 'l world \<Rightarrow> bool" where
  "reached e x w \<longleftrightarrow> only_system e w \<and> (pool_step (serves e) background)\<^sup>*\<^sup>* x (wo_conf w)"

lemma reached_meanwhile:
  assumes "reached e x w"
  shows "reached e x (meanwhile w)"
proof (cases "wo_others w")
  case (Cons f fs)
  have r: "(pool_step (serves e) background)\<^sup>*\<^sup>* x (wo_conf w)" "\<forall>g\<in>set (f # fs). \<forall>x. (pool_step (serves e) background)\<^sup>*\<^sup>* x (g x)"
    using assms unfolding reached_def only_system_def Cons by blast+
  have "(pool_step (serves e) background)\<^sup>*\<^sup>* x (f (wo_conf w))" using r(2) by (intro rtranclp_trans [OF r(1)] spec [OF bspec [OF r(2)]]) simp
  with r(2) show ?thesis by (simp add: reached_def only_system_def meanwhile_def Cons)
qed (use assms in \<open>simp add: meanwhile_def\<close>)

lemma background_pool: "background\<^sup>*\<^sup>* s s' \<Longrightarrow> (pool_step (serves e) background)\<^sup>*\<^sup>* (s, ps) (s', ps)"
  by (induction rule: rtranclp_induct) (auto intro: pool_step.Env rtranclp.rtrancl_into_rtrancl)

lemma reached_shared:
  fixes e :: "'l env"
  assumes "\<And>s :: 'l api. background\<^sup>*\<^sup>* s (s\<lparr>api_db := fst (g (api_now s) (api_db s))\<rparr>)"
  shows "keeps (reached e x) (shared g)"
proof -
  have "reached e x (fst (shared g w))" if r: "reached e x w" for w
  proof -
    obtain s ps where c: "wo_conf (meanwhile w) = (s, ps)" by force
    let ?w = "(meanwhile w)\<lparr>wo_conf := (s\<lparr>api_db := fst (g (api_now s) (api_db s))\<rparr>, ps)\<rparr>"
    have "reached e x ?w"
      using reached_meanwhile [OF r] background_pool [OF assms, of e s ps] c
      by (auto simp: reached_def only_system_def intro: rtranclp_trans)
    from reached_meanwhile [OF this] c show ?thesis by (simp add: shared_def Let_def split_beta)
  qed
  then show ?thesis by (auto simp: triple_def split: prod.splits sum.splits) (metis fst_conv)+
qed

lemma reached_shared_step:
  fixes e :: "'l env"
  shows "(\<And>s :: 'l api. background s (s\<lparr>api_db := fst (g (api_now s) (api_db s))\<rparr>)) \<Longrightarrow> keeps (reached e x) (shared g)"
  by (rule reached_shared) (rule r_into_rtranclp)

lemma shared_Store_simps:
  "UpsertDiscoveredNode (shared_Store reads) now a src tags label = shared (\<lambda>now. pg_UpsertDiscoveredNode now a src tags label)"
  "UpsertConfirmedNode (shared_Store reads) now a pk src = shared (\<lambda>now. pg_UpsertConfirmedNode now a pk src)"
  "RecordHealthCheck (shared_Store reads) now i = shared (\<lambda>now. pg_RecordHealthCheck now i)"
  "RecordPeerEdgeObservation (shared_Store reads) now y z m = shared (\<lambda>now. pg_RecordPeerEdgeObservation now y z m)"
  by (simp_all add: shared_Store_def)

lemma reached_store:
  "keeps (reached e x) (UpsertDiscoveredNode (shared_Store reads) now a DiscoverySourceP2P [] None)"
  "keeps (reached e x) (UpsertDiscoveredNode (shared_Store reads) now a DiscoverySourceP2P [(''role'', JStr collectorRoleTagValue)] None)"
  "keeps (reached e x) (UpsertConfirmedNode (shared_Store reads) now a pk DiscoverySourceP2P)"
  "keeps (reached e x) (RecordHealthCheck (shared_Store reads) now i)"
  "keeps (reached e x) (RecordPeerEdgeObservation (shared_Store reads) now y z m)"
  "keeps (reached e x) (shared_port a p)"
  unfolding shared_Store_simps shared_port_def by (intro reached_shared_step background.intros)+

lemma geo_background: "background\<^sup>*\<^sup>* s (s\<lparr>api_db := fst (UpsertGeoIPCache es (api_db s))\<rparr>)"
proof (induction es arbitrary: s)
  case (Cons x es)
  obtain db r where u: "exec (sql_upsert_geoip x) (api_db s) = (db, r)" by force
  have b: "background s (s\<lparr>api_db := db\<rparr>)" using background.Geo [of s x] u by simp
  show ?case
    using b Cons.IH [of "s\<lparr>api_db := db\<rparr>"] u
    by (cases r) (auto simp: throwE_def bindE_def intro: converse_rtranclp_into_rtranclp)
qed (simp add: returnE_def)

lemma refresh_writes: "\<exists>es. fst (RefreshGeoIP client t0 t1 t2 db) = fst (UpsertGeoIPCache es db)"
proof -
  have id: "fst (UpsertGeoIPCache [] db) = db" by (simp add: returnE_def)
  show ?thesis unfolding RefreshGeoIP_def
    by (auto simp: Let_def split: option.splits sum.splits prod.splits intro: exI [of _ "[]"] id) (metis fst_conv)+
qed

lemma prune_background:
  assumes "prune_loop t b k db = Some r"
  shows "background\<^sup>*\<^sup>* (s\<lparr>api_db := db\<rparr>) (s\<lparr>api_db := fst r\<rparr>)"
proof (rule prune_loop.raw_induct [where P = "\<lambda>t b k db r. background\<^sup>*\<^sup>* (s\<lparr>api_db := db\<rparr>) (s\<lparr>api_db := fst r\<rparr>)", OF _ assms])
  fix prune t b k db r
  assume IH: "\<And>t b k db r. prune t b k db = Some r \<Longrightarrow> background\<^sup>*\<^sup>* (s\<lparr>api_db := db\<rparr>) (s\<lparr>api_db := fst r\<rparr>)"
    and r: "(if b < 0 then Some (db, k, Some (Err ''LIMIT must not be negative''))
      else let db' = sql_prune_batch t (nat b) db; deleted = length (db_peer_edges db) - length (db_peer_edges db'); k = k + deleted
           in if int deleted < b then Some (db', k, None) else prune t b k db') = Some r"
  let ?d = "sql_prune_batch t (nat b) db"
  have step: "background (s\<lparr>api_db := db\<rparr>) (s\<lparr>api_db := ?d\<rparr>)" using background.Prune [of "s\<lparr>api_db := db\<rparr>" t "nat b"] by simp
  have "fst r = db \<or> fst r = ?d \<or> background\<^sup>*\<^sup>* (s\<lparr>api_db := ?d\<rparr>) (s\<lparr>api_db := fst r\<rparr>)"
    using r by (auto simp: Let_def IH split: if_splits)
  then show "background\<^sup>*\<^sup>* (s\<lparr>api_db := db\<rparr>) (s\<lparr>api_db := fst r\<rparr>)"
    using step by (auto intro: converse_rtranclp_into_rtranclp)
qed

lemma retention_background:
  "background\<^sup>*\<^sup>* s (s\<lparr>api_db := (case collector_PruneOldPeerEdgeObservations now (with_Storage (api_db s) c) of
     None \<Rightarrow> api_db s | Some (c', deleted, err) \<Rightarrow> co_Storage c')\<rparr>)"
proof -
  have "background\<^sup>*\<^sup>* s (s\<lparr>api_db := db'\<rparr>)" if "PruneOldPeerEdgeObservations t b (api_db s) = Some (db', n, err)" for t b db' n err
    using prune_background [of t b 0 "api_db s" "(db', n, err)" s] that by (simp add: PruneOldPeerEdgeObservations_def)
  then show ?thesis
    by (auto simp: collector_PruneOldPeerEdgeObservations_def with_Storage_def Let_def split: option.splits)
qed

lemma reached_shared_db:
  fixes e :: "'l env"
  assumes "\<And>s :: 'l api. background\<^sup>*\<^sup>* s (s\<lparr>api_db := f (api_db s)\<rparr>)" "reached e x w"
  shows "reached e x (shared_db f w)"
  unfolding shared_db_def by (rule keeps_fst [OF reached_shared assms(2)]) (simp add: assms(1))

lemma run_loop_reached:
  fixes e :: "'l env"
  assumes "reached e x (co_Storage c)"
  shows "reached e x (co_Storage (run_loop l reads geoIP w ws c))"
proof -
  have loop: "reached e x (co_Storage (select_loop pass ws (pass w c)))"
    if "\<And>w c. reached e x (co_Storage c) \<Longrightarrow> reached e x (co_Storage (pass w c))" for pass :: "outside \<Rightarrow> 'l world Collector \<Rightarrow> 'l world Collector"
    using that assms by (intro select_loop_keeps [where P = "\<lambda>c. reached e x (co_Storage c)"]) blast+
  have polls: "reached e x (co_Storage (poll_loop f (shared_Store reads) w ws c))" for f
    unfolding poll_loop_def Let_def by (rule loop, rule poll_keeps [where I = "reached e x"]) (simp_all add: reached_store)
  show ?thesis
  proof (cases l)
    case DiscoverLoop
    have "reached e x (co_Storage (runDiscoverLoop (shared_Store reads) w ws c))"
      unfolding runDiscoverLoop_def Let_def by (rule loop, rule Discover_keeps [where I = "reached e x"]) (simp_all add: reached_store)
    then show ?thesis using DiscoverLoop by (simp add: run_loop_def)
  next
    case OwnedDiscoverLoop
    have "reached e x (co_Storage (runOwnedDiscoverLoop (shared_Store reads) shared_port w ws c))"
      unfolding runOwnedDiscoverLoop_def Let_def by (rule loop, rule DiscoverOwned_keeps [where I = "reached e x"]) (simp_all add: reached_store)
    then show ?thesis using OwnedDiscoverLoop by (simp add: run_loop_def)
  next
    case GeoIPRefreshLoop
    have g: "background\<^sup>*\<^sup>* s (s\<lparr>api_db := fst (RefreshGeoIP client t0 t1 t2 (api_db s))\<rparr>)" for client t0 t1 t2 and s :: "'l api"
      using refresh_writes [of client t0 t1 t2 "api_db s"] geo_background [of s] by metis
    have "reached e x (co_Storage (runGeoIPRefreshLoop shared_db geoIP w ws c))"
      unfolding runGeoIPRefreshLoop_def Let_def by (rule loop) (simp add: reached_shared_db g)
    then show ?thesis using GeoIPRefreshLoop by (simp add: run_loop_def)
  next
    case PeerEdgeRetentionLoop
    have "reached e x (co_Storage (runPeerEdgeRetentionLoop shared_db w ws c))"
      unfolding runPeerEdgeRetentionLoop_def Let_def by (rule loop) (simp add: reached_shared_db retention_background)
    then show ?thesis using PeerEdgeRetentionLoop by (simp add: run_loop_def)
  qed (simp_all add: run_loop_def polls runOwnedConfirmedPollLoop_def runGenericConfirmedPollLoop_def
      runUnconfirmedPollLoop_def runNeverContactedPollLoop_def)
qed

lemma report_reached:
  assumes "reached e x w"
  shows "reached e x (fst (handleCollectorReport sha1 unmarshal (shared_Store reads) now cc r w))"
proof -
  have "reached e x (fst (applyCollectorReport (shared_Store reads) now req cc b w))" for req b
    by (rule keeps_fst [where P = "reached e x", OF _ assms], rule keeps_report) (rule reached_store)+
  then show ?thesis using assms
    by (auto simp: handleCollectorReport_def split: sum.splits option.splits prod.splits) (metis fst_conv)+
qed


lemma retention_pass_returns:
  "schema_ok (co_Storage c) \<Longrightarrow> collector_PruneOldPeerEdgeObservations now c \<noteq> None"
  using prune_loop_returns [OF schema_facts(5), of "co_Storage c" peerEdgeRetentionBatchSize]
  by (auto simp: collector_PruneOldPeerEdgeObservations_def Let_def PruneOldPeerEdgeObservations_def peerEdgeRetentionBatchSize_def)

section \<open>An example\<close>

text \<open>Reads that see the database as it is, and a process whose clock advances between two writes.\<close>

definition current_reads :: "'l world Store" where
  "current_reads = \<lparr>UpsertDiscoveredNode = (\<lambda>_ _ _ _ _ w. (w, Fail ErrNotFound)), UpsertConfirmedNode = (\<lambda>_ _ _ _ w. (w, Fail ErrNotFound)),
     RecordHealthCheck = (\<lambda>_ _ w. (w, Fail ErrNotFound)), RecordPeerEdgeObservation = (\<lambda>_ _ _ _ w. (w, Fail ErrNotFound)),
     ListNodes = (\<lambda>f w. pg_ListNodes f (api_db (fst (wo_conf w)))), GetNode = (\<lambda>i w. pg_GetNode i (api_db (fst (wo_conf w)))),
     ListNodeAddresses = (\<lambda>i w. pg_ListNodeAddresses i (api_db (fst (wo_conf w)))),
     GetNodeHistory = (\<lambda>i k w. pg_GetNodeHistory i k (api_db (fst (wo_conf w)))),
     ListNodeAddressesForNodes = (\<lambda>is w. pg_ListNodeAddressesForNodes is (api_db (fst (wo_conf w))))\<rparr>"

definition example_world :: "unit world" where
  "example_world = \<lparr>wo_conf = (example_api, []), wo_others = [\<lambda>(s, ps). (s\<lparr>api_now := api_now s + 1\<rparr>, ps)]\<rparr>"

definition example_outside :: outside where
  "example_outside = \<lparr>ou_now = 5, ou_GRPC = stubClient, ou_P2P = stubClient, ou_WalletHTTP = stubClient, ou_GeoIP = example_geoip,
     ou_budget = 3, ou_order = rev\<rparr>"

lemma example_world_system: "only_system e example_world"
proof -
  have "pool_step (serves e) background (s, ps) (s\<lparr>api_now := api_now s + 1\<rparr>, ps)" for s ps
    by (rule pool_step.Env, rule background.Tick) simp
  then show ?thesis by (auto simp: only_system_def example_world_def)
qed


end
