(* ===== verification/P2p_Responder.thy ===== *)
theory P2p_Responder
  imports Node_Clients Remote_Store
begin

text \<open>
  \<^verbatim>\<open>cmd/netmap-p2p-responder\<close>: what the responder records of a peer that shook hands with it, the
  list of peers it serves, and the settings it reads from flags and the environment.  The
  wire protocol and the binary encoding of addresses belong to the peer-to-peer library; the
  encoder is a parameter.
\<close>

section \<open>Recording an identity\<close>

record responder_PeerInfo = p2p_PeerInfo +
  pi_Addresses :: "bytes list"

text \<open>The loop that decodes and filters the claims; \<^verbatim>\<open>seen\<close> holds what has been kept.\<close>

fun claimed_loop :: "string list \<Rightarrow> bytes list \<Rightarrow> string list" where
  "claimed_loop claimed [] = claimed"
| "claimed_loop claimed (raw # raws) =
     (case parsePeerAddress raw of
        None \<Rightarrow> claimed_loop claimed raws
      | Some addr \<Rightarrow>
          if addr \<in> set claimed then claimed_loop claimed raws
          else if \<not> isClaimedAddressAllowed addr then claimed_loop claimed raws
          else claimed_loop (claimed @ [addr]) raws)"

definition onPeerIdentity :: "'s Store \<Rightarrow> time \<Rightarrow> bytes \<Rightarrow> responder_PeerInfo \<Rightarrow> 's \<Rightarrow> 's" where
  "onPeerIdentity store now peerStaticKey identity s =
     (case claimed_loop [] (pi_Addresses identity) of
        [] \<Rightarrow> s
      | addr # addrs \<Rightarrow>
     (case UpsertConfirmedNode store now addr peerStaticKey DiscoverySourceP2P s of
        (s, Inl _) \<Rightarrow> s
      | (s, Inr node) \<Rightarrow>
          let s = foldl (\<lambda>s a. fst (UpsertConfirmedNode store now a peerStaticKey DiscoverySourceP2P s)) s addrs;
              version = (if pi_UserAgent identity \<noteq> [] then Some (pi_UserAgent identity) else None);
              peerIdentityUpdatedAt = (case pi_IdentityUpdatedAt identity of
                Some u \<Rightarrow> if u \<noteq> 0 then Some (time_Unix u) else None | None \<Rightarrow> None)
          in fst (RecordHealthCheck store now (zeroHealthCheckInput\<lparr>hci_NodeID := n_ID node, hci_Reachable := True,
               hci_ProbeSource := ProbeSourceP2P, hci_Version := version, hci_PeerIdentityUpdatedAt := peerIdentityUpdatedAt\<rparr>) s)))"

section \<open>Serving peers\<close>

definition knownGoodWindow :: duration where "knownGoodWindow = Hour"
definition maxServedPeers :: int where "maxServedPeers = 200"

definition encodeStoredAddress :: "(string \<Rightarrow> bytes option) \<Rightarrow> string \<Rightarrow> bytes option" where
  "encodeStoredAddress encodeMultiaddr address =
     (case SplitHostPort address of
        Inl _ \<Rightarrow> None
      | Inr (host, port) \<Rightarrow>
          if has_suffix (to_lower host) ''.onion''
          then encodeMultiaddr (''/onion3/'' @ trim_suffix (to_lower host) ''.onion'' @ '':'' @ port)
          else (case ParseIP host of
                  None \<Rightarrow> None
                | Some ip \<Rightarrow> (case To4 ip of
                    None \<Rightarrow> None
                  | Some ip4 \<Rightarrow> encodeMultiaddr (''/ip4/'' @ ip_String ip4 @ ''/tcp/'' @ port))))"

definition served_peer :: "(string \<Rightarrow> bytes option) \<Rightarrow> (uuid \<times> NodeAddress list) list \<Rightarrow> Node \<Rightarrow> pb_PeerInfo option" where
  "served_peer encodeMultiaddr addrsByNode n =
     (if n_PublicKey n = [] then None
      else let addrs = List.map_filter (\<lambda>a. encodeStoredAddress encodeMultiaddr (na_Address a))
                 (case lookup addrsByNode (n_ID n) of Some as \<Rightarrow> as | None \<Rightarrow> []) in
           if addrs = [] then None else Some \<lparr>pb_PublicKey = n_PublicKey n, pb_Claims = [addrs]\<rparr>)"

definition peerListProvider :: "(string \<Rightarrow> bytes option) \<Rightarrow> 's Store \<Rightarrow> time \<Rightarrow> 's \<Rightarrow> pb_PeerInfo list result" where
  "peerListProvider encodeMultiaddr store now s =
     (case ListNodes store (emptyFilter\<lparr>nf_Confirmed := Some True, nf_ReachableSince := Some (now - knownGoodWindow),
             nf_Limit := maxServedPeers\<rparr>) s of
        Inl err \<Rightarrow> Fail err
      | Inr nodes \<Rightarrow>
          if nodes = [] then Ok []
          else (case ListNodeAddressesForNodes store (map n_ID nodes) s of
                  Inl err \<Rightarrow> Fail err
                | Inr addrsByNode \<Rightarrow> Ok (List.map_filter (served_peer encodeMultiaddr addrsByNode) nodes)))"

section \<open>Settings\<close>

definition parseSeedNodes :: "string \<Rightarrow> string list" where
  "parseSeedNodes raw =
     (if raw = [] then [] else filter (\<lambda>p. p \<noteq> []) (map trim_space (split_byte (CHR '','') raw)))"

definition parseSocksProxyAddrs :: "string \<Rightarrow> string \<Rightarrow> string list" where
  "parseSocksProxyAddrs pluralRaw singularRaw =
     (if pluralRaw \<noteq> [] then parseSeedNodes pluralRaw
      else if singularRaw \<noteq> [] then [singularRaw] else [])"

text \<open>\<^verbatim>\<open>strings.Cut\<close> around the first occurrence of a separator.\<close>

fun Cut :: "string \<Rightarrow> string \<Rightarrow> (string \<times> string) option" where
  "Cut [] sep = (if sep = [] then Some ([], []) else None)"
| "Cut (c # s) sep = (if has_prefix (c # s) sep then Some ([], drop (length sep) (c # s))
     else map_option (\<lambda>(a, b). (c # a, b)) (Cut s sep))"

definition parseOwnedGRPCAddresses :: "string \<Rightarrow> (string \<times> string) list" where
  "parseOwnedGRPCAddresses raw =
     (if raw = [] then []
      else foldl (\<lambda>out pair.
        let pair = trim_space pair in
        if pair = [] then out
        else case Cut pair ''='' of
               None \<Rightarrow> out
             | Some (p2pAddr, grpcAddr) \<Rightarrow>
                 let p2pAddr = trim_space p2pAddr; grpcAddr = trim_space grpcAddr in
                 if p2pAddr = [] \<or> grpcAddr = [] then out else AList.update p2pAddr grpcAddr out)
        [] (split_byte (CHR '','') raw))"

definition parseIP4TCPMultiaddr :: "string \<Rightarrow> string result" where
  "parseIP4TCPMultiaddr s =
     (if \<not> has_prefix s ''/ip4/'' then Fail (Err ''expected /ip4/.../tcp/... form'')
      else case Cut (trim_prefix s ''/ip4/'') ''/tcp/'' of
             None \<Rightarrow> Fail (Err ''expected /ip4/.../tcp/... form'')
           | Some (ip, port) \<Rightarrow>
               if ip = [] \<or> port = [] then Fail (Err ''expected /ip4/.../tcp/... form'')
               else if ParseIP ip = None then Fail (Err ''invalid ipv4 address'')
               else Ok (JoinHostPort ip port))"

definition parseOnion3Multiaddr :: "string \<Rightarrow> string result" where
  "parseOnion3Multiaddr s =
     (if \<not> has_prefix s ''/onion3/'' then Fail (Err ''expected /onion3/<addr>:<port> form'')
      else case SplitHostPort (trim_prefix s ''/onion3/'') of
             Inl _ \<Rightarrow> Fail (Err ''expected /onion3/<addr>:<port> form'')
           | Inr (host, port) \<Rightarrow>
               if host = [] \<or> port = [] then Fail (Err ''expected /onion3/<addr>:<port> form'')
               else Ok (JoinHostPort (host @ ''.onion'') port))"

definition selfAdvertisedAddresses :: "string \<Rightarrow> string \<Rightarrow> string list result" where
  "selfAdvertisedAddresses publicTCPAddr onion3Addr =
     (case (if publicTCPAddr \<noteq> [] then map_sum id (\<lambda>a. [a]) (parseIP4TCPMultiaddr publicTCPAddr) else Ok []) of
        Inl err \<Rightarrow> Fail err
      | Inr out \<Rightarrow>
     (case (if onion3Addr \<noteq> [] then map_sum id (\<lambda>a. [a]) (parseOnion3Multiaddr onion3Addr) else Ok []) of
        Inl err \<Rightarrow> Fail err
      | Inr out2 \<Rightarrow> Ok (out @ out2)))"

definition parseAdvertisedAddresses :: "(string \<Rightarrow> bytes result) \<Rightarrow> string \<Rightarrow> string \<Rightarrow> bytes list result" where
  "parseAdvertisedAddresses encodeMultiaddr publicTCPAddr onion3Addr =
     (if publicTCPAddr = [] \<and> onion3Addr = [] then Fail (Err ''at least one of -public-tcp-addr or -onion3-addr must be set'')
      else case (if publicTCPAddr \<noteq> [] then map_sum id (\<lambda>a. [a]) (encodeMultiaddr publicTCPAddr) else Ok []) of
             Inl err \<Rightarrow> Fail err
           | Inr out \<Rightarrow>
          (case (if onion3Addr \<noteq> [] then map_sum id (\<lambda>a. [a]) (encodeMultiaddr onion3Addr) else Ok []) of
             Inl err \<Rightarrow> Fail err
           | Inr out2 \<Rightarrow> Ok (out @ out2)))"

section \<open>The claims\<close>

lemma allowed_claim_nonempty: "isClaimedAddressAllowed a \<Longrightarrow> a \<noteq> []"
  by (auto simp: isClaimedAddressAllowed_def SplitHostPort_def last_index_byte_def index_byte_def)

lemma claimed_loop_spec:
  "distinct claimed \<Longrightarrow> distinct (claimed_loop claimed raws) \<and>
   set (claimed_loop claimed raws) = set claimed \<union> {a. isClaimedAddressAllowed a \<and> (\<exists>raw\<in>set raws. parsePeerAddress raw = Some a)}"
  by (induction claimed raws rule: claimed_loop.induct) (auto split: option.splits)

section \<open>What a satellite buffers\<close>

text \<open>Confirming a node keeps what is known of the others, and of the node all but its key.\<close>

definition carried :: "bytes \<Rightarrow> trackedNode \<Rightarrow> trackedNode \<Rightarrow> bool" where
  "carried pk tn tn' \<longleftrightarrow> tn_cacheDerived tn' = tn_cacheDerived tn \<and> set (tn_addresses tn) \<subseteq> set (tn_addresses tn') \<and>
     n_PublicKey (tn_node tn') \<in> {n_PublicKey (tn_node tn), pk}"

lemma carried_trans: "carried pk a b \<Longrightarrow> carried pk b c \<Longrightarrow> carried pk a c"
  by (auto simp: carried_def)

lemma ensure_carried:
  assumes "ensureTrackedLocked now nid a s = (s2, tn')" "lookup (rs_nodes s) nid = Some tn"
  shows "carried pk tn tn' \<and> n_PublicKey (tn_node tn') = n_PublicKey (tn_node tn)"
  using assms by (auto simp: ensureTrackedLocked_def Let_def carried_def split: if_splits)

lemma confirmed_carried:
  assumes "remote_UpsertConfirmedNode sha1 now a pk src s = (s', r)" "lookup (rs_nodes s) i = Some tn"
  shows "\<exists>tn'. lookup (rs_nodes s') i = Some tn' \<and> carried pk tn tn'"
proof (cases "is_ok r")
  case False
  then show ?thesis using assms
    by (auto simp: remote_UpsertConfirmedNode_def carried_def Let_def split: if_splits prod.splits)
next
  case True
  obtain s1 nid where r: "resolveNodeIDLocked sha1 a s = (s1, nid)" by (metis surj_pair)
  obtain s2 t where e: "ensureTrackedLocked now nid a s1 = (s2, t)" by (metis surj_pair)
  from True obtain n where n: "r = Ok n" by (auto simp: is_ok_iff)
  with assms(1) r e have s': "rs_nodes s' = AList.update nid (t\<lparr>tn_node := n\<rparr>) (rs_nodes s2)" "n_PublicKey n = pk"
    by (auto simp: remote_UpsertConfirmedNode_def Let_def split: if_splits)
  have l: "lookup (rs_nodes s') = (lookup (rs_nodes s))(nid \<mapsto> t\<lparr>tn_node := n\<rparr>)"
    using s'(1) ensure_maps [OF e] resolve_frame [OF r] by (auto simp: fun_eq_iff)
  show ?thesis
  proof (cases "i = nid")
    case True
    then have "carried pk tn t" using ensure_carried [OF e] resolve_frame [OF r] assms(2) by auto
    then have "carried pk tn (t\<lparr>tn_node := n\<rparr>)" using s'(2) by (simp add: carried_def)
    then show ?thesis using True l by simp
  next
    case False
    then show ?thesis using l assms(2) by (simp add: carried_def)
  qed
qed

lemma confirmed_open:
  assumes "\<not> rs_closed s" "a \<noteq> []" "pk \<noteq> []"
  shows "\<exists>s' n. remote_UpsertConfirmedNode sha1 now a pk DiscoverySourceP2P s = (s', Ok n)"
  using assms by (simp add: remote_UpsertConfirmedNode_def source_defs Let_def split: prod.splits)

text \<open>The loop over the remaining claims.\<close>

lemma confirm_all:
  assumes "ids_ok s" "\<not> rs_closed s" "pk \<noteq> []" "[] \<notin> set as"
    "s' = foldl (\<lambda>s a. fst (UpsertConfirmedNode (remote_Store sha1) now a pk DiscoverySourceP2P s)) s as"
  shows "ids_ok s' \<and> \<not> rs_closed s' \<and> rs_cfg s' = rs_cfg s \<and> rs_pending s' = (rs_pending s)\<lparr>b_confirmed := b_confirmed (rs_pending s) @
      map (\<lambda>a. \<lparr>pc_Address = a, pc_PublicKey = pk, pc_DiscoverySource = DiscoverySourceP2P\<rparr>) as\<rparr> \<and>
    (\<forall>i tn. lookup (rs_nodes s) i = Some tn \<longrightarrow> (\<exists>tn'. lookup (rs_nodes s') i = Some tn' \<and> carried pk tn tn'))"
  using assms(1,2,4) unfolding assms(5)
proof (induction as arbitrary: s)
  case Nil
  then show ?case by (simp add: carried_def)
next
  case (Cons a "as")
  obtain s1 n where u: "remote_UpsertConfirmedNode sha1 now a pk DiscoverySourceP2P s = (s1, Ok n)"
    using confirmed_open [OF Cons.prems(2) _ assms(3)] Cons.prems(3) by (metis list.set_intros(1))
  have u': "fst (UpsertConfirmedNode (remote_Store sha1) now a pk DiscoverySourceP2P s) = s1" using u by (simp add: remote_Store_def)
  have f: "ids_ok s1" "\<not> rs_closed s1" "[] \<notin> set as" "rs_cfg s1 = rs_cfg s"
    "rs_pending s1 = (rs_pending s)\<lparr>b_confirmed := b_confirmed (rs_pending s) @ [\<lparr>pc_Address = a, pc_PublicKey = pk, pc_DiscoverySource = DiscoverySourceP2P\<rparr>]\<rparr>"
    using UpsertConfirmed_ids [OF Cons.prems(1) u] UpsertConfirmed_frame [OF u] Cons.prems by simp_all
  note IH = Cons.IH [OF f(1,2,3)]
  have "\<exists>tn'. lookup (rs_nodes (foldl (\<lambda>s a. fst (UpsertConfirmedNode (remote_Store sha1) now a pk DiscoverySourceP2P s)) s1 as)) i = Some tn' \<and> carried pk tn tn'"
    if i: "lookup (rs_nodes s) i = Some tn" for i tn
    using confirmed_carried [OF u i] IH carried_trans by meson
  then show ?case using IH f(4,5) by (simp add: u')
qed

lemma onPeerIdentity_open:
  assumes "ids_ok s" "\<not> rs_closed s" "pk \<noteq> []" "claimed_loop [] (pi_Addresses identity) = a # as"
  shows "\<exists>n s1 h. remote_UpsertConfirmedNode sha1 now a pk DiscoverySourceP2P s = (s1, Ok n) \<and>
    hci_NodeID (ph_Input h) = n_ID n \<and> hci_Reachable (ph_Input h) \<and> hci_ProbeSource (ph_Input h) = ProbeSourceP2P \<and>
    rs_pending (onPeerIdentity (remote_Store sha1) now pk identity s) = (rs_pending s)\<lparr>b_confirmed := b_confirmed (rs_pending s) @
      map (\<lambda>a. \<lparr>pc_Address = a, pc_PublicKey = pk, pc_DiscoverySource = DiscoverySourceP2P\<rparr>) (a # as), b_health := b_health (rs_pending s) @ [h]\<rparr> \<and>
    (\<forall>i tn. lookup (rs_nodes s1) i = Some tn \<longrightarrow>
       (\<exists>tn'. lookup (rs_nodes (onPeerIdentity (remote_Store sha1) now pk identity s)) i = Some tn' \<and> carried pk tn tn'))"
proof -
  have ne: "[] \<notin> set (a # as)" using claimed_loop_spec [of "[]" "pi_Addresses identity"] allowed_claim_nonempty assms(4) by auto
  obtain s1 n where u: "remote_UpsertConfirmedNode sha1 now a pk DiscoverySourceP2P s = (s1, Ok n)"
    using confirmed_open [OF assms(2) _ assms(3)] ne by (metis list.set_intros(1))
  define s2 where "s2 = foldl (\<lambda>s a. fst (UpsertConfirmedNode (remote_Store sha1) now a pk DiscoverySourceP2P s)) s1 as"
  note i1 = UpsertConfirmed_ids [OF assms(1) u] and f1 = UpsertConfirmed_frame [OF u]
  have c: "ids_ok s1" "\<not> rs_closed s1" "[] \<notin> set as" using i1 f1 assms(2) ne by simp_all
  note all = confirm_all [OF c(1,2) assms(3) c(3) s2_def]
  obtain tn where tn: "lookup (rs_nodes s1) (n_ID n) = Some tn" using i1 by auto
  with all obtain tn2 where tn2: "lookup (rs_nodes s2) (n_ID n) = Some tn2" by blast
  then obtain addr where addr: "lookup (rs_addressByID s2) (n_ID n) = Some addr" using all unfolding ids_ok_def by blast
  define inp where "inp = zeroHealthCheckInput\<lparr>hci_NodeID := n_ID n, hci_Reachable := True, hci_ProbeSource := ProbeSourceP2P,
    hci_Version := (if pi_UserAgent identity \<noteq> [] then Some (pi_UserAgent identity) else None),
    hci_PeerIdentityUpdatedAt := (case pi_IdentityUpdatedAt identity of Some u \<Rightarrow> if u \<noteq> 0 then Some (time_Unix u) else None | None \<Rightarrow> None)\<rparr>"
  have inp: "hci_NodeID inp = n_ID n" "hci_Reachable inp" "hci_ProbeSource inp = ProbeSourceP2P" by (simp_all add: inp_def)
  obtain s3 where h: "remote_RecordHealthCheck now inp s2 = (s3, Ok ())"
    using addr all inp by (simp add: remote_RecordHealthCheck_def Let_def source_defs)
  have s3: "onPeerIdentity (remote_Store sha1) now pk identity s = s3"
    using u h unfolding onPeerIdentity_def assms(4) inp_def s2_def by (simp add: remote_Store_def Let_def)
  have nodes: "\<exists>tn''. lookup (rs_nodes s3) i = Some tn'' \<and> carried pk t tn''" if "lookup (rs_nodes s2) i = Some t" for i t
    using h that tn2 addr inp(1,3) by (auto simp: remote_RecordHealthCheck_def maybeSignalFlushLocked_def set_tracked_def Let_def carried_def source_defs split: if_splits)
  have "\<exists>tn'. lookup (rs_nodes s3) i = Some tn' \<and> carried pk t tn'" if "lookup (rs_nodes s1) i = Some t" for i t
    using all that nodes carried_trans by meson
  moreover have "rs_pending s3 = (rs_pending s)\<lparr>b_confirmed := b_confirmed (rs_pending s) @
      map (\<lambda>a. \<lparr>pc_Address = a, pc_PublicKey = pk, pc_DiscoverySource = DiscoverySourceP2P\<rparr>) (a # as), b_health := b_health (rs_pending s) @
      [\<lparr>ph_Address = addr, ph_Input = inp\<rparr>]\<rparr>"
    using RecordHealthCheck_frame [OF h] all f1 addr inp(1) by simp
  ultimately show ?thesis using u inp s3 by (intro exI [of _ n] exI [of _ s1] exI [of _ "\<lparr>ph_Address = addr, ph_Input = inp\<rparr>"]) simp
qed

text \<open>
  C24: what a satellite records of a peer that shook hands.  On an open store reached by the
  program, the addresses reported under the peer's key are exactly the decodable claims that
  are allowed, each once, together with one successful check of a node that holds the first;
  a peer without such a claim leaves no trace.
\<close>

theorem identity_recorded:
  assumes "reachable sha1 cfg c" "\<not> rs_closed (c_store c)" "pk \<noteq> []"
    "s' = onPeerIdentity (remote_Store sha1) now pk identity (c_store c)"
  shows "\<exists>claimed. distinct claimed \<and>
    set claimed = {a. isClaimedAddressAllowed a \<and> (\<exists>raw\<in>set (pi_Addresses identity). parsePeerAddress raw = Some a)} \<and>
    (if claimed = [] then s' = c_store c
     else \<exists>h tn. rs_pending s' = (rs_pending (c_store c))\<lparr>
         b_confirmed := b_confirmed (rs_pending (c_store c)) @
           map (\<lambda>a. \<lparr>pc_Address = a, pc_PublicKey = pk, pc_DiscoverySource = DiscoverySourceP2P\<rparr>) claimed,
         b_health := b_health (rs_pending (c_store c)) @ [h]\<rparr> \<and>
       hci_Reachable (ph_Input h) \<and> hci_ProbeSource (ph_Input h) = ProbeSourceP2P \<and>
       lookup (rs_nodes s') (hci_NodeID (ph_Input h)) = Some tn \<and> n_PublicKey (tn_node tn) = pk \<and>
       hd claimed \<in> na_Address ` set (tn_addresses tn))"
proof -
  let ?cl = "claimed_loop [] (pi_Addresses identity)"
  note ids = reachable_ids [OF assms(1)]
  show ?thesis
  proof (cases ?cl)
    case Nil
    then have "s' = c_store c" using assms(4) by (simp add: onPeerIdentity_def)
    then show ?thesis using claimed_loop_spec [of "[]" "pi_Addresses identity"] Nil by (intro exI [of _ "[]"]) auto
  next
    case (Cons a "as")
    from onPeerIdentity_open [OF ids assms(2,3) Cons, of sha1 now] obtain n s1 h where
      u: "remote_UpsertConfirmedNode sha1 now a pk DiscoverySourceP2P (c_store c) = (s1, Ok n)"
      and h: "hci_NodeID (ph_Input h) = n_ID n" "hci_Reachable (ph_Input h)" "hci_ProbeSource (ph_Input h) = ProbeSourceP2P"
      and p: "rs_pending s' = (rs_pending (c_store c))\<lparr>b_confirmed := b_confirmed (rs_pending (c_store c)) @
        map (\<lambda>a. \<lparr>pc_Address = a, pc_PublicKey = pk, pc_DiscoverySource = DiscoverySourceP2P\<rparr>) (a # as), b_health := b_health (rs_pending (c_store c)) @ [h]\<rparr>"
      and nodes: "\<And>i tn. lookup (rs_nodes s1) i = Some tn \<Longrightarrow> \<exists>tn'. lookup (rs_nodes s') i = Some tn' \<and> carried pk tn tn'"
      unfolding assms(4) by blast
    obtain tn where tn: "lookup (rs_nodes s1) (n_ID n) = Some tn" "tn_node tn = n" "n_PublicKey n = pk" "a \<in> na_Address ` set (tn_addresses tn)"
      using UpsertConfirmed_ids [OF ids u] by auto
    from nodes [OF tn(1)] obtain tn' where t': "lookup (rs_nodes s') (n_ID n) = Some tn'" "carried pk tn tn'" by blast
    then have "n_PublicKey (tn_node tn') = pk" "a \<in> na_Address ` set (tn_addresses tn')" using tn(2-4) by (auto simp: carried_def)
    then show ?thesis using claimed_loop_spec [of "[]" "pi_Addresses identity"] Cons h p t'(1)
      by (intro exI [of _ "a # as"]) auto
  qed
qed

section \<open>What a satellite serves\<close>

definition known_good :: "time \<Rightarrow> NodeFilter" where
  "known_good now = emptyFilter\<lparr>nf_Confirmed := Some True, nf_ReachableSince := Some (now - knownGoodWindow), nf_Limit := maxServedPeers\<rparr>"

lemma known_good_matches: "matchesFilterLocked tn (known_good now) \<longleftrightarrow> n_PublicKey (tn_node tn) \<noteq> [] \<and> tn_cacheDerived tn"
  by (auto simp: matchesFilterLocked_def known_good_def emptyFilter_def Let_def)

lemma remote_addresses_batch:
  assumes "i \<in> set ids" "lookup (rs_nodes s) i = Some tn"
  shows "\<exists>m. remote_ListNodeAddressesForNodes ids s = Ok m \<and> lookup m i = Some (tn_addresses tn)"
proof -
  let ?f = "\<lambda>out nid. AList.update nid (case lookup (rs_nodes s) nid of None \<Rightarrow> [] | Some tn \<Rightarrow> tn_addresses tn) out"
  have "lookup (foldl ?f out ids) i = (if i \<in> set ids then Some (tn_addresses tn) else lookup out i)" for out
    using assms(2) by (induction ids arbitrary: out) auto
  then show ?thesis using assms(1) by (simp add: remote_ListNodeAddressesForNodes_def)
qed

lemma served_list:
  assumes "ids_ok s"
  shows "\<exists>m. peerListProvider enc (remote_Store sha1) now s = Ok (List.map_filter (served_peer enc m) (listNodesLocked (known_good now) s)) \<and>
    (\<forall>n\<in>set (listNodesLocked (known_good now) s). \<exists>tn. lookup (rs_nodes s) (n_ID n) = Some tn \<and> tn_node tn = n \<and>
       tn_cacheDerived tn \<and> lookup m (n_ID n) = Some (tn_addresses tn))"
proof -
  let ?ns = "listNodesLocked (known_good now) s"
  have "\<exists>tn. lookup (rs_nodes s) (n_ID n) = Some tn \<and> tn_node tn = n \<and> tn_cacheDerived tn" if n: "n \<in> set ?ns" for n
  proof -
    have srt: "set (sort_by_address xs) = set xs" for xs :: "Node list" by (rule mset_eq_setD) simp
    obtain i tn where t: "(i, tn) \<in> set (rs_nodes s)" "tn_node tn = n" "tn_cacheDerived tn"
      using n by (auto simp: listNodesLocked_def paginate_def srt Let_def known_good_matches split: if_splits
          dest!: in_set_takeD in_set_dropD)
    then have "lookup (rs_nodes s) i = Some tn" using assms by (simp add: ids_ok_def)
    moreover from this have "n_ID n = i" using ids_ok_nodes [OF assms] t(2) by auto
    ultimately show ?thesis using t by auto
  qed
  note tracked = this
  obtain m where m: "remote_ListNodeAddressesForNodes (map n_ID ?ns) s = Ok m" by (simp add: remote_ListNodeAddressesForNodes_def)
  have "lookup m (n_ID n) = Some (tn_addresses tn)" if "n \<in> set ?ns" "lookup (rs_nodes s) (n_ID n) = Some tn" for n tn
    using remote_addresses_batch [of "n_ID n" "map n_ID ?ns" s tn] that m by auto
  moreover have "peerListProvider enc (remote_Store sha1) now s = Ok (List.map_filter (served_peer enc m) ?ns)"
    using m by (auto simp: peerListProvider_def remote_Store_def remote_ListNodes_def known_good_def [symmetric] map_filter_simps)
  ultimately show ?thesis using tracked by (intro exI [of _ m]) blast
qed


text \<open>
  A claim is believed over the seed list.  When a peer claims an address of a cached seed,
  the satellite replaces the key of the seed by the key of that peer and keeps serving the
  seed's addresses, now under that key, until the next refresh of the cache.
\<close>

theorem claim_displaces_seed:
  assumes "reachable sha1 cfg c" "\<not> rs_closed (c_store c)" "pk \<noteq> []"
    "lookup (rs_idByAddress (c_store c)) a = Some i" "lookup (rs_nodes (c_store c)) i = Some seed" "tn_cacheDerived seed"
    "claimed_loop [] (pi_Addresses identity) = [a]"
    "s' = onPeerIdentity (remote_Store sha1) now pk identity (c_store c)"
  shows "\<exists>tn. lookup (rs_nodes s') i = Some tn \<and> n_PublicKey (tn_node tn) = pk \<and> set (tn_addresses seed) \<subseteq> set (tn_addresses tn) \<and>
    matchesFilterLocked tn (known_good later)"
proof -
  note ids = reachable_ids [OF assms(1)]
  from onPeerIdentity_open [OF ids assms(2,3,7), of sha1 now] obtain n s1 where
    u: "remote_UpsertConfirmedNode sha1 now a pk DiscoverySourceP2P (c_store c) = (s1, Ok n)"
    and nodes: "\<And>i tn. lookup (rs_nodes s1) i = Some tn \<Longrightarrow> \<exists>tn'. lookup (rs_nodes s') i = Some tn' \<and> carried pk tn tn'"
    unfolding assms(8) by blast
  have "n_ID n = i"
  proof -
    obtain s2 t where e: "ensureTrackedLocked now i a (c_store c) = (s2, t)" by (metis surj_pair)
    then have "n_ID (tn_node t) = i" using ensure_tracked [OF e] ids by (auto simp: ids_ok_alt tracked_ok_def)
    then show ?thesis using u e assms(4) by (auto simp: remote_UpsertConfirmedNode_def resolveNodeIDLocked_def Let_def split: if_splits)
  qed
  then obtain tn where tn: "lookup (rs_nodes s1) i = Some tn" "n_PublicKey (tn_node tn) = pk"
    using UpsertConfirmed_ids [OF ids u] by auto
  moreover have "carried pk seed tn" using confirmed_carried [OF u assms(5)] tn(1) by auto
  moreover obtain tn' where "lookup (rs_nodes s') i = Some tn'" "carried pk tn tn'" using nodes [OF tn(1)] by blast
  ultimately show ?thesis using assms(3,6) by (auto simp: carried_def known_good_matches intro!: exI [of _ tn'])
qed

section \<open>Examples\<close>

text \<open>A satellite that has fetched a seed list with one node, and a peer that claims the address of that node.\<close>

definition seeded :: configuration where
  "seeded = fresh_configuration\<lparr>c_store := merge_candidate 3 fresh_store
     \<lparr>sw_NodeID = 5, sw_PublicKey = ''0a'', sw_Label = None, sw_Addresses = [''8.8.8.8:18189'']\<rparr>\<rparr>"

lemma reachable_seeded: "reachable sha1 example_cfg seeded"
proof -
  let ?http = "\<lambda>_ :: string. HttpResponse StatusOK (Some [\<lparr>sw_NodeID = 5, sw_PublicKey = ''0a'', sw_Label = None, sw_Addresses = [''8.8.8.8:18189'']\<rparr>])"
  have "fst (refreshCache ?http 3 fresh_store) = c_store seeded"
    by (simp add: refreshCache_def seeded_def fresh_store_def example_store_def)
  then have "step sha1 fresh_configuration seeded"
    using step.Refresh [of sha1 fresh_configuration ?http 3] by (simp add: fresh_configuration_def seeded_def)
  then show ?thesis by (rule reachable.Step [OF reachable_fresh])
qed

definition example_peer :: responder_PeerInfo where
  "example_peer = \<lparr>pi_RemoteStaticPubKey = [9], pi_UserAgent = ''t'', pi_IdentityUpdatedAt = None,
     pi_Addresses = [[4, 8, 8, 8, 8, 6, 0x47, 0x0D], [4, 127, 0, 0, 1, 6, 0x47, 0x0D]]\<rparr>"

lemma example_decoded:
  "parsePeerAddress [4, 8, 8, 8, 8, 6, 0x47, 0x0D] = Some ''8.8.8.8:18189''"
  "parsePeerAddress [4, 127, 0, 0, 1, 6, 0x47, 0x0D] = Some ''127.0.0.1:18189''"
proof -
  have d: "digit_char 0 = CHR ''0''" "digit_char (Suc 0) = CHR ''1''" "digit_char 1 = CHR ''1''" "digit_char 2 = CHR ''2''"
    "digit_char 7 = CHR ''7''" "digit_char 8 = CHR ''8''" "digit_char 9 = CHR ''9''" by code_simp+
  have n: "Itoa_nat 8 = ''8''" "Itoa_nat 127 = ''127''" "Itoa_nat 0 = ''0''" "Itoa_nat (Suc 0) = ''1''" "Itoa_nat 18189 = ''18189''"
    by (simp_all add: Itoa_nat.simps d)
  have j: "JoinHostPort (ipv4_string [8, 8, 8, 8]) (Itoa_nat 18189) = ''8.8.8.8:18189''"
    "JoinHostPort (ipv4_string [127, 0, 0, 1]) (Itoa_nat 18189) = ''127.0.0.1:18189''"
    by (simp_all add: ipv4_string_def JoinHostPort_def contains_byte_def n)
  have l: "length (replicate 16 (0 :: byte)) = 16" "length (replicate 35 (0 :: byte)) = 35" by simp_all
  show "parsePeerAddress [4, 8, 8, 8, 8, 6, 0x47, 0x0D] = Some ''8.8.8.8:18189''"
    "parsePeerAddress [4, 127, 0, 0, 1, 6, 0x47, 0x0D] = Some ''127.0.0.1:18189''"
    using parsePeerAddress_binary [OF l, of 8 8 8 8 "0x47" "0x0D"] parsePeerAddress_binary [OF l, of 127 0 0 1 "0x47" "0x0D"] j by simp_all
qed

lemma example_claims_allowed: "isClaimedAddressAllowed ''8.8.8.8:18189''" "\<not> isClaimedAddressAllowed ''127.0.0.1:18189''"
  by code_simp+

lemma example_claims: "claimed_loop [] (pi_Addresses example_peer) = [''8.8.8.8:18189'']"
  using example_claims_allowed by (simp add: example_peer_def example_decoded)

lemma seeded_facts: "\<not> rs_closed (c_store seeded)" "lookup (rs_idByAddress (c_store seeded)) ''8.8.8.8:18189'' = Some 5"
  "\<exists>tn. lookup (rs_nodes (c_store seeded)) 5 = Some tn \<and> tn_cacheDerived tn"
  by (simp_all add: seeded_def merge_candidate_def fresh_store_def example_store_def hex_val_def Let_def)

lemma example_claims_unique:
  assumes "distinct claimed"
    "set claimed = {a. isClaimedAddressAllowed a \<and> (\<exists>raw\<in>set (pi_Addresses example_peer). parsePeerAddress raw = Some a)}"
  shows "claimed = [''8.8.8.8:18189'']"
proof -
  have "set claimed = {''8.8.8.8:18189''}" using assms(2) claimed_loop_spec [of "[]" "pi_Addresses example_peer"] by (simp add: example_claims)
  then show ?thesis using assms(1) by (cases claimed rule: remdups_adj.cases) auto
qed

lemma seeded_pending: "rs_pending (c_store seeded) = no_buffers"
  by (simp add: seeded_def merge_candidate_def fresh_store_def example_store_def hex_val_def Let_def)

theorem identity_recorded_witness:
  "\<exists>h. rs_pending (onPeerIdentity (remote_Store (\<lambda>_ _. 7)) 4 [9] example_peer (c_store seeded)) =
     no_buffers\<lparr>b_confirmed := [\<lparr>pc_Address = ''8.8.8.8:18189'', pc_PublicKey = [9], pc_DiscoverySource = DiscoverySourceP2P\<rparr>], b_health := [h]\<rparr>"
proof -
  have "[9 :: byte] \<noteq> []" by simp
  from identity_recorded [OF reachable_seeded [of "\<lambda>_ _. 7"] seeded_facts(1) this refl, of example_peer 4] show ?thesis
    by - (elim exE conjE, frule (1) example_claims_unique, auto simp: seeded_pending no_buffers_def)
qed


theorem claim_displaces_seed_witness:
  "\<exists>tn. lookup (rs_nodes (onPeerIdentity (remote_Store (\<lambda>_ _. 7)) 4 [9] example_peer (c_store seeded))) 5 = Some tn \<and>
     n_PublicKey (tn_node tn) = [9]"
proof -
  obtain tn where tn: "lookup (rs_nodes (c_store seeded)) 5 = Some tn" "tn_cacheDerived tn" using seeded_facts(3) by blast
  have "[9 :: byte] \<noteq> []" by simp
  from claim_displaces_seed [OF reachable_seeded seeded_facts(1) this seeded_facts(2) tn example_claims refl]
  show ?thesis by blast
qed

end
