(* ===== verification/Process_Config.thy ===== *)
theory Process_Config
  imports P2p_Responder Publication
begin

text \<open>
  \<^verbatim>\<open>cmd/netmap\<close>: how the settings of the central process become the configuration of its parts
  (\<^verbatim>\<open>main.go\<close>), and what its metrics report (\<^verbatim>\<open>metrics.go\<close>).  The parsers
  \<^verbatim>\<open>parseSeedNodes\<close>, \<^verbatim>\<open>parseOwnedGRPCAddresses\<close> and \<^verbatim>\<open>parseSocksProxyAddrs\<close> of \<^verbatim>\<open>main.go\<close> are those of
  the responder, modelled in \<open>P2p_Responder\<close>.  A gauge or counter of Prometheus is a map from
  label values to numbers; log lines are not modelled.
\<close>

section \<open>Settings\<close>

definition validateNetmapNetwork :: "string \<Rightarrow> unit result" where
  "validateNetmapNetwork network =
     (if network = [] then Fail (Err ''-network is required'')
      else if network \<notin> {''mainnet'', ''testnet''} then Fail (Err ''-network is invalid'')
      else Ok ())"

definition owned_wallet_entry :: "(string \<times> int) list \<Rightarrow> string \<Rightarrow> (string \<times> int) list" where
  "owned_wallet_entry out pair =
     (let pair = trim_space pair in
      if pair = [] then out
      else case Cut pair ''='' of
             None \<Rightarrow> out
           | Some (p2pAddr, httpAddr) \<Rightarrow>
               let p2pAddr = trim_space p2pAddr; httpAddr = trim_space httpAddr in
               if p2pAddr = [] \<or> httpAddr = [] then out
               else case SplitHostPort httpAddr of
                      Inl _ \<Rightarrow> out
                    | Inr (_, portStr) \<Rightarrow>
                        (case Atoi portStr of
                           None \<Rightarrow> out
                         | Some port \<Rightarrow> if port < 1 \<or> port > 65535 then out else AList.update p2pAddr port out))"

definition parseOwnedWalletHTTPAddresses :: "string \<Rightarrow> (string \<times> int) list" where
  "parseOwnedWalletHTTPAddresses raw =
     (if raw = [] then [] else foldl owned_wallet_entry [] (split_byte (CHR '','') raw))"

definition collector_key_entry :: "(string \<times> string) list \<Rightarrow> string \<Rightarrow> (string \<times> string) list" where
  "collector_key_entry out pair =
     (let pair = trim_space pair in
      if pair = [] then out
      else case Cut pair '':'' of
             None \<Rightarrow> out
           | Some (name, key) \<Rightarrow>
               let name = trim_space name; key = trim_space key in
               if name = [] \<or> key = [] then out else AList.update name key out)"

definition parseCollectorKeys :: "string \<Rightarrow> (string \<times> string) list" where
  "parseCollectorKeys raw = (if raw = [] then [] else foldl collector_key_entry [] (split_byte (CHR '','') raw))"

definition self_address_entry :: "(string \<times> string list) list \<Rightarrow> string \<Rightarrow> (string \<times> string list) list" where
  "self_address_entry out entry =
     (let entry = trim_space entry in
      if entry = [] then out
      else case Cut entry '':'' of
             None \<Rightarrow> out
           | Some (name, addrList) \<Rightarrow>
               let name = trim_space name in
               if name = [] then out
               else AList.update name (filter (\<lambda>a. a \<noteq> []) (map trim_space (split_byte (CHR ''|'') addrList))) out)"

definition parseCollectorSelfAddresses :: "string \<Rightarrow> (string \<times> string list) list" where
  "parseCollectorSelfAddresses raw =
     (if raw = [] then [] else foldl self_address_entry [] (split_byte (CHR '','') raw))"

text \<open>The collectors \<^verbatim>\<open>main\<close> hands to \<^verbatim>\<open>api.NewRouter\<close>.\<close>

definition configured_collectors :: "string \<Rightarrow> string \<Rightarrow> (string \<times> CollectorConfig) list" where
  "configured_collectors keysRaw selfRaw =
     (let collectorSelfAddresses = parseCollectorSelfAddresses selfRaw
      in map (\<lambda>(name, key). (name, \<lparr>cc_APIKey = key, cc_SelfAddresses = coalesce (lookup collectorSelfAddresses name) []\<rparr>))
           (parseCollectorKeys keysRaw))"

section \<open>Metrics\<close>

record netmapMetrics =
  nm_dbUp :: nat
  nm_queueBacklog :: "(string \<times> nat) list"
  nm_knownNodes :: "(string \<times> nat) list"
  nm_pollResult :: "((string \<times> string) \<times> nat) list"
  nm_httpRequestsTotal :: "((string \<times> string \<times> string) \<times> nat) list"

definition metricsResultLabel :: "bool \<Rightarrow> string" where
  "metricsResultLabel success = (if success then ''success'' else ''failure'')"

definition Inc :: "'k \<Rightarrow> ('k \<times> nat) list \<Rightarrow> ('k \<times> nat) list" where
  "Inc k m = AList.update k (coalesce (lookup m k) 0 + 1) m"

definition onPollResult :: "string \<Rightarrow> bool \<Rightarrow> netmapMetrics \<Rightarrow> netmapMetrics" where
  "onPollResult probeSource success m = m\<lparr>nm_pollResult := Inc (probeSource, metricsResultLabel success) (nm_pollResult m)\<rparr>"

definition set_backlog :: "string \<Rightarrow> nat \<Rightarrow> netmapMetrics \<Rightarrow> netmapMetrics" where
  "set_backlog queue n m = m\<lparr>nm_queueBacklog := AList.update queue n (nm_queueBacklog m)\<rparr>"

definition set_known :: "string \<Rightarrow> nat \<Rightarrow> netmapMetrics \<Rightarrow> netmapMetrics" where
  "set_known source n m = m\<lparr>nm_knownNodes := AList.update source n (nm_knownNodes m)\<rparr>"

definition count_backlog :: "string \<Rightarrow> NodeFilter \<Rightarrow> DB \<Rightarrow> netmapMetrics \<Rightarrow> netmapMetrics" where
  "count_backlog queue f db m = (case pg_CountNodes f db of Inl _ \<Rightarrow> m | Inr n \<Rightarrow> set_backlog queue n m)"

definition likelyDeadHistoryLimit :: int where "likelyDeadHistoryLimit = 3"

definition refreshUnconfirmedQueueBacklog :: "DB \<Rightarrow> netmapMetrics \<Rightarrow> netmapMetrics" where
  "refreshUnconfirmedQueueBacklog db m =
     (case pg_ListNodes (emptyFilter\<lparr>nf_Confirmed := Some False, nf_HasHealthChecks := Some True\<rparr>) db of
        Inl _ \<Rightarrow> m
      | Inr nodes \<Rightarrow>
     (case pg_GetNodeHistoryForNodes (map n_ID nodes) likelyDeadHistoryLimit db of
        Inl _ \<Rightarrow> m
      | Inr historyByNode \<Rightarrow>
          let (active, likelyDead) = foldl (\<lambda>(active, likelyDead) i.
                if IsLikelyDead (coalesce (lookup historyByNode i) []) then (active, likelyDead + 1) else (active + 1, likelyDead))
                (0, 0) (map n_ID nodes)
          in set_backlog ''unconfirmed_likely_dead'' likelyDead (set_backlog ''unconfirmed_active'' active m)))"

text \<open>\<open>ping\<close> is the error of \<^verbatim>\<open>store.Ping\<close>, if it has one.\<close>

definition refresh :: "error option \<Rightarrow> time \<Rightarrow> DB \<Rightarrow> netmapMetrics \<Rightarrow> netmapMetrics" where
  "refresh ping now db m =
     (if ping \<noteq> None then m\<lparr>nm_dbUp := 0\<rparr>
      else
        let m = m\<lparr>nm_dbUp := 1\<rparr>;
            m = count_backlog ''confirmed_owned'' (emptyFilter\<lparr>nf_Confirmed := Some True, nf_Owned := Some True\<rparr>) db m;
            m = count_backlog ''confirmed_generic'' (emptyFilter\<lparr>nf_Confirmed := Some True, nf_Owned := Some False\<rparr>) db m;
            m = refreshUnconfirmedQueueBacklog db m;
            m = count_backlog ''never_contacted'' (emptyFilter\<lparr>nf_Confirmed := Some False, nf_HasHealthChecks := Some False\<rparr>) db m
        in case FetchNodeCounts now db of
             Inl _ \<Rightarrow> m
           | Inr counts \<Rightarrow> set_known ''both'' (nc_Both counts) (set_known ''registry'' (nc_Registry counts) (set_known ''p2p'' (nc_P2P counts) m)))"

text \<open>The labels of the routes, and the middleware around the whole server.\<close>

definition httpRouteLabel :: "string \<Rightarrow> string" where
  "httpRouteLabel path =
     (if path = ''/'' then ''dashboard_home''
      else if path = ''/topology'' then ''dashboard_topology''
      else if path = ''/network'' then ''dashboard_network''
      else if has_prefix path ''/static/'' then ''dashboard_static''
      else if has_prefix path ''/nodes/'' then ''dashboard_node_detail''
      else if has_prefix path ''/admin/'' then ''dashboard_admin''
      else if path = ''/api/v1/stats'' then ''api_stats''
      else if path = ''/api/healthz'' then ''api_healthz''
      else if path = ''/api/nodes/seeds'' then ''api_seed_candidates''
      else if path = ''/api/config/peer-seeds'' then ''api_config_peer_seeds''
      else if path = ''/api/topology/top-peered'' then ''api_topology_top_peered''
      else if path = ''/api/topology'' then ''api_topology''
      else if path = ''/api/nodes'' then ''api_nodes_collection''
      else if has_prefix path ''/api/nodes/'' \<and> has_suffix path ''/history'' then ''api_node_history''
      else if has_prefix path ''/api/nodes/'' \<and> has_suffix path ''/edges'' then ''api_node_edges''
      else if has_prefix path ''/api/nodes/'' then ''api_node_detail''
      else if has_prefix path ''/api/admin/'' then ''api_admin''
      else ''other'')"

record statusRecordingWriter =
  sw_status :: int
  sw_wroteHeader :: bool

definition WriteHeader :: "int \<Rightarrow> statusRecordingWriter \<Rightarrow> statusRecordingWriter" where
  "WriteHeader code w = (if \<not> sw_wroteHeader w then w\<lparr>sw_status := code, sw_wroteHeader := True\<rparr> else w)"

text \<open>\<open>codes\<close> are the calls of \<^verbatim>\<open>WriteHeader\<close> that the wrapped handler makes.\<close>

definition instrumentHTTP :: "string \<Rightarrow> string \<Rightarrow> int list \<Rightarrow> netmapMetrics \<Rightarrow> netmapMetrics" where
  "instrumentHTTP httpMethod path codes m =
     (let rec = fold WriteHeader codes \<lparr>sw_status = StatusOK, sw_wroteHeader = False\<rparr>
      in m\<lparr>nm_httpRequestsTotal := Inc (httpMethod, httpRouteLabel path, Itoa (sw_status rec)) (nm_httpRequestsTotal m)\<rparr>)"

definition handleHealthz :: "error option \<Rightarrow> string response" where
  "handleHealthz ping = (case ping of Some err \<Rightarrow> ErrorResponse StatusServiceUnavailable err | None \<Rightarrow> Response StatusOK ''ok'')"

section \<open>What the settings guarantee\<close>

text \<open>An entry that is kept is well-formed; a malformed one changes nothing.\<close>

definition key_ok :: "string \<times> string \<Rightarrow> bool" where
  "key_ok = (\<lambda>(name, key). name \<noteq> [] \<and> key \<noteq> [])"

lemma update_all: "\<forall>e\<in>set out. P e \<Longrightarrow> P (k, v) \<Longrightarrow> \<forall>e\<in>set (AList.update k v out). P e"
  by (induction out) auto

lemma entries_ok:
  assumes "\<And>out x. f out x = out \<or> (\<exists>k v. P (k, v) \<and> f out x = AList.update k v out)"
  shows "\<forall>e\<in>set out. P e \<Longrightarrow> \<forall>e\<in>set (foldl f out xs). P e"
proof (induction xs arbitrary: out)
  case (Cons x xs)
  have "\<forall>e\<in>set (f out x). P e" using assms [of out x] update_all [OF Cons.prems] Cons.prems by auto
  then show ?case using Cons.IH by simp
qed simp

lemma parseCollectorKeys_ok: "\<forall>e\<in>set (parseCollectorKeys raw). key_ok e"
proof -
  have "collector_key_entry out x = out \<or> (\<exists>k v. key_ok (k, v) \<and> collector_key_entry out x = AList.update k v out)" for out x
    by (auto simp: collector_key_entry_def Let_def key_ok_def split: option.split)
  from entries_ok [where f = collector_key_entry, OF this, of "[]"] show ?thesis by (simp add: parseCollectorKeys_def)
qed

definition port_ok :: "string \<times> int \<Rightarrow> bool" where
  "port_ok = (\<lambda>(addr, port). addr \<noteq> [] \<and> 1 \<le> port \<and> port \<le> 65535)"

lemma parseOwnedWalletHTTPAddresses_ok: "\<forall>e\<in>set (parseOwnedWalletHTTPAddresses raw). port_ok e"
proof -
  have "owned_wallet_entry out x = out \<or> (\<exists>k v. port_ok (k, v) \<and> owned_wallet_entry out x = AList.update k v out)" for out x
    by (auto simp: owned_wallet_entry_def Let_def port_ok_def not_less split: option.split sum.split)
  from entries_ok [where f = owned_wallet_entry, OF this, of "[]"] show ?thesis by (simp add: parseOwnedWalletHTTPAddresses_def)
qed

text \<open>
  The gate in front of the reports, as \<^verbatim>\<open>main\<close> configures it: only a request with a key that is
  listed, and never with an empty one; with nothing configured every request gets 503.
\<close>

lemma configured_collectors_gate:
  "wrapCollectorAuth (configured_collectors keysRaw selfRaw) h r s \<noteq> (s, ErrorResponse StatusUnauthorized (Err ''unauthorized'')) \<Longrightarrow>
   parseCollectorKeys keysRaw \<noteq> [] \<Longrightarrow> \<exists>name key. (name, key) \<in> set (parseCollectorKeys keysRaw) \<and> key \<noteq> [] \<and> rq_Header r collectorKeyHeader = key"
proof -
  assume w: "wrapCollectorAuth (configured_collectors keysRaw selfRaw) h r s \<noteq> (s, ErrorResponse StatusUnauthorized (Err ''unauthorized''))"
    and k: "parseCollectorKeys keysRaw \<noteq> []"
  have m: "snd (match_collector provided cs (n, b)) \<Longrightarrow> b \<or> (\<exists>(name, cfg)\<in>set cs. cc_APIKey cfg = provided \<and> provided \<noteq> [])" for provided cs n b
    by (induction cs arbitrary: n b) (force simp: ConstantTimeCompare_eq split: if_splits)+
  have "snd (authenticateCollector (configured_collectors keysRaw selfRaw) r)"
    using w k by (auto simp: wrapCollectorAuth_def configured_collectors_def Let_def split: prod.splits if_splits)
  then show ?thesis using m [of "rq_Header r collectorKeyHeader" "configured_collectors keysRaw selfRaw" "[]" False]
    by (fastforce simp: authenticateCollector_def configured_collectors_def Let_def split: if_splits)
qed

section \<open>What the gauges show\<close>

text \<open>The batched history agrees with the single one.\<close>

lemma history_batch:
  assumes "pg_GetNodeHistoryForNodes ids limit db = Ok m" "i \<in> set ids"
  shows "pg_GetNodeHistory i limit db = Ok (coalesce (lookup m i) [])"
proof -
  let ?g = "\<lambda>i. newest (default_limit limit) (filter (\<lambda>h. hc_NodeID h = i) (db_node_health db))"
  let ?is = "remdups (map hc_NodeID (filter (\<lambda>h. hc_NodeID h \<in> set ids) (db_node_health db)))"
  have m: "m = foldl (\<lambda>m h. AList.update (hc_NodeID h) (coalesce (lookup m (hc_NodeID h)) [] @ [h]) m)
      (foldl (\<lambda>m i. AList.update i [] m) [] ids) (concat (map ?g ?is))"
    using assms by (auto simp: pg_GetNodeHistoryForNodes_def Let_def split: if_splits)
  have "coalesce (lookup m i) [] = filter (\<lambda>h. hc_NodeID h = i) (concat (map ?g ?is))"
    unfolding m grouped_rows cleared_rows using assms(2) by simp
  also have "\<dots> = (if i \<in> set ?is then ?g i else [])"
    by (rule filter_concat_groups) (auto simp: newest_def HealthCheck.truncate_def dest!: in_set_takeD)
  also have "\<dots> = ?g i"
  proof (cases "i \<in> set ?is")
    case False
    then have "filter (\<lambda>h. hc_NodeID h = i) (db_node_health db) = []" using assms(2) by (auto simp: filter_empty_conv)
    with False show ?thesis by (simp add: newest_def)
  qed simp
  finally show ?thesis by (simp add: pg_GetNodeHistory_def)
qed

definition likely_dead :: "DB \<Rightarrow> Node \<Rightarrow> bool" where
  "likely_dead db n \<longleftrightarrow> (case pg_GetNodeHistory (n_ID n) 3 db of Inl _ \<Rightarrow> False | Inr h \<Rightarrow> IsLikelyDead h)"

lemma split_counts: "foldl (\<lambda>(active, dead) i. if P i then (active, dead + 1) else (active + 1, dead)) (a, d) is =
   (a + length (filter (\<lambda>i. \<not> P i) is), d + length (filter P is))" for a d :: nat
  by (induction "is" arbitrary: a d) auto

lemma history_total: "\<exists>h. pg_GetNodeHistoryForNodes ids limit db = Ok h"
  by (simp add: pg_GetNodeHistoryForNodes_def Let_def)

lemma unconfirmed_backlog:
  fixes db :: DB
  defines "q \<equiv> sort_by_address (filter (selected db unconfirmedFilter) (db_nodes db))"
  shows "refreshUnconfirmedQueueBacklog db m = set_backlog ''unconfirmed_likely_dead'' (length (filter (likely_dead db) q))
     (set_backlog ''unconfirmed_active'' (length (filter (\<lambda>n. \<not> likely_dead db n) q)) m)"
proof -
  have l: "pg_ListNodes (emptyFilter\<lparr>nf_Confirmed := Some False, nf_HasHealthChecks := Some True\<rparr>) db = Ok q"
    using queue_listing [of unconfirmedFilter db] by (simp add: unconfirmedFilter_def q_def)
  obtain h where h: "pg_GetNodeHistoryForNodes (map n_ID q) likelyDeadHistoryLimit db = Ok h"
    using history_total by blast
  have d: "IsLikelyDead (coalesce (lookup h (n_ID n)) []) = likely_dead db n" if "n \<in> set q" for n
    using history_batch [OF h, of "n_ID n"] that by (simp add: likely_dead_def likelyDeadHistoryLimit_def)
  have "foldl (\<lambda>(active, dead) i. if IsLikelyDead (coalesce (lookup h i) []) then (active, dead + 1) else (active + 1, dead)) (0, 0) (map n_ID q) =
    (length (filter (\<lambda>n. \<not> likely_dead db n) q), length (filter (likely_dead db) q))"
    unfolding split_counts by (simp add: filter_map o_def d cong: filter_cong)
  then show ?thesis unfolding refreshUnconfirmedQueueBacklog_def l sum.case h Let_def by simp
qed

lemma source_counts:
  "list_all (\<lambda>n. valid_source (n_DiscoverySource n)) ns \<Longrightarrow>
   nc_P2P (foldl (count_node am) c ns) + nc_Registry (foldl (count_node am) c ns) + nc_Both (foldl (count_node am) c ns) =
   nc_P2P c + nc_Registry c + nc_Both c + length ns"
proof (induction ns arbitrary: c)
  case (Cons n ns)
  have "nc_P2P (count_node am c n) + nc_Registry (count_node am c n) + nc_Both (count_node am c n) = nc_P2P c + nc_Registry c + nc_Both c + 1"
    using Cons.prems by (auto simp: count_node_def Let_def valid_source_def)
  then show ?case using Cons by simp
qed simp

lemma counts_fetched:
  assumes "schema_ok db"
  shows "\<exists>counts. FetchNodeCounts now db = Ok counts \<and> nc_P2P counts + nc_Registry counts + nc_Both counts = length (db_nodes db)"
proof -
  obtain ns where ns: "pg_ListNodes emptyFilter db = Ok ns" using ListNodes_total by blast
  obtain am where am: "pg_ListNodeAddressesForNodes (map n_ID ns) db = Ok am" using batch_total by blast
  have "mset ns = mset (db_nodes db)"
    using ListNodes_all [OF ns] by (simp add: pg_matching_def selected_def nodeFilterClauses_def emptyFilter_def)
  then have n: "length ns = length (db_nodes db)" "set ns = set (db_nodes db)" using mset_eq_length mset_eq_setD by blast+
  have "list_all (\<lambda>n. valid_source (n_DiscoverySource n)) ns"
    using assms n(2) by (auto simp: schema_ok_def constraints_ok_def nodes_ok_def list_all_iff)
  from source_counts [OF this, of am zeroNodeCounts] show ?thesis
    using ns am n(1) by (simp add: FetchNodeCounts_def FetchConfirmed24h_def pg_CountNodes_def ComputeNodeCounts_def zeroNodeCounts_def)
qed

lemma length_sort_by_address [simp]: "length (sort_by_address ns) = length ns"
  by (metis size_mset sort_by_address_mset)

text \<open>
  C33: the gauges tell the truth.  After a refresh that reaches the database, the gauges of the
  queues are the sizes of the collector's four polling queues, with the queue of unconfirmed nodes
  split into those whose newest three checks all failed, which are polled weekly, and the
  others; together they are the number of nodes, and so are the gauges by source.  A refresh
  that does not reach the database changes only the gauge that says so.
\<close>

theorem metrics_truthful:
  assumes "schema_ok (co_Storage c)" "m' = refresh None now (co_Storage c) m"
  shows "(\<exists>a b u d v. lookup (nm_queueBacklog m') ''confirmed_owned'' = Some a \<and> lookup (nm_queueBacklog m') ''confirmed_generic'' = Some b \<and>
      lookup (nm_queueBacklog m') ''unconfirmed_active'' = Some u \<and> lookup (nm_queueBacklog m') ''unconfirmed_likely_dead'' = Some d \<and>
      lookup (nm_queueBacklog m') ''never_contacted'' = Some v \<and> QueueSizes pg_Store c = Ok (a, b, u + d, v) \<and>
      a + b + u + d + v = length (db_nodes (co_Storage c)) \<and>
      d = length (filter (\<lambda>n. selected (co_Storage c) unconfirmedFilter n \<and> likely_dead (co_Storage c) n) (db_nodes (co_Storage c)))) \<and>
    (\<exists>p r b. lookup (nm_knownNodes m') ''p2p'' = Some p \<and> lookup (nm_knownNodes m') ''registry'' = Some r \<and>
      lookup (nm_knownNodes m') ''both'' = Some b \<and> p + r + b = length (db_nodes (co_Storage c))) \<and>
    nm_dbUp m' = 1 \<and> (\<forall>err. refresh (Some err) now (co_Storage c) m = m\<lparr>nm_dbUp := 0\<rparr>)"
proof -
  let ?db = "co_Storage c" and ?q = "\<lambda>f. sort_by_address (filter (selected (co_Storage c) f) (db_nodes (co_Storage c)))"
  define a b v where "a = length (?q ownedConfirmedFilter)" and "b = length (?q genericConfirmedFilter)"
    and "v = length (?q neverContactedFilter)"
  define u d where "u = length (filter (\<lambda>n. \<not> likely_dead ?db n) (?q unconfirmedFilter))"
    and "d = length (filter (likely_dead ?db) (?q unconfirmedFilter))"
  have ud: "u + d = length (?q unconfirmedFilter)"
    unfolding u_def d_def using sum_length_filter_compl [of "likely_dead ?db" "?q unconfirmedFilter"] by linarith
  have sizes: "QueueSizes pg_Store c = Ok (a, b, u + d, v)" "a + b + (u + d) + v = length (db_nodes ?db)"
    using queues_partition [of c] queue_listing [where db = ?db] unfolding ud a_def b_def v_def by auto
  have cnt: "count_backlog l f ?db m = set_backlog l (length (?q f)) m" for l f m
    by (simp add: count_backlog_def pg_CountNodes_def pg_matching_def)
  obtain counts where k: "FetchNodeCounts now ?db = Ok counts"
    "nc_P2P counts + nc_Registry counts + nc_Both counts = length (db_nodes ?db)" using counts_fetched [OF assms(1)] by blast
  have m': "m' = set_known ''both'' (nc_Both counts) (set_known ''registry'' (nc_Registry counts) (set_known ''p2p'' (nc_P2P counts)
      (set_backlog ''never_contacted'' v (set_backlog ''unconfirmed_likely_dead'' d (set_backlog ''unconfirmed_active'' u
      (set_backlog ''confirmed_generic'' b (set_backlog ''confirmed_owned'' a (m\<lparr>nm_dbUp := 1\<rparr>))))))))"
    unfolding assms(2) refresh_def Let_def cnt unconfirmed_backlog k(1) a_def b_def v_def u_def d_def queue_filter_defs by simp
  have d: "d = length (filter (\<lambda>n. selected ?db unconfirmedFilter n \<and> likely_dead ?db n) (db_nodes ?db))"
  proof -
    have "mset (filter (likely_dead ?db) (?q unconfirmedFilter)) =
        mset (filter (\<lambda>n. selected ?db unconfirmedFilter n \<and> likely_dead ?db n) (db_nodes ?db))"
      by (simp add: filter_filter_mset conj_commute)
    then show ?thesis unfolding d_def by (metis size_mset)
  qed
  have g: "lookup (nm_queueBacklog m') ''confirmed_owned'' = Some a" "lookup (nm_queueBacklog m') ''confirmed_generic'' = Some b"
    "lookup (nm_queueBacklog m') ''unconfirmed_active'' = Some u" "lookup (nm_queueBacklog m') ''unconfirmed_likely_dead'' = Some d"
    "lookup (nm_queueBacklog m') ''never_contacted'' = Some v"
    unfolding m' set_backlog_def set_known_def by (simp_all add: lookup_update)
  have n: "lookup (nm_knownNodes m') ''p2p'' = Some (nc_P2P counts)" "lookup (nm_knownNodes m') ''registry'' = Some (nc_Registry counts)"
    "lookup (nm_knownNodes m') ''both'' = Some (nc_Both counts)" "nm_dbUp m' = 1"
    unfolding m' set_backlog_def set_known_def by (simp_all add: lookup_update)
  have "refresh (Some err) now ?db m = m\<lparr>nm_dbUp := 0\<rparr>" for err by (simp add: refresh_def)
  moreover have "a + b + u + d + v = length (db_nodes ?db)" using sizes(2) by simp
  ultimately show ?thesis using k(2) d by (intro conjI allI exI) (rule g n sizes(1) | assumption)+
qed

definition zero_metrics :: netmapMetrics where
  "zero_metrics = \<lparr>nm_dbUp = 0, nm_queueBacklog = [], nm_knownNodes = [], nm_pollResult = [], nm_httpRequestsTotal = []\<rparr>"

theorem metrics_truthful_witness:
  "\<exists>a b u d v. QueueSizes pg_Store (example_collector example_db) = Ok (a, b, u + d, v) \<and>
     lookup (nm_queueBacklog (refresh None 5 example_db zero_metrics)) ''unconfirmed_likely_dead'' = Some d \<and>
     a + b + u + d + v = length (db_nodes example_db)"
proof -
  have c: "co_Storage (example_collector example_db) = example_db" by (simp add: example_collector_def)
  have "schema_ok (co_Storage (example_collector example_db))" using example_db_ok unfolding c .
  from metrics_truthful [OF this refl, of 5 zero_metrics] show ?thesis unfolding c by blast
qed

text \<open>
  The label of a route is one of a fixed set, whatever the path; routes that were added later fall
  into \<^verbatim>\<open>other\<close> or under the detail of a node.  The method of a request is a label as it comes.
\<close>

lemma route_labels:
  "httpRouteLabel path \<in> {''dashboard_home'', ''dashboard_topology'', ''dashboard_network'', ''dashboard_static'', ''dashboard_node_detail'',
     ''dashboard_admin'', ''api_stats'', ''api_healthz'', ''api_seed_candidates'', ''api_config_peer_seeds'', ''api_topology_top_peered'',
     ''api_topology'', ''api_nodes_collection'', ''api_node_history'', ''api_node_edges'', ''api_node_detail'', ''api_admin'', ''other''}"
  "httpRouteLabel ''/map'' = ''other''" "httpRouteLabel ''/api/v1/directory'' = ''other''" "httpRouteLabel ''/api/nodes/map'' = ''api_node_detail''"
  unfolding httpRouteLabel_def by (simp, (simp add: has_prefix_def has_suffix_def suffix_def)+)

end
