(* ===== verification/Go_Mux.thy ===== *)
theory Go_Mux
  imports Auth
begin

text \<open>
  The request multiplexer of Go's \<^verbatim>\<open>net/http\<close>, as far as the program's routes use it: patterns
  with a method, wildcards and trailing slashes, the cleaning of paths, redirects, the
  precedence of patterns.  What it finds does not depend on the handlers
  (\<open>ServeHTTP_cong\<close>), and on ordinary paths it is a search over the segments (\<open>reached\<close>).
\<close>

section \<open>net/http: patterns and paths\<close>

text \<open>
  A pattern is an optional method and a list of segments: a literal (\<^verbatim>\<open>{$}\<close> is the literal
  slash at the end of a path), a wildcard, or the rest of the path (a trailing slash).
\<close>

datatype segment = Lit string | Wild | Multi

definition parse_segment :: "string \<Rightarrow> segment" where
  "parse_segment s =
     (if s = [] then Multi else if s = ''{$}'' then Lit ''/'' else if hd s = CHR ''{'' then Wild else Lit s)"

definition parsePattern :: "string \<Rightarrow> string \<times> segment list" where
  "parsePattern s =
     (let (httpMethod, path) = (case index_byte s (CHR '' '') of None \<Rightarrow> ([], s) | Some i \<Rightarrow> (take i s, drop (Suc i) s))
      in (httpMethod, map parse_segment (split_byte (CHR ''/'') (drop 1 path))))"

text \<open>\<^verbatim>\<open>pathUnescape\<close>: an invalid escape leaves the whole segment as it is.\<close>

fun unescape :: "string \<Rightarrow> string option" where
  "unescape [] = Some []"
| "unescape (c # s) =
     (if c = CHR ''%'' then
        (case s of
           a # b # rest \<Rightarrow> (case (hex_val a, hex_val b) of
              (Some x, Some y) \<Rightarrow> map_option (\<lambda>t. char_of (16 * x + y) # t) (unescape rest)
            | _ \<Rightarrow> None)
         | _ \<Rightarrow> None)
      else map_option (\<lambda>t. c # t) (unescape s))"

definition pathUnescape :: "string \<Rightarrow> string" where
  "pathUnescape s = (case unescape s of None \<Rightarrow> s | Some t \<Rightarrow> t)"

definition firstSegment :: "string \<Rightarrow> string \<times> string" where
  "firstSegment path =
     (if path = ''/'' then (''/'', [])
      else let path = drop 1 path
           in (pathUnescape (takeWhile (\<lambda>c. c \<noteq> CHR ''/'') path), dropWhile (\<lambda>c. c \<noteq> CHR ''/'') path))"

text \<open>\<^verbatim>\<open>path.Clean\<close> on a rooted path, and \<^verbatim>\<open>cleanPath\<close>, which puts a trailing slash back.\<close>

definition clean_step :: "string list \<Rightarrow> string \<Rightarrow> string list" where
  "clean_step out s = (if s = [] \<or> s = ''.'' then out else if s = ''..'' then butlast out else out @ [s])"

definition cleanPath :: "string \<Rightarrow> string" where
  "cleanPath p =
     (if p = [] then ''/''
      else let p = (if hd p \<noteq> CHR ''/'' then CHR ''/'' # p else p);
               np = CHR ''/'' # join_byte (CHR ''/'') (foldl clean_step [] (split_byte (CHR ''/'') p))
           in if last p = CHR ''/'' \<and> np \<noteq> ''/'' then np @ ''/'' else np)"

section \<open>net/http: the multiplexer\<close>

text \<open>
  A node of the routing tree is the list of the patterns below it, each with the segments
  that are still to be matched.
\<close>

type_synonym 'a tree = "(segment list \<times> 'a) list"

definition children :: "segment \<Rightarrow> 'a tree \<Rightarrow> 'a tree" where
  "children g n = map (\<lambda>(gs, x). (tl gs, x)) (filter (\<lambda>(gs, x). gs \<noteq> [] \<and> hd gs = g) n)"

definition leaf :: "segment list \<Rightarrow> 'a tree \<Rightarrow> 'a option" where
  "leaf gs n = map_option snd (find (\<lambda>(gs', x). gs' = gs) n)"

function matchPath :: "'a tree \<Rightarrow> string \<Rightarrow> string list \<Rightarrow> ('a \<times> string list) option" where
  "matchPath n path matches =
     (if n = [] then None
      else if path = [] then map_option (\<lambda>x. (x, matches)) (leaf [] n)
      else let (seg, rest) = firstSegment path
           in (case matchPath (children (Lit seg) n) rest matches of
                 Some r \<Rightarrow> Some r
               | None \<Rightarrow>
                   (case (if seg \<noteq> ''/'' then matchPath (children Wild n) rest (matches @ [seg]) else None) of
                      Some r \<Rightarrow> Some r
                    | None \<Rightarrow> map_option (\<lambda>x. (x, matches)) (leaf [Multi] n))))"
  by pat_completeness auto

lemma firstSegment_shorter: "path \<noteq> [] \<Longrightarrow> (seg, rest) = firstSegment path \<Longrightarrow> length rest < length path"
  using length_dropWhile_le [of "\<lambda>c. c \<noteq> CHR ''/''" "drop 1 path"] by (cases path) (auto simp: firstSegment_def Let_def split: if_splits)

termination matchPath
  by (relation "measure (\<lambda>(n, path, matches). length path)") (auto intro: firstSegment_shorter)

declare matchPath.simps [simp del]

text \<open>
  A mux registers handlers under patterns.  A handler gets the values of the wildcards, the
  method and the path.  The methods of the tree: first the request's own, then \<^verbatim>\<open>GET\<close> for
  \<^verbatim>\<open>HEAD\<close>, then the patterns without a method.
\<close>

type_synonym 'h mux = "(string \<times> 'h) list"

definition method_node :: "'h mux \<Rightarrow> string \<Rightarrow> (segment list \<times> 'h) tree" where
  "method_node mux httpMethod =
     map (\<lambda>(pat, h). (snd (parsePattern pat), (snd (parsePattern pat), h)))
       (filter (\<lambda>(pat, h). fst (parsePattern pat) = httpMethod) mux)"

definition matchMethodAndPath :: "'h mux \<Rightarrow> string \<Rightarrow> string \<Rightarrow> ((segment list \<times> 'h) \<times> string list) option" where
  "matchMethodAndPath mux httpMethod path =
     (case matchPath (method_node mux httpMethod) path [] of
        Some r \<Rightarrow> Some r
      | None \<Rightarrow>
          (case (if httpMethod = ''HEAD'' then matchPath (method_node mux ''GET'') path [] else None) of
             Some r \<Rightarrow> Some r
           | None \<Rightarrow> matchPath (method_node mux []) path []))"

definition exactMatch :: "((segment list \<times> 'h) \<times> string list) option \<Rightarrow> string \<Rightarrow> bool" where
  "exactMatch n path =
     (case n of
        None \<Rightarrow> False
      | Some ((gs, h), matches) \<Rightarrow>
          if last gs \<noteq> Multi then True
          else if path \<noteq> [] \<and> last path \<noteq> CHR ''/'' then False
          else length gs = count_list path (CHR ''/''))"

datatype 'h found = Found 'h "string list" | Redirect | MethodNotAllowed | NotFound

definition trailing_slash_redirect :: "'h mux \<Rightarrow> string \<Rightarrow> string \<Rightarrow> bool" where
  "trailing_slash_redirect mux httpMethod path \<longleftrightarrow>
     \<not> exactMatch (matchMethodAndPath mux httpMethod path) path \<and> \<not> has_suffix path ''/'' \<and>
     exactMatch (matchMethodAndPath mux httpMethod (path @ ''/'')) (path @ ''/'')"

definition matchingMethods :: "'h mux \<Rightarrow> string \<Rightarrow> string list" where
  "matchingMethods mux path =
     filter (\<lambda>httpMethod. httpMethod \<noteq> [] \<and>
         (matchPath (method_node mux httpMethod) path [] \<noteq> None \<or>
          \<not> has_suffix path ''/'' \<and> matchPath (method_node mux httpMethod) (path @ ''/'') [] \<noteq> None))
       (map (\<lambda>(pat, h). fst (parsePattern pat)) mux)"

definition findHandler :: "'h mux \<Rightarrow> string \<Rightarrow> string \<Rightarrow> 'h found" where
  "findHandler mux httpMethod escapedPath =
     (let path = (if httpMethod = ''CONNECT'' then escapedPath else cleanPath escapedPath)
      in if trailing_slash_redirect mux httpMethod path then Redirect
         else if path \<noteq> escapedPath then Redirect
         else (case matchMethodAndPath mux httpMethod path of
                 Some ((gs, h), matches) \<Rightarrow> Found h matches
               | None \<Rightarrow> if matchingMethods mux path \<noteq> [] then MethodNotAllowed else NotFound))"

type_synonym ('s, 'b) routed = "string \<Rightarrow> string \<Rightarrow> ('s, 'b) handler"

abbreviation StatusMovedPermanently :: int where "StatusMovedPermanently \<equiv> 301"
abbreviation StatusMethodNotAllowed :: int where "StatusMethodNotAllowed \<equiv> 405"

definition ServeHTTP :: "(string list \<Rightarrow> ('s, 'b) routed) mux \<Rightarrow> ('s, 'b) routed" where
  "ServeHTTP mux httpMethod path r s =
     (case findHandler mux httpMethod path of
        Found h matches \<Rightarrow> h matches httpMethod path r s
      | Redirect \<Rightarrow> (s, ErrorResponse StatusMovedPermanently (Err ''Moved Permanently''))
      | MethodNotAllowed \<Rightarrow> (s, ErrorResponse StatusMethodNotAllowed (Err ''Method Not Allowed''))
      | NotFound \<Rightarrow> (s, ErrorResponse StatusNotFound (Err ''404 page not found'')))"

text \<open>
  \<^verbatim>\<open>StripPrefix\<close> wants the prefix in the decoded and in the escaped path; it has no escapes
  itself, so the escaped path decides.
\<close>

definition StripPrefix :: "string \<Rightarrow> ('s, 'b) routed \<Rightarrow> ('s, 'b) routed" where
  "StripPrefix pre h httpMethod path r s =
     (if has_prefix path pre then h httpMethod (trim_prefix path pre) r s
      else (s, ErrorResponse StatusNotFound (Err ''404 page not found'')))"

section \<open>Handlers as data\<close>

text \<open>The multiplexer treats the handlers as data: what it finds does not depend on them.\<close>

lemma children_map: "children g (map (apsnd f) n) = map (apsnd f) (children g n)"
  by (induction n) (auto simp: children_def)

lemma leaf_map: "leaf gs (map (apsnd f) n) = map_option f (leaf gs n)"
  by (induction n) (auto simp: leaf_def)

lemma matchPath_map: "matchPath (map (apsnd f) n) path matches = map_option (apfst f) (matchPath n path matches)"
proof (induction n path matches rule: matchPath.induct)
  case (1 n path matches)
  obtain seg rest where fs: "firstSegment path = (seg, rest)" by (cases "firstSegment path")
  show ?case
  proof (cases "n = [] \<or> path = []")
    case True
    then show ?thesis
      by (auto simp: matchPath.simps [of n path matches] matchPath.simps [of "map (apsnd f) n" path matches] leaf_map option.map_comp comp_def)
  next
    case False
    from 1 False fs show ?thesis
      by (simp add: matchPath.simps [of n path matches] matchPath.simps [of "map (apsnd f) n" path matches]
          leaf_map children_map option.map_comp comp_def split: option.split)
  qed
qed

lemma method_node_map: "method_node (map (apsnd f) mux) m = map (apsnd (apsnd f)) (method_node mux m)"
  by (induction mux) (auto simp: method_node_def)

lemma matchMethodAndPath_map:
  "matchMethodAndPath (map (apsnd f) mux) m path = map_option (apfst (apsnd f)) (matchMethodAndPath mux m path)"
  by (simp add: matchMethodAndPath_def method_node_map matchPath_map split: option.split)

lemma exactMatch_map: "exactMatch (map_option (apfst (apsnd f)) n) path = exactMatch n path"
  by (auto simp: exactMatch_def split: option.split)

lemma methods_map: "(\<lambda>(pat, h). fst (parsePattern pat)) \<circ> apsnd f = (\<lambda>(pat, h). fst (parsePattern pat))"
  by auto

lemma findHandler_map: "findHandler (map (apsnd f) mux) m path = map_found f (findHandler mux m path)"
proof -
  have "trailing_slash_redirect (map (apsnd f) mux) m p = trailing_slash_redirect mux m p" for p
    by (simp add: trailing_slash_redirect_def matchMethodAndPath_map exactMatch_map)
  moreover have "matchingMethods (map (apsnd f) mux) p = matchingMethods mux p" for p
    by (simp add: matchingMethods_def method_node_map matchPath_map methods_map)
  ultimately show ?thesis
    by (auto simp: findHandler_def Let_def matchMethodAndPath_map split: option.split)
qed

text \<open>What is found was registered, under a pattern that admits the method.\<close>

definition admits :: "string \<Rightarrow> string \<Rightarrow> bool" where
  "admits pat httpMethod \<longleftrightarrow>
     (let m = fst (parsePattern pat) in m = [] \<or> m = httpMethod \<or> httpMethod = ''HEAD'' \<and> m = ''GET'')"

lemma leaf_in: "leaf gs n = Some x \<Longrightarrow> x \<in> snd ` set n"
  by (induction n) (auto simp: leaf_def split: if_splits)

lemma children_in: "snd ` set (children g n) \<subseteq> snd ` set n"
  by (force simp: children_def)

lemma matchPath_in: "matchPath n path matches = Some (x, vars) \<Longrightarrow> x \<in> snd ` set n"
proof (induction n path matches rule: matchPath.induct)
  case (1 n path matches)
  obtain seg rest where fs: "firstSegment path = (seg, rest)" by (cases "firstSegment path")
  show ?case
  proof (cases "n = [] \<or> path = []")
    case True
    then show ?thesis using 1(3) by (auto simp: matchPath.simps [of n path matches] dest: leaf_in split: if_splits)
  next
    case False
    then show ?thesis using 1 fs children_in [of "Lit seg" n] children_in [of Wild n]
      by (auto simp: matchPath.simps [of n path matches] dest: leaf_in split: option.splits if_splits)
  qed
qed

lemma findHandler_registered:
  assumes "findHandler mux m path = Found h vars"
  shows "\<exists>pat. (pat, h) \<in> set mux \<and> admits pat m"
proof -
  obtain gs p where "matchMethodAndPath mux m p = Some ((gs, h), vars)"
    using assms by (auto simp: findHandler_def Let_def split: if_splits option.splits prod.splits)
  then have "(gs, h) \<in> snd ` set (method_node mux m) \<or> m = ''HEAD'' \<and> (gs, h) \<in> snd ` set (method_node mux ''GET'') \<or>
      (gs, h) \<in> snd ` set (method_node mux [])"
    by (auto simp: matchMethodAndPath_def split: option.splits if_splits dest: matchPath_in)
  then show ?thesis by (force simp: method_node_def admits_def)
qed

text \<open>So two muxes with the same patterns answer alike if the handlers that the method admits do.\<close>

lemma ServeHTTP_cong:
  assumes "list_all2 (\<lambda>(pat, h) (pat', h'). pat = pat' \<and>
    (admits pat m \<longrightarrow> (\<forall>vars. h vars m path r s = h' vars m path r s))) mux mux'"
  shows "ServeHTTP mux m path r s = ServeHTTP mux' m path r s"
proof -
  define both where "both = map2 (\<lambda>(pat, h) (pat', h'). (pat, (h, h'))) mux mux'"
  have mux: "mux = map (apsnd fst) both" "mux' = map (apsnd snd) both"
    and eq: "\<forall>(pat, (h, h'))\<in>set both. admits pat m \<longrightarrow> (\<forall>vars. h vars m path r s = h' vars m path r s)"
    using assms unfolding both_def by (induction rule: list_all2_induct) auto
  show ?thesis
  proof (cases "findHandler both m path")
    case (Found hh vars)
    then obtain pat where "(pat, hh) \<in> set both" "admits pat m" using findHandler_registered [OF Found] by (elim exE conjE)
    with eq have "fst hh vars m path r s = snd hh vars m path r s" by fastforce
    with Found show ?thesis by (simp add: ServeHTTP_def mux findHandler_map)
  qed (simp_all add: ServeHTTP_def mux findHandler_map)
qed

lemma parse_GET:
  "parsePattern (CHR ''G'' # CHR ''E'' # CHR ''T'' # CHR '' '' # p) = (''GET'', map parse_segment (split_byte (CHR ''/'') (drop 1 p)))"
  by (simp add: parsePattern_def index_byte_def)

lemma parse_POST:
  "parsePattern (CHR ''P'' # CHR ''O'' # CHR ''S'' # CHR ''T'' # CHR '' '' # p) =
   (''POST'', map parse_segment (split_byte (CHR ''/'') (drop 1 p)))"
  by (simp add: parsePattern_def index_byte_def)

lemma admits_GET: "admits (CHR ''G'' # CHR ''E'' # CHR ''T'' # CHR '' '' # p) m \<longleftrightarrow> m = ''GET'' \<or> m = ''HEAD''"
  by (auto simp: admits_def parse_GET)

lemma admits_POST: "admits (CHR ''P'' # CHR ''O'' # CHR ''S'' # CHR ''T'' # CHR '' '' # p) m \<longleftrightarrow> m = ''POST''"
  by (auto simp: admits_def parse_POST)

section \<open>Ordinary paths\<close>

text \<open>
  On a path of ordinary segments, possibly with a trailing slash (an empty last segment), the
  multiplexer is a search over the segments.
\<close>

definition plain :: "string \<Rightarrow> bool" where
  "plain s \<longleftrightarrow> s \<noteq> [] \<and> CHR ''/'' \<notin> set s \<and> CHR ''%'' \<notin> set s \<and> s \<noteq> ''.'' \<and> s \<noteq> ''..''"

fun ordinary :: "string list \<Rightarrow> bool" where
  "ordinary [] = False"
| "ordinary [s] = (s = [] \<or> plain s)"
| "ordinary (s # ss) = (plain s \<and> ordinary ss)"

definition path_of :: "string list \<Rightarrow> string" where
  "path_of ss = concat (map (\<lambda>s. CHR ''/'' # s) ss)"

fun match_segs :: "'a tree \<Rightarrow> string list \<Rightarrow> string list \<Rightarrow> ('a \<times> string list) option" where
  "match_segs n [] matches = map_option (\<lambda>x. (x, matches)) (leaf [] n)"
| "match_segs n (s # ss) matches =
     (if n = [] then None
      else case match_segs (children (Lit (if s = [] then ''/'' else s)) n) ss matches of
         Some r \<Rightarrow> Some r
       | None \<Rightarrow> (case (if s \<noteq> [] then match_segs (children Wild n) ss (matches @ [s]) else None) of
            Some r \<Rightarrow> Some r
          | None \<Rightarrow> map_option (\<lambda>x. (x, matches)) (leaf [Multi] n)))"

lemma unescape_noop: "CHR ''%'' \<notin> set s \<Longrightarrow> unescape s = Some s"
  by (induction s) auto

lemma pathUnescape_noop: "CHR ''%'' \<notin> set s \<Longrightarrow> pathUnescape s = s"
  by (simp add: pathUnescape_def unescape_noop)

lemma path_of_simps [simp]:
  "path_of [] = []" "path_of (s # ss) = CHR ''/'' # s @ path_of ss"
  by (simp_all add: path_of_def)

lemma path_of_slash: "path_of ss = [] \<or> hd (path_of ss) = CHR ''/''"
  by (cases ss) auto

lemma takeWhile_path_of: "CHR ''/'' \<notin> set s \<Longrightarrow> takeWhile (\<lambda>c. c \<noteq> CHR ''/'') (s @ path_of ss) = s"
  by (induction s) (cases ss; auto)+

lemma dropWhile_path_of: "CHR ''/'' \<notin> set s \<Longrightarrow> dropWhile (\<lambda>c. c \<noteq> CHR ''/'') (s @ path_of ss) = path_of ss"
  by (induction s) (cases ss; auto)+

lemma firstSegment_plain: "plain s \<Longrightarrow> firstSegment (path_of (s # ss)) = (s, path_of ss)"
  by (auto simp: firstSegment_def plain_def takeWhile_path_of dropWhile_path_of pathUnescape_noop)

lemma matchPath_Nil [simp]: "matchPath [] path matches = None"
  by (simp add: matchPath.simps)

lemma matchPath_end [simp]: "matchPath n [] matches = map_option (\<lambda>x. (x, matches)) (leaf [] n)"
  by (simp add: matchPath.simps leaf_def)

lemma matchPath_segs: "ordinary ss \<or> ss = [] \<Longrightarrow> matchPath n (path_of ss) matches = match_segs n ss matches"
proof (induction ss arbitrary: n matches)
  case (Cons s ss)
  consider "s = []" "ss = []" | "plain s" "ordinary ss \<or> ss = []" using Cons.prems by (cases ss) auto
  then show ?case
  proof cases
    case 1
    then show ?thesis by (simp add: matchPath.simps [of n "''/''"] firstSegment_def)
  next
    case 2
    then have "s \<noteq> []" "s \<noteq> ''/''" by (auto simp: plain_def)
    then show ?thesis using Cons.IH [OF 2(2)] firstSegment_plain [OF 2(1), of ss]
      by (simp add: matchPath.simps [of n "CHR ''/'' # s @ path_of ss"] split: option.split)
  qed
qed simp

lemma ordinary_no_slash: "ordinary ss \<Longrightarrow> \<forall>s\<in>set ss. CHR ''/'' \<notin> set s"
  by (induction ss rule: ordinary.induct) (auto simp: plain_def)

lemma split_path_of: "\<forall>s\<in>set ss. CHR ''/'' \<notin> set s \<Longrightarrow> CHR ''/'' \<notin> set t \<Longrightarrow> split_byte (CHR ''/'') (t @ path_of ss) = t # ss"
  by (induction ss arbitrary: t) (auto simp: split_byte_noop split_byte_append)

lemma clean_ordinary: "ordinary ss \<Longrightarrow> foldl clean_step out ss = out @ filter (\<lambda>s. s \<noteq> []) ss"
  by (induction ss arbitrary: out rule: ordinary.induct) (auto simp: clean_step_def plain_def)

lemma join_path_of: "ss \<noteq> [] \<Longrightarrow> CHR ''/'' # join_byte (CHR ''/'') ss = path_of ss"
  by (induction "CHR ''/''" ss rule: join_byte.induct) auto

lemma last_path_of: "ordinary ss \<Longrightarrow> last (path_of ss) = CHR ''/'' \<longleftrightarrow> last ss = []"
proof (induction ss rule: ordinary.induct)
  case (2 s)
  then show ?case by (cases s rule: rev_cases) (auto simp: plain_def)
next
  case (3 s t ss)
  then show ?case by (auto simp: last_append)
qed simp

lemma cleanPath_ordinary:
  assumes "ordinary ss"
  shows "cleanPath (path_of ss) = path_of ss"
proof -
  obtain ts z where ss: "ss = ts @ [z]" using assms by (cases ss rule: rev_cases) auto
  have ts: "ordinary (ts @ [z]) \<Longrightarrow> (\<forall>s\<in>set ts. plain s) \<and> (z = [] \<or> plain z)" for ts
    by (induction ts rule: ordinary.induct) auto
  have ne: "path_of ss \<noteq> []" "hd (path_of ss) = CHR ''/''" using ss by (cases ts; simp)+
  have sp: "split_byte (CHR ''/'') (path_of ss) = [] # ss" using split_path_of [OF ordinary_no_slash [OF assms], of "[]"] by simp
  have cl: "foldl clean_step [] ([] # ss) = filter (\<lambda>s. s \<noteq> []) ss" using clean_ordinary [OF assms, of "[]"] by (simp add: clean_step_def)
  have f: "filter (\<lambda>s. s \<noteq> []) ts = ts" using ts assms ss by (auto simp: plain_def filter_id_conv)
  show ?thesis
  proof (cases "z = []")
    case True
    have "path_of (ts @ [[]]) = path_of ts @ ''/''" by (simp add: path_of_def)
    with True ne sp cl f ss show ?thesis
      using last_path_of [OF assms] join_path_of [of ts] by (cases ts) (auto simp: cleanPath_def Let_def)
  next
    case False
    with ne sp cl f ss show ?thesis using last_path_of [OF assms] join_path_of [of ss] by (auto simp: cleanPath_def Let_def)
  qed
qed

definition find_segs :: "'h mux \<Rightarrow> string \<Rightarrow> string list \<Rightarrow> ((segment list \<times> 'h) \<times> string list) option" where
  "find_segs mux m ss =
     (case match_segs (method_node mux m) ss [] of
        Some r \<Rightarrow> Some r
      | None \<Rightarrow> (case (if m = ''HEAD'' then match_segs (method_node mux ''GET'') ss [] else None) of
           Some r \<Rightarrow> Some r
         | None \<Rightarrow> match_segs (method_node mux []) ss []))"

definition exact_segs :: "((segment list \<times> 'h) \<times> string list) option \<Rightarrow> string list \<Rightarrow> bool" where
  "exact_segs n ss = (case n of
     None \<Rightarrow> False
   | Some ((gs, h), matches) \<Rightarrow> last gs \<noteq> Multi \<or> last ss = [] \<and> length gs = length ss)"

lemma matchMethodAndPath_segs: "ordinary ss \<Longrightarrow> matchMethodAndPath mux m (path_of ss) = find_segs mux m ss"
  by (simp add: matchMethodAndPath_def find_segs_def matchPath_segs split: option.split)

lemma count_path_of: "\<forall>s\<in>set ss. CHR ''/'' \<notin> set s \<Longrightarrow> count_list (path_of ss) (CHR ''/'') = length ss"
  by (induction ss) (auto simp: count_list_0_iff)

lemma exactMatch_segs:
  assumes "ordinary ss"
  shows "exactMatch n (path_of ss) = exact_segs n ss"
proof -
  have "path_of ss \<noteq> []" using assms by (cases ss) auto
  then show ?thesis
    using last_path_of [OF assms] count_path_of [OF ordinary_no_slash [OF assms]]
    by (auto simp: exactMatch_def exact_segs_def split: option.split)
qed

lemma ordinary_snoc: "ordinary ss \<Longrightarrow> last ss \<noteq> [] \<Longrightarrow> ordinary (ss @ [[]])"
  by (induction ss rule: ordinary.induct) auto

lemma has_suffix_path_of: "ordinary ss \<Longrightarrow> has_suffix (path_of ss) ''/'' \<longleftrightarrow> last ss = []"
proof -
  assume o: "ordinary ss"
  then have "path_of ss \<noteq> []" by (cases ss) auto
  then have "has_suffix (path_of ss) ''/'' \<longleftrightarrow> last (path_of ss) = CHR ''/''"
    by (cases "path_of ss" rule: rev_cases) (auto simp: has_suffix_def suffix_def)
  with last_path_of [OF o] show ?thesis by simp
qed

lemma findHandler_segs:
  assumes o: "ordinary ss" and f: "find_segs mux m ss = Some ((gs, h), vars)"
    and x: "exact_segs (Some ((gs, h), vars)) ss \<or> last ss = [] \<or> \<not> exact_segs (find_segs mux m (ss @ [[]])) (ss @ [[]])"
  shows "findHandler mux m (path_of ss) = Found h vars"
proof -
  have s: "path_of (ss @ [[]]) = path_of ss @ ''/''" by (simp add: path_of_def)
  have "\<not> trailing_slash_redirect mux m (path_of ss)"
  proof (cases "last ss = []")
    case False
    note o' = ordinary_snoc [OF o False]
    show ?thesis using x False f
      by (auto simp: trailing_slash_redirect_def matchMethodAndPath_segs [OF o] exactMatch_segs [OF o]
          matchMethodAndPath_segs [OF o', unfolded s] exactMatch_segs [OF o', unfolded s])
  qed (simp add: trailing_slash_redirect_def has_suffix_path_of [OF o])
  then show ?thesis using f by (simp add: findHandler_def Let_def cleanPath_ordinary [OF o] matchMethodAndPath_segs [OF o])
qed

lemma ServeHTTP_segs:
  assumes "ordinary ss" "find_segs mux m ss = Some ((gs, h), vars)"
    "last gs \<noteq> Multi \<or> last ss = [] \<or> \<not> exact_segs (find_segs mux m (ss @ [[]])) (ss @ [[]])"
  shows "ServeHTTP mux m (path_of ss) r s = h vars m (path_of ss) r s"
  using findHandler_segs [OF assms(1, 2)] assms(3) by (auto simp: ServeHTTP_def exact_segs_def)

lemma method_node_simps:
  "method_node [] m = []"
  "method_node ((pat, h) # mux) m =
     (case parsePattern pat of (m', gs) \<Rightarrow> if m' = m then (gs, (gs, h)) # method_node mux m else method_node mux m)"
  by (auto simp: method_node_def split: prod.split)

lemma children_simps:
  "children g [] = []"
  "children g ((gs, x) # n) = (if gs \<noteq> [] \<and> hd gs = g then (tl gs, x) # children g n else children g n)"
  by (simp_all add: children_def)

lemma leaf_simps:
  "leaf gs [] = None"
  "leaf gs ((gs', x) # n) = (if gs' = gs then Some x else leaf gs n)"
  by (simp_all add: leaf_def)

lemma match_segs_Nil: "match_segs [] ss matches = None"
  by (cases ss) (simp_all add: leaf_simps)

lemma match_Multi: "ss \<noteq> [] \<Longrightarrow> match_segs [([Multi], x)] ss matches = Some (x, matches)"
  by (cases ss) (simp_all add: method_node_simps children_simps leaf_simps match_segs_Nil)

lemma ordinary_Cons: "plain s \<Longrightarrow> ordinary ss \<Longrightarrow> ordinary (s # ss)"
  by (cases ss) auto

lemma reached:
  assumes "ordinary ss"
    "case find_segs mux m ss of None \<Rightarrow> False | Some ((gs, hh), vars) \<Rightarrow> last gs \<noteq> Multi \<and> hh vars m (path_of ss) r s = x"
  shows "ServeHTTP mux m (path_of ss) r s = x"
proof -
  obtain gs hh vars where "find_segs mux m ss = Some ((gs, hh), vars)" "last gs \<noteq> Multi" "hh vars m (path_of ss) r s = x"
    using assms(2) by (auto split: option.splits)
  then show ?thesis using ServeHTTP_segs [OF assms(1), of mux m gs hh vars r s] by simp
qed

end
