(* ===== verification/Router.thy ===== *)
theory Router
  imports Process_Config Go_Mux
begin

text \<open>
  The routes: \<^verbatim>\<open>api.NewRouter\<close> (\<^verbatim>\<open>internal/api/api.go\<close>), \<^verbatim>\<open>web.NewHandler\<close>
  (\<^verbatim>\<open>internal/web/web.go\<close>) and the mux of \<^verbatim>\<open>cmd/netmap/main.go\<close> that puts them together.  Which
  handler runs for which method and path, behind which gate, whatever percent signs, dots
  and slashes the path contains.  The handlers themselves are the argument \<open>h\<close>; their models
  are in the theories of their components.
\<close>

section \<open>The routes\<close>

text \<open>
  The handlers that are registered, with what the registration gives them: the value of the
  wildcard, the wallet client (or nil), the authenticated collector.
\<close>

datatype 'c endpoint =
  Healthz | APISpec | APIDocs | ListNodes | CreateNode | GetNode string | GetNodeHistory string | GetNodeEdges string
| Topology | TopPeeredNodes | NodesMap | NodesMapExtended | Stats | Directory | ListSeedCandidates | ConfigPeerSeeds
| CreateWalletNodeSubmission | ListSubmissions | ApproveSubmission string "'c option" | RejectSubmission string
| PollNow "'c option" | ListWalletSubmissions | ApproveWalletSubmission string | RejectWalletSubmission string
| CollectorReport collectorContext
| Dashboard | NodeDetail string | TopologyGraph | FullNetwork | MapPage | WalletNodes | StaticCSS | SubmissionsPage

record 'c route_config =
  rc_creds :: Credentials
  rc_collectors :: "(string \<times> CollectorConfig) list"
  rc_walletHTTPEnabled :: bool
  rc_walletHTTPClient :: "'c option"

type_synonym ('c, 's, 'b) handlers = "'c endpoint \<Rightarrow> ('s, 'b) handler"

abbreviation fixed :: "('c, 's, 'b) handlers \<Rightarrow> 'c endpoint \<Rightarrow> string list \<Rightarrow> ('s, 'b) routed" where
  "fixed h e \<equiv> \<lambda>vars httpMethod path. h e"

abbreviation with_id :: "('c, 's, 'b) handlers \<Rightarrow> (string \<Rightarrow> 'c endpoint) \<Rightarrow> string list \<Rightarrow> ('s, 'b) routed" where
  "with_id h e \<equiv> \<lambda>vars httpMethod path. h (e (hd vars))"

definition pollWalletHTTPClient :: "'c route_config \<Rightarrow> 'c option" where
  "pollWalletHTTPClient c = (if \<not> rc_walletHTTPEnabled c then None else rc_walletHTTPClient c)"

definition adminMux :: "'c route_config \<Rightarrow> ('c, 's, 'b) handlers \<Rightarrow> (string list \<Rightarrow> ('s, 'b) routed) mux" where
  "adminMux c h =
     [(''GET /admin/submissions'', fixed h ListSubmissions),
      (''POST /admin/submissions/{id}/approve'', with_id h (\<lambda>i. ApproveSubmission i (pollWalletHTTPClient c))),
      (''POST /admin/submissions/{id}/reject'', with_id h RejectSubmission),
      (''POST /admin/nodes/poll-now'', fixed h (PollNow (pollWalletHTTPClient c)))] @
     (if rc_walletHTTPEnabled c then
        [(''GET /admin/wallet-submissions'', fixed h ListWalletSubmissions),
         (''POST /admin/wallet-submissions/{id}/approve'', with_id h ApproveWalletSubmission),
         (''POST /admin/wallet-submissions/{id}/reject'', with_id h RejectWalletSubmission)]
      else [])"

definition collectorMux :: "('c, 's, 'b) handlers \<Rightarrow> collectorContext \<Rightarrow> (string list \<Rightarrow> ('s, 'b) routed) mux" where
  "collectorMux h cx = [(''POST /internal/collectors/report'', fixed h (CollectorReport cx))]"

definition apiMux :: "'c route_config \<Rightarrow> ('c, 's, 'b) handlers \<Rightarrow> (string list \<Rightarrow> ('s, 'b) routed) mux" where
  "apiMux c h =
     [(''GET /healthz'', fixed h Healthz),
      (''GET /spec'', fixed h APISpec),
      (''GET /docs'', fixed h APIDocs),
      (''GET /nodes'', fixed h ListNodes),
      (''POST /nodes'', fixed h CreateNode),
      (''GET /nodes/{id}'', with_id h GetNode),
      (''GET /nodes/{id}/history'', with_id h GetNodeHistory),
      (''GET /nodes/{id}/edges'', with_id h GetNodeEdges),
      (''GET /topology'', fixed h Topology),
      (''GET /topology/top-peered'', fixed h TopPeeredNodes),
      (''GET /nodes/map'', fixed h NodesMap),
      (''GET /nodes/map/extended'', fixed h NodesMapExtended),
      (''GET /v1/stats'', fixed h Stats),
      (''GET /v1/directory'', fixed h Directory),
      (''GET /nodes/seeds'', fixed h ListSeedCandidates),
      (''GET /nodes/seed_list'', fixed h ListSeedCandidates),
      (''GET /config/peer-seeds'', fixed h ConfigPeerSeeds),
      (''GET /nodes/seed_list_tari'', fixed h ConfigPeerSeeds)] @
     (if rc_walletHTTPEnabled c then [(''POST /wallet-nodes'', fixed h CreateWalletNodeSubmission)] else []) @
     [(''/admin/'', \<lambda>vars httpMethod path. Wrap (rc_creds c) (ServeHTTP (adminMux c h) httpMethod path)),
      (''/internal/'', \<lambda>vars httpMethod path.
          wrapCollectorAuth (rc_collectors c) (\<lambda>cx. ServeHTTP (collectorMux h cx) httpMethod path))]"

definition NewRouter :: "'c route_config \<Rightarrow> ('c, 's, 'b) handlers \<Rightarrow> ('s, 'b) routed" where
  "NewRouter c h = ServeHTTP (apiMux c h)"

definition webMux :: "'c route_config \<Rightarrow> ('c, 's, 'b) handlers \<Rightarrow> (string list \<Rightarrow> ('s, 'b) routed) mux" where
  "webMux c h =
     [(''GET /{$}'', fixed h Dashboard),
      (''GET /nodes/{id}'', with_id h NodeDetail),
      (''GET /topology'', fixed h TopologyGraph),
      (''GET /network'', fixed h FullNetwork),
      (''GET /map'', fixed h MapPage),
      (''GET /wallet-nodes'', fixed h WalletNodes),
      (''GET /static/style.css'', fixed h StaticCSS),
      (''/admin/'', \<lambda>vars httpMethod path.
         Wrap (rc_creds c) (ServeHTTP [(''GET /admin/submissions'', fixed h SubmissionsPage)] httpMethod path))]"

definition NewHandler :: "'c route_config \<Rightarrow> ('c, 's, 'b) handlers \<Rightarrow> ('s, 'b) routed" where
  "NewHandler c h = ServeHTTP (webMux c h)"

definition served :: "'c route_config \<Rightarrow> ('c, 's, 'b) handlers \<Rightarrow> ('s, 'b) routed" where
  "served c h = ServeHTTP
     [(''/'', \<lambda>vars. NewHandler c h),
      (''/api/'', \<lambda>vars. StripPrefix ''/api'' (NewRouter c h))]"

text \<open>
  The configuration \<^verbatim>\<open>main\<close> passes: credentials and collectors from the environment, the flag, and
  the wallet client.
\<close>

definition main_routes :: "Credentials \<Rightarrow> string \<Rightarrow> string \<Rightarrow> bool \<Rightarrow> 'c option \<Rightarrow> 'c route_config" where
  "main_routes adminCreds keysRaw selfRaw walletHTTPEnabled walletHTTPClient =
     \<lparr>rc_creds = adminCreds, rc_collectors = configured_collectors keysRaw selfRaw,
      rc_walletHTTPEnabled = walletHTTPEnabled, rc_walletHTTPClient = walletHTTPClient\<rparr>"

text \<open>
  The description of the API: the embedded document as it is, or transcoded to JSON; the YAML
  decoder is a parameter.
\<close>

definition handleAPISpec :: "(string \<Rightarrow> 'd result) \<Rightarrow> string \<Rightarrow> string \<Rightarrow> ('d + string) response" where
  "handleAPISpec yamlUnmarshal openAPISpecYAML format =
     (if format = ''json'' then
        (case yamlUnmarshal openAPISpecYAML of
           Inl _ \<Rightarrow> ErrorResponse StatusInternalServerError (Err ''failed to transcode spec to json'')
         | Inr doc \<Rightarrow> Response StatusOK (Inl doc))
      else Response StatusOK (Inr openAPISpecYAML))"

section \<open>Which handlers can run\<close>

text \<open>
  What a request must fulfil for a handler to run, as a table over the handlers: the
  administrator's credentials, the feature flag, the identity of the collector, the method.
\<close>

definition admin_only :: "'c endpoint \<Rightarrow> bool" where
  "admin_only e = (case e of
     ListSubmissions \<Rightarrow> True | ApproveSubmission i w \<Rightarrow> True | RejectSubmission i \<Rightarrow> True | PollNow w \<Rightarrow> True
   | ListWalletSubmissions \<Rightarrow> True | ApproveWalletSubmission i \<Rightarrow> True | RejectWalletSubmission i \<Rightarrow> True
   | SubmissionsPage \<Rightarrow> True | _ \<Rightarrow> False)"

definition wallet_only :: "'c endpoint \<Rightarrow> bool" where
  "wallet_only e = (case e of
     CreateWalletNodeSubmission \<Rightarrow> True | ListWalletSubmissions \<Rightarrow> True | ApproveWalletSubmission i \<Rightarrow> True
   | RejectWalletSubmission i \<Rightarrow> True | _ \<Rightarrow> False)"

definition writing :: "'c endpoint \<Rightarrow> bool" where
  "writing e = (case e of
     CreateNode \<Rightarrow> True | CreateWalletNodeSubmission \<Rightarrow> True | ApproveSubmission i w \<Rightarrow> True | RejectSubmission i \<Rightarrow> True
   | PollNow w \<Rightarrow> True | ApproveWalletSubmission i \<Rightarrow> True | RejectWalletSubmission i \<Rightarrow> True
   | CollectorReport cx \<Rightarrow> True | _ \<Rightarrow> False)"

definition is_admin :: "'c route_config \<Rightarrow> http_request \<Rightarrow> bool" where
  "is_admin c r \<longleftrightarrow> Configured (rc_creds c) \<and> rq_BasicAuth r = Some (cr_Username (rc_creds c), cr_Password (rc_creds c))"

definition is_collector :: "'c route_config \<Rightarrow> http_request \<Rightarrow> collectorContext \<Rightarrow> bool" where
  "is_collector c r cx \<longleftrightarrow> (\<exists>cfg. (cx_Name cx, cfg) \<in> set (rc_collectors c) \<and> cc_APIKey cfg \<noteq> [] \<and>
     rq_Header r collectorKeyHeader = cc_APIKey cfg \<and> cx_SelfAddresses cx = cc_SelfAddresses cfg)"

definition permitted :: "'c route_config \<Rightarrow> http_request \<Rightarrow> 'c endpoint \<Rightarrow> bool" where
  "permitted c r e \<longleftrightarrow>
     (admin_only e \<longrightarrow> is_admin c r) \<and> (wallet_only e \<longrightarrow> rc_walletHTTPEnabled c) \<and>
     (case e of
        CollectorReport cx \<Rightarrow> is_collector c r cx
      | ApproveSubmission i w \<Rightarrow> w = (if rc_walletHTTPEnabled c then rc_walletHTTPClient c else None)
      | PollNow w \<Rightarrow> w = (if rc_walletHTTPEnabled c then rc_walletHTTPClient c else None)
      | _ \<Rightarrow> True)"

definition fits :: "string \<Rightarrow> 'c endpoint \<Rightarrow> bool" where
  "fits httpMethod e \<longleftrightarrow> (if writing e then httpMethod = ''POST'' else httpMethod \<in> {''GET'', ''HEAD''})"

lemmas permitted_defs = permitted_def fits_def admin_only_def wallet_only_def writing_def pollWalletHTTPClient_def

lemma Wrap_cong:
  "(is_admin c r \<Longrightarrow> h r s = h' r s) \<Longrightarrow> Wrap (rc_creds c) h r s = Wrap (rc_creds c) h' r s"
  by (auto simp: admin_gate is_admin_def Configured_def)

lemma adminMux_cong:
  assumes "is_admin c r" and H: "\<And>e. permitted c r e \<Longrightarrow> fits m e \<Longrightarrow> h e r s = h' e r s"
  shows "ServeHTTP (adminMux c h) m path r s = ServeHTTP (adminMux c h') m path r s"
  using assms(1) by (intro ServeHTTP_cong) (simp add: adminMux_def admits_GET admits_POST H permitted_defs)

lemma collectorMux_cong:
  assumes "is_collector c r cx" and H: "\<And>e. permitted c r e \<Longrightarrow> fits m e \<Longrightarrow> h e r s = h' e r s"
  shows "ServeHTTP (collectorMux h cx) m path r s = ServeHTTP (collectorMux h' cx) m path r s"
  using assms(1) by (intro ServeHTTP_cong) (simp add: collectorMux_def admits_POST H permitted_defs)

lemma wrapCollectorAuth_cong:
  assumes d: "distinct (map fst (rc_collectors c))" and H: "\<And>cx. is_collector c r cx \<Longrightarrow> h cx r s = h' cx r s"
  shows "wrapCollectorAuth (rc_collectors c) h r s = wrapCollectorAuth (rc_collectors c) h' r s"
proof -
  let ?cs = "rc_collectors c" and ?key = "rq_Header r collectorKeyHeader"
  obtain name ok where m: "authenticateCollector ?cs r = (name, ok)" by (cases "authenticateCollector ?cs r")
  show ?thesis
  proof (cases "?cs \<noteq> [] \<and> ok")
    case True
    with m have "match_collector ?key ?cs ([], False) = (name, ok)" by (auto simp: authenticateCollector_def Let_def split: if_splits)
    from match_collector_result [OF this] True obtain cfg where cfg: "(name, cfg) \<in> set ?cs" "cc_APIKey cfg = ?key" "?key \<noteq> []" by auto
    then have "lookup ?cs name = Some cfg" using d by simp
    moreover have "is_collector c r \<lparr>cx_Name = name, cx_SelfAddresses = cc_SelfAddresses cfg\<rparr>"
      using cfg by (auto simp: is_collector_def)
    ultimately show ?thesis using m True H by (simp add: wrapCollectorAuth_def)
  qed (use m in \<open>auto simp: wrapCollectorAuth_def\<close>)
qed

lemma NewRouter_cong:
  assumes "distinct (map fst (rc_collectors c))" and H: "\<And>e. permitted c r e \<Longrightarrow> fits m e \<Longrightarrow> h e r s = h' e r s"
  shows "NewRouter c h m path r s = NewRouter c h' m path r s"
proof -
  have "Wrap (rc_creds c) (ServeHTTP (adminMux c h) m path) r s = Wrap (rc_creds c) (ServeHTTP (adminMux c h') m path) r s"
    by (intro Wrap_cong adminMux_cong H)
  moreover have "wrapCollectorAuth (rc_collectors c) (\<lambda>cx. ServeHTTP (collectorMux h cx) m path) r s =
      wrapCollectorAuth (rc_collectors c) (\<lambda>cx. ServeHTTP (collectorMux h' cx) m path) r s"
    using assms(1) by (intro wrapCollectorAuth_cong collectorMux_cong H)
  ultimately show ?thesis unfolding NewRouter_def
    by (intro ServeHTTP_cong) (simp add: apiMux_def admits_GET admits_POST H permitted_defs)
qed

lemma NewHandler_cong:
  assumes H: "\<And>e. permitted c r e \<Longrightarrow> fits m e \<Longrightarrow> h e r s = h' e r s"
  shows "NewHandler c h m path r s = NewHandler c h' m path r s"
proof -
  have "ServeHTTP [(''GET /admin/submissions'', fixed h SubmissionsPage)] m path r s =
      ServeHTTP [(''GET /admin/submissions'', fixed h' SubmissionsPage)] m path r s" if "is_admin c r"
    using that by (intro ServeHTTP_cong) (simp add: admits_GET H permitted_defs)
  then have "Wrap (rc_creds c) (ServeHTTP [(''GET /admin/submissions'', fixed h SubmissionsPage)] m path) r s =
      Wrap (rc_creds c) (ServeHTTP [(''GET /admin/submissions'', fixed h' SubmissionsPage)] m path) r s"
    by (rule Wrap_cong)
  then show ?thesis unfolding NewHandler_def
    by (intro ServeHTTP_cong) (simp add: webMux_def admits_GET H permitted_defs)
qed

lemma served_cong:
  assumes "distinct (map fst (rc_collectors c))" and H: "\<And>e. permitted c r e \<Longrightarrow> fits m e \<Longrightarrow> h e r s = h' e r s"
  shows "served c h m path r s = served c h' m path r s"
  unfolding served_def
  by (intro ServeHTTP_cong)
    (simp add: StripPrefix_def NewRouter_cong [where h = h and h' = h', OF assms] NewHandler_cong [where h = h and h' = h', OF H])

section \<open>Every handler is reached\<close>

text \<open>The documented method and path of each handler.\<close>

fun route :: "'c endpoint \<Rightarrow> string \<times> string list" where
  "route Healthz = (''GET'', [''api'', ''healthz''])"
| "route APISpec = (''GET'', [''api'', ''spec''])"
| "route APIDocs = (''GET'', [''api'', ''docs''])"
| "route ListNodes = (''GET'', [''api'', ''nodes''])"
| "route CreateNode = (''POST'', [''api'', ''nodes''])"
| "route (GetNode i) = (''GET'', [''api'', ''nodes'', i])"
| "route (GetNodeHistory i) = (''GET'', [''api'', ''nodes'', i, ''history''])"
| "route (GetNodeEdges i) = (''GET'', [''api'', ''nodes'', i, ''edges''])"
| "route Topology = (''GET'', [''api'', ''topology''])"
| "route TopPeeredNodes = (''GET'', [''api'', ''topology'', ''top-peered''])"
| "route NodesMap = (''GET'', [''api'', ''nodes'', ''map''])"
| "route NodesMapExtended = (''GET'', [''api'', ''nodes'', ''map'', ''extended''])"
| "route Stats = (''GET'', [''api'', ''v1'', ''stats''])"
| "route Directory = (''GET'', [''api'', ''v1'', ''directory''])"
| "route ListSeedCandidates = (''GET'', [''api'', ''nodes'', ''seed_list''])"
| "route ConfigPeerSeeds = (''GET'', [''api'', ''config'', ''peer-seeds''])"
| "route CreateWalletNodeSubmission = (''POST'', [''api'', ''wallet-nodes''])"
| "route ListSubmissions = (''GET'', [''api'', ''admin'', ''submissions''])"
| "route (ApproveSubmission i w) = (''POST'', [''api'', ''admin'', ''submissions'', i, ''approve''])"
| "route (RejectSubmission i) = (''POST'', [''api'', ''admin'', ''submissions'', i, ''reject''])"
| "route (PollNow w) = (''POST'', [''api'', ''admin'', ''nodes'', ''poll-now''])"
| "route ListWalletSubmissions = (''GET'', [''api'', ''admin'', ''wallet-submissions''])"
| "route (ApproveWalletSubmission i) = (''POST'', [''api'', ''admin'', ''wallet-submissions'', i, ''approve''])"
| "route (RejectWalletSubmission i) = (''POST'', [''api'', ''admin'', ''wallet-submissions'', i, ''reject''])"
| "route (CollectorReport cx) = (''POST'', [''api'', ''internal'', ''collectors'', ''report''])"
| "route Dashboard = (''GET'', [[]])"
| "route (NodeDetail i) = (''GET'', [''nodes'', i])"
| "route TopologyGraph = (''GET'', [''topology''])"
| "route FullNetwork = (''GET'', [''network''])"
| "route MapPage = (''GET'', [''map''])"
| "route WalletNodes = (''GET'', [''wallet-nodes''])"
| "route StaticCSS = (''GET'', [''static'', ''style.css''])"
| "route SubmissionsPage = (''GET'', [''admin'', ''submissions''])"

text \<open>An identifier in a path: an ordinary segment, and not one of the fixed words in its place.\<close>

definition path_id :: "string \<Rightarrow> bool" where
  "path_id i \<longleftrightarrow> plain i \<and> i \<notin> {''map'', ''seeds'', ''seed_list'', ''seed_list_tari''}"

definition path_ids :: "'c endpoint \<Rightarrow> bool" where
  "path_ids e = (case e of
     GetNode i \<Rightarrow> path_id i | GetNodeHistory i \<Rightarrow> path_id i | GetNodeEdges i \<Rightarrow> path_id i
   | ApproveSubmission i w \<Rightarrow> path_id i | RejectSubmission i \<Rightarrow> path_id i
   | ApproveWalletSubmission i \<Rightarrow> path_id i | RejectWalletSubmission i \<Rightarrow> path_id i
   | NodeDetail i \<Rightarrow> path_id i | _ \<Rightarrow> True)"

text \<open>The patterns, parsed.\<close>

lemma patterns:
  "parsePattern ''GET /admin/submissions'' = (''GET'', [Lit ''admin'', Lit ''submissions''])"
  "parsePattern ''POST /admin/submissions/{id}/approve'' = (''POST'', [Lit ''admin'', Lit ''submissions'', Wild, Lit ''approve''])"
  "parsePattern ''POST /admin/submissions/{id}/reject'' = (''POST'', [Lit ''admin'', Lit ''submissions'', Wild, Lit ''reject''])"
  "parsePattern ''POST /admin/nodes/poll-now'' = (''POST'', [Lit ''admin'', Lit ''nodes'', Lit ''poll-now''])"
  "parsePattern ''GET /admin/wallet-submissions'' = (''GET'', [Lit ''admin'', Lit ''wallet-submissions''])"
  "parsePattern ''POST /admin/wallet-submissions/{id}/approve'' = (''POST'', [Lit ''admin'', Lit ''wallet-submissions'', Wild, Lit ''approve''])"
  "parsePattern ''POST /admin/wallet-submissions/{id}/reject'' = (''POST'', [Lit ''admin'', Lit ''wallet-submissions'', Wild, Lit ''reject''])"
  "parsePattern ''POST /internal/collectors/report'' = (''POST'', [Lit ''internal'', Lit ''collectors'', Lit ''report''])"
  "parsePattern ''GET /healthz'' = (''GET'', [Lit ''healthz''])"
  "parsePattern ''GET /spec'' = (''GET'', [Lit ''spec''])"
  "parsePattern ''GET /docs'' = (''GET'', [Lit ''docs''])"
  "parsePattern ''GET /nodes'' = (''GET'', [Lit ''nodes''])"
  "parsePattern ''POST /nodes'' = (''POST'', [Lit ''nodes''])"
  "parsePattern ''GET /nodes/{id}'' = (''GET'', [Lit ''nodes'', Wild])"
  "parsePattern ''GET /nodes/{id}/history'' = (''GET'', [Lit ''nodes'', Wild, Lit ''history''])"
  "parsePattern ''GET /nodes/{id}/edges'' = (''GET'', [Lit ''nodes'', Wild, Lit ''edges''])"
  "parsePattern ''GET /topology'' = (''GET'', [Lit ''topology''])"
  "parsePattern ''GET /topology/top-peered'' = (''GET'', [Lit ''topology'', Lit ''top-peered''])"
  "parsePattern ''GET /nodes/map'' = (''GET'', [Lit ''nodes'', Lit ''map''])"
  "parsePattern ''GET /nodes/map/extended'' = (''GET'', [Lit ''nodes'', Lit ''map'', Lit ''extended''])"
  "parsePattern ''GET /v1/stats'' = (''GET'', [Lit ''v1'', Lit ''stats''])"
  "parsePattern ''GET /v1/directory'' = (''GET'', [Lit ''v1'', Lit ''directory''])"
  "parsePattern ''GET /nodes/seeds'' = (''GET'', [Lit ''nodes'', Lit ''seeds''])"
  "parsePattern ''GET /nodes/seed_list'' = (''GET'', [Lit ''nodes'', Lit ''seed_list''])"
  "parsePattern ''GET /config/peer-seeds'' = (''GET'', [Lit ''config'', Lit ''peer-seeds''])"
  "parsePattern ''GET /nodes/seed_list_tari'' = (''GET'', [Lit ''nodes'', Lit ''seed_list_tari''])"
  "parsePattern ''POST /wallet-nodes'' = (''POST'', [Lit ''wallet-nodes''])"
  "parsePattern ''/admin/'' = ([], [Lit ''admin'', Multi])"
  "parsePattern ''/internal/'' = ([], [Lit ''internal'', Multi])"
  "parsePattern ''GET /{$}'' = (''GET'', [Lit ''/''])"
  "parsePattern ''GET /network'' = (''GET'', [Lit ''network''])"
  "parsePattern ''GET /map'' = (''GET'', [Lit ''map''])"
  "parsePattern ''GET /wallet-nodes'' = (''GET'', [Lit ''wallet-nodes''])"
  "parsePattern ''GET /static/style.css'' = (''GET'', [Lit ''static'', Lit ''style.css''])"
  "parsePattern ''/'' = ([], [Multi])"
  "parsePattern ''/api/'' = ([], [Lit ''api'', Multi])"
  by code_simp+

lemmas eval_route = method_node_simps patterns find_segs_def children_simps leaf_simps exact_segs_def match_segs_Nil

lemma served_api:
  assumes "m = ''GET'' \<or> m = ''POST''" and o: "ordinary ss"
  shows "served c h m (path_of (''api'' # ss)) r s = NewRouter c h m (path_of ss) r s"
proof -
  have ss: "ss \<noteq> []" using o by auto
  have o': "ordinary (''api'' # ss)" using o by (intro ordinary_Cons) (simp_all add: plain_def)
  have "ServeHTTP [(''/'', \<lambda>vars. NewHandler c h), (''/api/'', \<lambda>vars. StripPrefix ''/api'' (NewRouter c h))] m (path_of (''api'' # ss)) r s =
      StripPrefix ''/api'' (NewRouter c h) m (path_of (''api'' # ss)) r s"
    using assms(1) ss by (intro ServeHTTP_segs [OF o', where gs = "[Lit ''api'', Multi]" and vars = "[]"])
      (elim disjE; simp add: eval_route match_Multi)+
  then show ?thesis by (simp add: served_def StripPrefix_def has_prefix_def trim_prefix_def)
qed

lemma served_web:
  assumes "m = ''GET'' \<or> m = ''POST''" and o: "ordinary ss" and a: "hd ss \<noteq> ''api''"
  shows "served c h m (path_of ss) r s = NewHandler c h m (path_of ss) r s"
proof -
  obtain t ts where ss: "ss = t # ts" using o by (cases ss) auto
  have "m \<noteq> [] \<and> m \<noteq> ''HEAD''" using assms(1) by auto
  then show ?thesis unfolding served_def using a
    by (intro ServeHTTP_segs [OF o, where gs = "[Multi]" and vars = "[]"])
      (simp_all add: ss eval_route)
qed

text \<open>The first level of the tree of the API.\<close>

lemma api_root:
  "children Wild (method_node (apiMux c h) ''GET'') = []" "leaf [Multi] (method_node (apiMux c h) ''GET'') = None"
  "children Wild (method_node (apiMux c h) ''POST'') = []" "leaf [Multi] (method_node (apiMux c h) ''POST'') = None"
  "method_node (apiMux c h) ''GET'' \<noteq> []" "method_node (apiMux c h) ''POST'' \<noteq> []"
  by (cases "rc_walletHTTPEnabled c"; simp add: apiMux_def method_node_simps children_simps leaf_simps patterns)+

lemma api_gates:
  "method_node (apiMux c h) [] =
     [([Lit ''admin'', Multi], [Lit ''admin'', Multi],
       \<lambda>vars httpMethod path. Wrap (rc_creds c) (ServeHTTP (adminMux c h) httpMethod path)),
      ([Lit ''internal'', Multi], [Lit ''internal'', Multi], \<lambda>vars httpMethod path.
       wrapCollectorAuth (rc_collectors c) (\<lambda>cx. ServeHTTP (collectorMux h cx) httpMethod path))]"
  by (simp add: apiMux_def method_node_simps patterns)

lemma api_GET:
  "children (Lit ''healthz'') (method_node (apiMux c h) ''GET'') = [([], [Lit ''healthz''], fixed h Healthz)]"
  "children (Lit ''spec'') (method_node (apiMux c h) ''GET'') = [([], [Lit ''spec''], fixed h APISpec)]"
  "children (Lit ''docs'') (method_node (apiMux c h) ''GET'') = [([], [Lit ''docs''], fixed h APIDocs)]"
  "children (Lit ''topology'') (method_node (apiMux c h) ''GET'') =
     [([], [Lit ''topology''], fixed h Topology),
      ([Lit ''top-peered''], [Lit ''topology'', Lit ''top-peered''], fixed h TopPeeredNodes)]"
  "children (Lit ''v1'') (method_node (apiMux c h) ''GET'') =
     [([Lit ''stats''], [Lit ''v1'', Lit ''stats''], fixed h Stats),
      ([Lit ''directory''], [Lit ''v1'', Lit ''directory''], fixed h Directory)]"
  "children (Lit ''config'') (method_node (apiMux c h) ''GET'') =
     [([Lit ''peer-seeds''], [Lit ''config'', Lit ''peer-seeds''], fixed h ConfigPeerSeeds)]"
  "children (Lit ''admin'') (method_node (apiMux c h) ''GET'') = []"
  "children (Lit ''nodes'') (method_node (apiMux c h) ''GET'') =
     [([], [Lit ''nodes''], fixed h ListNodes),
      ([Wild], [Lit ''nodes'', Wild], with_id h GetNode),
      ([Wild, Lit ''history''], [Lit ''nodes'', Wild, Lit ''history''], with_id h GetNodeHistory),
      ([Wild, Lit ''edges''], [Lit ''nodes'', Wild, Lit ''edges''], with_id h GetNodeEdges),
      ([Lit ''map''], [Lit ''nodes'', Lit ''map''], fixed h NodesMap),
      ([Lit ''map'', Lit ''extended''], [Lit ''nodes'', Lit ''map'', Lit ''extended''], fixed h NodesMapExtended),
      ([Lit ''seeds''], [Lit ''nodes'', Lit ''seeds''], fixed h ListSeedCandidates),
      ([Lit ''seed_list''], [Lit ''nodes'', Lit ''seed_list''], fixed h ListSeedCandidates),
      ([Lit ''seed_list_tari''], [Lit ''nodes'', Lit ''seed_list_tari''], fixed h ConfigPeerSeeds)]"
  by (cases "rc_walletHTTPEnabled c"; simp add: apiMux_def method_node_simps children_simps patterns)+

lemma api_POST:
  "children (Lit ''nodes'') (method_node (apiMux c h) ''POST'') = [([], [Lit ''nodes''], fixed h CreateNode)]"
  "rc_walletHTTPEnabled c \<Longrightarrow> children (Lit ''wallet-nodes'') (method_node (apiMux c h) ''POST'') =
     [([], [Lit ''wallet-nodes''], fixed h CreateWalletNodeSubmission)]"
  "children (Lit ''admin'') (method_node (apiMux c h) ''POST'') = []"
  "children (Lit ''internal'') (method_node (apiMux c h) ''POST'') = []"
  by (cases "rc_walletHTTPEnabled c"; simp add: apiMux_def method_node_simps children_simps patterns)+

lemmas eval_api = find_segs_def api_root api_gates api_GET api_POST children_simps leaf_simps exact_segs_def match_segs_Nil match_Multi

lemma api_admin:
  assumes "m = ''GET'' \<or> m = ''POST''" and o: "ordinary ss"
  shows "NewRouter c h m (path_of (''admin'' # ss)) r s = Wrap (rc_creds c) (ServeHTTP (adminMux c h) m (path_of (''admin'' # ss))) r s"
proof -
  have ss: "ss \<noteq> []" using o by auto
  have o': "ordinary (''admin'' # ss)" using o by (intro ordinary_Cons) (simp_all add: plain_def)
  show ?thesis unfolding NewRouter_def using assms(1) ss
    by (intro ServeHTTP_segs [OF o', where gs = "[Lit ''admin'', Multi]" and vars = "[]"]) (elim disjE; simp add: eval_api)+
qed

lemma api_internal:
  assumes o: "ordinary ss"
  shows "NewRouter c h ''POST'' (path_of (''internal'' # ss)) r s =
    wrapCollectorAuth (rc_collectors c) (\<lambda>cx. ServeHTTP (collectorMux h cx) ''POST'' (path_of (''internal'' # ss))) r s"
proof -
  have ss: "ss \<noteq> []" using o by auto
  have o': "ordinary (''internal'' # ss)" using o by (intro ordinary_Cons) (simp_all add: plain_def)
  show ?thesis unfolding NewRouter_def using ss
    by (intro ServeHTTP_segs [OF o', where gs = "[Lit ''internal'', Multi]" and vars = "[]"]) (simp_all add: eval_api)
qed

lemma path_idD:
  assumes "path_id i"
  shows "plain i" "i \<noteq> []" "i \<noteq> ''map''" "i \<noteq> ''seeds''" "i \<noteq> ''seed_list''" "i \<noteq> ''seed_list_tari''"
  using assms by (auto simp: path_id_def plain_def)

lemma plain_words:
  "plain ''healthz''" "plain ''spec''" "plain ''docs''" "plain ''nodes''" "plain ''history''" "plain ''edges''" "plain ''topology''"
  "plain ''top-peered''" "plain ''map''" "plain ''extended''" "plain ''v1''" "plain ''stats''" "plain ''directory''"
  "plain ''seed_list''" "plain ''config''" "plain ''peer-seeds''" "plain ''wallet-nodes''" "plain ''admin''" "plain ''submissions''"
  "plain ''approve''" "plain ''reject''" "plain ''poll-now''" "plain ''wallet-submissions''" "plain ''internal''" "plain ''collectors''"
  "plain ''report''" "plain ''network''" "plain ''static''" "plain ''style.css''" "plain ''api''"
  by (simp_all add: plain_def)

text \<open>The open routes of the API, those with an identifier first.\<close>

lemma api_by_id:
  assumes "path_id i"
  shows "NewRouter c h ''GET'' (path_of [''nodes'', i]) r s = h (GetNode i) r s \<and>
    NewRouter c h ''GET'' (path_of [''nodes'', i, ''history'']) r s = h (GetNodeHistory i) r s \<and>
    NewRouter c h ''GET'' (path_of [''nodes'', i, ''edges'']) r s = h (GetNodeEdges i) r s"
  unfolding NewRouter_def using path_idD [OF assms]
  by (intro conjI; intro reached; simp add: plain_words eval_api)

lemma api_fixed:
  "NewRouter c h ''GET'' (path_of [''healthz'']) r s = h Healthz r s \<and>
   NewRouter c h ''GET'' (path_of [''spec'']) r s = h APISpec r s \<and>
   NewRouter c h ''GET'' (path_of [''docs'']) r s = h APIDocs r s \<and>
   NewRouter c h ''GET'' (path_of [''nodes'']) r s = h ListNodes r s \<and>
   NewRouter c h ''POST'' (path_of [''nodes'']) r s = h CreateNode r s \<and>
   NewRouter c h ''GET'' (path_of [''topology'']) r s = h Topology r s \<and>
   NewRouter c h ''GET'' (path_of [''topology'', ''top-peered'']) r s = h TopPeeredNodes r s \<and>
   NewRouter c h ''GET'' (path_of [''nodes'', ''map'']) r s = h NodesMap r s \<and>
   NewRouter c h ''GET'' (path_of [''nodes'', ''map'', ''extended'']) r s = h NodesMapExtended r s \<and>
   NewRouter c h ''GET'' (path_of [''v1'', ''stats'']) r s = h Stats r s \<and>
   NewRouter c h ''GET'' (path_of [''v1'', ''directory'']) r s = h Directory r s \<and>
   NewRouter c h ''GET'' (path_of [''nodes'', ''seed_list'']) r s = h ListSeedCandidates r s \<and>
   NewRouter c h ''GET'' (path_of [''config'', ''peer-seeds'']) r s = h ConfigPeerSeeds r s"
  unfolding NewRouter_def by (intro conjI; intro reached; simp add: plain_words eval_api)

lemma api_wallet:
  "rc_walletHTTPEnabled c \<Longrightarrow> NewRouter c h ''POST'' (path_of [''wallet-nodes'']) r s = h CreateWalletNodeSubmission r s"
  unfolding NewRouter_def by (intro reached; simp add: plain_words eval_api)

text \<open>Behind the gates.\<close>

lemma Wrap_admin: "is_admin c r \<Longrightarrow> Wrap (rc_creds c) h r s = h r s"
  by (auto simp: admin_gate is_admin_def Configured_def)

lemma api_admin_route:
  assumes "is_admin c r" "m = ''GET'' \<or> m = ''POST''" "ordinary ss" "ServeHTTP (adminMux c h) m (path_of (''admin'' # ss)) r s = x"
  shows "NewRouter c h m (path_of (''admin'' # ss)) r s = x"
  using assms by (simp only: api_admin Wrap_admin)

lemma api_admin_fixed:
  assumes "is_admin c r"
  shows "NewRouter c h ''GET'' (path_of [''admin'', ''submissions'']) r s = h ListSubmissions r s \<and>
    NewRouter c h ''POST'' (path_of [''admin'', ''nodes'', ''poll-now'']) r s = h (PollNow (pollWalletHTTPClient c)) r s"
  by (intro conjI; intro api_admin_route [OF assms] reached; simp add: plain_words adminMux_def eval_route)

lemma api_admin_by_id:
  assumes "is_admin c r" "path_id i"
  shows "NewRouter c h ''POST'' (path_of [''admin'', ''submissions'', i, ''approve'']) r s = h (ApproveSubmission i (pollWalletHTTPClient c)) r s \<and>
    NewRouter c h ''POST'' (path_of [''admin'', ''submissions'', i, ''reject'']) r s = h (RejectSubmission i) r s"
  using path_idD [OF assms(2)]
  by (intro conjI; intro api_admin_route [OF assms(1)] reached; simp add: plain_words adminMux_def eval_route)

lemma api_admin_wallet:
  assumes "is_admin c r" "rc_walletHTTPEnabled c"
  shows "NewRouter c h ''GET'' (path_of [''admin'', ''wallet-submissions'']) r s = h ListWalletSubmissions r s"
  using assms(2) by (intro api_admin_route [OF assms(1)] reached; simp add: plain_words adminMux_def eval_route)

lemma api_admin_wallet_by_id:
  assumes "is_admin c r" "rc_walletHTTPEnabled c" "path_id i"
  shows "NewRouter c h ''POST'' (path_of [''admin'', ''wallet-submissions'', i, ''approve'']) r s = h (ApproveWalletSubmission i) r s \<and>
    NewRouter c h ''POST'' (path_of [''admin'', ''wallet-submissions'', i, ''reject'']) r s = h (RejectWalletSubmission i) r s"
  using path_idD [OF assms(3)] assms(2)
  by (intro conjI; intro api_admin_route [OF assms(1)] reached; simp add: plain_words adminMux_def eval_route)

lemma api_collector:
  assumes "distinct (map fst (rc_collectors c))" "is_collector c r cx"
    and one: "\<And>cx'. is_collector c r cx' \<Longrightarrow> cx' = cx"
  shows "NewRouter c h ''POST'' (path_of [''internal'', ''collectors'', ''report'']) r s = h (CollectorReport cx) r s"
proof -
  have "ServeHTTP (collectorMux h cx') ''POST'' (path_of [''internal'', ''collectors'', ''report'']) r s = h (CollectorReport cx') r s" for cx'
    by (intro reached; simp add: plain_words collectorMux_def eval_route)
  then have "wrapCollectorAuth (rc_collectors c) (\<lambda>cx. ServeHTTP (collectorMux h cx) ''POST'' (path_of [''internal'', ''collectors'', ''report''])) r s =
      wrapCollectorAuth (rc_collectors c) (\<lambda>cx'. h (CollectorReport cx)) r s"
    using one by (intro wrapCollectorAuth_cong [OF assms(1)]) auto
  also have "\<dots> = h (CollectorReport cx) r s"
    using collector_auth_cases [OF assms(1), of r "\<lambda>cx'. h (CollectorReport cx)" s] assms(2) by (force simp: is_collector_def)
  finally show ?thesis by (subst api_internal) (simp_all add: plain_words del: path_of_simps)
qed

text \<open>The web pages.\<close>

lemma web_fixed:
  "NewHandler c h ''GET'' (path_of [[]]) r s = h Dashboard r s \<and>
   NewHandler c h ''GET'' (path_of [''topology'']) r s = h TopologyGraph r s \<and>
   NewHandler c h ''GET'' (path_of [''network'']) r s = h FullNetwork r s \<and>
   NewHandler c h ''GET'' (path_of [''map'']) r s = h MapPage r s \<and>
   NewHandler c h ''GET'' (path_of [''wallet-nodes'']) r s = h WalletNodes r s \<and>
   NewHandler c h ''GET'' (path_of [''static'', ''style.css'']) r s = h StaticCSS r s"
  unfolding NewHandler_def by (intro conjI; intro reached; simp add: plain_words webMux_def eval_route)

lemma web_by_id: "path_id i \<Longrightarrow> NewHandler c h ''GET'' (path_of [''nodes'', i]) r s = h (NodeDetail i) r s"
  unfolding NewHandler_def by (frule path_idD(1), drule path_idD(2), intro reached; simp add: plain_words webMux_def eval_route)

lemma web_admin:
  assumes "is_admin c r"
  shows "NewHandler c h ''GET'' (path_of [''admin'', ''submissions'']) r s = h SubmissionsPage r s"
proof -
  have o: "ordinary [''admin'', ''submissions'']" by (simp add: plain_words)
  have "NewHandler c h ''GET'' (path_of [''admin'', ''submissions'']) r s =
      Wrap (rc_creds c) (ServeHTTP [(''GET /admin/submissions'', fixed h SubmissionsPage)] ''GET'' (path_of [''admin'', ''submissions''])) r s"
    unfolding NewHandler_def
    by (rule ServeHTTP_segs [OF o, where gs = "[Lit ''admin'', Multi]" and vars = "[]"]; simp add: webMux_def eval_route)
  also have "\<dots> = h SubmissionsPage r s"
    by (subst Wrap_admin [OF assms]) (intro reached; simp add: plain_words eval_route)
  finally show ?thesis .
qed

definition reachable :: "'c route_config \<Rightarrow> http_request \<Rightarrow> 'c endpoint \<Rightarrow> bool" where
  "reachable c r e \<longleftrightarrow> permitted c r e \<and> path_ids e \<and> (\<forall>cx cx'. e = CollectorReport cx \<and> is_collector c r cx' \<longrightarrow> cx' = cx)"

lemma path_of_api: "served c h m (path_of (''api'' # ss)) r s = x" if "m = ''GET'' \<or> m = ''POST''" "ordinary ss" "NewRouter c h m (path_of ss) r s = x"
  using that by (simp only: served_api)

lemma path_of_web: "served c h ''GET'' (path_of ss) r s = x" if "ordinary ss" "hd ss \<noteq> ''api''" "NewHandler c h ''GET'' (path_of ss) r s = x"
  using that by (simp only: served_web simp_thms)

lemma parseCollectorKeys_distinct: "distinct (map fst (parseCollectorKeys raw))"
proof -
  have "distinct (map fst (collector_key_entry out x))" if "distinct (map fst out)" for out x
    using that by (auto simp: collector_key_entry_def Let_def distinct_update split: option.split)
  then have "distinct (map fst out) \<Longrightarrow> distinct (map fst (foldl collector_key_entry out xs))" for out xs
    by (induction xs arbitrary: out) auto
  from this [of "[]"] show ?thesis by (simp add: parseCollectorKeys_def)
qed

lemma main_routes_distinct:
  "c = main_routes adminCreds keysRaw selfRaw walletHTTPEnabled walletHTTPClient \<Longrightarrow> distinct (map fst (rc_collectors c))"
  using parseCollectorKeys_distinct [of keysRaw]
  by (simp add: main_routes_def configured_collectors_def Let_def comp_def case_prod_beta)

lemma served_reached:
  assumes d: "distinct (map fst (rc_collectors c))" and r: "reachable c r e"
  shows "served c h (fst (route e)) (path_of (snd (route e))) r s = h e r s"
proof -
  note defs = reachable_def permitted_defs path_ids_def
  note api = api_fixed api_by_id api_wallet api_admin_fixed api_admin_by_id api_admin_wallet api_admin_wallet_by_id
  note web = web_fixed web_by_id web_admin
  note ids = plain_words path_idD
  show ?thesis
  proof (cases e)
    case (CollectorReport cx)
    then have "is_collector c r cx" "\<And>cx'. is_collector c r cx' \<Longrightarrow> cx' = cx" using r by (auto simp: defs)
    from api_collector [OF d this] show ?thesis unfolding CollectorReport route.simps fst_conv snd_conv
      by (intro path_of_api) (simp_all add: plain_words del: path_of_simps)
  qed (use r in \<open>simp only: route.simps fst_conv snd_conv; (intro path_of_api path_of_web; simp add: defs ids api web del: path_of_simps)\<close>)+
qed

text \<open>
  C9: the routes of the whole service.  Whatever the method and the path, the answer and
  the state depend only on the handlers the request is entitled to: an administrator's
  handler needs exactly the configured credentials, the report handler runs with the name and
  addresses of a collector whose nonempty key the request carries, nothing of the wallet
  feature is there while the flag is off (and the polls get no wallet client), and a handler
  that writes needs a \<^verbatim>\<open>POST\<close>.  Conversely every handler is reached under its documented
  path; a fixed word such as \<^verbatim>\<open>map\<close> or \<^verbatim>\<open>seeds\<close> is never taken for an identifier.
\<close>

theorem routes_gated:
  assumes "c = main_routes adminCreds keysRaw selfRaw walletHTTPEnabled walletHTTPClient"
  shows "(\<forall>h' m path r s. (\<forall>e. permitted c r e \<and> fits m e \<longrightarrow> h e r s = h' e r s) \<longrightarrow>
      served c h m path r s = served c h' m path r s) \<and>
    (\<forall>e r s. reachable c r e \<longrightarrow> served c h (fst (route e)) (path_of (snd (route e))) r s = h e r s)"
proof (intro conjI allI impI)
  fix h' m path r s
  assume "\<forall>e. permitted c r e \<and> fits m e \<longrightarrow> h e r s = h' e r s"
  then show "served c h m path r s = served c h' m path r s" by (intro served_cong [OF main_routes_distinct [OF assms]]) simp
next
  fix e r s
  assume "reachable c r e"
  then show "served c h (fst (route e)) (path_of (snd (route e))) r s = h e r s"
    by (rule served_reached [OF main_routes_distinct [OF assms]])
qed

definition example_routes :: "unit route_config" where
  "example_routes = main_routes \<lparr>cr_Username = ''admin'', cr_Password = ''secret''\<rparr> [] [] False (Some ())"

definition example_handlers :: "nat \<Rightarrow> (unit, nat, unit) handlers" where
  "example_handlers k e r s = (s + (if e = PollNow None then k else 0), Response StatusOK ())"

definition anonymous_request :: http_request where
  "anonymous_request = \<lparr>rq_Header = (\<lambda>_. []), rq_BasicAuth = None, rq_RemoteAddr = [], rq_Body = Ok []\<rparr>"

theorem routes_gated_witness:
  "served example_routes (example_handlers 1) ''POST'' ''/api/%61dmin/nodes/../nodes/poll-now'' anonymous_request 0 =
     served example_routes (example_handlers 2) ''POST'' ''/api/%61dmin/nodes/../nodes/poll-now'' anonymous_request 0 \<and>
   served example_routes (example_handlers 1) ''POST'' ''/api/admin/nodes/poll-now''
     (anonymous_request\<lparr>rq_BasicAuth := Some (''admin'', ''secret'')\<rparr>) 0 = (1, Response StatusOK ())"
proof -
  have n: "\<not> permitted example_routes anonymous_request (PollNow None)"
    by (simp add: permitted_def admin_only_def is_admin_def anonymous_request_def)
  have a: "reachable example_routes (anonymous_request\<lparr>rq_BasicAuth := Some (''admin'', ''secret'')\<rparr>) (PollNow None)"
    by (simp add: reachable_def permitted_defs path_ids_def is_admin_def Configured_def example_routes_def main_routes_def anonymous_request_def)
  have "example_handlers 1 e anonymous_request 0 = example_handlers 2 e anonymous_request 0"
    if "permitted example_routes anonymous_request e \<and> fits ''POST'' e" for e
    using n that by (auto simp: example_handlers_def)
  then show ?thesis
    using routes_gated [OF example_routes_def, of "example_handlers 1", THEN conjunct1, rule_format, of anonymous_request "''POST''" 0 "example_handlers 2"]
      routes_gated [OF example_routes_def, of "example_handlers 1", THEN conjunct2, rule_format, OF a, of 0]
    by (simp add: example_handlers_def)
qed

end
