(* ===== verification/Web_Pages.thy ===== *)
theory Web_Pages
  imports Public_Views
begin

text \<open>
  \<^verbatim>\<open>internal/web/web.go\<close>: the data behind the HTML pages (dashboard, full network, a node, wallet
  endpoints, pending submissions), with the cache the two node tables share.  The templates,
  which print this data, are not modelled.
\<close>

section \<open>Identities and capabilities\<close>

definition shortHexLen :: nat where "shortHexLen = 12"

record identity =
  id_Confirmed :: bool
  id_ShortHex :: string
  id_FullHex :: string

text \<open>The ellipsis in UTF-8.\<close>

definition ellipsis :: string where
  "ellipsis = [CHR 0xE2, CHR 0x80, CHR 0xA6]"

definition buildIdentity :: "bytes \<Rightarrow> identity" where
  "buildIdentity publicKey =
     (if length publicKey = 0 then \<lparr>id_Confirmed = False, id_ShortHex = [], id_FullHex = []\<rparr>
      else let full = hex_EncodeToString publicKey;
               short = (if length full > shortHexLen then take shortHexLen full @ ellipsis else full)
           in \<lparr>id_Confirmed = True, id_ShortHex = short, id_FullHex = full\<rparr>)"

definition truncateAddress :: "string \<Rightarrow> nat \<Rightarrow> string" where
  "truncateAddress addr maxLen = (if length addr \<le> maxLen then addr else take maxLen addr @ ellipsis)"

record capabilities =
  cap_HasIPv4 :: bool
  cap_HasIPv6 :: bool
  cap_HasOnion :: bool

record scrubbedView =
  sv_Identity :: identity
  sv_Capabilities :: capabilities
  sv_PublicAddresses :: "string list"

definition scrubForDisplay :: "Node \<Rightarrow> NodeAddress list \<Rightarrow> scrubbedView" where
  "scrubForDisplay n addrs =
     (let pn = ScrubNode n addrs in
      \<lparr>sv_Identity = buildIdentity (pn_PublicKey pn),
       sv_Capabilities = \<lparr>cap_HasIPv4 = pn_HasIPv4 pn, cap_HasIPv6 = pn_HasIPv6 pn, cap_HasOnion = pn_HasOnion pn\<rparr>,
       sv_PublicAddresses = pn_Addresses pn\<rparr>)"

text \<open>\<^verbatim>\<open>formatDuration\<close> on durations up to the largest; Go's division of a positive duration rounds down.\<close>

definition formatDuration :: "duration \<Rightarrow> string" where
  "formatDuration d =
     (if d \<le> 0 then ''0s''
      else let h = d div Hour; d = d - h * Hour; m = d div Minute; d = d - m * Minute; s = d div Second
           in (if h > 0 then Itoa h @ ''h'' else []) @ (if m > 0 then Itoa m @ ''m'' else []) @ (if s > 0 then Itoa s @ ''s'' else []))"

definition windowLabel :: "duration \<Rightarrow> string" where
  "windowLabel d = ''(last '' @ formatDuration d @ '')''"

section \<open>The node tables\<close>

definition topPeeredWindow :: duration where "topPeeredWindow = Hour"
definition topPeeredLimit :: int where "topPeeredLimit = 10"
definition dashboardNodePageSize :: int where "dashboardNodePageSize = 50"
definition dashboardNodeMaxPageSize :: int where "dashboardNodeMaxPageSize = 200"
definition nodeEdgesLimit :: int where "nodeEdgesLimit = 50"
definition dashboardRowHistoryLimit :: int where "dashboardRowHistoryLimit = 1"
definition networkRowHistoryLimit :: int where "networkRowHistoryLimit = 3"
definition dashboardReachableWindow :: duration where "dashboardReachableWindow = 24 * Hour"

record dashboardNodeRow =
  row_Node :: Node
  row_LatestHealth :: "HealthCheck option"
  row_Identity :: identity
  row_Capabilities :: capabilities
  row_PublicAddresses :: "string list"
  row_LikelyDead :: bool

record nodeTablePagination =
  pg_Page :: int
  pg_Limit :: int
  pg_Total :: nat
  pg_RangeStart :: int
  pg_RangeEnd :: int
  pg_HasPrevPage :: bool
  pg_HasNextPage :: bool
  pg_PrevPage :: int
  pg_NextPage :: int

text \<open>Arithmetic on Go's \<^verbatim>\<open>int\<close>, which has 64 bits and wraps around.\<close>

definition wrap64 :: "int \<Rightarrow> int" where
  "wrap64 x = sint (word_of_int x :: 64 word)"

definition page_param :: "query \<Rightarrow> string \<Rightarrow> int \<Rightarrow> int" where
  "page_param q name dflt =
     (case Atoi (q name) of Some n \<Rightarrow> if n > 0 then n else dflt | None \<Rightarrow> dflt)"

definition parseNodeTablePageParams :: "query \<Rightarrow> int \<times> int \<times> int" where
  "parseNodeTablePageParams q =
     (let page = page_param q ''page'' 1;
          limit = page_param q ''limit'' dashboardNodePageSize;
          limit = (if limit > dashboardNodeMaxPageSize then dashboardNodeMaxPageSize else limit)
      in (page, limit, wrap64 ((page - 1) * limit)))"

text \<open>
  What \<^verbatim>\<open>dashboardCountsCache\<close> holds: the counts (\<^verbatim>\<open>dashboardCounts\<close> has the fields of
  \<^verbatim>\<open>api.NodeCounts\<close>), the addresses of all nodes, and the height of the network.
\<close>

record countsEntry =
  ce_Counts :: NodeCounts
  ce_AddrsByNode :: "(uuid \<times> NodeAddress list) list"
  ce_NetworkHeight :: "int option"
  ce_NetworkHeightNodeCount :: nat

type_synonym dashboardCountsCache = "(unit, countsEntry) cache"

definition computeWholePopulationCounts :: "time \<Rightarrow> DB \<Rightarrow> (NodeCounts \<times> (uuid \<times> NodeAddress list) list) result" where
  "computeWholePopulationCounts now db =
     (case pg_ListNodes emptyFilter db of
        Inl err \<Rightarrow> Fail err
      | Inr allNodes \<Rightarrow>
     (case pg_ListNodeAddressesForNodes (map n_ID allNodes) db of
        Inl err \<Rightarrow> Fail err
      | Inr addrsByNode \<Rightarrow>
     (case pg_CountNodes (emptyFilter\<lparr>nf_Confirmed := Some True, nf_ReachableSince := Some (now - 24 * Hour)\<rparr>) db of
        Inl err \<Rightarrow> Fail err
      | Inr confirmed24h \<Rightarrow> Ok ((ComputeNodeCounts allNodes addrsByNode)\<lparr>nc_Confirmed24h := confirmed24h\<rparr>, addrsByNode))))"

definition whole_population :: "time \<Rightarrow> DB \<Rightarrow> countsEntry result" where
  "whole_population now db =
     (case computeWholePopulationCounts now db of
        Inl err \<Rightarrow> Fail err
      | Inr (counts, addrsByNode) \<Rightarrow>
     (case NetworkHeight now db of
        Inl err \<Rightarrow> Fail err
      | Inr (height, nodeCount) \<Rightarrow>
          Ok \<lparr>ce_Counts = counts, ce_AddrsByNode = addrsByNode, ce_NetworkHeight = height, ce_NetworkHeightNodeCount = nodeCount\<rparr>))"

text \<open>The rows of a page, one query for the history of each.\<close>

fun table_rows :: "(uuid \<times> NodeAddress list) list \<Rightarrow> int \<Rightarrow> DB \<Rightarrow> Node list \<Rightarrow> dashboardNodeRow list result" where
  "table_rows addrsByNode historyLimit db [] = Ok []"
| "table_rows addrsByNode historyLimit db (n # ns) =
     (let view = scrubForDisplay n (addrs_of addrsByNode (n_ID n)) in
      case pg_GetNodeHistory (n_ID n) historyLimit db of
        Inl err \<Rightarrow> Fail err
      | Inr history \<Rightarrow>
     (case table_rows addrsByNode historyLimit db ns of
        Inl err \<Rightarrow> Fail err
      | Inr rows \<Rightarrow>
          Ok (\<lparr>row_Node = n, row_LatestHealth = (case history of [] \<Rightarrow> None | h # _ \<Rightarrow> Some h), row_Identity = sv_Identity view,
               row_Capabilities = sv_Capabilities view, row_PublicAddresses = sv_PublicAddresses view,
               row_LikelyDead = IsLikelyDead history\<rparr> # rows)))"

text \<open>The part of \<^verbatim>\<open>buildNodeTableData\<close> below the cache.\<close>

definition table_page ::
  "countsEntry \<Rightarrow> time option \<Rightarrow> int \<Rightarrow> int \<Rightarrow> int \<Rightarrow> int \<Rightarrow> DB \<Rightarrow> (dashboardNodeRow list \<times> nodeTablePagination) result" where
  "table_page entry reachableSince page limit offset historyLimit db =
     (case pg_ListNodes (emptyFilter\<lparr>nf_ReachableSince := reachableSince, nf_Limit := limit, nf_Offset := offset\<rparr>) db of
        Inl err \<Rightarrow> Fail err
      | Inr pageNodes \<Rightarrow>
     (case table_rows (ce_AddrsByNode entry) historyLimit db pageNodes of
        Inl err \<Rightarrow> Fail err
      | Inr rows \<Rightarrow>
     (case (if reachableSince = None then Ok (nc_Total (ce_Counts entry))
            else map_sum id length (pg_ListNodes (emptyFilter\<lparr>nf_ReachableSince := reachableSince\<rparr>) db)) of
        Inl err \<Rightarrow> Fail err
      | Inr filteredTotal \<Rightarrow>
          Ok (rows, \<lparr>pg_Page = page, pg_Limit = limit, pg_Total = filteredTotal,
            pg_RangeStart = (if length pageNodes > 0 then wrap64 (offset + 1) else 0),
            pg_RangeEnd = (if length pageNodes > 0 then wrap64 (offset + int (length pageNodes)) else 0),
            pg_HasPrevPage = (page > 1), pg_HasNextPage = (wrap64 (offset + int (length pageNodes)) < int filteredTotal),
            pg_PrevPage = wrap64 (page - 1), pg_NextPage = wrap64 (page + 1)\<rparr>))))"

definition buildNodeTableData ::
  "time option \<Rightarrow> int \<Rightarrow> int \<Rightarrow> int \<Rightarrow> int \<Rightarrow> time \<Rightarrow> DB \<Rightarrow> dashboardCountsCache \<Rightarrow>
   dashboardCountsCache \<times> (countsEntry \<times> dashboardNodeRow list \<times> nodeTablePagination) result" where
  "buildNodeTableData reachableSince page limit offset historyLimit now db c =
     (case (case cache_get now () c of
              Some entry \<Rightarrow> (c, Ok entry)
            | None \<Rightarrow> (case whole_population now db of
                         Inl err \<Rightarrow> (c, Fail err)
                       | Inr entry \<Rightarrow> (cache_set now () entry c, Ok entry))) of
        (c, Inl err) \<Rightarrow> (c, Fail err)
      | (c, Inr entry) \<Rightarrow> (c, map_sum id (Pair entry) (table_page entry reachableSince page limit offset historyLimit db)))"

section \<open>The pages\<close>

record topPeeredRow =
  tp_ID :: uuid
  tp_Identity :: identity
  tp_Capabilities :: capabilities
  tp_PublicAddresses :: "string list"
  tp_Degrees :: NodeDegree

record dashboardData =
  dd_Counts :: countsEntry
  dd_Nodes :: "dashboardNodeRow list"
  dd_TopPeered :: "topPeeredRow list"
  dd_TopPeeredWindowLabel :: string
  dd_Pagination :: nodeTablePagination

fun top_peered_rows :: "DB \<Rightarrow> NodeDegree list \<Rightarrow> topPeeredRow list result" where
  "top_peered_rows db [] = Ok []"
| "top_peered_rows db (nd # nds) =
     (case pg_GetNode (nd_NodeID nd) db of
        Inl err \<Rightarrow> Fail err
      | Inr n \<Rightarrow>
          if IsCollectorRole (n_Tags n) then top_peered_rows db nds
          else
     (case pg_ListNodeAddresses (nd_NodeID nd) db of
        Inl err \<Rightarrow> Fail err
      | Inr addrs \<Rightarrow>
          let view = scrubForDisplay n addrs in
     (case top_peered_rows db nds of
        Inl err \<Rightarrow> Fail err
      | Inr rows \<Rightarrow> Ok (\<lparr>tp_ID = nd_NodeID nd, tp_Identity = sv_Identity view, tp_Capabilities = sv_Capabilities view,
          tp_PublicAddresses = sv_PublicAddresses view, tp_Degrees = nd\<rparr> # rows))))"

definition handleDashboard :: "query \<Rightarrow> time \<Rightarrow> DB \<Rightarrow> dashboardCountsCache \<Rightarrow> dashboardCountsCache \<times> dashboardData response" where
  "handleDashboard q now db c =
     (case parseNodeTablePageParams q of (page, limit, offset) \<Rightarrow>
      case buildNodeTableData (Some (now - dashboardReachableWindow)) page limit offset dashboardRowHistoryLimit now db c of
        (c, Inl err) \<Rightarrow> (c, ErrorResponse StatusInternalServerError err)
      | (c, Inr (entry, rows, pagination)) \<Rightarrow>
          (c, or_500 (TopPeeredNodes (now - topPeeredWindow) topPeeredLimit db) (\<lambda>degrees.
              or_500 (top_peered_rows db degrees) (\<lambda>topPeered.
              Response StatusOK \<lparr>dd_Counts = entry, dd_Nodes = rows, dd_TopPeered = topPeered,
                dd_TopPeeredWindowLabel = windowLabel topPeeredWindow, dd_Pagination = pagination\<rparr>))))"

record networkData =
  nw_Counts :: countsEntry
  nw_Nodes :: "dashboardNodeRow list"
  nw_Pagination :: nodeTablePagination

definition handleFullNetwork :: "query \<Rightarrow> time \<Rightarrow> DB \<Rightarrow> dashboardCountsCache \<Rightarrow> dashboardCountsCache \<times> networkData response" where
  "handleFullNetwork q now db c =
     (case parseNodeTablePageParams q of (page, limit, offset) \<Rightarrow>
      case buildNodeTableData None page limit offset networkRowHistoryLimit now db c of
        (c, Inl err) \<Rightarrow> (c, ErrorResponse StatusInternalServerError err)
      | (c, Inr (entry, rows, pagination)) \<Rightarrow>
          (c, Response StatusOK \<lparr>nw_Counts = entry, nw_Nodes = rows, nw_Pagination = pagination\<rparr>))"

definition walletHTTPUptimeWindow :: duration where "walletHTTPUptimeWindow = 24 * Hour"

text \<open>The uptime is kept as a fraction; the page shows it as a percentage.\<close>

record walletNodeRow =
  wr_NodeID :: uuid
  wr_Identity :: identity
  wr_Address :: string
  wr_Latest :: "HealthCheck option"
  wr_Uptime :: "(nat \<times> nat) option"
  wr_SampleCount :: nat

definition wallet_row :: "time \<Rightarrow> DB \<Rightarrow> Node \<Rightarrow> walletNodeRow option result" where
  "wallet_row now db n =
     (case pg_ListNodeAddresses (n_ID n) db of
        Inl err \<Rightarrow> Fail err
      | Inr addrs \<Rightarrow>
          let pn = ScrubNode n addrs in
          (case (pn_WalletHTTPPort pn, pn_Addresses pn) of
             (Some port, addr # _) \<Rightarrow>
               (case SplitHostPort addr of
                  Inl _ \<Rightarrow> Ok None
                | Inr (host, _) \<Rightarrow>
                    if host = [] then Ok None
                    else
                 (case pg_GetLatestHealthCheck (n_ID n) ProbeSourceWalletHTTP db of
                    Inl err \<Rightarrow> Fail err
                  | Inr latest \<Rightarrow>
                 (case WalletHTTPUptime now (n_ID n) walletHTTPUptimeWindow db of
                    Inl err \<Rightarrow> Fail err
                  | Inr (uptime, sampleCount) \<Rightarrow>
                      Ok (Some \<lparr>wr_NodeID = n_ID n, wr_Identity = buildIdentity (pn_PublicKey pn), wr_Address = JoinHostPort host (Itoa port),
                        wr_Latest = latest, wr_Uptime = uptime, wr_SampleCount = (if uptime = None then 0 else sampleCount)\<rparr>))))
           | _ \<Rightarrow> Ok None))"

fun wallet_rows :: "time \<Rightarrow> DB \<Rightarrow> Node list \<Rightarrow> walletNodeRow list result" where
  "wallet_rows now db [] = Ok []"
| "wallet_rows now db (n # ns) =
     (case wallet_row now db n of
        Inl err \<Rightarrow> Fail err
      | Inr row \<Rightarrow>
     (case wallet_rows now db ns of
        Inl err \<Rightarrow> Fail err
      | Inr rows \<Rightarrow> Ok (case row of None \<Rightarrow> rows | Some r \<Rightarrow> r # rows)))"

record walletNodesData =
  wd_Nodes :: "walletNodeRow list"
  wd_WindowLabel :: string
  wd_Enabled :: bool

definition handleWalletNodes :: "bool \<Rightarrow> time \<Rightarrow> DB \<Rightarrow> walletNodesData response" where
  "handleWalletNodes walletHTTPEnabled now db =
     (if \<not> walletHTTPEnabled
      then Response StatusOK \<lparr>wd_Nodes = [], wd_WindowLabel = windowLabel walletHTTPUptimeWindow, wd_Enabled = False\<rparr>
      else or_500 (pg_ListNodes (emptyFilter\<lparr>nf_HasWalletHTTPPort := Some True\<rparr>) db) (\<lambda>nodes.
           or_500 (wallet_rows now db nodes) (\<lambda>rows.
           Response StatusOK \<lparr>wd_Nodes = rows, wd_WindowLabel = windowLabel walletHTTPUptimeWindow, wd_Enabled = True\<rparr>)))"

definition handleSubmissions :: "DB \<Rightarrow> PendingSubmission list response" where
  "handleSubmissions db = or_500 (pg_ListPendingSubmissions ''pending'' db) (Response StatusOK)"

record peerEdgeRow =
  pr_OtherNodeID :: uuid
  pr_OtherIdentity :: identity
  pr_Direction :: string
  pr_FirstSeen :: time
  pr_LastSeen :: time

record nodeDetailData =
  nt_Node :: Node
  nt_History :: "HealthCheck list"
  nt_RecentSuccessfulChecks :: "HealthCheck list"
  nt_Identity :: identity
  nt_Capabilities :: capabilities
  nt_PublicAddresses :: "string list"
  nt_PeerEdges :: "peerEdgeRow list"
  nt_LikelyDead :: bool
  nt_IdentityUpdatedAt :: "time option"
  nt_LastKnownVersion :: "string option"

fun edge_rows :: "uuid \<Rightarrow> DB \<Rightarrow> PeerEdge list \<Rightarrow> peerEdgeRow list result" where
  "edge_rows nid db [] = Ok []"
| "edge_rows nid db (e # es) =
     (let (otherID, direction) = (if pe_FromNodeID e \<noteq> nid then (pe_FromNodeID e, ''inbound'') else (pe_ToNodeID e, ''outbound'')) in
      case pg_GetNode otherID db of
        Inl err \<Rightarrow> Fail err
      | Inr otherNode \<Rightarrow>
     (case edge_rows nid db es of
        Inl err \<Rightarrow> Fail err
      | Inr rows \<Rightarrow> Ok (\<lparr>pr_OtherNodeID = otherID, pr_OtherIdentity = buildIdentity (n_PublicKey otherNode), pr_Direction = direction,
          pr_FirstSeen = pe_FirstSeen e, pr_LastSeen = pe_LastSeen e\<rparr> # rows)))"

definition handleNodeDetail :: "(string \<Rightarrow> uuid option) \<Rightarrow> string \<Rightarrow> DB \<Rightarrow> nodeDetailData response" where
  "handleNodeDetail parseUUID pathID db =
     (case parseUUID pathID of
        None \<Rightarrow> bad ''invalid node id''
      | Some nid \<Rightarrow>
     (case pg_GetNode nid db of
        Inl err \<Rightarrow> if err = ErrNotFound then ErrorResponse StatusNotFound err else ErrorResponse StatusInternalServerError err
      | Inr node \<Rightarrow>
          or_500 (pg_ListNodeAddresses nid db) (\<lambda>addrs.
          let view = scrubForDisplay node addrs in
          or_500 (pg_GetNodeHistory nid 50 db) (\<lambda>history.
          or_500 (pg_GetRecentSuccessfulHealthChecks nid 3 db) (\<lambda>recentSuccessful.
          or_500 (ListNodeEdges nid nodeEdgesLimit db) (\<lambda>edges.
          or_500 (edge_rows nid db edges) (\<lambda>peerEdges.
          Response StatusOK \<lparr>nt_Node = node, nt_History = history, nt_RecentSuccessfulChecks = recentSuccessful,
            nt_Identity = sv_Identity view, nt_Capabilities = sv_Capabilities view, nt_PublicAddresses = sv_PublicAddresses view,
            nt_PeerEdges = peerEdges, nt_LikelyDead = IsLikelyDead history,
            nt_IdentityUpdatedAt = (case recentSuccessful of [] \<Rightarrow> None | h # _ \<Rightarrow> hc_PeerIdentityUpdatedAt h),
            nt_LastKnownVersion = (case recentSuccessful of [] \<Rightarrow> None | h # _ \<Rightarrow> hc_Version h)\<rparr>)))))))"

section \<open>Whose addresses the pages show\<close>

text \<open>A batch of address lists holds, under each identifier, addresses of that node only.\<close>

definition own_lists :: "DB \<Rightarrow> (uuid \<times> NodeAddress list) list \<Rightarrow> bool" where
  "own_lists db m \<longleftrightarrow> (\<forall>i. set (addrs_of m i) \<subseteq> {a \<in> set (db_node_addresses db). na_NodeID a = i})"

lemma own_lists_update:
  "own_lists db m \<Longrightarrow> set as \<subseteq> {a \<in> set (db_node_addresses db). na_NodeID a = i} \<Longrightarrow> own_lists db (AList.update i as m)"
  by (simp add: own_lists_def addrs_of_def coalesce_def)

lemma batch_own:
  assumes "pg_ListNodeAddressesForNodes ids db = Ok am" "a \<in> set (addrs_of am i)"
  shows "(i, na_Address a) \<in> address_keys db"
proof -
  have e: "own_lists db (foldl (\<lambda>m i. AList.update i [] m) m js)" if "own_lists db m" for m js
    using that by (induction js arbitrary: m) (simp_all add: own_lists_update)
  have r: "own_lists db (foldl (\<lambda>m a. AList.update (na_NodeID a) (coalesce (lookup m (na_NodeID a)) [] @ [a]) m) m rows)"
    if "own_lists db m" "set rows \<subseteq> set (db_node_addresses db)" for m rows
    using that
  proof (induction rows arbitrary: m)
    case (Cons x rows)
    have "set (coalesce (lookup m (na_NodeID x)) [] @ [x]) \<subseteq> {a \<in> set (db_node_addresses db). na_NodeID a = na_NodeID x}"
      using Cons.prems by (auto simp: own_lists_def addrs_of_def)
    from Cons.IH [OF own_lists_update [OF Cons.prems(1) this]] Cons.prems(2) show ?case by simp
  qed simp
  have z: "own_lists db []" by (simp add: own_lists_def addrs_of_def coalesce_def)
  define rows where "rows = concat (map (\<lambda>i. sort_key na_FirstSeen (filter (\<lambda>a. na_NodeID a = i) (db_node_addresses db)))
    (remdups (map na_NodeID (filter (\<lambda>a. na_NodeID a \<in> set ids) (db_node_addresses db)))))"
  have "set rows \<subseteq> set (db_node_addresses db)" by (auto simp: rows_def)
  from r [OF e [OF z, of ids] this] have "own_lists db am"
    using assms(1) z e [OF z, of ids] by (cases "ids = []") (auto simp: pg_ListNodeAddressesForNodes_def rows_def [symmetric] Let_def)
  then show ?thesis using assms(2) own_address unfolding own_lists_def by blast
qed

definition entry_from :: "DB \<Rightarrow> countsEntry \<Rightarrow> bool" where
  "entry_from db entry \<longleftrightarrow> (\<forall>i. \<forall>a\<in>set (addrs_of (ce_AddrsByNode entry) i). (i, na_Address a) \<in> address_keys db)"

lemma whole_population_entry: "whole_population now db = Ok entry \<Longrightarrow> entry_from db entry"
  by (auto simp: whole_population_def computeWholePopulationCounts_def entry_from_def split: sum.splits prod.splits dest: batch_own)

text \<open>A row: a node of the database, with addresses only if it is opted in, and then its own of the time of the entry.\<close>

definition row_ok :: "DB \<Rightarrow> DB \<Rightarrow> dashboardNodeRow \<Rightarrow> bool" where
  "row_ok db0 db r \<longleftrightarrow> row_Node r \<in> set (db_nodes db) \<and> (row_PublicAddresses r = [] \<or> opted_in (row_Node r) \<and>
     set (row_PublicAddresses r) \<subseteq> insert (n_Address (row_Node r)) {a. (n_ID (row_Node r), a) \<in> address_keys db0})"

lemma table_rows_ok:
  assumes "entry_from db0 entry"
  shows "set ns \<subseteq> set (db_nodes db) \<Longrightarrow> table_rows (ce_AddrsByNode entry) h db ns = Ok rows \<Longrightarrow>
    map row_Node rows = ns \<and> (\<forall>r\<in>set rows. row_ok db0 db r)"
proof (induction ns arbitrary: rows)
  case (Cons n ns)
  have "set (addressStrings n (addrs_of (ce_AddrsByNode entry) (n_ID n))) \<subseteq> insert (n_Address n) {a. (n_ID n, a) \<in> address_keys db0}"
    using assms by (auto simp: addressStrings_def entry_from_def)
  then have v: "opted_in n \<and> set as \<subseteq> insert (n_Address n) {a. (n_ID n, a) \<in> address_keys db0}"
    if "as = sv_PublicAddresses (scrubForDisplay n (addrs_of (ce_AddrsByNode entry) (n_ID n)))" "as \<noteq> []" for as
    using that by (simp add: scrubForDisplay_def ScrubNode_eq split: if_splits)
  obtain r rs where rs: "rows = r # rs" "table_rows (ce_AddrsByNode entry) h db ns = Ok rs" "row_Node r = n"
    "row_PublicAddresses r = sv_PublicAddresses (scrubForDisplay n (addrs_of (ce_AddrsByNode entry) (n_ID n)))"
    using Cons.prems(2) by (auto simp: Let_def split: sum.splits)
  have "row_ok db0 db r" using v [OF rs(4)] Cons.prems(1) rs(3) by (auto simp: row_ok_def)
  then show ?case using Cons.IH [OF _ rs(2)] Cons.prems(1) rs(1,3) by simp
qed simp

lemma table_page_ok:
  assumes "entry_from db0 entry" "table_page entry since page limit offset h db = Ok (rows, p)"
  shows "\<forall>r\<in>set rows. row_ok db0 db r"
proof -
  obtain ns where "pg_ListNodes (emptyFilter\<lparr>nf_ReachableSince := since, nf_Limit := limit, nf_Offset := offset\<rparr>) db = Ok ns"
    "table_rows (ce_AddrsByNode entry) h db ns = Ok rows"
    using assms(2) by (auto simp: table_page_def split: sum.splits)
  then show ?thesis using table_rows_ok [OF assms(1)] ListNodes_subset by blast
qed

text \<open>The cache: an entry is that of a past request, with the time of that request.\<close>

definition counts_sound :: "(time \<times> DB) set \<Rightarrow> dashboardCountsCache \<Rightarrow> bool" where
  "counts_sound past c \<longleftrightarrow> (\<forall>entry t. lookup (cache_entries c) () = Some (entry, t) \<longrightarrow> (\<exists>db0. (t, db0) \<in> past \<and> entry_from db0 entry))"

lemma map_sum_Ok: "map_sum id (Pair e) x = Ok (e', rows, p) \<Longrightarrow> x = Ok (rows, p)"
  by (cases x) simp_all

lemma counts_sound_mono: "counts_sound past c \<Longrightarrow> past \<subseteq> past' \<Longrightarrow> counts_sound past' c"
  unfolding counts_sound_def by blast

lemma counts_sound_set: "entry_from db entry \<Longrightarrow> counts_sound (insert (now, db) past) (cache_set now () entry c)"
  by (simp add: counts_sound_def cache_set_def) blast

text \<open>Where the entry of a table comes from: this database now, or one less than the lifetime of an entry ago.\<close>

definition recent :: "duration \<Rightarrow> time \<Rightarrow> (time \<times> DB) set \<Rightarrow> DB \<Rightarrow> DB \<Rightarrow> bool" where
  "recent ttl now past db db0 \<longleftrightarrow> db0 = db \<or> (\<exists>t. (t, db0) \<in> past \<and> now - t < ttl)"

lemma table_step:
  assumes c: "counts_sound past c" and b: "buildNodeTableData since page limit offset h now db c = (c', res)"
  shows "counts_sound (insert (now, db) past) c'" "cache_ttl c' = cache_ttl c"
    "res = Ok (e', rows, p) \<Longrightarrow> \<exists>entry db0. table_page entry since page limit offset h db = Ok (rows, p) \<and>
       recent (cache_ttl c) now past db db0 \<and> entry_from db0 entry"
proof -
  have "counts_sound (insert (now, db) past) c' \<and> cache_ttl c' = cache_ttl c \<and> ((\<exists>err. res = Fail err) \<or>
    (\<exists>entry db0. res = map_sum id (Pair entry) (table_page entry since page limit offset h db) \<and>
       recent (cache_ttl c) now past db db0 \<and> entry_from db0 entry))" (is "?S \<and> ?T \<and> (?F \<or> ?R)")
  proof (cases "cache_get now () c")
    case (Some entry)
    then obtain t where t: "lookup (cache_entries c) () = Some (entry, t)" "now - t < cache_ttl c"
      by (auto simp: cache_get_def split: option.splits if_splits)
    with c obtain db0 where e: "(t, db0) \<in> past" "entry_from db0 entry" unfolding counts_sound_def by blast
    have r: "c = c'" "map_sum id (Pair entry) (table_page entry since page limit offset h db) = res"
      using b Some by (simp_all add: buildNodeTableData_def)
    have "recent (cache_ttl c) now past db db0" using e(1) t(2) unfolding recent_def by blast
    then have ?R using e(2) r(2) by blast
    then show ?thesis using counts_sound_mono [OF c subset_insertI] r(1) by simp
  next
    case None
    show ?thesis
    proof (cases "whole_population now db")
      case (Inl err)
      then have "c = c'" "Fail err = res" using b None by (simp_all add: buildNodeTableData_def)
      then show ?thesis using counts_sound_mono [OF c subset_insertI] by (simp, blast)
    next
      case (Inr entry)
      have r: "cache_set now () entry c = c'" "map_sum id (Pair entry) (table_page entry since page limit offset h db) = res"
        using b None Inr by (simp_all add: buildNodeTableData_def)
      have "recent (cache_ttl c) now past db db" by (simp add: recent_def)
      then have ?R using whole_population_entry [OF Inr] r(2) by blast
      moreover have "cache_ttl c' = cache_ttl c" by (simp add: r(1) [symmetric] cache_set_def)
      ultimately show ?thesis using counts_sound_set [OF whole_population_entry [OF Inr], of now past c] r(1) by simp
    qed
  qed
  note k = this
  from k show "counts_sound (insert (now, db) past) c'" "cache_ttl c' = cache_ttl c" by simp_all
  show "\<exists>entry db0. table_page entry since page limit offset h db = Ok (rows, p) \<and>
       recent (cache_ttl c) now past db db0 \<and> entry_from db0 entry" if "res = Ok (e', rows, p)"
    using k that by (auto dest: sym [THEN map_sum_Ok])
qed

text \<open>A sequence of requests for the two tables, which share the cache.\<close>

type_synonym table_response = "dashboardData response + networkData response"

definition serve_table :: "bool \<Rightarrow> query \<Rightarrow> time \<Rightarrow> DB \<Rightarrow> dashboardCountsCache \<Rightarrow> dashboardCountsCache \<times> table_response" where
  "serve_table full q now db c =
     (if full then map_prod id Inr (handleFullNetwork q now db c) else map_prod id Inl (handleDashboard q now db c))"

fun serve_tables :: "(bool \<times> query \<times> time \<times> DB) list \<Rightarrow> dashboardCountsCache \<Rightarrow> table_response list" where
  "serve_tables [] c = []"
| "serve_tables ((full, q, now, db) # rs) c = (case serve_table full q now db c of (c', resp) \<Rightarrow> resp # serve_tables rs c')"

fun shown_rows :: "table_response \<Rightarrow> dashboardNodeRow list" where
  "shown_rows (Inl (Response st d)) = dd_Nodes d"
| "shown_rows (Inr (Response st d)) = nw_Nodes d"
| "shown_rows _ = []"

lemma or_500_Response:
  "or_500 x f = Response st d \<Longrightarrow> \<exists>y. x = Ok y \<and> f y = Response st d"
  by (cases x) (simp_all add: or_500_def)

lemma serve_table_step:
  assumes "counts_sound past c" "serve_table full q now db c = (c', resp)"
  shows "counts_sound (insert (now, db) past) c' \<and> cache_ttl c' = cache_ttl c \<and>
    (\<forall>r\<in>set (shown_rows resp). \<exists>db0. recent (cache_ttl c) now past db db0 \<and> row_ok db0 db r)"
proof -
  obtain page limit offset where p: "parseNodeTablePageParams q = (page, limit, offset)" by (metis surj_pair)
  define since where "since = (if full then None else Some (now - dashboardReachableWindow))"
  define h where "h = (if full then networkRowHistoryLimit else dashboardRowHistoryLimit)"
  obtain c2 res where b: "buildNodeTableData since page limit offset h now db c = (c2, res)" by fastforce
  note s = table_step [OF assms(1) b]
  have c2: "c' = c2" using assms(2) b p unfolding since_def h_def
    by (auto simp: serve_table_def handleFullNetwork_def handleDashboard_def split: if_splits sum.splits prod.splits)
  have "\<exists>e p. res = Ok (e, shown_rows resp, p)" if "shown_rows resp \<noteq> []"
    using that assms(2) b p unfolding since_def h_def
    by (auto simp: serve_table_def handleFullNetwork_def handleDashboard_def or_500_def split: if_splits sum.splits prod.splits)
  then have "\<exists>db0. recent (cache_ttl c) now past db db0 \<and> row_ok db0 db r" if "r \<in> set (shown_rows resp)" for r
    using that s(3) table_page_ok by fastforce
  then show ?thesis using s(1,2) c2 by simp
qed

lemma recent_mono: "recent ttl now past db db0 \<Longrightarrow> past \<subseteq> past' \<Longrightarrow> recent ttl now past' db db0"
  unfolding recent_def by blast

definition table_request :: "bool \<times> query \<times> time \<times> DB \<Rightarrow> time \<times> DB" where
  "table_request = (\<lambda>(full, q, now, db). (now, db))"

lemma serve_tables_sound:
  "counts_sound past c \<Longrightarrow> i < length rs \<Longrightarrow> rs ! i = (full, q, now, db) \<Longrightarrow> r \<in> set (shown_rows (serve_tables rs c ! i)) \<Longrightarrow>
   \<exists>db0. recent (cache_ttl c) now (past \<union> table_request ` set (take i rs)) db db0 \<and> row_ok db0 db r"
proof (induction rs arbitrary: past c i)
  case (Cons x rs)
  obtain full1 q1 now1 db1 where x: "x = (full1, q1, now1, db1)" by (metis surj_pair)
  obtain c' resp where t: "serve_table full1 q1 now1 db1 c = (c', resp)" by fastforce
  note s = serve_table_step [OF Cons.prems(1) t]
  show ?case
  proof (cases i)
    case 0
    then show ?thesis using Cons.prems(3,4) x t s by auto
  next
    case (Suc j)
    have "r \<in> set (shown_rows (serve_tables rs c' ! j))" "rs ! j = (full, q, now, db)" "j < length rs"
      using Cons.prems(2-4) x t Suc by simp_all
    from Cons.IH [OF conjunct1 [OF s] this(3,2,1)] s show ?thesis
      using Suc x by (simp add: table_request_def)
  qed
qed simp

text \<open>
  C20: what the cache of the node tables can leak.  Whatever requests for the dashboard and the
  full network came before, every row of an answer is a node of the database of this moment; it
  carries addresses only if the node is opted in at this moment, and then the address of its row
  and addresses the node had at this moment or when a request less than the lifetime of an entry
  ago filled the cache: an address list is never shown under another node, and consent is never
  read from the cache.
\<close>

theorem tables_consented:
  assumes "i < length rs" "rs ! i = (full, q, now, db)"
    "r \<in> set (shown_rows (serve_tables rs \<lparr>cache_ttl = ttl, cache_entries = []\<rparr> ! i))"
  shows "row_Node r \<in> set (db_nodes db) \<and> (row_PublicAddresses r = [] \<or> opted_in (row_Node r) \<and>
    (\<exists>(_, _, t, db0)\<in>set (take (Suc i) rs). ((t, db0) = (now, db) \<or> now - t < ttl) \<and>
       set (row_PublicAddresses r) \<subseteq> insert (n_Address (row_Node r)) {a. (n_ID (row_Node r), a) \<in> address_keys db0}))"
proof -
  have "counts_sound {} \<lparr>cache_ttl = ttl, cache_entries = []\<rparr>" by (simp add: counts_sound_def)
  from serve_tables_sound [OF this assms]
  obtain db0 where d: "recent ttl now (table_request ` set (take i rs)) db db0" "row_ok db0 db r" by auto
  obtain f q' t where y: "(f, q', t, db0) \<in> set (take (Suc i) rs)" "(t, db0) = (now, db) \<or> now - t < ttl"
    using d(1) assms(1,2) unfolding recent_def by (force simp: take_Suc_conv_app_nth table_request_def)
  then show ?thesis using d(2) unfolding row_ok_def by (auto intro: bexI [OF _ y(1)])
qed

section \<open>Addresses on the other pages\<close>

lemma display_handed_out:
  "pg_GetNode i db = Ok n \<Longrightarrow> pg_ListNodeAddresses i db = Ok addrs \<Longrightarrow>
   handed_out db i (sv_PublicAddresses (scrubForDisplay n addrs))"
  using scrub_handed_out [of n db addrs] by (auto simp: scrubForDisplay_def ScrubNode_eq dest!: GetNode_Ok split del: if_split)

lemma top_peered_handed_out:
  "top_peered_rows db nds = Ok rows \<Longrightarrow> \<forall>r\<in>set rows. handed_out db (tp_ID r) (tp_PublicAddresses r)"
proof (induction nds arbitrary: rows)
  case (Cons nd nds)
  then show ?case
    by (auto simp: Let_def display_handed_out split: sum.splits if_splits)
qed simp

text \<open>The endpoint a wallet row shows: a host of the node's own addresses, with the approved port.\<close>

definition wallet_endpoint :: "DB \<Rightarrow> walletNodeRow \<Rightarrow> bool" where
  "wallet_endpoint db r \<longleftrightarrow> (\<exists>n\<in>set (db_nodes db). n_ID n = wr_NodeID r \<and> opted_in n \<and>
     (\<exists>port a host p. n_WalletHTTPPort n = Some port \<and> (a = n_Address n \<or> (n_ID n, a) \<in> address_keys db) \<and>
        SplitHostPort a = Inr (host, p) \<and> host \<noteq> [] \<and> wr_Address r = JoinHostPort host (Itoa port)))"

lemma wallet_row_endpoint:
  assumes "n \<in> set (db_nodes db)" "wallet_row now db n = Ok (Some r)"
  shows "wallet_endpoint db r"
proof -
  obtain addrs where a: "pg_ListNodeAddresses (n_ID n) db = Ok addrs"
    using assms(2) by (auto simp: wallet_row_def split: sum.splits)
  obtain port addr host p as where w: "pn_WalletHTTPPort (ScrubNode n addrs) = Some port" "pn_Addresses (ScrubNode n addrs) = addr # as"
    "SplitHostPort addr = Inr (host, p)" "host \<noteq> []" "wr_NodeID r = n_ID n" "wr_Address r = JoinHostPort host (Itoa port)"
    using assms(2) a by (auto simp: wallet_row_def Let_def split: sum.splits option.splits list.splits prod.splits if_splits)
  have "opted_in n" "n_WalletHTTPPort n = Some port" using w(1) by (simp_all add: ScrubNode_eq split: if_splits)
  moreover have "addr = n_Address n \<or> (n_ID n, addr) \<in> address_keys db"
  proof -
    have "addr \<in> set (addressStrings n addrs)" using w(2) \<open>opted_in n\<close> by (simp add: ScrubNode_eq)
    then show ?thesis using a own_address by (auto simp: addressStrings_def pg_ListNodeAddresses_def split: if_splits)
  qed
  ultimately have "n_ID n = wr_NodeID r \<and> opted_in n \<and> n_WalletHTTPPort n = Some port \<and>
    (addr = n_Address n \<or> (n_ID n, addr) \<in> address_keys db) \<and> SplitHostPort addr = Inr (host, p) \<and> host \<noteq> [] \<and>
    wr_Address r = JoinHostPort host (Itoa port)" using w(3-6) by simp
  then show ?thesis unfolding wallet_endpoint_def by (intro bexI [OF _ assms(1)]) blast
qed

lemma wallet_rows_endpoint:
  "set ns \<subseteq> set (db_nodes db) \<Longrightarrow> wallet_rows now db ns = Ok rows \<Longrightarrow> \<forall>r\<in>set rows. wallet_endpoint db r"
proof (induction ns arbitrary: rows)
  case (Cons n ns)
  then show ?case using wallet_row_endpoint [of n db now] by (fastforce split: sum.splits option.splits)
qed simp

lemma wallet_page_endpoints:
  assumes r: "handleWalletNodes enabled now db = Response st w"
  shows "(\<forall>r\<in>set (wd_Nodes w). wallet_endpoint db r) \<and> (\<not> enabled \<longrightarrow> wd_Nodes w = [])"
proof (cases enabled)
  case True
  then obtain nodes where n: "pg_ListNodes (emptyFilter\<lparr>nf_HasWalletHTTPPort := Some True\<rparr>) db = Ok nodes"
    "wallet_rows now db nodes = Ok (wd_Nodes w)"
    using r by (auto simp: handleWalletNodes_def dest!: or_500_Response)
  have "set nodes \<subseteq> set (db_nodes db)" using ListNodes_subset [OF n(1)] by blast
  from wallet_rows_endpoint [OF this n(2)] True show ?thesis by simp
next
  case False
  then have "wd_Nodes w = []" using r by (auto simp: handleWalletNodes_def)
  then show ?thesis by simp
qed


section \<open>Paging\<close>

lemma wrap64_small: "0 \<le> x \<Longrightarrow> x < 2 ^ 63 \<Longrightarrow> wrap64 x = x"
  unfolding wrap64_def by (simp add: signed_of_int signed_take_bit_int_eq_self)

lemma table_rows_nodes: "table_rows am h db ns = Ok rows \<Longrightarrow> map row_Node rows = ns"
  by (induction ns arbitrary: rows) (auto simp: Let_def split: sum.splits)

lemma params_range:
  assumes "parseNodeTablePageParams q = (page, limit, offset)"
  shows "1 \<le> page" "1 \<le> limit" "limit \<le> 200" "offset = wrap64 ((page - 1) * limit)"
  using assms by (auto simp: parseNodeTablePageParams_def page_param_def Let_def dashboardNodePageSize_def dashboardNodeMaxPageSize_def
      split: option.splits if_splits)

text \<open>The nodes of the dashboard: those reachable within the window, in the order of the listing.\<close>

definition dashboard_nodes :: "time \<Rightarrow> DB \<Rightarrow> Node list" where
  "dashboard_nodes now db = sort_by_address (pg_matching (emptyFilter\<lparr>nf_ReachableSince := Some (now - dashboardReachableWindow)\<rparr>) db)"

lemma pg_matching_page: "pg_matching (f\<lparr>nf_Limit := l, nf_Offset := o'\<rparr>) db = pg_matching f db"
  unfolding pg_matching_def by (rule filter_cong) (simp_all add: selected_def nodeFilterClauses_def)

lemma list_dashboard:
  "pg_ListNodes (emptyFilter\<lparr>nf_ReachableSince := Some (now - dashboardReachableWindow)\<rparr>) db = Ok (dashboard_nodes now db)"
  by (simp add: pg_ListNodes_def dashboard_nodes_def Let_def) (simp add: emptyFilter_def)

lemma list_dashboard_page:
  "0 < limit \<Longrightarrow> 0 \<le> offset \<Longrightarrow>
   pg_ListNodes (emptyFilter\<lparr>nf_ReachableSince := Some (now - dashboardReachableWindow), nf_Limit := limit, nf_Offset := offset\<rparr>) db =
      Ok (take (nat limit) (drop (nat offset) (dashboard_nodes now db)))"
  by (simp add: pg_ListNodes_def dashboard_nodes_def pg_matching_page Let_def)

lemma dashboard_table_page:
  assumes "table_page entry (Some (now - dashboardReachableWindow)) page limit offset h db = Ok (rows, p)" "0 < limit" "0 \<le> offset"
  shows "map row_Node rows = take (nat limit) (drop (nat offset) (dashboard_nodes now db)) \<and>
    pg_Total p = length (dashboard_nodes now db) \<and>
    pg_HasNextPage p = (wrap64 (offset + int (length rows)) < int (length (dashboard_nodes now db))) \<and>
    (rows \<noteq> [] \<longrightarrow> pg_RangeStart p = wrap64 (offset + 1) \<and> pg_RangeEnd p = wrap64 (offset + int (length rows)))"
proof -
  define ns where "ns = take (nat limit) (drop (nat offset) (dashboard_nodes now db))"
  note t = assms(1) [unfolded table_page_def list_dashboard_page [OF assms(2,3)] list_dashboard ns_def [symmetric]]
  have rows: "table_rows (ce_AddrsByNode entry) h db ns = Ok rows"
    using t by (simp split: sum.splits)
  note m = table_rows_nodes [OF rows]
  have l: "length ns = length rows" using arg_cong [OF m, of length] by simp
  have "pg_Total p = length (dashboard_nodes now db) \<and>
    pg_HasNextPage p = (wrap64 (offset + int (length ns)) < int (length (dashboard_nodes now db))) \<and>
    (length ns > 0 \<longrightarrow> pg_RangeStart p = wrap64 (offset + 1) \<and> pg_RangeEnd p = wrap64 (offset + int (length ns)))"
    using t rows by auto
  with m show ?thesis unfolding l ns_def [symmetric] by simp
qed

lemma build_page:
  assumes "buildNodeTableData since page limit offset h now db c = (c', Ok (e, rows, p))"
  shows "\<exists>entry. table_page entry since page limit offset h db = Ok (rows, p)"
  using assms by (auto simp: buildNodeTableData_def split: option.splits sum.splits prod.splits dest: map_sum_Ok)


section \<open>Examples\<close>

text \<open>The queries behind a table never fail on the modelled database, so a table is always shown.\<close>

lemma whole_population_total: "\<exists>entry. whole_population now db = Ok entry"
proof -
  obtain ns where n: "pg_ListNodes emptyFilter db = Ok ns" using ListNodes_total by blast
  obtain am where "pg_ListNodeAddressesForNodes (map n_ID ns) db = Ok am" using batch_total by blast
  then have "\<exists>x. computeWholePopulationCounts now db = Ok x" using n by (simp add: computeWholePopulationCounts_def pg_CountNodes_def)
  moreover have "\<exists>x. NetworkHeight now db = Ok x" by (simp add: NetworkHeight_def Let_def split: list.splits)
  ultimately show ?thesis by (auto simp: whole_population_def split: prod.splits)
qed

lemma table_rows_total: "\<exists>rows. table_rows am h db ns = Ok rows"
  by (induction ns) (auto simp: pg_GetNodeHistory_def Let_def)

lemma table_page_total: "\<exists>rows p. table_page entry since page limit offset h db = Ok (rows, p)"
proof -
  obtain ns where n: "pg_ListNodes (emptyFilter\<lparr>nf_ReachableSince := since, nf_Limit := limit, nf_Offset := offset\<rparr>) db = Ok ns"
    using ListNodes_total by blast
  obtain rows where "table_rows (ce_AddrsByNode entry) h db ns = Ok rows" using table_rows_total by blast
  moreover obtain all where "pg_ListNodes (emptyFilter\<lparr>nf_ReachableSince := since\<rparr>) db = Ok all" using ListNodes_total by blast
  ultimately show ?thesis using n by (simp add: table_page_def)
qed

lemma build_total: "\<exists>c' e rows p. buildNodeTableData since page limit offset h now db c = (c', Ok (e, rows, p))"
proof (cases "cache_get now () c")
  case None
  obtain entry where "whole_population now db = Ok entry" using whole_population_total by blast
  then show ?thesis using None table_page_total [of entry since page limit offset h db] by (auto simp: buildNodeTableData_def)
next
  case (Some entry)
  then show ?thesis using table_page_total [of entry since page limit offset h db] by (auto simp: buildNodeTableData_def)
qed

text \<open>A registered node with a wallet port and one successful check.\<close>

definition example_web :: DB where
  "example_web = \<lparr>db_nodes = [\<lparr>n_ID = 1, n_Address = ''8.8.8.8:18189'', n_PublicKey = [7], n_DiscoverySource = DiscoverySourceRegistry,
       n_Tags = [], n_Label = None, n_FirstSeen = 1, n_LastSeen = 2, n_WalletHTTPPort = Some 9\<rparr>],
     db_node_addresses = [example_address 11 1 ''8.8.8.8:18189''],
     db_node_health = [\<lparr>hc_ID = 31, hc_NodeID = 1, hc_Timestamp = 5, hc_Reachable = True, hc_ProbeSource = ProbeSourceWalletHTTP,
       hc_Height = Some 3, hc_ChainTipHeight = None, hc_Version = None, hc_LatencyMS = None, hc_RxtHashrate = None,
       hc_C29Hashrate = None, hc_Sha3xHashrate = None, hc_PeerIdentityUpdatedAt = None,
       hr_ReportedByCollector = None, hr_ReportBatchID = None\<rparr>],
     db_peer_edges = [], db_pending_submissions = [], db_pending_wallet_submissions = [], db_geoip_cache = [],
     db_random = (\<lambda>k. of_nat (k + 100)), db_draws = 0\<rparr>"

lemma example_params: "parseNodeTablePageParams (\<lambda>_. []) = (1, 50, 0)"
  by (simp add: parseNodeTablePageParams_def page_param_def Atoi_def Let_def dashboardNodePageSize_def dashboardNodeMaxPageSize_def wrap64_def)

lemma example_dashboard_nodes: "dashboard_nodes 6 example_web = db_nodes example_web"
  by (simp add: dashboard_nodes_def pg_matching_def selected_def nodeFilterClauses_def emptyFilter_def sql_and_def
      dashboardReachableWindow_def example_web_def sort_by_address_def Hour_def Minute_def Second_def)

lemma example_dashboard:
  "\<exists>c' d. handleDashboard (\<lambda>_. []) 6 example_web c = (c', Response StatusOK d) \<and> map row_Node (dd_Nodes d) = db_nodes example_web"
proof -
  obtain c' e rows p where b: "buildNodeTableData (Some (6 - dashboardReachableWindow)) 1 50 0 dashboardRowHistoryLimit 6 example_web c = (c', Ok (e, rows, p))"
    using build_total by blast
  from build_page [OF b] obtain entry where
    "table_page entry (Some (6 - dashboardReachableWindow)) 1 50 0 dashboardRowHistoryLimit example_web = Ok (rows, p)" by blast
  from dashboard_table_page [OF this] have "map row_Node rows = take 50 (db_nodes example_web)" by (simp add: example_dashboard_nodes)
  moreover have "take 50 (db_nodes example_web) = db_nodes example_web" by (simp add: example_web_def)
  moreover have "TopPeeredNodes (6 - topPeeredWindow) topPeeredLimit example_web = Ok []"
    by (simp add: TopPeeredNodes_def example_web_def undirected_def Let_def)
  ultimately show ?thesis using b by (simp add: handleDashboard_def example_params or_500_def)
qed


theorem tables_consented_witness:
  "\<exists>r. r \<in> set (shown_rows (serve_tables [(False, \<lambda>_. [], 6, example_web)] \<lparr>cache_ttl = 8, cache_entries = []\<rparr> ! 0)) \<and>
     (row_PublicAddresses r = [] \<or> opted_in (row_Node r) \<and>
        set (row_PublicAddresses r) \<subseteq> insert (n_Address (row_Node r)) {a. (n_ID (row_Node r), a) \<in> address_keys example_web})"
proof -
  let ?c = "\<lparr>cache_ttl = 8, cache_entries = []\<rparr> :: dashboardCountsCache"
  obtain c' d where d: "handleDashboard (\<lambda>_. []) 6 example_web ?c = (c', Response StatusOK d)" "map row_Node (dd_Nodes d) = db_nodes example_web"
    using example_dashboard by blast
  then have "dd_Nodes d \<noteq> []" by (auto simp: example_web_def)
  then have "hd (dd_Nodes d) \<in> set (dd_Nodes d)" by (rule hd_in_set)
  then obtain r where "r \<in> set (dd_Nodes d)" by blast
  then have r: "r \<in> set (shown_rows (serve_tables [(False, \<lambda>_. [], 6, example_web)] ?c ! 0))"
    using d(1) by (simp add: serve_table_def)
  then show ?thesis using tables_consented [OF _ _ r] by auto
qed

lemma example_split: "SplitHostPort ''8.8.8.8:18189'' = Inr (''8.8.8.8'', ''18189'')"
  by code_simp

lemma example_wallet_list: "pg_ListNodes (emptyFilter\<lparr>nf_HasWalletHTTPPort := Some True\<rparr>) example_web = Ok (db_nodes example_web)"
  by (simp add: pg_ListNodes_def pg_matching_def selected_def nodeFilterClauses_def emptyFilter_def sql_and_def example_web_def
      sort_by_address_def Let_def)

lemma example_wallet_row: "\<exists>r. wallet_rows 6 example_web (db_nodes example_web) = Ok [r]"
proof -
  have "\<exists>x. pg_GetLatestHealthCheck 1 ProbeSourceWalletHTTP example_web = Ok x"
    by (simp add: pg_GetLatestHealthCheck_def split: list.splits)
  moreover have "\<exists>u k. WalletHTTPUptime 6 1 walletHTTPUptimeWindow example_web = Ok (u, k)"
    by (simp add: WalletHTTPUptime_def Let_def)
  ultimately show ?thesis
    by (auto simp: example_web_def wallet_row_def pg_ListNodeAddresses_def ScrubNode_eq opted_in_def addressStrings_def
        example_address_def example_split Let_def split: if_splits)
qed


text \<open>The offset is computed without a check, and a huge page number wraps it around: this query is page 1.\<close>

lemma page_wraps:
  "page_param q ''page'' 1 = 4611686018427387905 \<Longrightarrow> page_param q ''limit'' dashboardNodePageSize = 4 \<Longrightarrow>
   parseNodeTablePageParams q = (4611686018427387905, 4, 0)"
  by (simp add: parseNodeTablePageParams_def Let_def dashboardNodeMaxPageSize_def wrap64_def signed_of_int signed_take_bit_def)

end
